(* ===== verification/Prelude.thy ===== *)
theory Prelude
  imports Main "HOL-Library.Word" "HOL-Library.List_Lexorder" "HOL-Library.Char_ord"
begin

text \<open>
  Shared vocabulary of the development: the fixed-width C types, C strings with
  \<open>strcmp\<close>, the character classes of \<open>ctype.h\<close>, decimal printing and reading, and the
  generic facts on lists the components use. A C string is modelled by the list of its
  characters before the terminating NUL; reading the character at the terminator is the
  empty list, so \<open>*s == '\0'\<close> is \<open>s = []\<close>.
\<close>

unbundle bit_operations_syntax

named_theorems strcmp_simps "comparison of C strings, as the linear order of the library"
named_theorems word_load "machine loads written over single bytes"

type_synonym u8 = "8 word"
type_synonym u16 = "16 word"
type_synonym u32 = "32 word"
type_synonym u64 = "64 word"

subsection \<open>C strings\<close>

text \<open>
  \<open>strcmp\<close> compares the characters as \<open>unsigned char\<close>; the terminating NUL is smaller than
  every character. Only the sign of the result is specified by C, so \<open>-1\<close>, \<open>0\<close> and \<open>1\<close>
  stand for it.
\<close>

fun strcmp :: "string \<Rightarrow> string \<Rightarrow> int" where
  "strcmp [] [] = 0"
| "strcmp [] (d # t) = -1"
| "strcmp (c # s) [] = 1"
| "strcmp (c # s) (d # t) =
     (if (of_char c :: nat) < of_char d then -1
      else if (of_char d :: nat) < of_char c then 1
      else strcmp s t)"

lemma strcmp_refl [simp]: "strcmp s s = 0"
  by (induction s) auto

lemma strcmp_eq_0 [strcmp_simps, simp]: "strcmp s t = 0 \<longleftrightarrow> s = t"
  by (induction s t rule: strcmp.induct) auto

lemma strcmp_less_0 [strcmp_simps]: "strcmp s t < 0 \<longleftrightarrow> s < t"
  by (induction s t rule: strcmp.induct) (auto simp: less_char_def)

lemma strcmp_greater_0 [strcmp_simps]: "0 < strcmp s t \<longleftrightarrow> t < s"
  by (induction s t rule: strcmp.induct) (auto simp: less_char_def)

lemma strcmp_ge_0 [strcmp_simps]: "0 \<le> strcmp s t \<longleftrightarrow> t \<le> s"
  by (metis linorder_not_less strcmp_less_0)

subsection \<open>Character classes\<close>

definition isspace :: "char \<Rightarrow> bool" where
  "isspace c \<longleftrightarrow> c \<in> {CHR '' '', CHR 0x09, CHR 0x0A, CHR 0x0B, CHR 0x0C, CHR 0x0D}"

definition isdigit :: "char \<Rightarrow> bool" where
  "isdigit c \<longleftrightarrow> CHR ''0'' \<le> c \<and> c \<le> CHR ''9''"

definition islower :: "char \<Rightarrow> bool" where
  "islower c \<longleftrightarrow> CHR ''a'' \<le> c \<and> c \<le> CHR ''z''"

definition isupper :: "char \<Rightarrow> bool" where
  "isupper c \<longleftrightarrow> CHR ''A'' \<le> c \<and> c \<le> CHR ''Z''"

definition isalpha :: "char \<Rightarrow> bool" where
  "isalpha c \<longleftrightarrow> islower c \<or> isupper c"

definition digit_val :: "char \<Rightarrow> nat" where
  "digit_val c = of_char c - 48"

definition digit_chr :: "nat \<Rightarrow> char" where
  "digit_chr d = char_of (48 + d)"

text \<open>Reading a run of decimal digits, and printing with \<open>%d\<close>.\<close>

definition dec_value :: "string \<Rightarrow> nat" where
  "dec_value s = foldl (\<lambda>n c. 10 * n + digit_val c) 0 s"

fun dec_str :: "nat \<Rightarrow> string" where
  "dec_str n = (if n < 10 then [digit_chr n] else dec_str (n div 10) @ [digit_chr (n mod 10)])"

declare dec_str.simps [simp del]

definition dec_str_int :: "int \<Rightarrow> string" where
  "dec_str_int i = (if i < 0 then CHR ''-'' # dec_str (nat (- i)) else dec_str (nat i))"

lemma of_char_digit_chr: "d < 10 \<Longrightarrow> (of_char (digit_chr d) :: nat) = 48 + d"
  by (simp add: digit_chr_def)

lemma digit_val_digit_chr [simp]: "d < 10 \<Longrightarrow> digit_val (digit_chr d) = d"
  by (simp add: digit_val_def of_char_digit_chr)

lemma isdigit_digit_chr [simp]: "d < 10 \<Longrightarrow> isdigit (digit_chr d)"
  by (simp add: isdigit_def less_eq_char_def of_char_digit_chr)

lemma dec_str_nonempty [simp]: "dec_str n \<noteq> []"
  by (subst dec_str.simps) simp

lemma dec_str_isdigit: "c \<in> set (dec_str n) \<Longrightarrow> isdigit c"
proof (induction n rule: dec_str.induct)
  case (1 n)
  then show ?case
    by (subst (asm) (2) dec_str.simps) (auto split: if_splits)
qed

lemma dec_value_snoc [simp]: "dec_value (s @ [c]) = 10 * dec_value s + digit_val c"
  by (simp add: dec_value_def)

lemma dec_value_dec_str [simp]: "dec_value (dec_str n) = n"
proof (induction n rule: dec_str.induct)
  case (1 n)
  then show ?case
    by (subst dec_str.simps) (auto simp: dec_value_def)
qed

lemma dec_str_inject [simp]: "dec_str m = dec_str n \<longleftrightarrow> m = n"
  by (metis dec_value_dec_str)

lemma dec_str_length: "n < 10 ^ Suc k \<Longrightarrow> length (dec_str n) \<le> Suc k"
proof (induction k arbitrary: n)
  case 0
  then show ?case by (subst dec_str.simps) simp
next
  case (Suc k)
  have "n div 10 < 10 ^ Suc k" using Suc.prems by simp
  from Suc.IH [OF this] show ?case by (subst dec_str.simps) simp
qed

subsection \<open>Lists\<close>

text \<open>
  The first element of a linked list that satisfies the test of a search loop, or the
  \<open>NULL\<close> at its end.
\<close>

fun find_first :: "('a \<Rightarrow> bool) \<Rightarrow> 'a list \<Rightarrow> 'a option" where
  "find_first p [] = None"
| "find_first p (x # xs) = (if p x then Some x else find_first p xs)"

lemma find_first_None [simp]: "find_first p xs = None \<longleftrightarrow> (\<forall>x \<in> set xs. \<not> p x)"
  by (induction xs) auto

lemma find_first_SomeD: "find_first p xs = Some x \<Longrightarrow> x \<in> set xs \<and> p x"
  by (induction xs) (auto split: if_splits)

lemma find_first_append:
  "find_first p (xs @ ys) =
     (case find_first p xs of Some x \<Rightarrow> Some x | None \<Rightarrow> find_first p ys)"
  by (induction xs) auto

lemma find_first_filter: "find_first p xs = (case filter p xs of [] \<Rightarrow> None | x # _ \<Rightarrow> Some x)"
  by (induction xs) auto

text \<open>Insertion after every element that is not greater: stable insertion into a sorted list.\<close>

fun insert_after :: "('e \<Rightarrow> 'o::linorder) \<Rightarrow> 'e \<Rightarrow> 'e list \<Rightarrow> 'e list" where
  "insert_after k x [] = [x]"
| "insert_after k x (y # ys) = (if k x < k y then x # y # ys else y # insert_after k x ys)"

lemma set_insert_after [simp]: "set (insert_after k x xs) = insert x (set xs)"
  by (induction xs) auto

lemma length_insert_after [simp]: "length (insert_after k x xs) = Suc (length xs)"
  by (induction xs) auto

lemma sorted_insert_after:
  "sorted (map k xs) \<Longrightarrow> sorted (map k (insert_after k x xs))"
  by (induction xs) auto

text \<open>The elements with one key keep the order of their insertion.\<close>

lemma filter_insert_after_same:
  "sorted (map k xs) \<Longrightarrow>
   filter (\<lambda>y. k y = k x) (insert_after k x xs) = filter (\<lambda>y. k y = k x) xs @ [x]"
proof (induction xs)
  case (Cons y ys)
  have "filter (\<lambda>z. k z = k x) ys = []" if "k x < k y"
    using that Cons.prems by (fastforce simp: filter_empty_conv)
  with Cons show ?case by auto
qed simp

lemma filter_insert_after_other:
  "v \<noteq> k x \<Longrightarrow> filter (\<lambda>y. k y = v) (insert_after k x xs) = filter (\<lambda>y. k y = v) xs"
  by (induction xs) auto

text \<open>Searching after such an insertion.\<close>

lemma find_first_insert_other: "\<not> p x \<Longrightarrow> find_first p (insert_after k x xs) = find_first p xs"
  by (induction xs) auto

lemma find_first_insert_new:
  "p x \<Longrightarrow> \<forall>y \<in> set xs. \<not> p y \<Longrightarrow> find_first p (insert_after k x xs) = Some x"
  by (induction xs) auto

lemma find_first_insert_keep:
  "sorted (map k xs) \<Longrightarrow> find_first p xs = Some y \<Longrightarrow> k y \<le> k x \<Longrightarrow>
   find_first p (insert_after k x xs) = Some y"
proof (induction xs)
  case (Cons z zs)
  then have "y \<in> set (z # zs)" by (metis find_first_SomeD)
  with Cons.prems have "k z \<le> k y" by auto
  with Cons show ?case by (auto split: if_splits)
qed simp

text \<open>A search that stops early in a sorted list misses nothing.\<close>

fun find_until :: "('a \<Rightarrow> bool) \<Rightarrow> ('a \<Rightarrow> bool) \<Rightarrow> 'a list \<Rightarrow> 'a option" where
  "find_until p stop [] = None"
| "find_until p stop (x # xs) = (if p x then Some x else if stop x then None else find_until p stop xs)"

lemma find_until_find_first:
  assumes "sorted (map k xs)" "\<And>x y. k x \<le> k y \<Longrightarrow> stop x \<Longrightarrow> \<not> p y"
  shows "find_until p stop xs = find_first p xs"
  using assms(1)
proof (induction xs)
  case (Cons x xs)
  then have "find_first p xs = None" if "stop x" using assms(2) that by auto
  with Cons show ?case by (auto simp del: find_first_None)
qed simp

end
