(* ===== verification/BjHash.thy ===== *)
theory BjHash
  imports Prelude
begin

text \<open>
  The hash functions of \<open>archc/src/acpp/bj_hash.c\<close>. The key is memory seen from the key
  pointer: \<open>mem i\<close> is the byte at offset \<open>i\<close>, also past the end of the key, because the
  32-bit paths read whole words. \<open>addr\<close> is the pointer itself, which only selects the
  aligned, the 16-bit or the byte path. The loads of \<open>uint16_t\<close> and \<open>uint32_t\<close> are written
  out for both byte orders. Shown here: \<open>mix\<close> is reversible, \<open>hashlittle\<close> does not depend
  on the alignment of the key and reads nothing but the key, and \<open>hashword\<close> is
  \<open>hashlittle\<close> on whole words; none of the first two holds for \<open>hashbig\<close>.
\<close>

subsection \<open>Mixing\<close>

definition hashsize :: "nat \<Rightarrow> u32" where
  "hashsize n = push_bit n 1"

definition hashmask :: "nat \<Rightarrow> u32" where
  "hashmask n = hashsize n - 1"

definition rot :: "u32 \<Rightarrow> nat \<Rightarrow> u32" where
  "rot x k = push_bit k x XOR drop_bit (32 - k) x"

type_synonym abc = "u32 \<times> u32 \<times> u32"

text \<open>
  One line of the macro \<open>mix\<close>, \<open>x -= z; x ^= rot(z, k); z += y;\<close>. The six lines play it
  with the three registers rotated.
\<close>

definition mix_line :: "nat \<Rightarrow> abc \<Rightarrow> abc" where
  "mix_line k = (\<lambda>(x, y, z).
     let x = x - z; x = x XOR rot z k; z = z + y in (x, y, z))"

definition mix :: "abc \<Rightarrow> abc" where
  "mix = (\<lambda>(a, b, c).
    let (a, b, c) = mix_line 4 (a, b, c);
        (b, c, a) = mix_line 6 (b, c, a);
        (c, a, b) = mix_line 8 (c, a, b);
        (a, b, c) = mix_line 16 (a, b, c);
        (b, c, a) = mix_line 19 (b, c, a);
        (c, a, b) = mix_line 4 (c, a, b)
    in (a, b, c))"

definition final :: "abc \<Rightarrow> abc" where
  "final = (\<lambda>(a, b, c).
    let c = c XOR b; c = c - rot b 14;
        a = a XOR c; a = a - rot c 11;
        b = b XOR a; b = b - rot a 25;
        c = c XOR b; c = c - rot b 16;
        a = a XOR c; a = a - rot c 4;
        b = b XOR a; b = b - rot a 14;
        c = c XOR b; c = c - rot b 24
    in (a, b, c))"

definition abc_c :: "abc \<Rightarrow> u32" where
  "abc_c s = snd (snd s)"

subsection \<open>Byte order of the host and loads\<close>

datatype host = Little_Endian | Big_Endian

text \<open>The \<open>endian\<close> union: the \<open>int\<close> whose bytes, by increasing address, are the list.\<close>

definition int_of_bytes :: "host \<Rightarrow> u8 list \<Rightarrow> int" where
  "int_of_bytes h bs = sint (word_rcat (case h of Little_Endian \<Rightarrow> rev bs | Big_Endian \<Rightarrow> bs) :: u32)"

text \<open>\<open>testchar.i == testint.i\<close>, with \<open>testint.i = 255\<close> and only the last byte of \<open>testchar\<close> set.\<close>

definition endian_test :: "host \<Rightarrow> bool" where
  "endian_test h \<longleftrightarrow> int_of_bytes h [0, 0, 0, 255] = 255"

type_synonym mem = "nat \<Rightarrow> u8"

definition byte32 :: "u8 \<Rightarrow> u32" where
  "byte32 b = ucast b"

definition ld16 :: "mem \<Rightarrow> nat \<Rightarrow> u16" where
  "ld16 m i = ucast (m i) + push_bit 8 (ucast (m (i + 1)))"

definition ld32 :: "mem \<Rightarrow> nat \<Rightarrow> u32" where
  "ld32 m i = byte32 (m i) + push_bit 8 (byte32 (m (i + 1)))
     + push_bit 16 (byte32 (m (i + 2))) + push_bit 24 (byte32 (m (i + 3)))"

definition ld32_big :: "mem \<Rightarrow> nat \<Rightarrow> u32" where
  "ld32_big m i = push_bit 24 (byte32 (m i)) + push_bit 16 (byte32 (m (i + 1)))
     + push_bit 8 (byte32 (m (i + 2))) + byte32 (m (i + 3))"

subsection \<open>hashword\<close>

fun hashword_loop :: "(nat \<Rightarrow> u32) \<Rightarrow> nat \<Rightarrow> nat \<Rightarrow> abc \<Rightarrow> nat \<times> nat \<times> abc" where
  "hashword_loop k p n (a, b, c) =
     (if 3 < n then hashword_loop k (p + 3) (n - 3) (mix (a + k p, b + k (p + 1), c + k (p + 2)))
      else (p, n, (a, b, c)))"

declare hashword_loop.simps [simp del]

definition hashword_tail :: "(nat \<Rightarrow> u32) \<Rightarrow> nat \<times> nat \<times> abc \<Rightarrow> u32" where
  "hashword_tail k = (\<lambda>(p, n, (a, b, c)).
     let c = (if n = 3 then c + k (p + 2) else c);
         b = (if n = 3 \<or> n = 2 then b + k (p + 1) else b);
         a = (if n = 3 \<or> n = 2 \<or> n = 1 then a + k p else a)
     in if n = 0 then c else abc_c (final (a, b, c)))"

definition hashword :: "(nat \<Rightarrow> u32) \<Rightarrow> nat \<Rightarrow> u32 \<Rightarrow> u32" where
  "hashword k n initval =
     (let s = 0xdeadbeef + push_bit 2 (of_nat n) + initval
      in hashword_tail k (hashword_loop k 0 n (s, s, s)))"

subsection \<open>hashlittle\<close>

text \<open>The loop and the last block of the path that reads aligned 32-bit words.\<close>

fun hl_loop32 :: "mem \<Rightarrow> nat \<Rightarrow> nat \<Rightarrow> abc \<Rightarrow> nat \<times> nat \<times> abc" where
  "hl_loop32 m p n (a, b, c) =
     (if 12 < n then hl_loop32 m (p + 12) (n - 12)
        (mix (a + ld32 m p, b + ld32 m (p + 4), c + ld32 m (p + 8)))
      else (p, n, (a, b, c)))"

definition hl_last32 :: "mem \<Rightarrow> nat \<Rightarrow> nat \<Rightarrow> abc \<Rightarrow> abc" where
  "hl_last32 m p n = (\<lambda>(a, b, c).
     let k0 = ld32 m p; k1 = ld32 m (p + 4); k2 = ld32 m (p + 8) in
     if n = 12 then (a + k0, b + k1, c + k2)
     else if n = 11 then (a + k0, b + k1, c + (k2 AND 0xffffff))
     else if n = 10 then (a + k0, b + k1, c + (k2 AND 0xffff))
     else if n = 9 then (a + k0, b + k1, c + (k2 AND 0xff))
     else if n = 8 then (a + k0, b + k1, c)
     else if n = 7 then (a + k0, b + (k1 AND 0xffffff), c)
     else if n = 6 then (a + k0, b + (k1 AND 0xffff), c)
     else if n = 5 then (a + k0, b + (k1 AND 0xff), c)
     else if n = 4 then (a + k0, b, c)
     else if n = 3 then (a + (k0 AND 0xffffff), b, c)
     else if n = 2 then (a + (k0 AND 0xffff), b, c)
     else if n = 1 then (a + (k0 AND 0xff), b, c)
     else (a, b, c))"

text \<open>The path that reads 16-bit words; \<open>k[i]\<close> is the half word at byte offset \<open>2 * i\<close>.\<close>

fun hl_loop16 :: "mem \<Rightarrow> nat \<Rightarrow> nat \<Rightarrow> abc \<Rightarrow> nat \<times> nat \<times> abc" where
  "hl_loop16 m p n (a, b, c) =
     (if 12 < n then hl_loop16 m (p + 12) (n - 12)
        (mix (a + (ucast (ld16 m p) + push_bit 16 (ucast (ld16 m (p + 2)))),
              b + (ucast (ld16 m (p + 4)) + push_bit 16 (ucast (ld16 m (p + 6)))),
              c + (ucast (ld16 m (p + 8)) + push_bit 16 (ucast (ld16 m (p + 10))))))
      else (p, n, (a, b, c)))"

definition hl_last16 :: "mem \<Rightarrow> nat \<Rightarrow> nat \<Rightarrow> abc \<Rightarrow> abc" where
  "hl_last16 m p n = (\<lambda>(a, b, c).
     let k = (\<lambda>i. ld16 m (p + 2 * i));
         w = (\<lambda>i. ucast (k i) + push_bit 16 (ucast (k (i + 1))) :: u32) in
     if n = 12 then (a + w 0, b + w 2, c + w 4)
     else if n = 11 then (a + w 0, b + w 2, c + push_bit 16 (ucast (k 5 AND 0xff)) + ucast (k 4))
     else if n = 10 then (a + w 0, b + w 2, c + ucast (k 4))
     else if n = 9 then (a + w 0, b + w 2, c + ucast (k 4 AND 0xff))
     else if n = 8 then (a + w 0, b + w 2, c)
     else if n = 7 then (a + w 0, b + push_bit 16 (ucast (k 3 AND 0xff)) + ucast (k 2), c)
     else if n = 6 then (a + w 0, b + ucast (k 2), c)
     else if n = 5 then (a + w 0, b + ucast (k 2 AND 0xff), c)
     else if n = 4 then (a + w 0, b, c)
     else if n = 3 then (a + push_bit 16 (ucast (k 1 AND 0xff)) + ucast (k 0), b, c)
     else if n = 2 then (a + ucast (k 0), b, c)
     else if n = 1 then (a + ucast (k 0 AND 0xff), b, c)
     else (a, b, c))"

text \<open>
  The path that reads bytes. Every case of its last \<open>switch\<close> falls through, so case \<open>i\<close>
  is executed when \<open>i \<le> n\<close>.
\<close>

fun hl_loop8 :: "mem \<Rightarrow> nat \<Rightarrow> nat \<Rightarrow> abc \<Rightarrow> nat \<times> nat \<times> abc" where
  "hl_loop8 m p n (a, b, c) =
     (if 12 < n then hl_loop8 m (p + 12) (n - 12)
        (let k = (\<lambda>i. byte32 (m (p + i)));
             a = a + k 0; a = a + push_bit 8 (k 1); a = a + push_bit 16 (k 2); a = a + push_bit 24 (k 3);
             b = b + k 4; b = b + push_bit 8 (k 5); b = b + push_bit 16 (k 6); b = b + push_bit 24 (k 7);
             c = c + k 8; c = c + push_bit 8 (k 9); c = c + push_bit 16 (k 10); c = c + push_bit 24 (k 11)
         in mix (a, b, c))
      else (p, n, (a, b, c)))"

declare hl_loop32.simps [simp del] hl_loop16.simps [simp del] hl_loop8.simps [simp del]

definition hl_last8 :: "mem \<Rightarrow> nat \<Rightarrow> nat \<Rightarrow> abc \<Rightarrow> abc" where
  "hl_last8 m p n = (\<lambda>(a, b, c).
     let k = (\<lambda>i. byte32 (m (p + i)));
         c = (if 12 \<le> n then c + push_bit 24 (k 11) else c);
         c = (if 11 \<le> n then c + push_bit 16 (k 10) else c);
         c = (if 10 \<le> n then c + push_bit 8 (k 9) else c);
         c = (if 9 \<le> n then c + k 8 else c);
         b = (if 8 \<le> n then b + push_bit 24 (k 7) else b);
         b = (if 7 \<le> n then b + push_bit 16 (k 6) else b);
         b = (if 6 \<le> n then b + push_bit 8 (k 5) else b);
         b = (if 5 \<le> n then b + k 4 else b);
         a = (if 4 \<le> n then a + push_bit 24 (k 3) else a);
         a = (if 3 \<le> n then a + push_bit 16 (k 2) else a);
         a = (if 2 \<le> n then a + push_bit 8 (k 1) else a);
         a = (if 1 \<le> n then a + k 0 else a)
     in (a, b, c))"

text \<open>\<open>case 0: return c\<close> skips the final mixing.\<close>

definition hash_end :: "(nat \<Rightarrow> nat \<Rightarrow> abc \<Rightarrow> abc) \<Rightarrow> nat \<times> nat \<times> abc \<Rightarrow> u32" where
  "hash_end blk = (\<lambda>(p, n, s). if n = 0 then abc_c s else abc_c (final (blk p n s)))"

definition hash_init :: "nat \<Rightarrow> u32 \<Rightarrow> abc" where
  "hash_init n initval = (let s = 0xdeadbeef + of_nat n + initval in (s, s, s))"

definition hashlittle :: "host \<Rightarrow> nat \<Rightarrow> mem \<Rightarrow> nat \<Rightarrow> u32 \<Rightarrow> u32" where
  "hashlittle h addr m n initval =
     (let hash_little_endian = \<not> endian_test h; s = hash_init n initval in
      if hash_little_endian \<and> addr mod 4 = 0 then hash_end (hl_last32 m) (hl_loop32 m 0 n s)
      else if hash_little_endian \<and> addr mod 2 = 0 then hash_end (hl_last16 m) (hl_loop16 m 0 n s)
      else hash_end (hl_last8 m) (hl_loop8 m 0 n s))"

subsection \<open>hashbig and bj_hash\<close>

fun hb_loop32 :: "mem \<Rightarrow> nat \<Rightarrow> nat \<Rightarrow> abc \<Rightarrow> nat \<times> nat \<times> abc" where
  "hb_loop32 m p n (a, b, c) =
     (if 12 < n then hb_loop32 m (p + 12) (n - 12)
        (mix (a + ld32_big m p, b + ld32_big m (p + 4), c + ld32_big m (p + 8)))
      else (p, n, (a, b, c)))"

definition hb_last32 :: "mem \<Rightarrow> nat \<Rightarrow> nat \<Rightarrow> abc \<Rightarrow> abc" where
  "hb_last32 m p n = (\<lambda>(a, b, c).
     let k0 = ld32_big m p; k1 = ld32_big m (p + 4); k2 = ld32_big m (p + 8) in
     if n = 12 then (a + k0, b + k1, c + k2)
     else if n = 11 then (a + k0, b + k1, c + push_bit 8 k2)
     else if n = 10 then (a + k0, b + k1, c + push_bit 16 k2)
     else if n = 9 then (a + k0, b + k1, c + push_bit 24 k2)
     else if n = 8 then (a + k0, b + k1, c)
     else if n = 7 then (a + k0, b + push_bit 8 k1, c)
     else if n = 6 then (a + k0, b + push_bit 16 k1, c)
     else if n = 5 then (a + k0, b + push_bit 24 k1, c)
     else if n = 4 then (a + k0, b, c)
     else if n = 3 then (a + push_bit 8 k0, b, c)
     else if n = 2 then (a + push_bit 16 k0, b, c)
     else if n = 1 then (a + push_bit 24 k0, b, c)
     else (a, b, c))"

fun hb_loop8 :: "mem \<Rightarrow> nat \<Rightarrow> nat \<Rightarrow> abc \<Rightarrow> nat \<times> nat \<times> abc" where
  "hb_loop8 m p n (a, b, c) =
     (if 12 < n then hb_loop8 m (p + 12) (n - 12)
        (let k = (\<lambda>i. byte32 (m (p + i)));
             a = a + push_bit 24 (k 0); a = a + push_bit 16 (k 1); a = a + push_bit 8 (k 2); a = a + k 3;
             b = b + push_bit 24 (k 4); b = b + push_bit 16 (k 5); b = b + push_bit 8 (k 6); b = b + k 7;
             c = c + push_bit 24 (k 8); c = c + push_bit 16 (k 9); c = c + push_bit 8 (k 10); c = c + k 11
         in mix (a, b, c))
      else (p, n, (a, b, c)))"

declare hb_loop32.simps [simp del] hb_loop8.simps [simp del]

text \<open>The last block of the byte path is the one of \<open>hashlittle\<close>, text for text.\<close>

definition hb_last8 :: "mem \<Rightarrow> nat \<Rightarrow> nat \<Rightarrow> abc \<Rightarrow> abc" where
  "hb_last8 m p n = (\<lambda>(a, b, c).
     let k = (\<lambda>i. byte32 (m (p + i)));
         c = (if 12 \<le> n then c + push_bit 24 (k 11) else c);
         c = (if 11 \<le> n then c + push_bit 16 (k 10) else c);
         c = (if 10 \<le> n then c + push_bit 8 (k 9) else c);
         c = (if 9 \<le> n then c + k 8 else c);
         b = (if 8 \<le> n then b + push_bit 24 (k 7) else b);
         b = (if 7 \<le> n then b + push_bit 16 (k 6) else b);
         b = (if 6 \<le> n then b + push_bit 8 (k 5) else b);
         b = (if 5 \<le> n then b + k 4 else b);
         a = (if 4 \<le> n then a + push_bit 24 (k 3) else a);
         a = (if 3 \<le> n then a + push_bit 16 (k 2) else a);
         a = (if 2 \<le> n then a + push_bit 8 (k 1) else a);
         a = (if 1 \<le> n then a + k 0 else a)
     in (a, b, c))"

definition hashbig :: "host \<Rightarrow> nat \<Rightarrow> mem \<Rightarrow> nat \<Rightarrow> u32 \<Rightarrow> u32" where
  "hashbig h addr m n initval =
     (let hash_big_endian = endian_test h; s = hash_init n initval in
      if hash_big_endian \<and> addr mod 4 = 0 then hash_end (hb_last32 m) (hb_loop32 m 0 n s)
      else hash_end (hb_last8 m) (hb_loop8 m 0 n s))"

definition bj_hash :: "host \<Rightarrow> nat \<Rightarrow> mem \<Rightarrow> nat \<Rightarrow> u32 \<Rightarrow> u32" where
  "bj_hash h addr m n initval =
     (if endian_test h then hashbig h addr m n initval else hashlittle h addr m n initval)"

subsection \<open>Reversibility of the mixing step\<close>

text \<open>The lines of \<open>mix\<close> undone in the opposite order.\<close>

definition unmix_line :: "nat \<Rightarrow> abc \<Rightarrow> abc" where
  "unmix_line k = (\<lambda>(x, y, z).
     let z = z - y; x = x XOR rot z k; x = x + z in (x, y, z))"

definition unmix :: "abc \<Rightarrow> abc" where
  "unmix = (\<lambda>(a, b, c).
    let (c, a, b) = unmix_line 4 (c, a, b);
        (b, c, a) = unmix_line 19 (b, c, a);
        (a, b, c) = unmix_line 16 (a, b, c);
        (c, a, b) = unmix_line 8 (c, a, b);
        (b, c, a) = unmix_line 6 (b, c, a);
        (a, b, c) = unmix_line 4 (a, b, c)
    in (a, b, c))"

lemma xor_cancel_right: "(x XOR y) XOR y = (x :: 'a::len word)"
  by (simp add: xor.assoc)

lemma unmix_mix_line: "unmix_line k (mix_line k s) = s"
  by (cases s) (simp add: mix_line_def unmix_line_def Let_def xor_cancel_right)

lemma mix_unmix_line: "mix_line k (unmix_line k s) = s"
  by (cases s) (simp add: mix_line_def unmix_line_def Let_def xor_cancel_right)

lemma mix_line_eq_iff: "mix_line k s = t \<longleftrightarrow> unmix_line k t = s"
  using unmix_mix_line mix_unmix_line by metis

lemma unmix_mix: "unmix (mix s) = s"
  by (cases s) (simp add: mix_def unmix_def mix_line_eq_iff split: prod.split)

lemma mix_unmix: "mix (unmix s) = s"
proof -
  have "inj mix" by (metis injI unmix_mix)
  then have "surj mix" by (simp add: finite_UNIV_inj_surj)
  then obtain t where "s = mix t" by blast
  then show ?thesis by (simp add: unmix_mix)
qed

subsection \<open>The byte order test\<close>

lemma endian_test_iff [simp]: "endian_test h \<longleftrightarrow> h = Big_Endian"
proof (cases h)
  case Little_Endian
  have "sint (word_rcat [255, 0, 0, 0 :: u8] :: u32) \<noteq> 255" by code_simp
  with Little_Endian show ?thesis by (simp add: endian_test_def int_of_bytes_def)
next
  case Big_Endian
  have "sint (word_rcat [0, 0, 0, 255 :: u8] :: u32) = 255" by code_simp
  with Big_Endian show ?thesis by (simp add: endian_test_def int_of_bytes_def)
qed

subsection \<open>Loads as sums of bytes\<close>

lemma uint_byte32 [simp]: "uint (byte32 b) = uint b"
  by (simp add: byte32_def uint_up_ucast is_up)

lemma byte_less: "uint (b :: u8) < 256"
  using uint_lt2p [of b] by simp

lemma uint_push_byte:
  assumes "n \<le> 24"
  shows "uint (push_bit n (byte32 b)) = 2 ^ n * uint b"
proof -
  have "(2::int) ^ n \<le> 2 ^ 24" using assms by (intro power_increasing) auto
  then have "2 ^ n * uint b < 2 ^ 24 * (256 :: int)"
    by (intro mult_le_less_imp_less) (auto simp: byte_less)
  then show ?thesis
    by (simp only: unsigned_push_bit_eq) (simp add: push_bit_eq_mult take_bit_eq_mod mult.commute)
qed

lemma uint_add_nowrap:
  "uint (x :: u32) + uint y < 2 ^ 32 \<Longrightarrow> uint (x + y) = uint x + uint y"
  by (simp add: uint_word_ariths)

lemma uint_bytes2: "uint (byte32 a + push_bit 8 (byte32 b)) = uint a + 256 * uint b"
  using byte_less [of a] byte_less [of b] uint_push_byte [of 8 b]
  by (subst uint_add_nowrap) auto

lemma uint_bytes3:
  "uint (byte32 a + push_bit 8 (byte32 b) + push_bit 16 (byte32 c))
     = uint a + 256 * uint b + 65536 * uint c"
  using byte_less [of a] byte_less [of b] byte_less [of c] uint_push_byte [of 16 c]
  by (subst uint_add_nowrap) (auto simp: uint_bytes2)

lemma uint_bytes4:
  "uint (byte32 a + push_bit 8 (byte32 b) + push_bit 16 (byte32 c) + push_bit 24 (byte32 d))
     = uint a + 256 * uint b + 65536 * uint c + 16777216 * uint d"
  using byte_less [of a] byte_less [of b] byte_less [of c] byte_less [of d]
    uint_push_byte [of 24 d]
  by (subst uint_add_nowrap) (auto simp: uint_bytes3)

lemma uint_ld16: "uint (ld16 m i) = uint (m i) + 256 * uint (m (i + 1))"
proof -
  let ?a = "m i" and ?b = "m (i + 1)"
  have a: "uint (ucast ?a :: u16) = uint ?a"
    by (simp add: uint_up_ucast is_up)
  have b: "uint (push_bit 8 (ucast ?b :: u16)) = 256 * uint ?b"
    using byte_less [of ?b]
    by (simp only: unsigned_push_bit_eq)
      (simp add: push_bit_eq_mult take_bit_eq_mod uint_up_ucast is_up mult.commute)
  show ?thesis
    using byte_less [of ?a] byte_less [of ?b]
    unfolding ld16_def uint_word_ariths a b by (simp add: mod_pos_pos_trivial)
qed

lemma and_mask_mod: "uint (x AND mask n :: 'a::len word) = uint x mod 2 ^ n"
  by (metis take_bit_eq_mask take_bit_eq_mod unsigned_take_bit_eq)

lemma mask_consts:
  "(0xff :: 'a::len word) = mask 8" "(0xffff :: 'a::len word) = mask 16"
  "(0xffffff :: 'a::len word) = mask 24"
  by (simp_all add: mask_eq_exp_minus_1)

lemma mod_byte_sums:
  assumes "0 \<le> a" "a < 256" "0 \<le> b" "b < 256" "0 \<le> c" "c < (256::int)"
  shows "(a + 256 * b + 65536 * c + 16777216 * d) mod 256 = a"
    and "(a + 256 * b + 65536 * c + 16777216 * d) mod 65536 = a + 256 * b"
    and "(a + 256 * b + 65536 * c + 16777216 * d) mod 16777216 = a + 256 * b + 65536 * c"
    and "(a + 256 * b) mod 256 = a"
    and "(a + 256 * b + 65536 * c) mod 16777216 = a + 256 * b + 65536 * c"
    and "a mod 256 = a"
proof -
  have low: "(x + k * y) mod k = x" if "0 \<le> x" "x < k" for x y k :: int
    using that by simp
  show "(a + 256 * b + 65536 * c + 16777216 * d) mod 256 = a"
    using assms low [of a 256 "b + 256 * c + 65536 * d"] by (simp add: algebra_simps)
  show "(a + 256 * b + 65536 * c + 16777216 * d) mod 65536 = a + 256 * b"
    using assms low [of "a + 256 * b" 65536 "c + 256 * d"] by (simp add: algebra_simps)
  show "(a + 256 * b + 65536 * c + 16777216 * d) mod 16777216 = a + 256 * b + 65536 * c"
    using assms low [of "a + 256 * b + 65536 * c" 16777216 d] by (simp add: algebra_simps)
  show "(a + 256 * b) mod 256 = a"
    using assms low [of a 256 b] by simp
  show "(a + 256 * b + 65536 * c) mod 16777216 = a + 256 * b + 65536 * c" "a mod 256 = a"
    using assms by simp_all
qed

lemmas byte_mods = mod_byte_sums [OF unsigned_greater_eq byte_less unsigned_greater_eq byte_less
    unsigned_greater_eq byte_less]

lemma ld32_and_mask [word_load]:
  "ld32 m i AND 0xff = byte32 (m i)"
  "ld32 m i AND 0xffff = byte32 (m i) + push_bit 8 (byte32 (m (i + 1)))"
  "ld32 m i AND 0xffffff = byte32 (m i) + push_bit 8 (byte32 (m (i + 1)))
     + push_bit 16 (byte32 (m (i + 2)))"
  unfolding mask_consts word_uint_eq_iff and_mask_mod ld32_def uint_bytes4 uint_bytes3 uint_bytes2
  by (simp_all add: byte_mods)

lemma ucast_ld16 [word_load]:
  "(ucast (ld16 m i) :: u32) = byte32 (m i) + push_bit 8 (byte32 (m (i + 1)))"
  unfolding word_uint_eq_iff uint_bytes2 by (simp add: uint_up_ucast is_up uint_ld16)

lemma ucast_ld16_low [word_load]: "(ucast (ld16 m i AND 0xff) :: u32) = byte32 (m i)"
proof -
  have "uint (ld16 m i AND mask 8) = uint (m i)"
    unfolding and_mask_mod uint_ld16 by (simp add: byte_mods)
  then show ?thesis
    unfolding mask_consts word_uint_eq_iff by (simp add: uint_up_ucast is_up)
qed

lemma two_ld16: "(ucast (ld16 m i) :: u32) + push_bit 16 (ucast (ld16 m (i + 2))) = ld32 m i"
  by (simp add: word_load ld32_def push_bit_add numeral_eq_Suc)

lemma bytes_ld32:
  "x + byte32 (m i) + push_bit 8 (byte32 (m (i + 1))) + push_bit 16 (byte32 (m (i + 2)))
     + push_bit 24 (byte32 (m (i + 3))) = x + ld32 m i"
  by (simp add: ld32_def add.assoc)

subsection \<open>The three paths of hashlittle agree\<close>

lemma hl_loop16_eq: "hl_loop16 m p n s = hl_loop32 m p n s"
proof (induction m p n s rule: hl_loop16.induct)
  case (1 m p n a b c)
  have w: "(ucast (ld16 m q) :: u32) + push_bit 16 (ucast (ld16 m (q + 2))) = ld32 m q" for q
    by (rule two_ld16)
  have e: "p + 6 = p + 4 + 2" "p + 10 = p + 8 + 2" by simp_all
  show ?case
    using 1 unfolding hl_loop16.simps [of m p n a b c] hl_loop32.simps [of m p n a b c] e w
    by simp
qed

lemma hl_loop8_eq: "hl_loop8 m p n s = hl_loop32 m p n s"
proof (induction m p n s rule: hl_loop8.induct)
  case (1 m p n a b c)
  have e: "p + 5 = p + 4 + 1" "p + 6 = p + 4 + 2" "p + 7 = p + 4 + 3"
    "p + 9 = p + 8 + 1" "p + 10 = p + 8 + 2" "p + 11 = p + 8 + 3" by simp_all
  show ?case
    using 1 unfolding hl_loop8.simps [of m p n a b c] hl_loop32.simps [of m p n a b c] Let_def
      e bytes_ld32 add_0_right
    by simp
qed

lemma hl_loop32_length: "hl_loop32 m p n s = (p', n', s') \<Longrightarrow> n' \<le> 12"
  by (induction m p n s rule: hl_loop32.induct)
    (auto simp: hl_loop32.simps split: if_splits)

lemma le_12_cases: "n \<le> 12 \<Longrightarrow> n = 12 \<or> n = 8 \<or> n = 4 \<or> n = 0 \<or> n = 11 \<or> n = 7 \<or> n = 3 \<or> n = 10
    \<or> n = 6 \<or> n = 2 \<or> n = 9 \<or> n = 5 \<or> n = (1::nat)"
  by arith

lemma hl_last16_eq: "n \<le> 12 \<Longrightarrow> hl_last16 m p n s = hl_last32 m p n s"
  using two_ld16 [of m p] two_ld16 [of m "p + 4"] two_ld16 [of m "p + 8"]
  by (cases s) (drule le_12_cases, elim disjE;
    simp add: hl_last16_def hl_last32_def Let_def word_load add_ac)

lemma hl_last8_eq: "n \<le> 12 \<Longrightarrow> hl_last8 m p n s = hl_last32 m p n s"
  by (cases s) (drule le_12_cases, elim disjE;
    simp add: hl_last8_def hl_last32_def Let_def ld32_and_mask; (simp add: ld32_def add_ac)?)

lemma hash_end_cong:
  assumes "\<And>p n s. r = (p, n, s) \<Longrightarrow> f p n s = g p n s"
  shows "hash_end f r = hash_end g r"
  using assms by (cases r) (simp add: hash_end_def)

lemma hashlittle_eq_aligned:
  assumes "h = Little_Endian"
  shows "hashlittle h addr m n iv = hash_end (hl_last32 m) (hl_loop32 m 0 n (hash_init n iv))"
proof -
  let ?r = "hl_loop32 m 0 n (hash_init n iv)"
  have "hash_end (hl_last16 m) ?r = hash_end (hl_last32 m) ?r"
    "hash_end (hl_last8 m) ?r = hash_end (hl_last32 m) ?r"
    by (rule hash_end_cong, auto dest: hl_loop32_length simp: hl_last16_eq hl_last8_eq)+
  with assms show ?thesis
    by (simp add: hashlittle_def Let_def hl_loop16_eq hl_loop8_eq)
qed

lemma hashlittle_bytes:
  "hashlittle h addr m n iv = hash_end (hl_last8 m) (hl_loop8 m 0 n (hash_init n iv))"
proof (cases h)
  case Little_Endian
  have "hashlittle h 1 m n iv = hash_end (hl_last8 m) (hl_loop8 m 0 n (hash_init n iv))"
    by (simp add: hashlittle_def Let_def)
  with Little_Endian show ?thesis
    using hashlittle_eq_aligned [of h addr m n iv] hashlittle_eq_aligned [of h 1 m n iv] by simp
next
  case Big_Endian
  then show ?thesis by (simp add: hashlittle_def)
qed

subsection \<open>Only the key is read\<close>

definition agree :: "mem \<Rightarrow> mem \<Rightarrow> nat \<Rightarrow> nat \<Rightarrow> bool" where
  "agree m m' p n \<longleftrightarrow> (\<forall>i. p \<le> i \<and> i < p + n \<longrightarrow> m i = m' i)"

lemma agreeD: "agree m m' p n \<Longrightarrow> i < n \<Longrightarrow> m (p + i) = m' (p + i)"
  by (simp add: agree_def)

lemma hl_loop8_agree:
  "agree m m' p n \<Longrightarrow> hl_loop8 m p n s = hl_loop8 m' p n s"
proof (induction m p n s rule: hl_loop8.induct)
  case (1 m p n a b c)
  have rd: "m (p + i) = m' (p + i)" if "12 < n" "i < 12" for i
    using agreeD [OF 1(2), of i] that by simp
  have "agree m m' (p + 12) (n - 12)" if "12 < n"
    using 1(2) by (auto simp: agree_def)
  with 1(1) show ?case
    using rd rd [of 0] rd [of 1] rd [of 2]
    by (simp add: hl_loop8.simps [of m p n a b c] hl_loop8.simps [of m' p n a b c] Let_def)
qed

lemma hl_loop8_rest:
  "hl_loop8 m p n s = (p', n', s') \<Longrightarrow> p \<le> p' \<and> p' + n' = p + n"
proof (induction m p n s rule: hl_loop8.induct)
  case (1 m p n a b c)
  show ?case
  proof (cases "12 < n")
    case True
    with 1 show ?thesis
      by (force simp: hl_loop8.simps [of m p n a b c] Let_def)
  next
    case False
    with 1(2) show ?thesis by (simp add: hl_loop8.simps)
  qed
qed

lemma hl_last8_agree:
  assumes "agree m m' p n"
  shows "hl_last8 m p n s = hl_last8 m' p n s"
  using agreeD [OF assms] agreeD [OF assms, of 0] agreeD [OF assms, of 1] agreeD [OF assms, of 2]
  by (cases s) (simp add: hl_last8_def Let_def)

lemma hashlittle_agree:
  assumes "agree m m' 0 n"
  shows "hashlittle h addr m n iv = hashlittle h addr' m' n iv"
proof -
  have "hash_end (hl_last8 m) r = hash_end (hl_last8 m') r" if "r = hl_loop8 m 0 n s" for r s
  proof (rule hash_end_cong)
    fix p' n' s'
    assume "r = (p', n', s')"
    with that have "p' + n' = n" using hl_loop8_rest [of m 0 n s p' n' s'] by simp
    with assms have "agree m m' p' n'" by (simp add: agree_def)
    then show "hl_last8 m p' n' s' = hl_last8 m' p' n' s'" by (rule hl_last8_agree)
  qed
  then show ?thesis
    by (simp add: hashlittle_bytes hl_loop8_agree [OF assms])
qed

subsection \<open>hashword against hashlittle\<close>

lemma hashword_loop_bytes:
  "hl_loop32 m (4 * p) (4 * n) s =
     (case hashword_loop (\<lambda>i. ld32 m (4 * i)) p n s of (p', n', s') \<Rightarrow> (4 * p', 4 * n', s'))"
proof (induction "\<lambda>i. ld32 m (4 * i)" p n s rule: hashword_loop.induct)
  case (1 p n a b c)
  show ?case
  proof (cases "3 < n")
    case True
    have "4 * (p + 3) = 4 * p + 12" "4 * (n - 3) = 4 * n - 12" "4 * (p + 1) = 4 * p + 4"
      "4 * (p + 2) = 4 * p + 8" by simp_all
    with 1 [OF True] True show ?thesis
      by (simp only: hl_loop32.simps [of m "4 * p"] hashword_loop.simps [of _ p n]) simp
  next
    case False
    then show ?thesis
      by (simp add: hl_loop32.simps [of m "4 * p"] hashword_loop.simps [of _ p n])
  qed
qed

lemma hashword_loop_length: "hashword_loop k p n s = (p', n', s') \<Longrightarrow> n' \<le> 3"
  by (induction k p n s rule: hashword_loop.induct)
    (auto simp: hashword_loop.simps split: if_splits)

lemma hashword_tail_bytes:
  assumes "n \<le> 3"
  shows "hash_end (hl_last32 m) (4 * p, 4 * n, s) =
    hashword_tail (\<lambda>i. ld32 m (4 * i)) (p, n, s)"
proof -
  have "n = 3 \<or> n = 0 \<or> n = 2 \<or> n = 1" using assms by arith
  moreover have "4 * (p + 1) = 4 * p + 4" "4 * (p + 2) = 4 * p + 8" by simp_all
  ultimately show ?thesis
    by (cases s) (auto simp: hash_end_def hl_last32_def hashword_tail_def Let_def abc_c_def
        ac_simps)
qed

subsection \<open>Properties\<close>

text \<open>\<open>mix\<close> is reversible, as its documentation says: \<open>unmix\<close> recovers \<open>(a, b, c)\<close>
  from the mixed triple, and every triple is the mixture of exactly one.\<close>
theorem mix_reversible: "unmix (mix s) = s \<and> bij mix"
proof -
  have "bij mix" by (rule o_bij [of unmix]) (auto simp: unmix_mix mix_unmix)
  then show ?thesis by (simp add: unmix_mix)
qed

text \<open>C31: \<open>hashlittle\<close> is a function of the key bytes, the length and \<open>initval\<close> alone: on
  either host, two placements of the key give the same hash, whatever path their alignment
  selects and whatever lies behind the key (the 32-bit path reads past its end).\<close>
theorem hashlittle_key_only:
  assumes "\<And>i. i < n \<Longrightarrow> m i = m' i"
  shows "hashlittle h addr m n initval = hashlittle h addr' m' n initval"
  using assms by (intro hashlittle_agree) (simp add: agree_def)

theorem hashlittle_key_only_witness:
  "hashlittle Little_Endian 4 (\<lambda>i. if i < 5 then 7 else 0) 5 0
   = hashlittle Little_Endian 6 (\<lambda>i. if i < 5 then 7 else 255) 5 0"
  by (rule hashlittle_key_only) simp

text \<open>\<open>hashword\<close> on \<open>n\<close> words is \<open>hashlittle\<close> on their \<open>4 * n\<close> bytes, on a
  little-endian host, for every placement of the byte key.\<close>
theorem hashword_hashlittle:
  "hashword (\<lambda>i. ld32 m (4 * i)) n initval = hashlittle Little_Endian addr m (4 * n) initval"
proof -
  let ?s = "hash_init (4 * n) initval"
  obtain p' n' s' where r: "hashword_loop (\<lambda>i. ld32 m (4 * i)) 0 n ?s = (p', n', s')"
    by (cases "hashword_loop (\<lambda>i. ld32 m (4 * i)) 0 n ?s")
  then have "hl_loop32 m 0 (4 * n) ?s = (4 * p', 4 * n', s')"
    using hashword_loop_bytes [of m 0 n ?s] by simp
  then have "hashlittle Little_Endian addr m (4 * n) initval
      = hashword_tail (\<lambda>i. ld32 m (4 * i)) (p', n', s')"
    by (simp add: hashlittle_eq_aligned hashword_tail_bytes hashword_loop_length [OF r])
  moreover have "hash_init (4 * n) initval =
      (let s = 0xdeadbeef + push_bit 2 (of_nat n) + initval in (s, s, s))"
    by (simp add: hash_init_def push_bit_eq_mult mult.commute)
  ultimately show ?thesis
    using r by (simp add: hashword_def Let_def)
qed

lemma push_bit_beyond: "32 \<le> n \<Longrightarrow> push_bit n (w :: u32) = 0"
  by (rule bit_word_eqI) (simp add: bit_push_bit_iff)

lemma shifted_ld32_big: "push_bit 24 (ld32_big m i) = push_bit 24 (byte32 (m (i + 3)))"
  by (simp add: ld32_big_def push_bit_add push_bit_beyond)

text \<open>On a big-endian host the aligned path of \<open>hashbig\<close> shifts the word it loaded for
  the last block to the left, so that the hash of an aligned one-byte key does not depend on
  the key at all: it is a function of the byte at offset 3, behind the key.\<close>
theorem hashbig_one_byte_key_lost:
  assumes "m 3 = m' 3"
  shows "hashbig Big_Endian 0 m 1 initval = hashbig Big_Endian 0 m' 1 initval"
proof -
  have "push_bit 24 (ld32_big m 0) = push_bit 24 (ld32_big m' 0)"
    using assms shifted_ld32_big [of m 0] shifted_ld32_big [of m' 0] by simp
  then show ?thesis
    by (simp add: hashbig_def Let_def hash_init_def hb_loop32.simps hash_end_def hb_last32_def)
qed

theorem hashbig_one_byte_key_lost_witness:
  "hashbig Big_Endian 0 (\<lambda>i. if i = 0 then 65 else 0) 1 0
   = hashbig Big_Endian 0 (\<lambda>i. if i = 0 then 66 else 0) 1 0"
  by (rule hashbig_one_byte_key_lost) simp

end
