(* ===== verification/SymbolTable.thy ===== *)
theory SymbolTable
  imports BjHash
begin

text \<open>
  The symbol table of \<open>archc/src/acpp/core_actions.c\<close>: \<open>1 << ST_IDX_SIZE\<close> chained buckets
  indexed by \<open>bj_hash\<close> of the name. A caller passes the name by pointer, so an operation takes
  the placement of the name in memory (its address, and what lies behind the string) next to
  its characters. The locale \<open>symbol_store\<close> is the interface the parser relies on: a table
  of first declarations in which the placement of a name does not matter. It is interpreted
  on the hash table of a little-endian host, where \<open>hashlittle_agree\<close> gives the
  independence of the placement.
\<close>

definition ST_IDX_SIZE :: nat where
  "ST_IDX_SIZE = 9"

datatype ac_parser_type = INSTR | INSTR_FMT | REG_FMT | INSTR_GRP | GEN_ID

text \<open>\<open>info\<close> is a \<open>void*\<close>; \<open>'i\<close> is the type of the pointers stored.\<close>

record 'i symbol_table_entry =
  entry_name :: string
  entry_type :: ac_parser_type
  entry_info :: 'i

text \<open>Where a string lies: its address and the memory behind its last character.\<close>

record place =
  place_addr :: nat
  place_behind :: mem

definition str_mem :: "place \<Rightarrow> string \<Rightarrow> mem" where
  "str_mem pl s i = (if i < length s then of_char (s ! i) else place_behind pl i)"

type_synonym 'i symbol_table = "'i symbol_table_entry list list"

definition empty_symbol_table :: "'i symbol_table" where
  "empty_symbol_table = replicate (2 ^ ST_IDX_SIZE) []"

definition symbol_idx :: "host \<Rightarrow> place \<Rightarrow> string \<Rightarrow> nat" where
  "symbol_idx h pl name =
     unat (bj_hash h (place_addr pl) (str_mem pl name) (length name) 0 AND (push_bit ST_IDX_SIZE 1 - 1))"

text \<open>The class asked for is a parameter of \<open>find_symbol\<close> that its body does not use.\<close>

definition find_symbol ::
  "host \<Rightarrow> place \<Rightarrow> 'i symbol_table \<Rightarrow> string \<Rightarrow> ac_parser_type \<Rightarrow> 'i symbol_table_entry option" where
  "find_symbol h pl tab name t =
     find_first (\<lambda>p. strcmp (entry_name p) name = 0) (tab ! symbol_idx h pl name)"

definition add_symbol ::
  "host \<Rightarrow> place \<Rightarrow> 'i symbol_table \<Rightarrow> string \<Rightarrow> ac_parser_type \<Rightarrow> 'i \<Rightarrow> bool \<times> 'i symbol_table" where
  "add_symbol h pl tab name t info =
     (if find_symbol h pl tab name t \<noteq> None then (False, tab)
      else let idx = symbol_idx h pl name;
               p = \<lparr>entry_name = name, entry_type = t, entry_info = info\<rparr>
           in (True, tab[idx := tab ! idx @ [p]]))"

subsection \<open>The interface\<close>

text \<open>
  \<open>lookup p s n\<close> finds the entry of the name \<open>n\<close> placed at \<open>p\<close>; \<open>declare_sym p s n e\<close>
  declares it and says whether the name was new.
\<close>

locale symbol_store =
  fixes empty :: 's
    and lookup :: "'p \<Rightarrow> 's \<Rightarrow> 'n \<Rightarrow> 'e option"
    and declare_sym :: "'p \<Rightarrow> 's \<Rightarrow> 'n \<Rightarrow> 'e \<Rightarrow> bool \<times> 's"
    and invar :: "'s \<Rightarrow> bool"
  assumes invar_empty: "invar empty"
    and lookup_empty: "lookup p empty n = None"
    and declare_known: "invar s \<Longrightarrow> lookup q s n = Some e' \<Longrightarrow> declare_sym p s n e = (False, s)"
    and declare_new: "invar s \<Longrightarrow> lookup q s n = None \<Longrightarrow> fst (declare_sym p s n e)"
    and lookup_declare_new: "invar s \<Longrightarrow> lookup q s n = None \<Longrightarrow>
      lookup r (snd (declare_sym p s n e)) m = (if m = n then Some e else lookup r s m)"
    and invar_declare: "invar s \<Longrightarrow> invar (snd (declare_sym p s n e))"
begin

text \<open>A sequence of declarations, each with the placement of its name, and their verdicts.\<close>

fun declare_all :: "'s \<Rightarrow> ('p \<times> 'n \<times> 'e) list \<Rightarrow> bool list \<times> 's" where
  "declare_all s [] = ([], s)"
| "declare_all s ((p, n, e) # ds) =
     (let r = declare_sym p s n e; rs = declare_all (snd r) ds in (fst r # fst rs, snd rs))"

lemma lookup_declare:
  assumes "invar s"
  shows "lookup r (snd (declare_sym p s n e)) m =
    (case lookup r s m of Some e' \<Rightarrow> Some e' | None \<Rightarrow> if m = n then Some e else None)"
proof (cases "lookup r s n")
  case None
  with assms show ?thesis
    by (auto simp: lookup_declare_new split: option.split)
next
  case (Some e')
  with assms have "declare_sym p s n e = (False, s)" by (rule declare_known)
  with Some show ?thesis by (auto split: option.split)
qed

lemma declare_verdict:
  "invar s \<Longrightarrow> fst (declare_sym p s n e) \<longleftrightarrow> lookup q s n = None"
  by (metis declare_known declare_new fst_conv not_None_eq)

lemma invar_declare_all: "invar s \<Longrightarrow> invar (snd (declare_all s ds))"
  by (induction ds arbitrary: s) (auto simp: Let_def invar_declare)

text \<open>What was declared first under a name is what every later lookup finds.\<close>

lemma lookup_declare_all:
  "invar s \<Longrightarrow> lookup r (snd (declare_all s ds)) m =
    (case lookup r s m of Some e \<Rightarrow> Some e
     | None \<Rightarrow> map_option (\<lambda>(p, n, e). e) (find_first (\<lambda>(p, n, e). n = m) ds))"
proof (induction ds arbitrary: s)
  case Nil
  then show ?case by (simp split: option.split)
next
  case (Cons d ds)
  obtain p n e where d: "d = (p, n, e)" by (cases d)
  have "invar (snd (declare_sym p s n e))" using Cons.prems by (rule invar_declare)
  from Cons.IH [OF this] show ?case
    using lookup_declare [OF Cons.prems, of r p n e m]
    by (auto simp: d Let_def split: option.splits)
qed

lemma lookup_place: "invar s \<Longrightarrow> lookup q s n = None \<Longrightarrow> lookup r s n = None"
  by (metis declare_known declare_new fst_conv option.exhaust)

end

subsection \<open>The hash table implements the interface on a little-endian host\<close>

lemma symbol_idx_less: "symbol_idx h pl name < 2 ^ ST_IDX_SIZE"
proof -
  let ?w = "bj_hash h (place_addr pl) (str_mem pl name) (length name) 0"
  have "push_bit 9 1 - 1 = (mask 9 :: u32)"
    by (simp add: mask_eq_exp_minus_1 push_bit_eq_mult)
  then have "unat (?w AND (push_bit 9 1 - 1)) = unat ?w mod 2 ^ 9"
    by (metis take_bit_eq_mask take_bit_eq_mod unsigned_take_bit_eq)
  then show ?thesis
    by (simp add: symbol_idx_def ST_IDX_SIZE_def)
qed

lemma symbol_idx_place:
  "symbol_idx Little_Endian pl name = symbol_idx Little_Endian pl' name"
proof -
  have "agree (str_mem pl name) (str_mem pl' name) 0 (length name)"
    by (simp add: agree_def str_mem_def)
  then have "hashlittle Little_Endian (place_addr pl) (str_mem pl name) (length name) 0
      = hashlittle Little_Endian (place_addr pl') (str_mem pl' name) (length name) 0"
    by (rule hashlittle_agree)
  then show ?thesis
    by (simp add: symbol_idx_def bj_hash_def)
qed

definition table_ok :: "'i symbol_table \<Rightarrow> bool" where
  "table_ok tab \<longleftrightarrow> length tab = 2 ^ ST_IDX_SIZE"

lemma table_ok_idx: "table_ok tab \<Longrightarrow> symbol_idx h pl name < length tab"
  using symbol_idx_less by (simp add: table_ok_def)

lemma find_symbol_place:
  "find_symbol Little_Endian pl tab name t = find_symbol Little_Endian pl' tab name t'"
  by (simp add: find_symbol_def symbol_idx_place [of pl name pl'])

lemma find_symbol_add:
  assumes "table_ok tab" "find_symbol Little_Endian pl tab name t = None"
  shows "find_symbol Little_Endian pl' (snd (add_symbol Little_Endian pl tab name t info)) name' t' =
    (if name' = name then Some \<lparr>entry_name = name, entry_type = t, entry_info = info\<rparr>
     else find_symbol Little_Endian pl' tab name' t')"
proof -
  let ?i = "symbol_idx Little_Endian pl name" and ?j = "symbol_idx Little_Endian pl' name'"
  let ?p = "\<lparr>entry_name = name, entry_type = t, entry_info = info\<rparr>"
  have new: "snd (add_symbol Little_Endian pl tab name t info) = tab[?i := tab ! ?i @ [?p]]"
    using assms(2) by (simp add: add_symbol_def Let_def)
  have none: "find_first (\<lambda>p. strcmp (entry_name p) name = 0) (tab ! ?i) = None"
    using assms(2) unfolding find_symbol_def .
  have i: "?i < length tab" using assms(1) by (rule table_ok_idx)
  show ?thesis
  proof (cases "?j = ?i")
    case True
    show ?thesis
    proof (cases "name' = name")
      case True
      then show ?thesis
        using none i unfolding new find_symbol_def \<open>?j = ?i\<close>
        by (simp add: find_first_append del: find_first_None)
    next
      case False
      then show ?thesis
        using i unfolding new find_symbol_def \<open>?j = ?i\<close>
        by (simp add: find_first_append del: find_first_None split: option.split)
    qed
  next
    case False
    then have "name' \<noteq> name" using symbol_idx_place by blast
    with False show ?thesis unfolding new find_symbol_def by simp
  qed
qed

definition sym_lookup :: "place \<Rightarrow> 'i symbol_table \<Rightarrow> string \<Rightarrow> (ac_parser_type \<times> 'i) option" where
  "sym_lookup pl tab name =
     map_option (\<lambda>p. (entry_type p, entry_info p)) (find_symbol Little_Endian pl tab name GEN_ID)"

definition sym_declare ::
  "place \<Rightarrow> 'i symbol_table \<Rightarrow> string \<Rightarrow> ac_parser_type \<times> 'i \<Rightarrow> bool \<times> 'i symbol_table" where
  "sym_declare pl tab name = (\<lambda>(t, info). add_symbol Little_Endian pl tab name t info)"

lemma sym_lookup_None: "sym_lookup pl tab name = None \<longleftrightarrow> find_symbol Little_Endian pl' tab name t = None"
  by (simp add: sym_lookup_def find_symbol_place [of pl tab name GEN_ID pl' t])

lemma add_symbol_known:
  "find_symbol h pl tab name t \<noteq> None \<Longrightarrow> add_symbol h pl tab name t info = (False, tab)"
  by (auto simp: add_symbol_def)

lemma add_symbol_new:
  "find_symbol h pl tab name t = None \<Longrightarrow> fst (add_symbol h pl tab name t info)"
  by (simp add: add_symbol_def Let_def)

lemma table_ok_add: "table_ok tab \<Longrightarrow> table_ok (snd (add_symbol h pl tab name t info))"
  by (simp add: add_symbol_def Let_def table_ok_def)

interpretation hash_symbols: symbol_store empty_symbol_table sym_lookup sym_declare table_ok
proof unfold_locales
  show "table_ok empty_symbol_table" by (simp add: table_ok_def empty_symbol_table_def)
next
  fix pl :: place and n
  show "sym_lookup pl empty_symbol_table n = None"
    using symbol_idx_less [of Little_Endian pl n]
    by (simp add: sym_lookup_def find_symbol_def empty_symbol_table_def)
next
  fix s :: "'i symbol_table" and q p :: place and n and e e' :: "ac_parser_type \<times> 'i"
  assume "sym_lookup q s n = Some e'"
  then have "find_symbol Little_Endian p s n (fst e) \<noteq> None"
    using sym_lookup_None [of q s n p "fst e"] by auto
  then show "sym_declare p s n e = (False, s)"
    by (simp add: sym_declare_def split_beta add_symbol_known)
next
  fix s :: "'i symbol_table" and q p :: place and n and e :: "ac_parser_type \<times> 'i"
  assume "sym_lookup q s n = None"
  then have "find_symbol Little_Endian p s n (fst e) = None"
    using sym_lookup_None [of q s n p "fst e"] by simp
  then show "fst (sym_declare p s n e)"
    by (simp add: sym_declare_def split_beta add_symbol_new)
next
  fix s :: "'i symbol_table" and q p r :: place and n m and e :: "ac_parser_type \<times> 'i"
  assume ok: "table_ok s" and new: "sym_lookup q s n = None"
  have "find_symbol Little_Endian p s n (fst e) = None"
    using new sym_lookup_None [of q s n p "fst e"] by simp
  from find_symbol_add [OF ok this, of r "snd e" m GEN_ID]
  show "sym_lookup r (snd (sym_declare p s n e)) m = (if m = n then Some e else sym_lookup r s m)"
    by (simp add: sym_lookup_def sym_declare_def split_beta)
next
  fix s :: "'i symbol_table" and p :: place and n and e :: "ac_parser_type \<times> 'i"
  assume "table_ok s"
  then show "table_ok (snd (sym_declare p s n e))"
    by (simp add: sym_declare_def split_beta table_ok_add)
qed

subsection \<open>Properties\<close>

text \<open>C32: the symbol table is a map of first declarations. After any sequence of
  \<open>add_symbol\<close> calls from the empty table, \<open>find_symbol\<close> finds for each name the class and the
  pointer of its first declaration, wherever the names of the declarations and of the lookup
  are placed in memory (little-endian host).\<close>
theorem symbol_table_first_declaration:
  "sym_lookup r (snd (hash_symbols.declare_all empty_symbol_table ds)) name =
     map_option (\<lambda>(pl, n, e). e) (find_first (\<lambda>(pl, n, e). n = name) ds)"
  by (simp add: hash_symbols.lookup_declare_all hash_symbols.invar_empty hash_symbols.lookup_empty)

end
