(* ===== verification/CLib.thy ===== *)
theory CLib
  imports Prelude
begin

text \<open>
  The parts of the C library the parsers of the repository use: \<open>strtol\<close> with base 10 or 0
  (where the prefix selects the base), the conversion of its \<open>long\<close> result to \<open>int\<close>, and
  \<open>atoi\<close>. Results out of range of \<open>long\<close> are clamped, as C prescribes.
\<close>

definition digit_of :: "nat \<Rightarrow> char \<Rightarrow> nat option" where
  "digit_of base c =
     (let v = (if isdigit c then Some (digit_val c)
               else if islower c then Some (of_char c - 87)
               else if isupper c then Some (of_char c - 55) else None)
      in case v of Some d \<Rightarrow> if d < base then Some d else None | None \<Rightarrow> None)"

definition digits_value :: "nat \<Rightarrow> string \<Rightarrow> nat" where
  "digits_value base s = foldl (\<lambda>n c. base * n + the (digit_of base c)) 0 s"

definition clamp_long :: "int \<Rightarrow> int" where
  "clamp_long i = max (- (2 ^ 63)) (min (2 ^ 63 - 1) i)"

definition int_of_long :: "int \<Rightarrow> int" where
  "int_of_long i = signed_take_bit 31 i"

fun strtol_sign :: "string \<Rightarrow> bool \<times> string" where
  "strtol_sign (c # s) =
     (if c = CHR ''-'' then (True, s) else if c = CHR ''+'' then (False, s) else (False, c # s))"
| "strtol_sign [] = (False, [])"

text \<open>The base and the digits, after the sign, for a base argument of 0.\<close>

fun strtol_prefix :: "string \<Rightarrow> nat \<times> string" where
  "strtol_prefix (c # x # h # s) =
     (if c = CHR ''0'' \<and> (x = CHR ''x'' \<or> x = CHR ''X'') \<and> digit_of 16 h \<noteq> None then (16, h # s)
      else if c = CHR ''0'' then (8, c # x # h # s) else (10, c # x # h # s))"
| "strtol_prefix (c # s) = (if c = CHR ''0'' then (8, c # s) else (10, c # s))"
| "strtol_prefix [] = (10, [])"

text \<open>
  \<open>strtol(s, &end, base)\<close>: the value and \<open>end\<close>, as the rest of the string. Without digits
  the value is 0 and \<open>end\<close> is \<open>s\<close>.
\<close>

definition strtol :: "nat \<Rightarrow> string \<Rightarrow> int \<times> string" where
  "strtol base0 s =
     (let (neg, t) = strtol_sign (dropWhile isspace s);
          (base, u) = (if base0 = 0 then strtol_prefix t else (base0, t));
          ds = takeWhile (\<lambda>c. digit_of base c \<noteq> None) u;
          v = int (digits_value base ds)
      in if ds = [] then (0, s)
         else (clamp_long (if neg then - v else v), drop (length ds) u))"

definition atoi :: "string \<Rightarrow> int" where
  "atoi s = int_of_long (fst (strtol 10 s))"

lemma strtol_sign_length: "length (snd (strtol_sign t)) \<le> length t"
  by (cases t) auto

lemma strtol_prefix_length: "length (snd (strtol_prefix t)) \<le> length t"
  by (cases t rule: strtol_prefix.cases) auto

lemma strtol_rest:
  assumes "strtol b s = (v, r)"
  shows "r = s \<or> length r < length s"
proof -
  define t where "t = snd (strtol_sign (dropWhile isspace s))"
  define u where "u = snd (if b = 0 then strtol_prefix t else (b, t))"
  define base where "base = fst (if b = 0 then strtol_prefix t else (b, t))"
  define ds where "ds = takeWhile (\<lambda>c. digit_of base c \<noteq> None) u"
  have "length t \<le> length s"
    using strtol_sign_length [of "dropWhile isspace s"] length_dropWhile_le [of isspace s]
    by (simp add: t_def)
  moreover have "length u \<le> length t"
    using strtol_prefix_length by (simp add: u_def)
  moreover have r: "r = (if ds = [] then s else drop (length ds) u)"
    using assms by (auto simp: strtol_def Let_def split_beta t_def u_def base_def ds_def
        simp del: takeWhile_eq_Nil_iff split: if_splits)
  moreover have "length ds \<le> length u" by (simp add: ds_def length_takeWhile_le)
  ultimately have le: "length ds + length r \<le> length s" if "ds \<noteq> []"
    using that by simp
  show ?thesis
  proof (cases "ds = []")
    case True
    with r show ?thesis by simp
  next
    case False
    with le show ?thesis by (cases ds) auto
  qed
qed

lemma digit_of_10 [simp]: "isdigit c \<Longrightarrow> digit_of 10 c = Some (digit_val c)"
  by (auto simp: digit_of_def Let_def isdigit_def digit_val_def less_eq_char_def)

lemma digit_of_10_None: "digit_of 10 c = None \<longleftrightarrow> \<not> isdigit c"
proof (cases "isdigit c")
  case False
  then show ?thesis
    by (auto simp: digit_of_def Let_def islower_def isupper_def isdigit_def less_eq_char_def)
qed simp

lemma digits_value_10: "\<forall>c \<in> set s. isdigit c \<Longrightarrow> digits_value 10 s = dec_value s"
proof (induction s rule: rev_induct)
  case (snoc c s)
  then show ?case by (simp add: digits_value_def dec_value_def)
qed (simp add: digits_value_def dec_value_def)

lemma hd_dec_str: "0 < n \<Longrightarrow> hd (dec_str n) \<noteq> CHR ''0''"
proof (induction n rule: dec_str.induct)
  case (1 n)
  show ?case
  proof (cases "n < 10")
    case True
    have "(of_char (digit_chr n) :: nat) \<noteq> of_char (CHR ''0'')"
      using 1(2) True by (simp add: of_char_digit_chr)
    then have "digit_chr n \<noteq> CHR ''0''" by metis
    with True show ?thesis by (subst dec_str.simps) simp
  next
    case False
    with 1 show ?thesis by (subst dec_str.simps) simp
  qed
qed

lemma isdigit_not_space: "isdigit c \<Longrightarrow> \<not> isspace c"
  by (auto simp: isdigit_def isspace_def less_eq_char_def)

lemma isdigit_not_sign: "isdigit c \<Longrightarrow> c \<noteq> CHR ''-'' \<and> c \<noteq> CHR ''+''"
  by (auto simp: isdigit_def less_eq_char_def)

text \<open>A printed number is read back, and reading stops behind it.\<close>

lemma dec_str_Cons: "\<exists>c s. dec_str n = c # s \<and> isdigit c"
  by (metis dec_str_isdigit dec_str_nonempty list.set_intros(1) neq_Nil_conv)

lemma takeWhile_dec_str:
  assumes "\<And>c s. rest = c # s \<Longrightarrow> \<not> isdigit c"
  shows "takeWhile (\<lambda>c. digit_of 10 c \<noteq> None) (dec_str n @ rest) = dec_str n"
proof -
  have "takeWhile (\<lambda>c. digit_of 10 c \<noteq> None) rest = []"
    using assms by (cases rest) (auto simp: digit_of_10_None)
  then show ?thesis
    by (subst takeWhile_append2) (auto simp: digit_of_10_None dest: dec_str_isdigit)
qed

lemma dec_value_digits: "digits_value 10 (dec_str n) = n"
  by (simp add: digits_value_10 dec_str_isdigit)

lemma dec_str_zero: "dec_str 0 = ''0''"
proof -
  have "digit_chr 0 = CHR ''0''" by code_simp
  then show ?thesis by (subst dec_str.simps) simp
qed

lemma digit_of_8_None: "\<not> isdigit c \<Longrightarrow> digit_of 8 c = None"
  by (auto simp: digit_of_def Let_def islower_def isupper_def less_eq_char_def)

lemma strtol_dec_str:
  assumes "\<And>c s. rest = c # s \<Longrightarrow> \<not> isdigit c \<and> c \<noteq> CHR ''x'' \<and> c \<noteq> CHR ''X''"
    and "n < 2 ^ 63" "b = 0 \<or> b = 10"
  shows "strtol b (dec_str n @ rest) = (int n, rest)"
proof -
  obtain c s where cs: "dec_str n = c # s" "isdigit c" using dec_str_Cons by blast
  have sgn: "strtol_sign (dropWhile isspace (dec_str n @ rest)) = (False, dec_str n @ rest)"
    using cs isdigit_not_space isdigit_not_sign by simp
  have clamp: "clamp_long (int n) = int n"
    using assms(2) by (simp add: clamp_long_def)
  show ?thesis
  proof (cases "b = 0 \<and> n = 0")
    case True
    have pre: "strtol_prefix (CHR ''0'' # rest) = (8, CHR ''0'' # rest)"
      using assms(1) by (cases rest rule: strtol_prefix.cases) auto
    have ds: "takeWhile (\<lambda>c. digit_of 8 c \<noteq> None) (CHR ''0'' # rest) = [CHR ''0'']"
      using assms(1) digit_of_8_None
      by (cases rest) (auto simp: digit_of_def isdigit_def less_eq_char_def digit_val_def Let_def)
    have "digits_value 8 [CHR ''0''] = 0" by code_simp
    then show ?thesis
      using True sgn pre ds clamp by (simp add: strtol_def Let_def dec_str_zero del: takeWhile.simps)
  next
    case False
    have "c \<noteq> CHR ''0''" if "b = 0"
      using hd_dec_str [of n] cs False that by simp
    then have pre: "(if b = 0 then strtol_prefix (dec_str n @ rest) else (b, dec_str n @ rest))
        = (10, dec_str n @ rest)"
      using cs assms(3) by (cases "s @ rest" rule: strtol_prefix.cases) auto
    show ?thesis
      using assms(1) takeWhile_dec_str [of rest n]
      by (simp add: strtol_def sgn pre Let_def dec_value_digits clamp)
  qed
qed

end
