(* ===== verification/DecTypes.thy ===== *)
theory DecTypes
  imports Prelude
begin

text \<open>
  The structures of \<open>archc/src/aclib/ac_decoder/ac_decoder.h\<close> that the preprocessor fills
  and the decoder reads. A linked list is the list of its elements, so the \<open>next\<close> pointers
  have no field; a pointer that may be \<open>NULL\<close> is an option. C \<open>int\<close>s are \<open>int\<close>: none of the
  functions modelled here relies on their wrap-around.
\<close>

record ac_dec_field =
  field_name :: string
  field_size :: int
  first_bit :: int
  field_id :: int
  field_val :: int
  field_sign :: int

record ac_dec_format =
  format_id :: nat
  format_name :: string
  format_size :: int
  format_fields :: "ac_dec_field list"

record ac_dec_list =
  dl_name :: string
  dl_id :: int
  dl_value :: int

record ac_control_flow =
  cf_cond :: "string option"
  cf_target :: "string option"
  cf_delay_slot :: int
  cf_delay_slot_cond :: "string option"
  cf_action :: "string option"

record ac_dec_instr =
  instr_name :: string
  instr_size :: int
  instr_mnemonic :: "string option"
  instr_asm_str :: "string option"
  instr_format :: string
  instr_id :: nat
  instr_cycles :: nat
  instr_min_latency :: nat
  instr_max_latency :: nat
  instr_dec_list :: "ac_dec_list list"
  instr_cflow :: "ac_control_flow option"

end
