(* ===== verification/Formats.thy ===== *)
theory Formats
  imports CLib DecTypes
begin

text \<open>
  Format strings, as \<open>parse_format\<close> and \<open>add_format\<close> of \<open>archc/src/acpp/core_actions.c\<close>
  read them: \<open>"%op:6 %rs:5 [%imm:16:s | %func:16]"\<close>. The parser walks \<open>*fieldstr\<close> over the
  string; the model passes what is left of it. The loop of one activation is \<open>pf_loop\<close>, the
  recursive activation of \<open>'['\<close> is a nested call. Fuel bounds the recursion, and
  \<open>parse_format_total\<close> shows that the length of the string is enough of it. Shown here: the
  parser reads back what \<open>show_items\<close> prints, with the bit layout of the items; what an
  error leaves behind in \<open>field_list\<close>; what \<open>common_instr_field_list\<close> holds.
\<close>

subsection \<open>Parsing state and errors\<close>

text \<open>
  \<open>field_list\<close> is reached from its head; \<open>field_list_tail\<close> points to the element with the
  index \<open>ps_tail\<close>, behind which the next field is linked.
\<close>

record pstate =
  ps_const_count :: nat
  ps_fields :: "ac_dec_field list"
  ps_tail :: nat

text \<open>
  The messages of \<open>sprintf(error_msg, ...)\<close>. \<open>No_message\<close> is a sum of sizes that happens to
  be \<open>-1\<close>, which the callers take for an error.
\<close>

datatype format_error =
    Size_mismatch string
  | Size_not_given string
  | Invalid_size string nat
  | Invalid_sign string nat
  | No_message

definition put_field :: "ac_dec_field \<Rightarrow> pstate \<Rightarrow> pstate" where
  "put_field f st =
     (if ps_fields st = [] then st\<lparr>ps_fields := [f], ps_tail := 0\<rparr>
      else st\<lparr>ps_fields := take (ps_tail st + 1) (ps_fields st) @ [f], ps_tail := ps_tail st + 1\<rparr>)"

subsection \<open>One field\<close>

text \<open>\<open>snprintf(pfield->name, 10, "CONST_%d", const_count)\<close> keeps nine characters.\<close>

definition const_name :: "nat \<Rightarrow> string" where
  "const_name n = take 9 (''CONST_'' @ dec_str n)"

text \<open>The optional \<open>:s\<close> or \<open>:u\<close> behind the size; \<open>None\<close> is an invalid letter.\<close>

definition parse_sign :: "string \<Rightarrow> (int \<times> string) option" where
  "parse_sign s =
     (case s of
        [] \<Rightarrow> Some (0, s)
      | d # t \<Rightarrow>
          if d = CHR '':'' then
            (case t of
               c # u \<Rightarrow>
                 if c = CHR ''s'' \<or> c = CHR ''S'' then Some (1, u)
                 else if c = CHR ''u'' \<or> c = CHR ''U'' then Some (0, u) else None
             | [] \<Rightarrow> None)
          else Some (0, s))"

definition skip_percent :: "string \<Rightarrow> string" where
  "skip_percent s = (case s of [] \<Rightarrow> [] | c # t \<Rightarrow> if c = CHR ''%'' then t else s)"

text \<open>The name or the constant: name, value, where the parser stands, and \<open>fieldend\<close>.\<close>

definition parse_name :: "string \<Rightarrow> pstate \<Rightarrow> pstate \<times> string \<times> int \<times> string \<times> string" where
  "parse_name s st =
     (let (v, fe) = strtol 0 s in
      if fe \<noteq> s then
        (st\<lparr>ps_const_count := ps_const_count st + 1\<rparr>, const_name (ps_const_count st), int_of_long v, s, fe)
      else
        let s1 = skip_percent s in
        (st, takeWhile (\<lambda>c. c \<noteq> CHR '':'') s1, 0, s1, dropWhile (\<lambda>c. c \<noteq> CHR '':'') s1))"

definition parse_field ::
  "string \<Rightarrow> int \<Rightarrow> string \<Rightarrow> pstate \<Rightarrow> pstate \<times> (format_error + int \<times> string)" where
  "parse_field str sum_size s st =
     (let (st, name, val, here, fieldend) = parse_name s st in
      if fieldend = [] \<or> hd fieldend \<noteq> CHR '':'' then (st, Inl (Size_not_given here))
      else let s2 = tl fieldend; (size, s3) = strtol 0 s2 in
           if s3 = s2 then (st, Inl (Invalid_size str (length str - length s2)))
           else case parse_sign s3 of
             None \<Rightarrow> (st, Inl (Invalid_sign str (length str - length (tl s3))))
           | Some (sign, s5) \<Rightarrow>
               (let size = int_of_long size; sum_size = sum_size + size in
                (put_field \<lparr>field_name = name, field_size = size, first_bit = sum_size - 1,
                   field_id = 0, field_val = val, field_sign = sign\<rparr> st,
                 Inr (sum_size, s5))))"

subsection \<open>The loop over the string\<close>

definition pf_return :: "int \<Rightarrow> string \<Rightarrow> format_error + int \<times> string" where
  "pf_return sum_size s = (if sum_size = -1 then Inl No_message else Inr (sum_size, s))"

fun pf_loop ::
  "nat \<Rightarrow> string \<Rightarrow> int \<Rightarrow> int \<Rightarrow> int \<Rightarrow> string \<Rightarrow> pstate
     \<Rightarrow> (pstate \<times> (format_error + int \<times> string)) option" where
  "pf_loop 0 str first size_limit sum_size s st = None"
| "pf_loop (Suc k) str first size_limit sum_size [] st = Some (st, pf_return sum_size [])"
| "pf_loop (Suc k) str first size_limit sum_size (c # r) st =
     (if c = CHR ''['' then
        (case pf_loop k r sum_size (-1) sum_size (dropWhile isspace r) st of
           None \<Rightarrow> None
         | Some (st, Inl e) \<Rightarrow> Some (st, Inl e)
         | Some (st, Inr (sum_size, s)) \<Rightarrow>
             pf_loop k str first size_limit sum_size (dropWhile isspace s) st)
      else if c = CHR '']'' then
        (if size_limit \<noteq> -1 \<and> size_limit \<noteq> sum_size then Some (st, Inl (Size_mismatch str))
         else Some (st, pf_return sum_size r))
      else if c = CHR ''|'' then
        (if size_limit \<noteq> -1 \<and> size_limit \<noteq> sum_size then Some (st, Inl (Size_mismatch str))
         else pf_loop k str first (if size_limit \<noteq> -1 then size_limit else sum_size) first
                (dropWhile isspace r) st)
      else
        (case parse_field str sum_size (c # r) st of
           (st, Inl e) \<Rightarrow> Some (st, Inl e)
         | (st, Inr (sum_size, s)) \<Rightarrow>
             pf_loop k str first size_limit sum_size (dropWhile isspace s) st))"

definition parse_format ::
  "nat \<Rightarrow> string \<Rightarrow> int \<Rightarrow> int \<Rightarrow> pstate \<Rightarrow> (pstate \<times> (format_error + int \<times> string)) option" where
  "parse_format k str sum_size size_limit st =
     pf_loop k str sum_size size_limit sum_size (dropWhile isspace str) st"

subsection \<open>Termination\<close>

lemma dropWhile_shorter: "length (dropWhile P s) \<le> length s"
  by (rule length_dropWhile_le)

lemma parse_sign_length: "parse_sign s = Some (i, t) \<Longrightarrow> length t \<le> length s"
  by (auto simp: parse_sign_def split: list.splits if_splits)

lemma strtol_length: "length (snd (strtol b s)) \<le> length s"
  using strtol_rest [of b s "fst (strtol b s)" "snd (strtol b s)"] by auto

lemma skip_percent_length: "length (skip_percent s) \<le> length s"
  by (simp add: skip_percent_def split: list.split)

lemma parse_name_length:
  assumes "parse_name s st = (st', name, val, here, fe)"
  shows "length fe \<le> length s"
  using assms strtol_length [of 0 s] skip_percent_length [of s]
    dropWhile_shorter [of "\<lambda>c. c \<noteq> CHR '':''" "skip_percent s"]
  by (auto simp: parse_name_def Let_def split_beta split: if_splits)

lemma parse_field_shorter:
  assumes "parse_field str n s st = (st', Inr (n', r))"
  shows "length r < length s"
proof -
  obtain st1 name val here fe where nm: "parse_name s st = (st1, name, val, here, fe)"
    by (metis prod_cases5)
  from assms nm have fe: "fe \<noteq> []"
    and sg: "\<exists>i. parse_sign (snd (strtol 0 (tl fe))) = Some (i, r)"
    by (auto simp: parse_field_def Let_def split_beta split: if_splits option.splits)
  have "length r \<le> length (tl fe)"
    using sg parse_sign_length strtol_length [of 0 "tl fe"] by (metis le_trans)
  also have "\<dots> < length s" using parse_name_length [OF nm] fe by (cases fe) auto
  finally show ?thesis .
qed

lemma pf_return_Inr [simp]: "pf_return n s = Inr (n', r) \<longleftrightarrow> n \<noteq> -1 \<and> n' = n \<and> r = s"
  by (auto simp: pf_return_def)

text \<open>What one turn of the loop does, as an equation without the fuel of the rest.\<close>

lemma pf_loop_shorter:
  "pf_loop k str first limit n s st = Some (st', Inr (n', r)) \<Longrightarrow> length r \<le> length s"
proof (induction k arbitrary: str first limit n s st st' n' r)
  case (Suc k)
  show ?case
  proof (cases s)
    case (Cons c t)
    have dw: "length (dropWhile isspace u) \<le> length u" for u by (rule dropWhile_shorter)
    show ?thesis
    proof (cases "c = CHR ''[''")
      case True
      with Suc.prems Cons obtain st1 n1 s1 where
        in1: "pf_loop k t n (-1) n (dropWhile isspace t) st = Some (st1, Inr (n1, s1))" and
        in2: "pf_loop k str first limit n1 (dropWhile isspace s1) st1 = Some (st', Inr (n', r))"
        by (auto split: option.splits sum.splits prod.splits)
      show ?thesis
        using Suc.IH [OF in1] Suc.IH [OF in2] dw [of t] dw [of s1] Cons by simp
    next
      case False
      show ?thesis
      proof (cases "c = CHR '']'' \<or> c = CHR ''|''")
        case True
        with False Suc.prems Cons show ?thesis
          using dw [of t] by (force split: if_splits dest: Suc.IH)
      next
        case nf: False
        with False Suc.prems Cons obtain st1 n1 s1 where
          f1: "parse_field str n (c # t) st = (st1, Inr (n1, s1))" and
          f2: "pf_loop k str first limit n1 (dropWhile isspace s1) st1 = Some (st', Inr (n', r))"
          by (auto split: sum.splits prod.splits)
        show ?thesis
          using parse_field_shorter [OF f1] Suc.IH [OF f2] dw [of s1] Cons by simp
      qed
    qed
  qed (use Suc.prems in simp)
qed simp

lemma pf_loop_enough:
  "length s < k \<Longrightarrow> pf_loop k str first limit n s st \<noteq> None"
proof (induction k arbitrary: str first limit n s st)
  case (Suc k)
  show ?case
  proof (cases s)
    case (Cons c t)
    have go: "pf_loop k str first limit n (dropWhile isspace u) st \<noteq> None"
      if "length u \<le> length t" for str first limit n u st
      using Suc.IH [of "dropWhile isspace u"] that Suc.prems Cons dropWhile_shorter [of isspace u]
      by simp
    consider "c = CHR ''[''" | "c \<noteq> CHR ''[''" "c = CHR '']'' \<or> c = CHR ''|''"
      | "c \<noteq> CHR ''['' \<and> c \<noteq> CHR '']'' \<and> c \<noteq> CHR ''|''" by blast
    then show ?thesis
    proof cases
      case 1
      obtain st1 res where in1: "pf_loop k t n (-1) n (dropWhile isspace t) st = Some (st1, res)"
        using go [of t t n "-1" n st] by auto
      show ?thesis
      proof (cases res)
        case (Inr p)
        obtain n1 r where p: "p = (n1, r)" by (cases p)
        have "length r \<le> length t"
          using pf_loop_shorter [of k t n "-1" n "dropWhile isspace t" st st1 n1 r] in1 Inr p
            dropWhile_shorter [of isspace t] by simp
        from go [OF this] in1 Inr p 1 show ?thesis by (simp add: Cons)
      qed (use in1 1 Cons in simp)
    next
      case 2
      then show ?thesis using go [of t] by (auto simp: Cons)
    next
      case 3
      obtain st1 res where f1: "parse_field str n (c # t) st = (st1, res)" by fastforce
      show ?thesis
      proof (cases res)
        case (Inr p)
        obtain n1 r where p: "p = (n1, r)" by (cases p)
        have "length r \<le> length t"
          using parse_field_shorter [of str n "c # t" st st1 n1 r] f1 Inr p by simp
        from go [OF this] f1 Inr p 3 show ?thesis by (simp add: Cons)
      qed (use f1 3 Cons in simp)
    qed
  qed simp
qed simp

subsection \<open>add_format\<close>

text \<open>
  The part of the module state \<open>add_format\<close> works on. \<open>stale_fields\<close> is the static
  \<open>field_list\<close>: empty, unless the last format string was wrong.
\<close>

record format_state =
  const_count :: nat
  stale_fields :: "ac_dec_field list"
  format_ins_list :: "ac_dec_format list"
  format_reg_list :: "ac_dec_format list"
  common_instr_field_list :: "ac_dec_field list"
  largest_format_size :: int

definition init_formats :: format_state where
  "init_formats = \<lparr>const_count = 0, stale_fields = [], format_ins_list = [], format_reg_list = [],
     common_instr_field_list = [], largest_format_size = 0\<rparr>"

text \<open>The fields of the first format, numbered from \<open>cur_id\<close>.\<close>

fun number_fields :: "int \<Rightarrow> ac_dec_field list \<Rightarrow> ac_dec_field list" where
  "number_fields cur_id [] = []"
| "number_fields cur_id (f # fs) = f\<lparr>field_id := cur_id\<rparr> # number_fields (cur_id + 1) fs"

definition has_field :: "string \<Rightarrow> ac_dec_field list \<Rightarrow> bool" where
  "has_field name fs \<longleftrightarrow> find_first (\<lambda>f. strcmp name (field_name f) = 0) fs \<noteq> None"

definition update_commons :: "ac_dec_field list \<Rightarrow> ac_dec_field list \<Rightarrow> ac_dec_field list" where
  "update_commons commons fs =
     (if commons \<noteq> [] then filter (\<lambda>pf. has_field (field_name pf) fs) commons
      else number_fields 1 fs)"

text \<open>
  The list the format goes to is chosen by \<open>is_instr\<close>, as in both calls of the grammar. A
  new format has no identifier yet: \<open>CreateDecoder\<close> assigns it.
\<close>

definition add_format ::
  "string \<Rightarrow> string \<Rightarrow> bool \<Rightarrow> format_state \<Rightarrow> (format_state \<times> format_error option) option" where
  "add_format name str is_instr s =
     (case parse_format (length str + 1) str 0 (-1)
             \<lparr>ps_const_count = const_count s, ps_fields = stale_fields s, ps_tail = 0\<rparr> of
        None \<Rightarrow> None
      | Some (st, Inl e) \<Rightarrow>
          Some (s\<lparr>const_count := ps_const_count st, stale_fields := ps_fields st\<rparr>, Some e)
      | Some (st, Inr (sum_size, _)) \<Rightarrow>
          (let pformat = \<lparr>format_id = 0, format_name = name, format_size = sum_size,
                          format_fields = ps_fields st\<rparr>;
               s = s\<lparr>const_count := ps_const_count st, stale_fields := [],
                     largest_format_size := max sum_size (largest_format_size s)\<rparr>;
               s = (if is_instr then s\<lparr>format_ins_list := format_ins_list s @ [pformat]\<rparr>
                    else s\<lparr>format_reg_list := format_reg_list s @ [pformat]\<rparr>)
           in Some (if is_instr
                    then s\<lparr>common_instr_field_list :=
                             update_commons (common_instr_field_list s) (format_fields pformat)\<rparr>
                    else s, None)))"

subsection \<open>Printing a format and its layout\<close>

text \<open>
  Abstract formats: named fields, constants, and groups of alternatives that occupy the same
  bits; the flag says whether the field is signed.
\<close>

datatype fitem =
    FField string nat bool
  | FConst nat nat bool
  | FGroup "fitem list list"

definition show_size :: "nat \<Rightarrow> bool \<Rightarrow> string" where
  "show_size sz sg = '':'' @ dec_str sz @ (if sg then '':s'' else [])"

fun show_item :: "fitem \<Rightarrow> string"
  and show_items :: "fitem list \<Rightarrow> string"
  and show_choices :: "fitem list list \<Rightarrow> string" where
  "show_item (FField nm sz sg) = ''%'' @ nm @ show_size sz sg"
| "show_item (FConst v sz sg) = dec_str v @ show_size sz sg"
| "show_item (FGroup cs) = ''['' @ show_choices cs @ '']''"
| "show_items [] = []"
| "show_items (i # is) = show_item i @ '' '' @ show_items is"
| "show_choices [] = []"
| "show_choices [c] = show_items c"
| "show_choices (c # d # cs) = show_items c @ ''|'' @ show_choices (d # cs)"

text \<open>The number of bits an item takes; the alternatives of a group all take as many.\<close>

fun item_width :: "fitem \<Rightarrow> nat" and items_width :: "fitem list \<Rightarrow> nat" where
  "item_width (FField nm sz sg) = sz"
| "item_width (FConst v sz sg) = sz"
| "item_width (FGroup []) = 0"
| "item_width (FGroup (c # cs)) = items_width c"
| "items_width [] = 0"
| "items_width (i # is) = item_width i + items_width is"

fun wf_item :: "fitem \<Rightarrow> bool" and wf_items :: "fitem list \<Rightarrow> bool"
  and wf_choices :: "nat \<Rightarrow> fitem list list \<Rightarrow> bool" where
  "wf_item (FField nm sz sg) \<longleftrightarrow> CHR '':'' \<notin> set nm \<and> sz < 2 ^ 31"
| "wf_item (FConst v sz sg) \<longleftrightarrow> v < 2 ^ 31 \<and> sz < 2 ^ 31"
| "wf_item (FGroup []) \<longleftrightarrow> False"
| "wf_item (FGroup (c # cs)) \<longleftrightarrow> wf_choices (items_width c) (c # cs)"
| "wf_items [] \<longleftrightarrow> True"
| "wf_items (i # is) \<longleftrightarrow> wf_item i \<and> wf_items is"
| "wf_choices w [] \<longleftrightarrow> True"
| "wf_choices w (c # cs) \<longleftrightarrow> items_width c = w \<and> wf_items c \<and> wf_choices w cs"

definition mk_field :: "string \<Rightarrow> int \<Rightarrow> nat \<Rightarrow> bool \<Rightarrow> int \<Rightarrow> ac_dec_field" where
  "mk_field nm v sz sg n = \<lparr>field_name = nm, field_size = int sz, first_bit = n + int sz - 1,
     field_id = 0, field_val = v, field_sign = of_bool sg\<rparr>"

text \<open>
  The fields of a list of items that starts at bit \<open>n\<close>, with \<open>cc\<close> constants before it: the
  fields in order, and the number of constants behind it. \<open>first_bit\<close> is the last bit of the
  field, counted from the left of the instruction.
\<close>

fun lay_item :: "nat \<Rightarrow> int \<Rightarrow> fitem \<Rightarrow> ac_dec_field list \<times> nat"
  and lay_items :: "nat \<Rightarrow> int \<Rightarrow> fitem list \<Rightarrow> ac_dec_field list \<times> nat"
  and lay_choices :: "nat \<Rightarrow> int \<Rightarrow> fitem list list \<Rightarrow> ac_dec_field list \<times> nat" where
  "lay_item cc n (FField nm sz sg) = ([mk_field nm 0 sz sg n], cc)"
| "lay_item cc n (FConst v sz sg) = ([mk_field (const_name cc) (int v) sz sg n], cc + 1)"
| "lay_item cc n (FGroup cs) = lay_choices cc n cs"
| "lay_items cc n [] = ([], cc)"
| "lay_items cc n (i # is) =
     (let a = lay_item cc n i; b = lay_items (snd a) (n + int (item_width i)) is
      in (fst a @ fst b, snd b))"
| "lay_choices cc n [] = ([], cc)"
| "lay_choices cc n (c # cs) =
     (let a = lay_items cc n c; b = lay_choices (snd a) n cs in (fst a @ fst b, snd b))"

subsection \<open>The parser reads back the printed format\<close>

text \<open>A state in which the tail is the last field, as it is unless a format string was wrong.\<close>

definition st_of :: "ac_dec_field list \<Rightarrow> nat \<Rightarrow> pstate" where
  "st_of fs cc = \<lparr>ps_const_count = cc, ps_fields = fs, ps_tail = length fs - 1\<rparr>"

lemma put_field_st_of [simp]: "put_field f (st_of fs cc) = st_of (fs @ [f]) cc"
  by (cases fs) (auto simp: put_field_def st_of_def)

lemma st_of_const [simp]: "st_of fs cc\<lparr>ps_const_count := n\<rparr> = st_of fs n"
  "ps_const_count (st_of fs cc) = cc"
  by (simp_all add: st_of_def)

lemma int_of_long_id [simp]: "n < 2 ^ 31 \<Longrightarrow> int_of_long (int n) = int n"
  by (simp add: int_of_long_def signed_take_bit_int_eq_self_iff)

lemma strtol_percent: "strtol 0 (CHR ''%'' # s) = (0, CHR ''%'' # s)"
proof -
  have "\<not> isspace (CHR ''%'')" "digit_of 10 (CHR ''%'') = None" by code_simp+
  moreover have "strtol_prefix (CHR ''%'' # s) = (10, CHR ''%'' # s)"
    by (cases s rule: strtol_prefix.cases) auto
  ultimately show ?thesis by (simp add: strtol_def Let_def)
qed

lemma parse_size_sign:
  assumes "sz < 2 ^ 31"
  obtains t where "strtol 0 (dec_str sz @ (if sg then '':s'' else []) @ '' '' @ rest) = (int sz, t)"
    "parse_sign t = Some (of_bool sg, CHR '' '' # rest)"
    "t \<noteq> dec_str sz @ (if sg then '':s'' else []) @ '' '' @ rest"
proof
  let ?t = "(if sg then '':s'' else []) @ '' '' @ rest"
  show "strtol 0 (dec_str sz @ ?t) = (int sz, ?t)"
    using assms by (intro strtol_dec_str) (auto simp: isdigit_def less_eq_char_def split: if_splits)
  show "parse_sign ?t = Some (of_bool sg, CHR '' '' # rest)"
    by (simp add: parse_sign_def)
  show "?t \<noteq> dec_str sz @ ?t" by simp
qed

lemma parse_field_show:
  assumes "parse_name (hdr @ show_size sz sg @ '' '' @ rest) st
      = (st', nm, v, here, show_size sz sg @ '' '' @ rest)" "sz < 2 ^ 31"
  shows "parse_field str n (hdr @ show_size sz sg @ '' '' @ rest) st
    = (put_field (mk_field nm v sz sg n) st', Inr (n + int sz, CHR '' '' # rest))"
proof -
  obtain t where "strtol 0 (dec_str sz @ (if sg then '':s'' else []) @ '' '' @ rest) = (int sz, t)"
    "parse_sign t = Some (of_bool sg, CHR '' '' # rest)"
    "t \<noteq> dec_str sz @ (if sg then '':s'' else []) @ '' '' @ rest"
    using parse_size_sign [OF assms(2)] by blast
  with assms show ?thesis
    by (simp add: parse_field_def Let_def show_size_def mk_field_def)
qed

lemma parse_field_item:
  assumes "wf_item i" "\<And>cs. i \<noteq> FGroup cs"
  shows "parse_field str n (show_item i @ '' '' @ rest) (st_of fs cc)
    = (st_of (fs @ fst (lay_item cc n i)) (snd (lay_item cc n i)),
       Inr (n + int (item_width i), CHR '' '' # rest))"
proof (cases i)
  case (FField nm sz sg)
  have "parse_name ((CHR ''%'' # nm) @ show_size sz sg @ '' '' @ rest) (st_of fs cc)
      = (st_of fs cc, nm, 0, nm @ show_size sz sg @ '' '' @ rest, show_size sz sg @ '' '' @ rest)"
    using assms(1) by (auto simp: FField parse_name_def strtol_percent skip_percent_def show_size_def
        takeWhile_append dropWhile_append)
  from parse_field_show [OF this] show ?thesis using assms(1) by (simp add: FField)
next
  case (FConst v sz sg)
  have "strtol 0 (dec_str v @ show_size sz sg @ '' '' @ rest) = (int v, show_size sz sg @ '' '' @ rest)"
    using assms(1) by (intro strtol_dec_str) (auto simp: FConst show_size_def isdigit_def less_eq_char_def)
  then have "parse_name (dec_str v @ show_size sz sg @ '' '' @ rest) (st_of fs cc)
      = (st_of fs (cc + 1), const_name cc, int v, dec_str v @ show_size sz sg @ '' '' @ rest,
         show_size sz sg @ '' '' @ rest)"
    using assms(1) by (simp add: FConst parse_name_def Let_def)
  from parse_field_show [OF this] show ?thesis using assms(1) by (simp add: FConst)
qed (use assms in auto)

definition no_blank :: "string \<Rightarrow> bool" where
  "no_blank s \<longleftrightarrow> dropWhile isspace s = s"

lemma no_blank_Cons [simp]: "no_blank (c # s) \<longleftrightarrow> \<not> isspace c"
  unfolding no_blank_def using dropWhile_shorter [of isspace s]
  by (auto dest!: arg_cong [where f = length])

lemma isspace_consts [simp]:
  "\<not> isspace (CHR ''%'')" "\<not> isspace (CHR ''['')" "\<not> isspace (CHR '']'')" "\<not> isspace (CHR ''|'')"
  "isspace (CHR '' '')"
  by code_simp+

lemma no_blank_item: "no_blank (show_item i @ s)"
proof (cases i)
  case (FConst v sz sg)
  obtain c t where "dec_str v = c # t" "isdigit c" using dec_str_Cons by blast
  then show ?thesis by (simp add: FConst isdigit_not_space)
qed auto

lemma no_blank_items: "no_blank s \<Longrightarrow> no_blank (show_items is @ s)"
  using no_blank_item by (cases "is") auto

lemma no_blank_choices: "no_blank s \<Longrightarrow> no_blank (show_choices cs @ s)"
  by (cases cs rule: show_choices.cases) (auto intro!: no_blank_items)

lemma length_show_items: "length is \<le> length (show_items is)"
  by (induction "is") auto

lemma show_item_head:
  assumes "\<And>cs. i \<noteq> FGroup cs"
  obtains c t where "show_item i @ s = c # t" "c \<noteq> CHR ''[''" "c \<noteq> CHR '']''" "c \<noteq> CHR ''|''"
proof (cases i)
  case (FConst v sz sg)
  obtain c t where "dec_str v = c # t" "isdigit c" using dec_str_Cons by blast
  then show ?thesis
    by (intro that [of c "t @ show_size sz sg @ s"]) (auto simp: FConst isdigit_def less_eq_char_def)
qed (use assms that in auto)

text \<open>One turn of the loop on an item that is no group.\<close>

lemma pf_loop_plain:
  assumes "wf_item i" "\<And>cs. i \<noteq> FGroup cs" "no_blank rest"
  shows "pf_loop (Suc k) str first limit n (show_item i @ '' '' @ rest) (st_of fs cc) =
    pf_loop k str first limit (n + int (item_width i)) rest
      (st_of (fs @ fst (lay_item cc n i)) (snd (lay_item cc n i)))"
proof -
  obtain c t where ct: "show_item i @ '' '' @ rest = c # t"
    "c \<noteq> CHR ''[''" "c \<noteq> CHR '']''" "c \<noteq> CHR ''|''"
    using show_item_head [OF assms(2)] by blast
  have "parse_field str n (c # t) (st_of fs cc) =
      (st_of (fs @ fst (lay_item cc n i)) (snd (lay_item cc n i)),
       Inr (n + int (item_width i), CHR '' '' # rest))"
    using parse_field_item [OF assms(1,2), of str n rest fs cc] ct(1) by simp
  with ct assms(3) show ?thesis by (simp add: no_blank_def)
qed

lemma pf_loop_show:
  fixes n :: int
  shows "\<lbrakk>wf_item i; 0 \<le> n; no_blank rest; length (show_item i @ '' '' @ rest) < Suc k\<rbrakk> \<Longrightarrow>
      pf_loop (Suc k) str first limit n (show_item i @ '' '' @ rest) (st_of fs cc) =
      pf_loop k str first limit (n + int (item_width i)) rest
        (st_of (fs @ fst (lay_item cc n i)) (snd (lay_item cc n i)))"
    and "\<lbrakk>wf_items is; 0 \<le> n; no_blank rest; length (show_items is @ rest) < k\<rbrakk> \<Longrightarrow>
      pf_loop k str first limit n (show_items is @ rest) (st_of fs cc) =
      pf_loop (k - length is) str first limit (n + int (items_width is)) rest
        (st_of (fs @ fst (lay_items cc n is)) (snd (lay_items cc n is)))"
    and "\<lbrakk>wf_choices w cs; cs \<noteq> []; 0 \<le> n; limit = -1 \<or> limit = n + int w;
        length (show_choices cs @ '']'' @ rest) < k\<rbrakk> \<Longrightarrow>
      pf_loop k str n limit n (show_choices cs @ '']'' @ rest) (st_of fs cc) =
      Some (st_of (fs @ fst (lay_choices cc n cs)) (snd (lay_choices cc n cs)), Inr (n + int w, rest))"
proof (induction i and "is" and cs arbitrary: n rest k str first limit fs cc and
    n rest k str first limit fs cc and n rest k str limit fs cc w
    rule: show_item_show_items_show_choices.induct)
  case (3 cs)
  obtain c cs' where cs: "cs = c # cs'" using 3(2) by (cases cs) auto
  have "pf_loop k (show_choices cs @ '']'' @ '' '' @ rest) n (-1) n (show_choices cs @ '']'' @ '' '' @ rest)
      (st_of fs cc) = Some (st_of (fs @ fst (lay_choices cc n cs)) (snd (lay_choices cc n cs)),
        Inr (n + int (items_width c), '' '' @ rest))"
    using 3 cs by (intro 3(1)) auto
  moreover have "no_blank (show_choices cs @ '']'' @ '' '' @ rest)"
    by (rule no_blank_choices) simp
  ultimately show ?case
    using 3(4) cs by (simp add: no_blank_def)
next
  case (5 i "is")
  then obtain k' where k: "k = Suc k'" by (cases k) auto
  have "pf_loop k str first limit n (show_item i @ '' '' @ (show_items is @ rest)) (st_of fs cc) =
      pf_loop k' str first limit (n + int (item_width i)) (show_items is @ rest)
        (st_of (fs @ fst (lay_item cc n i)) (snd (lay_item cc n i)))"
    unfolding k using 5 k by (intro 5(1)) (auto intro: no_blank_items)
  with 5 k show ?case by (simp add: Let_def add.assoc)
next
  case (7 c)
  have "pf_loop k str n limit n (show_items c @ ('']'' @ rest)) (st_of fs cc) =
      pf_loop (k - length c) str n limit (n + int (items_width c)) ('']'' @ rest)
        (st_of (fs @ fst (lay_items cc n c)) (snd (lay_items cc n c)))"
    using 7 by (intro 7(1)) auto
  moreover obtain j where "k - length c = Suc j"
    using 7 length_show_items [of c] by (cases "k - length c") auto
  ultimately show ?case using 7 by (auto simp: Let_def)
next
  case (8 c d cs)
  have "pf_loop k str n limit n (show_items c @ (''|'' @ show_choices (d # cs) @ '']'' @ rest)) (st_of fs cc) =
      pf_loop (k - length c) str n limit (n + int (items_width c)) (''|'' @ show_choices (d # cs) @ '']'' @ rest)
        (st_of (fs @ fst (lay_items cc n c)) (snd (lay_items cc n c)))"
    using 8 by (intro 8(1)) auto
  moreover obtain j where j: "k - length c = Suc j"
    using 8 length_show_items [of c] by (cases "k - length c") auto
  moreover have "pf_loop j str n (n + int w) n (show_choices (d # cs) @ '']'' @ rest)
        (st_of (fs @ fst (lay_items cc n c)) (snd (lay_items cc n c))) =
      Some (st_of ((fs @ fst (lay_items cc n c)) @ fst (lay_choices (snd (lay_items cc n c)) n (d # cs)))
          (snd (lay_choices (snd (lay_items cc n c)) n (d # cs))), Inr (n + int w, rest))"
    using 8 j length_show_items [of c] by (intro 8(2)) auto
  moreover have "no_blank (show_choices (d # cs) @ '']'' @ rest)"
    by (rule no_blank_choices) simp
  ultimately show ?case using 8(3,6)
    unfolding show_choices.simps(3) lay_choices.simps(2) [of cc n c] Let_def
    by (auto simp: no_blank_def simp del: show_choices.simps lay_choices.simps)
next
  case (1 nm sz sg)
  then show ?case by (intro pf_loop_plain) auto
next
  case (2 v sz sg)
  then show ?case by (intro pf_loop_plain) auto
qed auto

subsection \<open>Common fields\<close>

lemma has_field_iff: "has_field nm fs \<longleftrightarrow> nm \<in> field_name ` set fs"
  by (auto simp: has_field_def)

lemma names_number_fields [simp]: "map field_name (number_fields i fs) = map field_name fs"
  by (induction i fs rule: number_fields.induct) auto

lemma number_fields_Nil [simp]: "number_fields i fs = [] \<longleftrightarrow> fs = []"
  by (cases fs) auto

lemma names_update_commons:
  "map field_name (update_commons cs fs) =
    (if cs = [] then map field_name fs
     else filter (\<lambda>nm. nm \<in> field_name ` set fs) (map field_name cs))"
  by (simp add: update_commons_def has_field_iff filter_map o_def)

text \<open>
  The common fields after a sequence of instruction formats, as \<open>add_format\<close> maintains them.
\<close>

definition commons_of :: "ac_dec_field list list \<Rightarrow> ac_dec_field list" where
  "commons_of fss = foldl update_commons [] fss"

lemma commons_of_snoc: "commons_of (fss @ [fs]) = update_commons (commons_of fss) fs"
  by (simp add: commons_of_def)

lemma commons_of_names:
  assumes "fss \<noteq> []" "\<And>k. k < length fss \<Longrightarrow> \<exists>nm. \<forall>fs \<in> set (take (Suc k) fss). nm \<in> field_name ` set fs"
  shows "map field_name (commons_of fss) =
    filter (\<lambda>nm. \<forall>fs \<in> set fss. nm \<in> field_name ` set fs) (map field_name (hd fss))"
  using assms
proof (induction fss rule: rev_induct)
  case (snoc fs fss)
  show ?case
  proof (cases "fss = []")
    case True
    then show ?thesis
      by (auto simp: commons_of_def names_update_commons filter_id_conv intro!: filter_True [symmetric])
  next
    case False
    have "\<exists>nm. \<forall>fs \<in> set (take (Suc k) fss). nm \<in> field_name ` set fs" if "k < length fss" for k
      using snoc.prems(2) [of k] that by simp
    note names = snoc.IH [OF False this]
    have "length fss - 1 < length (fss @ [fs])" "take (Suc (length fss - 1)) (fss @ [fs]) = fss"
      using False by simp_all
    with snoc.prems(2) obtain nm where nm: "\<forall>fs \<in> set fss. nm \<in> field_name ` set fs"
      by metis
    have "hd fss \<in> set fss" using False by simp
    with nm have "nm \<in> field_name ` set (hd fss)" by (rule bspec)
    with nm have "nm \<in> set (map field_name (commons_of fss))"
      by (simp only: names set_filter set_map mem_Collect_eq simp_thms)
    then have "commons_of fss \<noteq> []" by (metis empty_iff list.set(1) list.simps(8))
    then have "map field_name (commons_of (fss @ [fs])) =
        filter (\<lambda>nm. nm \<in> field_name ` set fs)
          (filter (\<lambda>nm. \<forall>fs \<in> set fss. nm \<in> field_name ` set fs) (map field_name (hd fss)))"
      by (simp only: commons_of_snoc names_update_commons names if_False)
    also have "\<dots> = filter (\<lambda>nm. \<forall>fs \<in> set (fss @ [fs]). nm \<in> field_name ` set fs)
          (map field_name (hd (fss @ [fs])))"
      using False unfolding filter_filter by (intro filter_cong) auto
    finally show ?thesis .
  qed
qed simp

subsection \<open>Bounds of the layout\<close>

text \<open>Every field of a layout lies inside the bits of its items.\<close>

definition field_inside :: "int \<Rightarrow> int \<Rightarrow> ac_dec_field \<Rightarrow> bool" where
  "field_inside lo hi f \<longleftrightarrow> lo \<le> first_bit f - field_size f + 1 \<and> first_bit f < hi \<and> 0 \<le> field_size f"

lemma field_inside_mono:
  "field_inside lo hi f \<Longrightarrow> lo' \<le> lo \<Longrightarrow> hi \<le> hi' \<Longrightarrow> field_inside lo' hi' f"
  by (auto simp: field_inside_def)

lemma field_inside_mk [simp]: "field_inside n (n + int sz) (mk_field nm v sz sg n)"
  by (simp add: field_inside_def mk_field_def)

lemma lay_inside:
  "wf_item i \<Longrightarrow> f \<in> set (fst (lay_item cc n i)) \<Longrightarrow> field_inside n (n + int (item_width i)) f"
  "wf_items is \<Longrightarrow> f \<in> set (fst (lay_items cc n is)) \<Longrightarrow> field_inside n (n + int (items_width is)) f"
  "wf_choices w cs \<Longrightarrow> f \<in> set (fst (lay_choices cc n cs)) \<Longrightarrow> field_inside n (n + int w) f"
proof (induction cc n i and cc n "is" and cc n cs arbitrary: f and f and f w
    rule: lay_item_lay_items_lay_choices.induct)
  case (3 cc n cs)
  then show ?case by (cases cs) auto
next
  case (5 cc n i "is")
  then consider "f \<in> set (fst (lay_item cc n i))"
    | "f \<in> set (fst (lay_items (snd (lay_item cc n i)) (n + int (item_width i)) is))"
    by (auto simp: Let_def)
  then show ?case
  proof cases
    case 1
    with 5 have "field_inside n (n + int (item_width i)) f" by simp
    then show ?thesis by (rule field_inside_mono) auto
  next
    case 2
    with 5 have "field_inside (n + int (item_width i)) (n + int (item_width i) + int (items_width is)) f"
      by simp
    then show ?thesis by (rule field_inside_mono) auto
  qed
next
  case (7 cc n c cs)
  then show ?case using surj_pair [of "lay_items cc n c"] by (fastforce simp: Let_def)
qed auto

subsection \<open>Properties\<close>

text \<open>Parsing a format string always ends: \<open>add_format\<close> returns for every string, in
  every state, with a format or with an error message.\<close>
theorem add_format_returns: "\<exists>s' r. add_format name str is_instr s = Some (s', r)"
proof -
  let ?st = "\<lparr>ps_const_count = const_count s, ps_fields = stale_fields s, ps_tail = 0\<rparr>"
  have "parse_format (length str + 1) str 0 (-1) ?st \<noteq> None"
    unfolding parse_format_def using dropWhile_shorter [of isspace str]
    by (intro pf_loop_enough) simp
  then show ?thesis
    by (auto simp: add_format_def Let_def split: sum.split)
qed



text \<open>In the layout of a well-formed format every field lies within the bits of the
  format, so no field position leaves the instruction word.\<close>
theorem layout_inside_format:
  assumes "wf_items is" "f \<in> set (fst (lay_items cc 0 is))"
  shows "0 \<le> first_bit f - field_size f + 1 \<and> first_bit f < int (items_width is)"
  using lay_inside(2) [OF assms] by (simp add: field_inside_def)

theorem layout_inside_format_witness:
  "0 \<le> first_bit (mk_field ''rs'' 0 5 False 6) - field_size (mk_field ''rs'' 0 5 False 6) + 1 \<and>
   first_bit (mk_field ''rs'' 0 5 False 6) < int 11"
  using layout_inside_format [of "[FField ''op'' 6 False, FField ''rs'' 5 False]" "mk_field ''rs'' 0 5 False 6" 0]
  by simp

text \<open>As long as some name is common to all the instruction formats read so far, the
  common list holds exactly the fields of the first format whose names occur in every format,
  in the order of the first format.\<close>
theorem common_fields_exact:
  assumes "fss \<noteq> []"
    and "\<And>k. k < length fss \<Longrightarrow> \<exists>nm. \<forall>fs \<in> set (take (Suc k) fss). nm \<in> field_name ` set fs"
  shows "map field_name (commons_of fss) =
    filter (\<lambda>nm. \<forall>fs \<in> set fss. nm \<in> field_name ` set fs) (map field_name (hd fss))"
  using assms by (rule commons_of_names)

theorem common_fields_exact_witness:
  "map field_name (commons_of [[mk_field ''op'' 0 6 False 0, mk_field ''rs'' 0 5 False 6],
      [mk_field ''op'' 0 6 False 0, mk_field ''im'' 0 26 False 6]]) = [''op'']"
  (is "map field_name (commons_of [?a, ?b]) = _")
proof -
  have "\<exists>nm. \<forall>fs \<in> set (take (Suc k) [?a, ?b]). nm \<in> field_name ` set fs" for k
    by (rule exI [of _ "''op''"]) (cases k, auto simp: mk_field_def)
  from common_fields_exact [OF _ this, simplified] show ?thesis
    by (simp add: mk_field_def)
qed

text \<open>Once the common list has become empty, the next instruction format fills it again,
  as if it were the first: with the three formats \<open>%a:8\<close>, \<open>%b:8\<close> and \<open>%c:8\<close> the list
  of the fields common to all formats ends up holding \<open>c\<close>.\<close>
theorem common_fields_refilled:
  "\<exists>s1 s2 s3. add_format ''A'' ''%a:8'' True init_formats = Some (s1, None) \<and>
     add_format ''B'' ''%b:8'' True s1 = Some (s2, None) \<and> common_instr_field_list s2 = [] \<and>
     add_format ''C'' ''%c:8'' True s2 = Some (s3, None) \<and>
     map field_name (common_instr_field_list s3) = [''c'']"
  by (intro exI conjI) code_simp+

text \<open>A wrong format string leaves its fields in the static \<open>field_list\<close>, and the next
  format takes them over: after the rejected \<open>%a:8 %b:8 %c\<close>, the format \<open>%d:8\<close> is
  stored with the fields \<open>a\<close> and \<open>d\<close> although its size is 8.\<close>
theorem stale_fields_leak:
  "\<exists>s1 s2. add_format ''A'' ''%a:8 %b:8 %c'' True init_formats = Some (s1, Some (Size_not_given ''c'')) \<and>
     add_format ''D'' ''%d:8'' True s1 = Some (s2, None) \<and>
     map field_name (format_fields (last (format_ins_list s2))) = [''a'', ''d''] \<and>
     format_size (last (format_ins_list s2)) = 8"
  by (intro exI conjI) code_simp+

end
