(* ===== verification/CoreActions.thy ===== *)
theory CoreActions
  imports SymbolTable Formats
begin

text \<open>
  The semantic actions of \<open>archc/src/acpp/core_actions.c\<close> on instructions, groups, pipelines,
  storage devices and decode lists, and the two grammar actions of \<open>archc_grammar.y\<close> that
  keep the lists and the symbol table together. A pointer into one of the module's lists is
  the index of the element; \<open>void*\<close> in the symbol table is \<open>info\<close>, whose constructor says
  what was stored there. The host is little-endian, and every operation takes the placement
  of the name it hashes.
\<close>

subsection \<open>State\<close>

datatype info =
    Instr_ptr nat
  | Format_ptr "nat option"
  | Reg_format_ptr "nat option"
  | Group_ptr nat
  | Storage_ptr nat

datatype ac_sto_types = MEM | CACHE | ICACHE | DCACHE | REG | REGBANK | TLM_PORT | TLM_INTR_PORT

record ac_cache_parms =
  parm_str :: "string option"
  parm_value :: nat

record ac_sto_list =
  sto_name :: string
  sto_format :: "string option"
  sto_size :: nat
  sto_width :: nat
  sto_level :: nat
  sto_type :: ac_sto_types
  sto_parms :: "ac_cache_parms list"

record ac_stg_list =
  stg_name :: string
  stg_id :: nat

record ac_pipe_list =
  pipe_name :: string
  pipe_id :: nat
  pipe_stages :: "ac_stg_list list"

record ac_grp_list =
  grp_name :: string
  grp_id :: nat
  grp_instrs :: "info list"

text \<open>
  \<open>group_list_tail\<close> is the one list pointer \<open>init_core_actions\<close> does not reset; all that
  matters of it is whether it is \<open>NULL\<close>. \<open>fetch_device\<close> is the last instruction cache.
\<close>

record core_state =
  symbol_table :: "info symbol_table"
  formats :: format_state
  instr_list :: "ac_dec_instr list"
  instr_num :: nat
  group_list :: "ac_grp_list list"
  group_list_tail_set :: bool
  group_num :: nat
  pipe_list :: "ac_pipe_list list"
  pipe_num :: nat
  stage_num :: nat
  storage_list :: "ac_sto_list list"
  tlm_intr_port_list :: "ac_sto_list list"
  parms_list :: "ac_cache_parms list"
  fetch_device :: "ac_sto_list option"
  reg_width :: nat

definition init_core_actions :: "core_state \<Rightarrow> core_state" where
  "init_core_actions s = \<lparr>symbol_table = empty_symbol_table, formats = init_formats,
     instr_list = [], instr_num = 0, group_list = [], group_list_tail_set = group_list_tail_set s,
     group_num = 0, pipe_list = [], pipe_num = 0, stage_num = 0, storage_list = [],
     tlm_intr_port_list = [], parms_list = [], fetch_device = None, reg_width = 0\<rparr>"

text \<open>The static data of the process before the first call is all zero.\<close>

definition start_core :: core_state where
  "start_core = init_core_actions \<lparr>symbol_table = [], formats = init_formats, instr_list = [],
     instr_num = 0, group_list = [], group_list_tail_set = False, group_num = 0, pipe_list = [],
     pipe_num = 0, stage_num = 0, storage_list = [], tlm_intr_port_list = [], parms_list = [],
     fetch_device = None, reg_width = 0\<rparr>"

definition place0 :: place where
  "place0 = \<lparr>place_addr = 0, place_behind = (\<lambda>_. 0)\<rparr>"

text \<open>The messages of the actions.\<close>

datatype core_error =
    Duplicated_instruction string
  | Undeclared_instruction string
  | Already_in_group string
  | Invalid_cache_size string
  | Undeclared_arguments
  | Format_not_found string
  | Field_not_found string string string
  | Value_too_big string string int
  | Undefined_shift int

subsection \<open>Lookups\<close>

definition find_instr :: "place \<Rightarrow> core_state \<Rightarrow> string \<Rightarrow> info option" where
  "find_instr pl s name =
     map_option entry_info (find_symbol Little_Endian pl (symbol_table s) name INSTR)"

definition find_format :: "place \<Rightarrow> core_state \<Rightarrow> string \<Rightarrow> info option" where
  "find_format pl s name =
     map_option entry_info (find_symbol Little_Endian pl (symbol_table s) name INSTR_FMT)"

definition find_storage :: "core_state \<Rightarrow> string \<Rightarrow> ac_sto_list option" where
  "find_storage s name = find_first (\<lambda>p. strcmp (sto_name p) name = 0) (storage_list s)"

definition find_field :: "ac_dec_format \<Rightarrow> string \<Rightarrow> ac_dec_field option" where
  "find_field pformat name = find_first (\<lambda>p. strcmp (field_name p) name = 0) (format_fields pformat)"

subsection \<open>Instructions, groups, pipelines\<close>

definition new_instr :: "string \<Rightarrow> string \<Rightarrow> nat \<Rightarrow> ac_dec_instr" where
  "new_instr name typestr n = \<lparr>instr_name = name, instr_size = 0, instr_mnemonic = None,
     instr_asm_str = None, instr_format = typestr, instr_id = n, instr_cycles = 1,
     instr_min_latency = 1, instr_max_latency = 1, instr_dec_list = [], instr_cflow = None\<rparr>"

text \<open>
  \<open>*pinstr\<close> is the new instruction also when it is refused: then no list reaches it, which is
  the result \<open>None\<close> here. The first instruction of all is not looked up.
\<close>

definition add_instr ::
  "place \<Rightarrow> string \<Rightarrow> string \<Rightarrow> core_state \<Rightarrow> core_state \<times> (core_error + nat)" where
  "add_instr pl name typestr s =
     (let s = s\<lparr>instr_num := instr_num s + 1\<rparr>; p = new_instr name typestr (instr_num s) in
      if instr_list s \<noteq> [] \<and> find_instr pl s name \<noteq> None then (s, Inl (Duplicated_instruction name))
      else (s\<lparr>instr_list := instr_list s @ [p]\<rparr>, Inr (length (instr_list s))))"

definition add_group :: "string \<Rightarrow> core_state \<Rightarrow> core_state" where
  "add_group name s =
     (let s = s\<lparr>group_num := group_num s + 1\<rparr>;
          g = \<lparr>grp_name = name, grp_id = group_num s, grp_instrs = []\<rparr>
      in if group_list_tail_set s
         then (if group_list s = [] then s else s\<lparr>group_list := group_list s @ [g]\<rparr>)
         else s\<lparr>group_list := [g], group_list_tail_set := True\<rparr>)"

text \<open>
  The loop over a group's references: it stops at the last element without comparing it. The
  result is whether the new reference was met.
\<close>

fun ref_loop :: "info \<Rightarrow> info list \<Rightarrow> bool" where
  "ref_loop i (x # y # xs) = (if x = i then True else ref_loop i (y # xs))"
| "ref_loop i xs = False"

definition add_instr_ref ::
  "place \<Rightarrow> core_state \<Rightarrow> string \<Rightarrow> info list \<Rightarrow> info list \<times> nat \<times> core_error option" where
  "add_instr_ref pl s name refs =
     (case find_instr pl s name of
        None \<Rightarrow> (refs, 0, Some (Undeclared_instruction name))
      | Some i \<Rightarrow>
          (case refs of
             [] \<Rightarrow> ([i], 1, None)
           | x # xs \<Rightarrow>
               if x = i then (refs, 2, Some (Already_in_group name))
               else if ref_loop i refs then (refs, 2, Some (Already_in_group name))
               else (refs @ [i], 1, None)))"

definition add_pipe :: "string \<Rightarrow> core_state \<Rightarrow> core_state" where
  "add_pipe name s =
     (let s = s\<lparr>pipe_num := pipe_num s + 1\<rparr>
      in s\<lparr>pipe_list := pipe_list s @ [\<lparr>pipe_name = name, pipe_id = pipe_num s, pipe_stages = []\<rparr>]\<rparr>)"

definition add_stage :: "string \<Rightarrow> ac_stg_list list \<Rightarrow> core_state \<Rightarrow> ac_stg_list list \<times> core_state" where
  "add_stage name listp s =
     (let s = s\<lparr>stage_num := stage_num s + 1\<rparr>
      in (listp @ [\<lparr>stg_name = name, stg_id = stage_num s\<rparr>], s))"

subsection \<open>Storage devices\<close>

text \<open>
  A refused cache declaration (no parameters and no size) changes nothing. \<open>parms\<close> is not
  written for other devices; the model leaves the list empty there.
\<close>

definition add_storage ::
  "string \<Rightarrow> nat \<Rightarrow> ac_sto_types \<Rightarrow> string option \<Rightarrow> core_state \<Rightarrow> core_state \<times> core_error option" where
  "add_storage name sz type typestr s =
     (let is_cache = (type = CACHE \<or> type = ICACHE \<or> type = DCACHE);
          fmt = (if type = REG then typestr else None);
          parms = (if is_cache then parms_list s else []);
          p = \<lparr>sto_name = name, sto_format = fmt, sto_size = sz,
               sto_width = (if (type = REGBANK \<or> type = REG) \<and> reg_width s \<noteq> 0 then reg_width s else 0),
               sto_level = 0, sto_type = type, sto_parms = parms\<rparr>
      in if is_cache \<and> parms_list s = [] \<and> sz = 0 then (s, Some (Invalid_cache_size name))
         else let s = (if is_cache then s\<lparr>parms_list := []\<rparr> else s);
                  s = (if type = ICACHE then s\<lparr>fetch_device := Some p\<rparr> else s)
              in (if type = TLM_INTR_PORT then s\<lparr>tlm_intr_port_list := tlm_intr_port_list s @ [p]\<rparr>
                  else s\<lparr>storage_list := storage_list s @ [p]\<rparr>, None))"

definition add_parms :: "string option \<Rightarrow> nat \<Rightarrow> core_state \<Rightarrow> core_state" where
  "add_parms name v s = s\<lparr>parms_list := parms_list s @ [\<lparr>parm_str = name, parm_value = v\<rparr>]\<rparr>"

subsection \<open>Decode lists and control flow\<close>

text \<open>
  \<open>1 << size\<close> on \<open>int\<close> is defined only when the result fits, so the check of the value is an
  error of its own outside that range.
\<close>

definition dec_value_max :: "int \<Rightarrow> int option" where
  "dec_value_max sz = (if 0 \<le> sz \<and> sz < 31 then Some (2 ^ nat sz - 1) else None)"

definition format_at :: "core_state \<Rightarrow> info \<Rightarrow> ac_dec_format option" where
  "format_at s i =
     (case i of
        Format_ptr (Some k) \<Rightarrow>
          if k < length (format_ins_list (formats s)) then Some (format_ins_list (formats s) ! k) else None
      | Reg_format_ptr (Some k) \<Rightarrow>
          if k < length (format_reg_list (formats s)) then Some (format_reg_list (formats s) ! k) else None
      | _ \<Rightarrow> None)"

text \<open>
  \<open>pinstr\<close> is \<open>NULL\<close> or an instruction of the list. A name that is not a format, whose
  pointer the C code would misuse, is reported as not found.
\<close>

definition add_dec_list ::
  "place \<Rightarrow> nat option \<Rightarrow> string \<Rightarrow> int \<Rightarrow> core_state \<Rightarrow> core_state \<times> core_error option" where
  "add_dec_list pl pinstr name v s =
     (case pinstr of
        None \<Rightarrow> (s, Some Undeclared_arguments)
      | Some k \<Rightarrow>
          let p = instr_list s ! k in
          (case Option.bind (find_format pl s (instr_format p)) (format_at s) of
             None \<Rightarrow> (s, Some (Format_not_found (instr_name p)))
           | Some pformat \<Rightarrow>
               (case find_field pformat name of
                  None \<Rightarrow> (s, Some (Field_not_found (instr_name p) name (format_name pformat)))
                | Some pfield \<Rightarrow>
                    (case dec_value_max (field_size pfield) of
                       None \<Rightarrow> (s, Some (Undefined_shift (field_size pfield)))
                     | Some m \<Rightarrow>
                         if m < v then (s, Some (Value_too_big (instr_name p) name v))
                         else
                           (let d = \<lparr>dl_name = name, dl_id = 0, dl_value = v\<rparr>;
                                p' = p\<lparr>instr_dec_list := instr_dec_list p @ [d]\<rparr>
                            in (s\<lparr>instr_list := (instr_list s)[k := p']\<rparr>, None))))))"

definition empty_control_flow :: ac_control_flow where
  "empty_control_flow = \<lparr>cf_cond = None, cf_target = None, cf_delay_slot = 0,
     cf_delay_slot_cond = None, cf_action = None\<rparr>"

definition get_control_flow_struct :: "ac_dec_instr \<Rightarrow> ac_dec_instr \<times> ac_control_flow" where
  "get_control_flow_struct p =
     (case instr_cflow p of
        None \<Rightarrow> (p\<lparr>instr_cflow := Some empty_control_flow\<rparr>, empty_control_flow)
      | Some c \<Rightarrow> (p, c))"

definition toupper :: "char \<Rightarrow> char" where
  "toupper c = (if islower c then char_of (of_char c - 32 :: nat) else c)"

definition str_upper :: "string \<Rightarrow> string" where
  "str_upper s = map toupper s"

subsection \<open>The actions of the grammar\<close>

text \<open>
  \<open>formatdec\<close>: an error of \<open>add_format\<close> is reported but does not stop the action, which goes on
  to bind the name to whatever is the last format. The result lists what was reported.
\<close>

datatype grammar_error = Format_err format_error | Redefinition string | Core_err core_error | Internal_bug

definition last_index :: "'a list \<Rightarrow> nat option" where
  "last_index xs = (if xs = [] then None else Some (length xs - 1))"

definition formatdec ::
  "place \<Rightarrow> string \<Rightarrow> string \<Rightarrow> core_state \<Rightarrow> (core_state \<times> grammar_error list) option" where
  "formatdec pl name str s =
     (case add_format name str True (formats s) of
        None \<Rightarrow> None
      | Some (f, r) \<Rightarrow>
          (let errs = (case r of Some e \<Rightarrow> [Format_err e] | None \<Rightarrow> []);
               (ok, tab) = add_symbol Little_Endian pl (symbol_table s) name INSTR_FMT
                             (Format_ptr (last_index (format_ins_list f)))
           in Some (s\<lparr>formats := f, symbol_table := tab\<rparr>,
                    errs @ (if ok then [] else [Redefinition name]))))"

definition instrdec ::
  "place \<Rightarrow> string \<Rightarrow> string \<Rightarrow> core_state \<Rightarrow> core_state \<times> grammar_error list" where
  "instrdec pl typestr name s =
     (if find_instr pl s name \<noteq> None then (s, [Redefinition name])
      else (case add_instr pl name typestr s of
              (s, Inl e) \<Rightarrow> (s, [Core_err e])
            | (s, Inr k) \<Rightarrow>
                (let (ok, tab) = add_symbol Little_Endian pl (symbol_table s) name INSTR (Instr_ptr k)
                 in (s\<lparr>symbol_table := tab\<rparr>, if ok then [] else [Internal_bug]))))"

subsection \<open>The declarations keep the lists and the symbol table together\<close>

definition sym_of :: "core_state \<Rightarrow> string \<Rightarrow> (ac_parser_type \<times> info) option" where
  "sym_of s name = sym_lookup place0 (symbol_table s) name"

lemma find_symbol_sym_of:
  "find_symbol Little_Endian pl (symbol_table s) name t = None \<longleftrightarrow> sym_of s name = None"
  unfolding sym_of_def by (rule sym_lookup_None [symmetric])

lemma find_instr_sym_of: "find_instr pl s name = map_option snd (sym_of s name)"
  using find_symbol_place [of pl "symbol_table s" name INSTR "place0" GEN_ID]
  by (simp add: find_instr_def sym_of_def sym_lookup_def option.map_comp o_def)

lemma find_format_sym_of: "find_format pl s name = find_instr pl' s name"
  using find_symbol_place [of pl "symbol_table s" name INSTR_FMT pl' INSTR]
  by (simp add: find_instr_def find_format_def)

lemma sym_of_cong: "symbol_table s' = symbol_table s \<Longrightarrow> sym_of s' = sym_of s"
  by (simp add: sym_of_def fun_eq_iff)

lemma sym_of_add:
  assumes "table_ok (symbol_table s)"
  shows "sym_of (s'\<lparr>symbol_table := snd (add_symbol Little_Endian pl (symbol_table s) name t i)\<rparr>) nm =
    (case sym_of s nm of Some e \<Rightarrow> Some e | None \<Rightarrow> if nm = name then Some (t, i) else None)"
  using hash_symbols.lookup_declare [OF assms, of "place0" pl name "(t, i)" nm]
  by (simp add: sym_of_def sym_declare_def)

lemma add_symbol_ok_iff:
  "fst (add_symbol Little_Endian pl (symbol_table s) name t i) \<longleftrightarrow> sym_of s name = None"
proof (cases "sym_of s name = None")
  case True
  then show ?thesis using find_symbol_sym_of [of pl s name t] by (simp add: add_symbol_new)
next
  case False
  then show ?thesis using find_symbol_sym_of [of pl s name t] by (simp add: add_symbol_known)
qed

text \<open>
  The invariant: the table has its buckets, every instruction of the list is the one its name
  finds, and the identifiers grow along the list and stay below the counter.
\<close>

definition core_ok :: "core_state \<Rightarrow> bool" where
  "core_ok s \<longleftrightarrow> table_ok (symbol_table s) \<and>
     (\<forall>k < length (instr_list s). sym_of s (instr_name (instr_list s ! k)) = Some (INSTR, Instr_ptr k)) \<and>
     sorted_wrt (<) (map instr_id (instr_list s)) \<and>
     (\<forall>p \<in> set (instr_list s). 0 < instr_id p \<and> instr_id p \<le> instr_num s)"

lemma core_ok_init: "core_ok (init_core_actions s)"
  by (simp add: core_ok_def init_core_actions_def hash_symbols.invar_empty)

lemma table_ok_add_core: "table_ok (symbol_table s) \<Longrightarrow>
    table_ok (snd (add_symbol Little_Endian pl (symbol_table s) name t i))"
  by (rule table_ok_add)

lemma core_ok_formatdec:
  assumes "core_ok s" "formatdec pl name str s = Some (s', errs)"
  shows "core_ok s'"
proof -
  obtain f r where f: "add_format name str True (formats s) = Some (f, r)"
    using assms(2) by (auto simp: formatdec_def split: option.splits)
  let ?i = "Format_ptr (last_index (format_ins_list f))"
  let ?tab = "snd (add_symbol Little_Endian pl (symbol_table s) name INSTR_FMT ?i)"
  have s': "s' = (s\<lparr>formats := f\<rparr>)\<lparr>symbol_table := ?tab\<rparr>"
    using assms(2) f by (auto simp: formatdec_def Let_def split_beta)
  have "table_ok (symbol_table s)" using assms(1) by (simp add: core_ok_def)
  with assms(1) show ?thesis
    unfolding core_ok_def s' sym_of_add [OF \<open>table_ok (symbol_table s)\<close>]
    by (simp add: table_ok_add_core)
qed

lemma core_ok_instrdec:
  assumes "core_ok s"
  shows "core_ok (fst (instrdec pl typestr name s))"
proof (cases "sym_of s name")
  case (Some e)
  then show ?thesis using assms by (simp add: instrdec_def find_instr_sym_of)
next
  case None
  let ?n = "instr_num s + 1" and ?k = "length (instr_list s)"
  let ?tab = "snd (add_symbol Little_Endian pl (symbol_table s) name INSTR (Instr_ptr ?k))"
  let ?s = "s\<lparr>instr_num := ?n, instr_list := instr_list s @ [new_instr name typestr ?n]\<rparr>"
  have tab: "table_ok (symbol_table s)" using assms by (simp add: core_ok_def)
  have "sym_of (s\<lparr>instr_num := ?n\<rparr>) name = None"
    using None sym_of_cong [of "s\<lparr>instr_num := ?n\<rparr>" s] by simp
  then have "add_instr pl name typestr s = (?s, Inr ?k)"
    by (simp add: add_instr_def Let_def find_instr_sym_of)
  then have res: "fst (instrdec pl typestr name s) = ?s\<lparr>symbol_table := ?tab\<rparr>"
    using None by (simp add: instrdec_def find_instr_sym_of Let_def split_beta)
  have "sym_of (?s\<lparr>symbol_table := ?tab\<rparr>) nm = (if nm = name then Some (INSTR, Instr_ptr ?k) else sym_of s nm)"
    for nm
    unfolding sym_of_add [OF tab] using None by (simp split: option.split)
  moreover have "instr_name p \<noteq> name" if "p \<in> set (instr_list s)" for p
    using assms None that by (auto simp: core_ok_def in_set_conv_nth)
  ultimately show ?thesis
    using assms table_ok_add_core [OF tab]
    unfolding res core_ok_def
    by (auto simp: nth_append less_Suc_eq sorted_wrt_append new_instr_def intro: le_SucI)
qed

subsection \<open>Decode lists only hold checked entries\<close>

definition fmt_of :: "core_state \<Rightarrow> string \<Rightarrow> ac_dec_format option" where
  "fmt_of s nm = Option.bind (map_option snd (sym_of s nm)) (format_at s)"

definition entry_ok :: "ac_dec_format \<Rightarrow> ac_dec_list \<Rightarrow> bool" where
  "entry_ok pf d \<longleftrightarrow> (\<exists>f \<in> set (format_fields pf). field_name f = dl_name d \<and>
     0 \<le> field_size f \<and> field_size f < 31 \<and> dl_value d < 2 ^ nat (field_size f))"

definition dec_lists_ok :: "core_state \<Rightarrow> bool" where
  "dec_lists_ok s \<longleftrightarrow> (\<forall>p \<in> set (instr_list s). instr_dec_list p \<noteq> [] \<longrightarrow>
     (\<exists>pf. fmt_of s (instr_format p) = Some pf \<and> (\<forall>d \<in> set (instr_dec_list p). entry_ok pf d)))"

lemma bind_find_format: "Option.bind (find_format pl s nm) (format_at s) = fmt_of s nm"
  using find_format_sym_of [of pl s nm pl] by (simp add: fmt_of_def find_instr_sym_of)

lemma add_format_prefix:
  "add_format name str b f = Some (f', r) \<Longrightarrow> \<exists>xs. format_ins_list f' = format_ins_list f @ xs"
  "add_format name str b f = Some (f', r) \<Longrightarrow> \<exists>xs. format_reg_list f' = format_reg_list f @ xs"
  by (auto simp: add_format_def Let_def split: option.splits sum.splits prod.splits if_splits)

lemma format_at_mono:
  assumes "\<exists>xs. format_ins_list (formats s') = format_ins_list (formats s) @ xs"
    and "\<exists>xs. format_reg_list (formats s') = format_reg_list (formats s) @ xs"
    and "format_at s i = Some pf"
  shows "format_at s' i = Some pf"
  using assms by (auto simp: format_at_def nth_append split: info.splits option.splits if_splits)

lemma fmt_of_mono:
  assumes "\<exists>xs. format_ins_list (formats s') = format_ins_list (formats s) @ xs"
    and "\<exists>xs. format_reg_list (formats s') = format_reg_list (formats s) @ xs"
    and "\<And>e. sym_of s nm = Some e \<Longrightarrow> sym_of s' nm = Some e"
    and "fmt_of s nm = Some pf"
  shows "fmt_of s' nm = Some pf"
  using assms(3,4) format_at_mono [OF assms(1,2)]
  by (auto simp: fmt_of_def bind_eq_Some_conv)

lemma dec_lists_ok_mono:
  assumes "dec_lists_ok s"
    and "\<And>nm pf. fmt_of s nm = Some pf \<Longrightarrow> fmt_of s' nm = Some pf"
    and "\<And>p. p \<in> set (instr_list s') \<Longrightarrow> p \<in> set (instr_list s) \<or> instr_dec_list p = []"
  shows "dec_lists_ok s'"
  using assms unfolding dec_lists_ok_def by (metis empty_iff)

lemma dec_lists_ok_formatdec:
  assumes "core_ok s" "dec_lists_ok s" "formatdec pl name str s = Some (s', errs)"
  shows "dec_lists_ok s'"
proof -
  obtain f r where f: "add_format name str True (formats s) = Some (f, r)"
    using assms(3) by (auto simp: formatdec_def split: option.splits)
  let ?i = "Format_ptr (last_index (format_ins_list f))"
  have s': "s' = (s\<lparr>formats := f\<rparr>)\<lparr>symbol_table := snd (add_symbol Little_Endian pl (symbol_table s) name INSTR_FMT ?i)\<rparr>"
    using assms(3) f by (auto simp: formatdec_def Let_def split_beta)
  have tab: "table_ok (symbol_table s)" using assms(1) by (simp add: core_ok_def)
  have "fmt_of s' nm = Some pf" if "fmt_of s nm = Some pf" for nm pf
  proof (rule fmt_of_mono [OF _ _ _ that])
    show "\<exists>xs. format_ins_list (formats s') = format_ins_list (formats s) @ xs"
      "\<exists>xs. format_reg_list (formats s') = format_reg_list (formats s) @ xs"
      using add_format_prefix [OF f] by (simp_all add: s')
  next
    fix e assume "sym_of s nm = Some e"
    then show "sym_of s' nm = Some e" unfolding s' sym_of_add [OF tab] by simp
  qed
  from dec_lists_ok_mono [OF assms(2) this] show ?thesis by (simp add: s')
qed

lemma instrdec_cases:
  assumes "core_ok s"
  obtains "fst (instrdec pl typestr name s) = s"
  | s' where "s' = fst (instrdec pl typestr name s)" "formats s' = formats s"
      "instr_list s' = instr_list s @ [new_instr name typestr (instr_num s + 1)]"
      "\<And>nm e. sym_of s nm = Some e \<Longrightarrow> sym_of s' nm = Some e"
proof (cases "sym_of s name")
  case (Some e)
  then show ?thesis by (intro that(1)) (simp add: instrdec_def find_instr_sym_of)
next
  case None
  let ?s = "s\<lparr>instr_num := instr_num s + 1, instr_list := instr_list s @ [new_instr name typestr (instr_num s + 1)]\<rparr>"
  let ?tab = "snd (add_symbol Little_Endian pl (symbol_table s) name INSTR (Instr_ptr (length (instr_list s))))"
  have tab: "table_ok (symbol_table s)" using assms by (simp add: core_ok_def)
  have "sym_of (s\<lparr>instr_num := instr_num s + 1\<rparr>) name = None"
    using None sym_of_cong [of "s\<lparr>instr_num := instr_num s + 1\<rparr>" s] by simp
  then have res: "fst (instrdec pl typestr name s) = ?s\<lparr>symbol_table := ?tab\<rparr>"
    using None by (simp add: instrdec_def add_instr_def find_instr_sym_of Let_def split_beta)
  show ?thesis
  proof (rule that(2) [OF refl])
    fix nm e assume "sym_of s nm = Some e"
    then show "sym_of (fst (instrdec pl typestr name s)) nm = Some e"
      unfolding res sym_of_add [OF tab] by simp
  qed (simp_all add: res)
qed

lemma dec_lists_ok_instrdec:
  assumes "core_ok s" "dec_lists_ok s"
  shows "dec_lists_ok (fst (instrdec pl typestr name s))"
  using assms(1)
proof (rule instrdec_cases [where pl = pl and typestr = typestr and name = name])
  assume "fst (instrdec pl typestr name s) = s"
  with assms(2) show ?thesis by simp
next
  fix s' assume s': "s' = fst (instrdec pl typestr name s)" "formats s' = formats s"
    "instr_list s' = instr_list s @ [new_instr name typestr (instr_num s + 1)]"
    "\<And>nm e. sym_of s nm = Some e \<Longrightarrow> sym_of s' nm = Some e"
  have "fmt_of s' nm = Some pf" if "fmt_of s nm = Some pf" for nm pf
    using s' by (intro fmt_of_mono [OF _ _ _ that]) auto
  moreover have "p \<in> set (instr_list s) \<or> instr_dec_list p = []" if "p \<in> set (instr_list s')" for p
    using that s'(3) by (auto simp: new_instr_def)
  ultimately show ?thesis
    unfolding s'(1) [symmetric] by (rule dec_lists_ok_mono [OF assms(2)])
qed

lemma add_dec_list_refused:
  "snd (add_dec_list pl pinstr name v s) \<noteq> None \<Longrightarrow> fst (add_dec_list pl pinstr name v s) = s"
  by (auto simp: add_dec_list_def Let_def split: option.splits)

lemma add_dec_list_accepted:
  assumes "snd (add_dec_list pl pinstr name v s) = None"
  obtains k p pf f m where "pinstr = Some k" "p = instr_list s ! k"
    "fmt_of s (instr_format p) = Some pf" "find_field pf name = Some f"
    "dec_value_max (field_size f) = Some m" "v \<le> m"
    "fst (add_dec_list pl pinstr name v s) = s\<lparr>instr_list := (instr_list s)[k :=
       p\<lparr>instr_dec_list := instr_dec_list p @ [\<lparr>dl_name = name, dl_id = 0, dl_value = v\<rparr>]\<rparr>]\<rparr>"
proof -
  obtain k where k: "pinstr = Some k"
    using assms by (cases pinstr) (auto simp: add_dec_list_def)
  let ?p = "instr_list s ! k"
  obtain pf where pf: "fmt_of s (instr_format ?p) = Some pf"
    using assms k by (cases "fmt_of s (instr_format ?p)") (auto simp: add_dec_list_def bind_find_format)
  obtain f where f: "find_field pf name = Some f"
    using assms k pf by (cases "find_field pf name") (auto simp: add_dec_list_def bind_find_format)
  obtain m where m: "dec_value_max (field_size f) = Some m"
    using assms k pf f
    by (cases "dec_value_max (field_size f)") (auto simp: add_dec_list_def bind_find_format)
  have v: "v \<le> m"
    using assms k pf f m by (auto simp: add_dec_list_def bind_find_format Let_def split: if_splits)
  show thesis
    using that [OF k refl pf f m v] k pf f m v
    by (simp add: add_dec_list_def bind_find_format Let_def)
qed

lemma add_dec_list_ok:
  assumes "core_ok s" "dec_lists_ok s" "\<And>k. pinstr = Some k \<Longrightarrow> k < length (instr_list s)"
  shows "core_ok (fst (add_dec_list pl pinstr name v s)) \<and>
    dec_lists_ok (fst (add_dec_list pl pinstr name v s))"
proof (cases "snd (add_dec_list pl pinstr name v s) = None")
  case False
  with assms(1,2) show ?thesis by (simp add: add_dec_list_refused)
next
  case True
  then obtain k p pf f m where r: "pinstr = Some k" "p = instr_list s ! k"
    "fmt_of s (instr_format p) = Some pf" "find_field pf name = Some f"
    "dec_value_max (field_size f) = Some m" "v \<le> m" and
    res: "fst (add_dec_list pl pinstr name v s) = s\<lparr>instr_list := (instr_list s)[k :=
       p\<lparr>instr_dec_list := instr_dec_list p @ [\<lparr>dl_name = name, dl_id = 0, dl_value = v\<rparr>]\<rparr>]\<rparr>"
      (is "_ = s\<lparr>instr_list := _[k := ?p']\<rparr>")
    by (rule add_dec_list_accepted)
  have k: "k < length (instr_list s)" using assms(3) [OF r(1)] .
  have syms: "sym_of (s\<lparr>instr_list := ps\<rparr>) = sym_of s" for ps
    by (rule sym_of_cong) simp
  have fmts: "fmt_of (s\<lparr>instr_list := ps\<rparr>) nm = fmt_of s nm" for ps nm
  proof -
    have "format_at (s\<lparr>instr_list := ps\<rparr>) = format_at s"
      by (rule ext) (simp add: format_at_def split: info.split option.split)
    then show ?thesis by (simp add: fmt_of_def syms)
  qed
  have "map instr_id ((instr_list s)[k := ?p']) = map instr_id (instr_list s)"
  proof -
    have "instr_id ?p' = instr_id (instr_list s ! k)" unfolding r(2) by simp
    then show ?thesis using k by (metis list_update_id map_update)
  qed
  moreover have "p \<in> set (instr_list s)" using k r(2) by simp
  ultimately have "core_ok (s\<lparr>instr_list := (instr_list s)[k := ?p']\<rparr>)"
    using assms(1) k r(2) by (auto simp: core_ok_def syms nth_list_update dest!: set_update_subset_insert [THEN subsetD])
  moreover have "entry_ok pf \<lparr>dl_name = name, dl_id = 0, dl_value = v\<rparr>"
    using r(4-6) by (auto simp: entry_ok_def find_field_def dec_value_max_def
        dest!: find_first_SomeD split: if_splits)
  then have "dec_lists_ok (s\<lparr>instr_list := (instr_list s)[k := ?p']\<rparr>)"
    using assms(2) r(2,3) \<open>p \<in> set (instr_list s)\<close>
    by (fastforce simp: dec_lists_ok_def fmts dest!: set_update_subset_insert [THEN subsetD])
  ultimately show ?thesis by (simp add: res)
qed

subsection \<open>Reachable states of the preprocessor\<close>

text \<open>One rule per declaration of a description; \<open>pinstr\<close> is an instruction already listed.\<close>

inductive core_step :: "core_state \<Rightarrow> core_state \<Rightarrow> bool" where
  step_format: "formatdec pl name str s = Some (s', errs) \<Longrightarrow> core_step s s'"
| step_instr: "core_step s (fst (instrdec pl typestr name s))"
| step_dec: "k < length (instr_list s) \<Longrightarrow> core_step s (fst (add_dec_list pl (Some k) name v s))"
| step_group: "core_step s (add_group name s)"
| step_pipe: "core_step s (add_pipe name s)"
| step_storage: "core_step s (fst (add_storage name sz t typestr s))"
| step_parms: "core_step s (add_parms pname pv s)"

inductive_cases core_stepE: "core_step s s'"

inductive core_reachable :: "core_state \<Rightarrow> bool" where
  reach_init: "core_reachable (init_core_actions s)"
| reach_step: "core_reachable s \<Longrightarrow> core_step s s' \<Longrightarrow> core_reachable s'"

lemma core_frame:
  assumes "core_ok s \<and> dec_lists_ok s" "symbol_table s' = symbol_table s" "formats s' = formats s"
    "instr_list s' = instr_list s" "instr_num s' = instr_num s"
  shows "core_ok s' \<and> dec_lists_ok s'"
proof -
  have "sym_of s' = sym_of s" using assms(2) by (rule sym_of_cong)
  moreover have "format_at s' = format_at s"
    by (rule ext) (simp add: format_at_def assms(3) split: info.split option.split)
  ultimately show ?thesis
    using assms by (simp add: core_ok_def dec_lists_ok_def fmt_of_def)
qed

lemma core_step_ok:
  assumes "core_step s s'" "core_ok s \<and> dec_lists_ok s"
  shows "core_ok s' \<and> dec_lists_ok s'"
  using assms
proof (cases rule: core_step.cases)
  case (step_format pl name str errs)
  with assms(2) show ?thesis by (blast intro: core_ok_formatdec dec_lists_ok_formatdec)
next
  case (step_instr pl typestr name)
  with assms(2) show ?thesis by (simp add: core_ok_instrdec dec_lists_ok_instrdec)
next
  case (step_dec k pl name v)
  then show ?thesis
    using assms(2) add_dec_list_ok [of s "Some k" pl name v] by simp
qed (use core_frame [OF assms(2), of s'] in
    \<open>simp add: add_group_def add_pipe_def add_storage_def add_parms_def Let_def\<close>)+

lemma core_reachable_ok: "core_reachable s \<Longrightarrow> core_ok s \<and> dec_lists_ok s"
proof (induction rule: core_reachable.induct)
  case (reach_init s)
  have "dec_lists_ok (init_core_actions s)" by (simp add: dec_lists_ok_def init_core_actions_def)
  then show ?case using core_ok_init by blast
next
  case (reach_step s s')
  from core_step_ok [OF reach_step.hyps(2) reach_step.IH] show ?case .
qed

subsection \<open>A small description, declaration by declaration\<close>

lemma sym_of_start [simp]: "sym_of start_core nm = None"
  using hash_symbols.lookup_empty by (simp add: sym_of_def start_core_def init_core_actions_def)

lemma instr_list_start [simp]: "instr_list start_core = []" "instr_num start_core = 0"
  "formats start_core = init_formats"
  by (simp_all add: start_core_def init_core_actions_def)

lemma instrdec_new:
  assumes "sym_of s name = None"
  shows "fst (instrdec pl typestr name s) =
    (s\<lparr>instr_num := instr_num s + 1, instr_list := instr_list s @ [new_instr name typestr (instr_num s + 1)]\<rparr>)
      \<lparr>symbol_table := snd (add_symbol Little_Endian pl (symbol_table s) name INSTR (Instr_ptr (length (instr_list s))))\<rparr>"
proof -
  have "sym_of (s\<lparr>instr_num := instr_num s + 1\<rparr>) name = None"
    using assms sym_of_cong [of "s\<lparr>instr_num := instr_num s + 1\<rparr>" s] by simp
  then show ?thesis
    using assms by (simp add: instrdec_def add_instr_def find_instr_sym_of Let_def split_beta)
qed

lemma instrdec_start: "instr_list (fst (instrdec place0 ''I'' ''add'' start_core)) = [new_instr ''add'' ''I'' 1]"
  by (simp add: instrdec_new)

definition demo_formats :: format_state where
  "demo_formats = \<lparr>const_count = 0, stale_fields = [],
     format_ins_list = [\<lparr>format_id = 0, format_name = ''I'', format_size = 6,
       format_fields = [mk_field ''op'' 0 6 False 0]\<rparr>],
     format_reg_list = [], common_instr_field_list = [mk_field ''op'' 0 6 False 0\<lparr>field_id := 1\<rparr>],
     largest_format_size = 6\<rparr>"

lemma demo_add_format: "add_format ''I'' ''%op:6'' True init_formats = Some (demo_formats, None)"
  by code_simp

text \<open>After \<open>ac_format I = "%op:6"\<close>, after \<open>ac_instr<I> add\<close>, and after \<open>op = 3\<close>.\<close>

definition demo_core1 :: core_state where
  "demo_core1 = fst (the (formatdec place0 ''I'' ''%op:6'' start_core))"

definition demo_core2 :: core_state where
  "demo_core2 = fst (instrdec place0 ''I'' ''add'' demo_core1)"

definition demo_core3 :: core_state where
  "demo_core3 = fst (add_dec_list place0 (Some 0) ''op'' 3 demo_core2)"

lemma demo_core1:
  "formatdec place0 ''I'' ''%op:6'' start_core = Some (demo_core1, [])"
  "sym_of demo_core1 nm = (if nm = ''I'' then Some (INSTR_FMT, Format_ptr (Some 0)) else None)"
  "formats demo_core1 = demo_formats" "instr_list demo_core1 = []" "instr_num demo_core1 = 0"
proof -
  have tab: "table_ok (symbol_table start_core)"
    using core_ok_init by (simp add: start_core_def core_ok_def)
  have last: "last_index (format_ins_list demo_formats) = Some 0"
    by (simp add: last_index_def demo_formats_def)
  let ?r = "add_symbol Little_Endian place0 (symbol_table start_core) ''I'' INSTR_FMT (Format_ptr (Some 0))"
  have ok: "fst ?r" using add_symbol_ok_iff [of place0 start_core "''I''"] by simp
  have eq: "formatdec place0 ''I'' ''%op:6'' start_core =
      Some ((start_core\<lparr>formats := demo_formats\<rparr>)\<lparr>symbol_table := snd ?r\<rparr>, [])"
    using ok by (simp add: formatdec_def demo_add_format last Let_def split_beta)
  then show "formatdec place0 ''I'' ''%op:6'' start_core = Some (demo_core1, [])"
    by (simp add: demo_core1_def)
  have s1: "demo_core1 = (start_core\<lparr>formats := demo_formats\<rparr>)\<lparr>symbol_table := snd ?r\<rparr>"
    by (simp add: demo_core1_def eq)
  show "sym_of demo_core1 nm = (if nm = ''I'' then Some (INSTR_FMT, Format_ptr (Some 0)) else None)"
    unfolding s1 sym_of_add [OF tab] by simp
  show "formats demo_core1 = demo_formats" "instr_list demo_core1 = []" "instr_num demo_core1 = 0"
    by (simp_all add: s1)
qed

lemma demo_reachable: "core_reachable start_core" "core_reachable demo_core1"
  "core_reachable demo_core2"
proof -
  show 0: "core_reachable start_core" unfolding start_core_def by (rule reach_init)
  show 1: "core_reachable demo_core1" by (rule reach_step [OF 0 step_format [OF demo_core1(1)]])
  show "core_reachable demo_core2" unfolding demo_core2_def by (rule reach_step [OF 1 step_instr])
qed

lemma demo_core2:
  "instr_list demo_core2 = [new_instr ''add'' ''I'' 1]"
  "fmt_of demo_core2 ''I'' = Some (hd (format_ins_list demo_formats))"
proof -
  have tab: "table_ok (symbol_table demo_core1)"
    using core_reachable_ok [OF demo_reachable(2)] by (simp add: core_ok_def)
  have s2: "demo_core2 = (demo_core1\<lparr>instr_num := 1, instr_list := [new_instr ''add'' ''I'' 1]\<rparr>)
      \<lparr>symbol_table := snd (add_symbol Little_Endian place0 (symbol_table demo_core1) ''add'' INSTR (Instr_ptr 0))\<rparr>"
    by (simp add: demo_core2_def instrdec_new demo_core1)
  show "instr_list demo_core2 = [new_instr ''add'' ''I'' 1]" by (simp add: s2)
  have "sym_of demo_core2 ''I'' = Some (INSTR_FMT, Format_ptr (Some 0))"
    unfolding s2 sym_of_add [OF tab] by (simp add: demo_core1)
  then show "fmt_of demo_core2 ''I'' = Some (hd (format_ins_list demo_formats))"
    by (simp add: fmt_of_def format_at_def s2 demo_core1 demo_formats_def)
qed

lemma demo_core3:
  "core_reachable demo_core3"
  "instr_list demo_core3 = [new_instr ''add'' ''I'' 1
     \<lparr>instr_dec_list := [\<lparr>dl_name = ''op'', dl_id = 0, dl_value = 3\<rparr>]\<rparr>]"
proof -
  show "core_reachable demo_core3"
    unfolding demo_core3_def
    by (rule reach_step [OF demo_reachable(3) step_dec]) (simp add: demo_core2)
  have "find_field (hd (format_ins_list demo_formats)) ''op'' = Some (mk_field ''op'' 0 6 False 0)"
    "field_size (mk_field ''op'' 0 6 False 0) = 6" "dec_value_max 6 = Some 63"
    by (simp_all add: demo_formats_def find_field_def mk_field_def dec_value_max_def)
  moreover have "instr_format (new_instr ''add'' ''I'' 1) = ''I''"
    "instr_dec_list (new_instr ''add'' ''I'' 1) = []" by (simp_all add: new_instr_def)
  ultimately show "instr_list demo_core3 = [new_instr ''add'' ''I'' 1
     \<lparr>instr_dec_list := [\<lparr>dl_name = ''op'', dl_id = 0, dl_value = 3\<rparr>]\<rparr>]"
    by (simp add: demo_core3_def add_dec_list_def bind_find_format demo_core2 Let_def)
qed

subsection \<open>Properties\<close>



text \<open>In every state the preprocessor reaches, an instruction with a decode list has a
  declared format, and each entry of the list names a field of that format and holds a value
  that fits in it: the decoder will find the field of every check.\<close>
theorem decode_lists_checked:
  assumes "core_reachable s" "p \<in> set (instr_list s)" "d \<in> set (instr_dec_list p)"
  shows "\<exists>pf. Option.bind (find_format pl s (instr_format p)) (format_at s) = Some pf \<and>
    (\<exists>f \<in> set (format_fields pf). field_name f = dl_name d \<and> dl_value d < 2 ^ nat (field_size f))"
proof -
  have "dec_lists_ok s" using core_reachable_ok [OF assms(1)] by simp
  with assms(2,3) show ?thesis
    unfolding bind_find_format by (fastforce simp: dec_lists_ok_def entry_ok_def)
qed

theorem decode_lists_checked_witness:
  "\<exists>pf. Option.bind (find_format place0 demo_core3 ''I'') (format_at demo_core3) = Some pf \<and>
    (\<exists>f \<in> set (format_fields pf). field_name f = ''op'' \<and> 3 < (2 :: int) ^ nat (field_size f))"
  using decode_lists_checked [OF demo_core3(1), of "hd (instr_list demo_core3)"
      "\<lparr>dl_name = ''op'', dl_id = 0, dl_value = 3\<rparr>" place0]
  by (simp add: demo_core3(2) new_instr_def)

text \<open>Names of all classes share one table and \<open>find_symbol\<close> ignores the class it is asked
  for: after the declaration of a new format, \<open>find_instr\<close> of its name answers, and what it
  answers is the pointer to the format.\<close>
theorem find_instr_returns_format:
  assumes "core_reachable s" "find_instr pl s name = None" "formatdec pl name str s = Some (s', errs)"
  shows "\<exists>k. find_instr pl' s' name = Some (Format_ptr k)"
proof -
  obtain f r where f: "add_format name str True (formats s) = Some (f, r)"
    using assms(3) by (auto simp: formatdec_def split: option.splits)
  let ?i = "Format_ptr (last_index (format_ins_list f))"
  have s': "s' = (s\<lparr>formats := f\<rparr>)\<lparr>symbol_table := snd (add_symbol Little_Endian pl (symbol_table s) name INSTR_FMT ?i)\<rparr>"
    using assms(3) f by (auto simp: formatdec_def Let_def split_beta)
  have tab: "table_ok (symbol_table s)"
    using core_reachable_ok [OF assms(1)] by (simp add: core_ok_def)
  have "sym_of s name = None" using assms(2) by (simp add: find_instr_sym_of)
  then have "sym_of s' name = Some (INSTR_FMT, ?i)" unfolding s' sym_of_add [OF tab] by simp
  then show ?thesis by (simp add: find_instr_sym_of)
qed

theorem find_instr_returns_format_witness:
  "\<exists>k. find_instr place0 demo_core1 ''I'' = Some (Format_ptr k)"
  by (rule find_instr_returns_format [OF demo_reachable(1) _ demo_core1(1)]) (simp add: find_instr_sym_of)

text \<open>The check for a repeated member of a group does not look at the last one: adding the
  instruction that was added last is accepted whenever the group has at least two members.\<close>
theorem group_last_repeated:
  assumes "find_instr pl s name = Some i" "xs \<noteq> []" "i \<notin> set xs"
  shows "add_instr_ref pl s name (xs @ [i]) = (xs @ [i, i], 1, None)"
proof -
  have "\<not> ref_loop i (xs @ [i])"
    using assms(3) by (induction i "xs @ [i]" arbitrary: xs rule: ref_loop.induct)
      (auto simp: Cons_eq_append_conv append_eq_Cons_conv)
  then show ?thesis using assms by (cases xs) (auto simp: add_instr_ref_def)
qed

theorem group_last_repeated_witness:
  "add_instr_ref place0 demo_core1 ''I'' ([Instr_ptr 4] @ [Format_ptr (Some 0)])
   = ([Instr_ptr 4] @ [Format_ptr (Some 0), Format_ptr (Some 0)], 1, None)"
  by (rule group_last_repeated) (simp_all add: find_instr_sym_of demo_core1)

end
