(* ===== verification/Decoder.thy ===== *)
theory Decoder
  imports DecTypes "HOL-Library.Signed_Division"
begin

text \<open>
  The decoder of \<open>archc/src/aclib/ac_decoder/ac_decoder.c\<close>: the numbering of the flds
  (\<open>PutIDs\<close>), the construction of the decoder tree (\<open>AddToDecoder\<close>, \<open>CreateDecoder\<close>) and the
  search in it (\<open>Decode\<close>), with its explicit stack \<open>chosenPath\<close> and its one-entry cache of the
  last field read. \<open>GetBits\<close>, which the simulator provides, is a parameter. The properties
  are in \<open>DecoderCorrect\<close>.
\<close>

subsection \<open>The decoder tree\<close>

text \<open>
  \<open>found\<close> points into the instruction list: it is an index. \<open>Dec_null\<close> is the \<open>NULL\<close> pointer.
\<close>

datatype ac_decoder =
    Dec_null
  | Dec_node (dec_check: ac_dec_list) (dec_found: "nat option") (dec_subcheck: ac_decoder) (dec_next: ac_decoder)

record ac_decoder_full =
  df_decoder :: ac_decoder
  df_formats :: "ac_dec_format list"
  df_fields :: "ac_dec_field list"
  df_instructions :: "ac_dec_instr list"
  df_nFields :: nat

text \<open>The calls of \<open>exit\<close>.\<close>

datatype decoder_error =
    No_decode_list string
  | Decoding_conflict string string
  | Invalid_format string
  | Invalid_instruction_ID int

subsection \<open>Field identifiers\<close>

definition CheckFields :: "ac_dec_field \<Rightarrow> ac_dec_field \<Rightarrow> bool" where
  "CheckFields f1 f2 \<longleftrightarrow>
     field_size f1 = field_size f2 \<and> first_bit f1 = first_bit f2 \<and> field_sign f1 = field_sign f2"

definition CompareFields :: "ac_dec_field \<Rightarrow> ac_dec_field \<Rightarrow> int" where
  "CompareFields f1 f2 = strcmp (field_name f1) (field_name f2)"

definition FindDecField :: "ac_dec_field list \<Rightarrow> int \<Rightarrow> ac_dec_field option" where
  "FindDecField flds i = find_first (\<lambda>f. field_id f = i) flds"

text \<open>The inner loops: \<open>fields\<close> is the vector of the fields met, \<open>limit\<close> its length.\<close>

fun put_fields :: "ac_dec_field list \<Rightarrow> ac_dec_field list \<Rightarrow> ac_dec_field list \<times> ac_dec_field list" where
  "put_fields flds [] = (flds, [])"
| "put_fields flds (tmp # r) =
     (case find_first (\<lambda>f. CheckFields f tmp) flds of
        Some f \<Rightarrow>
          (fst (put_fields flds r), tmp\<lparr>field_id := field_id f\<rparr> # snd (put_fields flds r))
      | None \<Rightarrow>
          (let tmp' = tmp\<lparr>field_id := int (length flds) + 1\<rparr>
           in (fst (put_fields (flds @ [tmp']) r), tmp' # snd (put_fields (flds @ [tmp']) r))))"

fun put_formats :: "ac_dec_field list \<Rightarrow> ac_dec_format list \<Rightarrow> ac_dec_field list \<times> ac_dec_format list" where
  "put_formats flds [] = (flds, [])"
| "put_formats flds (f # r) =
     (let p = put_fields flds (format_fields f); q = put_formats (fst p) r
      in (fst q, f\<lparr>format_fields := snd p\<rparr> # snd q))"

text \<open>The vector has room for \<open>nFields\<close> elements; \<open>None\<close> is a write behind its end.\<close>

definition PutIDs :: "ac_dec_format list \<Rightarrow> nat \<Rightarrow> (ac_dec_field list \<times> ac_dec_format list) option" where
  "PutIDs formats nFields =
     (let r = put_formats [] formats in if length (fst r) \<le> nFields then Some r else None)"

subsection \<open>Building the tree\<close>

text \<open>The identifier of the first field of the format with the name of the check.\<close>

definition assign_id :: "ac_dec_format \<Rightarrow> ac_dec_list \<Rightarrow> ac_dec_list" where
  "assign_id fmt l =
     (case find_first (\<lambda>f. strcmp (field_name f) (dl_name l) = 0) (format_fields fmt) of
        Some f \<Rightarrow> l\<lparr>dl_id := field_id f\<rparr>
      | None \<Rightarrow> l)"

definition same_check :: "ac_dec_list \<Rightarrow> ac_dec_list \<Rightarrow> bool" where
  "same_check c l \<longleftrightarrow> dl_id c = dl_id l \<and> dl_value c = dl_value l"

text \<open>The fields that no check of the instruction reads, chained as operands to extract.\<close>

fun operand_chain :: "ac_dec_list list \<Rightarrow> ac_dec_field list \<Rightarrow> ac_decoder" where
  "operand_chain ls [] = Dec_null"
| "operand_chain ls (f # fs) =
     (if list_ex (\<lambda>l. dl_id l = field_id f) ls then operand_chain ls fs
      else Dec_node \<lparr>dl_name = field_name f, dl_id = field_id f, dl_value = -1\<rparr> None
             (operand_chain ls fs) Dec_null)"

text \<open>
  The loop over the checks: it descends on an equal check and goes along \<open>next\<close> otherwise,
  with a new node where the tree ends; a new node carries the check it is compared with next.
  Behind the last check the node gets the instruction and the operand chain, which replaces
  its \<open>subcheck\<close>. \<open>Inl j\<close> is the conflict with the instruction \<open>j\<close>.
\<close>

fun path_weight :: "ac_dec_list list \<Rightarrow> ac_decoder \<Rightarrow> nat" where
  "path_weight ls Dec_null = 1"
| "path_weight ls (Dec_node c f s n) =
     (if ls \<noteq> [] \<and> same_check c (hd ls) then 0 else 2 + path_weight ls n)"

function add_path ::
  "ac_decoder \<Rightarrow> nat \<Rightarrow> ac_dec_list list \<Rightarrow> ac_decoder \<Rightarrow> nat + ac_decoder" where
  "add_path chain k [] d = Inr d"
| "add_path chain k (l # ls) Dec_null = add_path chain k (l # ls) (Dec_node l None Dec_null Dec_null)"
| "add_path chain k (l # ls) (Dec_node c f s n) =
     (if same_check c l then
        (case f of
           Some j \<Rightarrow> Inl j
         | None \<Rightarrow>
             if ls = [] then Inr (Dec_node c (Some k) chain n)
             else (case add_path chain k ls s of
                     Inl j \<Rightarrow> Inl j
                   | Inr s' \<Rightarrow> Inr (Dec_node c None s' n)))
      else
        (case add_path chain k (l # ls) n of
           Inl j \<Rightarrow> Inl j
         | Inr n' \<Rightarrow> Inr (Dec_node c f s n')))"
  by pat_completeness auto
termination
  by (relation "measures [\<lambda>(chain, k, ls, d). length ls, \<lambda>(chain, k, ls, d). path_weight ls d]")
    (auto simp: same_check_def)

text \<open>\<open>instrs\<close> gives the names of the instructions already in the tree.\<close>

definition AddToDecoder ::
  "ac_decoder \<Rightarrow> ac_dec_instr list \<Rightarrow> ac_dec_instr \<Rightarrow> ac_dec_format
     \<Rightarrow> decoder_error + ac_decoder \<times> ac_dec_instr" where
  "AddToDecoder decoder instrs instruction fmt =
     (if instr_dec_list instruction = [] then Inl (No_decode_list (instr_name instruction))
      else
        let ls = map (assign_id fmt) (instr_dec_list instruction) in
        (case add_path (operand_chain ls (format_fields fmt)) (length instrs) ls decoder of
           Inl j \<Rightarrow> Inl (Decoding_conflict (instr_name (instrs ! j)) (instr_name instruction))
         | Inr d \<Rightarrow> Inr (d, instruction\<lparr>instr_dec_list := ls\<rparr>)))"

definition FindFormat :: "ac_dec_format list \<Rightarrow> string \<Rightarrow> decoder_error + ac_dec_format" where
  "FindFormat formats name =
     (case find_first (\<lambda>f. strcmp (format_name f) name = 0) formats of
        None \<Rightarrow> Inl (Invalid_format name)
      | Some f \<Rightarrow> Inr f)"

definition GetInstrByID :: "ac_dec_instr list \<Rightarrow> int \<Rightarrow> decoder_error + ac_dec_instr" where
  "GetInstrByID instrs i =
     (case find_first (\<lambda>p. int (instr_id p) = i) instrs of
        None \<Rightarrow> Inl (Invalid_instruction_ID i)
      | Some p \<Rightarrow> Inr p)"

text \<open>The loop over the instructions; \<open>before\<close> are those already added.\<close>

fun add_instrs ::
  "ac_dec_format list \<Rightarrow> ac_decoder \<Rightarrow> ac_dec_instr list \<Rightarrow> ac_dec_instr list
     \<Rightarrow> decoder_error + ac_decoder \<times> ac_dec_instr list" where
  "add_instrs formats dec before [] = Inr (dec, before)"
| "add_instrs formats dec before (instr # rest) =
     (case FindFormat formats (instr_format instr) of
        Inl e \<Rightarrow> Inl e
      | Inr fmt \<Rightarrow>
          (case AddToDecoder dec before instr fmt of
             Inl e \<Rightarrow> Inl e
           | Inr (dec', instr') \<Rightarrow>
               add_instrs formats dec' (before @ [instr'\<lparr>instr_size := format_size fmt sdiv 8\<rparr>]) rest))"

fun number_formats :: "nat \<Rightarrow> ac_dec_format list \<Rightarrow> ac_dec_format list" where
  "number_formats n [] = []"
| "number_formats n (f # r) = f\<lparr>format_id := n\<rparr> # number_formats (n + 1) r"

text \<open>\<open>None\<close> is the write behind the vector of \<open>PutIDs\<close>, which never happens.\<close>

definition CreateDecoder ::
  "ac_dec_format list \<Rightarrow> ac_dec_instr list \<Rightarrow> (decoder_error + ac_decoder_full) option" where
  "CreateDecoder formats instructions =
     (let numbered = number_formats 0 formats;
          nFields = sum_list (map (\<lambda>f. length (format_fields f)) numbered) + 1
      in case PutIDs numbered nFields of
           None \<Rightarrow> None
         | Some (allFields, formats') \<Rightarrow>
             Some (case add_instrs formats' Dec_null [] instructions of
                     Inl e \<Rightarrow> Inl e
                   | Inr (dec, instrs) \<Rightarrow>
                       Inr \<lparr>df_decoder = dec, df_formats = formats', df_fields = allFields,
                            df_instructions = instrs, df_nFields = nFields\<rparr>))"

subsection \<open>Decoding\<close>

text \<open>
  \<open>GetBits(buffer, &quant, first_bit, size, sign)\<close> may fetch: it takes and returns the state
  of the buffer. Its result is stored in a \<open>long long\<close>.
\<close>

type_synonym 'b getbits = "'b \<Rightarrow> int \<Rightarrow> int \<Rightarrow> int \<Rightarrow> u64 \<times> 'b"

definition read_field :: "'b getbits \<Rightarrow> ac_dec_field \<Rightarrow> 'b \<Rightarrow> int \<times> 'b" where
  "read_field gb f b =
     (let (w, b') = gb b (first_bit f) (field_size f) (field_sign f) in (sint w, b'))"

text \<open>
  From here on \<open>None\<close> is undefined behaviour: a \<open>NULL\<close> pointer followed, or a write outside
  \<open>fields\<close> or outside the 64 entries of \<open>chosenPath\<close>.
\<close>

definition put_value :: "u32 list \<Rightarrow> int \<Rightarrow> int \<Rightarrow> u32 list option" where
  "put_value flds i v =
     (if 0 \<le> i \<and> i < int (length flds) then Some (flds[nat i := of_int v]) else None)"

text \<open>The field of the node: the cached one, or a new one that is read.\<close>

definition load_field ::
  "'b getbits \<Rightarrow> ac_dec_field list \<Rightarrow> int \<Rightarrow> (ac_dec_field \<times> int) option \<Rightarrow> 'b
     \<Rightarrow> ((ac_dec_field \<times> int) \<times> 'b) option" where
  "load_field gb flds i field b =
     (case field of
        Some fv \<Rightarrow> Some (fv, b)
      | None \<Rightarrow>
          (case FindDecField flds i of
             None \<Rightarrow> None
           | Some f \<Rightarrow> (let (v, b') = read_field gb f b in Some ((f, v), b'))))"

text \<open>
  \<open>chosenPath[chosenPathPos]\<close> is always the current node, so \<open>path\<close> holds the entries below
  it, the topmost first. The inner loop pops until a node has a \<open>next\<close>, and drops the cached
  field if that node checks another one.
\<close>

definition keep_field :: "ac_decoder \<Rightarrow> (ac_dec_field \<times> int) option \<Rightarrow> (ac_dec_field \<times> int) option option" where
  "keep_field d field =
     (case d of
        Dec_null \<Rightarrow> Some field
      | Dec_node c f s n \<Rightarrow>
          (case field of
             None \<Rightarrow> None
           | Some fv \<Rightarrow> Some (if dl_id c \<noteq> field_id (fst fv) then None else Some fv)))"

fun backtrack ::
  "(ac_dec_field \<times> int) option \<Rightarrow> ac_decoder list
     \<Rightarrow> (ac_decoder \<times> (ac_dec_field \<times> int) option \<times> ac_decoder list) option" where
  "backtrack field [] = Some (Dec_null, field, [])"
| "backtrack field (Dec_null # path) = None"
| "backtrack field (Dec_node c f s n # path) =
     (case keep_field n field of
        None \<Rightarrow> None
      | Some field' \<Rightarrow> if n = Dec_null then backtrack field' path else Some (n, field', path))"

definition resume ::
  "ac_decoder \<Rightarrow> (ac_dec_field \<times> int) option \<Rightarrow> ac_decoder list
     \<Rightarrow> (ac_decoder \<times> (ac_dec_field \<times> int) option \<times> ac_decoder list) option" where
  "resume d field path = (if d = Dec_null then backtrack field path else Some (d, field, path))"

text \<open>One round of the outer loop: stop with an instruction, or go on at another node.\<close>

datatype 'b decode_round =
    Found_at nat ac_decoder "u32 list" 'b
  | Go_on ac_decoder "(ac_dec_field \<times> int) option" "ac_decoder list" "u32 list" 'b

definition decode_round ::
  "'b getbits \<Rightarrow> ac_dec_field list \<Rightarrow> ac_dec_list \<Rightarrow> nat option \<Rightarrow> ac_decoder \<Rightarrow> ac_decoder
     \<Rightarrow> (ac_dec_field \<times> int) option \<Rightarrow> ac_decoder list \<Rightarrow> u32 list \<Rightarrow> 'b \<Rightarrow> 'b decode_round option" where
  "decode_round gb dfs c f s n field path flds b =
     (case load_field gb dfs (dl_id c) field b of
        None \<Rightarrow> None
      | Some (fv, b) \<Rightarrow>
          if snd fv = dl_value c then
            (case put_value flds (dl_id c) (snd fv) of
               None \<Rightarrow> None
             | Some flds \<Rightarrow>
                 (case f of
                    Some k \<Rightarrow> Some (Found_at k s flds b)
                  | None \<Rightarrow>
                      if length path + 1 < 64 then
                        (case resume s None (Dec_node c f s n # path) of
                           None \<Rightarrow> None
                         | Some (d, field, path) \<Rightarrow> Some (Go_on d field path flds b))
                      else None))
          else
            (case keep_field n (Some fv) of
               None \<Rightarrow> None
             | Some field \<Rightarrow>
                 (case resume n field path of
                    None \<Rightarrow> None
                  | Some (d, field, path) \<Rightarrow> Some (Go_on d field path flds b))))"

primrec dec_size :: "ac_decoder \<Rightarrow> nat" where
  "dec_size Dec_null = 0"
| "dec_size (Dec_node c f s n) = 1 + dec_size s + dec_size n"

definition pending :: "ac_decoder list \<Rightarrow> nat" where
  "pending path = sum_list (map (\<lambda>d. case d of Dec_null \<Rightarrow> 0 | Dec_node c f s n \<Rightarrow> dec_size n) path)"

lemma backtrack_pending:
  "backtrack field path = Some (d, field', path') \<Longrightarrow> dec_size d + pending path' \<le> pending path"
  by (induction field path rule: backtrack.induct) (auto simp: pending_def split: option.splits if_splits)

lemma resume_pending:
  "resume d field path = Some (d', field', path') \<Longrightarrow>
   dec_size d' + pending path' \<le> dec_size d + pending path"
  by (auto simp: resume_def split: if_splits dest: backtrack_pending)

lemma decode_round_pending:
  "decode_round gb dfs c f s n field path flds b = Some (Go_on d' field' path' flds' b') \<Longrightarrow>
   dec_size d' + pending path' < dec_size (Dec_node c f s n) + pending path"
  by (auto simp: decode_round_def pending_def split: option.splits if_splits prod.splits dest!: resume_pending)

function decode_loop ::
  "'b getbits \<Rightarrow> ac_dec_field list \<Rightarrow> ac_decoder \<Rightarrow> (ac_dec_field \<times> int) option \<Rightarrow> ac_decoder list
     \<Rightarrow> u32 list \<Rightarrow> 'b \<Rightarrow> ((nat \<times> ac_decoder) option \<times> u32 list \<times> 'b) option" where
  "decode_loop gb dfs Dec_null field path flds b = Some (None, flds, b)"
| "decode_loop gb dfs (Dec_node c f s n) field path flds b =
     (case decode_round gb dfs c f s n field path flds b of
        None \<Rightarrow> None
      | Some (Found_at k sub flds b) \<Rightarrow> Some (Some (k, sub), flds, b)
      | Some (Go_on d field path flds b) \<Rightarrow> decode_loop gb dfs d field path flds b)"
  by pat_completeness auto
termination
  by (relation "measure (\<lambda>(gb, dfs, d, field, path, flds, b). dec_size d + pending path)")
    (auto dest: decode_round_pending)

text \<open>The operands of the instruction found.\<close>

fun extract_operands ::
  "'b getbits \<Rightarrow> ac_dec_field list \<Rightarrow> ac_decoder \<Rightarrow> u32 list \<Rightarrow> 'b \<Rightarrow> (u32 list \<times> 'b) option" where
  "extract_operands gb dfs Dec_null flds b = Some (flds, b)"
| "extract_operands gb dfs (Dec_node c f s n) flds b =
     (case FindDecField dfs (dl_id c) of
        None \<Rightarrow> None
      | Some fd \<Rightarrow>
          (case put_value flds (dl_id c) (fst (read_field gb fd b)) of
             None \<Rightarrow> None
           | Some flds' \<Rightarrow> extract_operands gb dfs s flds' (snd (read_field gb fd b))))"

text \<open>
  \<open>fields\<close> is static: allocated at the first call, with the number of fields of the decoder of
  that call, and kept. The fresh memory is modelled as zeros; \<open>Decode\<close> never reads it.
  \<open>None\<close> in the result is the \<open>NULL\<close> of an unknown instruction.
\<close>

definition Decode ::
  "'b getbits \<Rightarrow> ac_decoder_full \<Rightarrow> u32 list option \<Rightarrow> 'b \<Rightarrow> (u32 list option \<times> u32 list \<times> 'b) option" where
  "Decode gb decoder static b =
     (let flds = (case static of None \<Rightarrow> replicate (df_nFields decoder) 0 | Some f \<Rightarrow> f) in
      case decode_loop gb (df_fields decoder) (df_decoder decoder) None [] flds b of
        None \<Rightarrow> None
      | Some (None, flds, b) \<Rightarrow> Some (None, flds, b)
      | Some (Some (k, sub), flds, b) \<Rightarrow>
          (case extract_operands gb (df_fields decoder) sub flds b of
             None \<Rightarrow> None
           | Some (flds, b) \<Rightarrow>
               (case put_value flds 0 (int (instr_id (df_instructions decoder ! k))) of
                  None \<Rightarrow> None
                | Some flds \<Rightarrow> Some (Some flds, flds, b))))"

end
