(* ===== verification/DecoderCorrect.thy ===== *)
theory DecoderCorrect
  imports Decoder "HOL-Library.Sublist"
begin

text \<open>
  The decoder does what the description says. The tree is specified by the list of its paths,
  that is as a trie over the checks: \<open>add_path\<close> inserts a path, and a conflict is a path that
  is a prefix of another. \<open>PutIDs\<close> numbers the fields by their bits. \<open>Decode\<close> with its stack
  and its cached field is the depth-first search of the paths, and an instruction it finds
  comes with all the fields of its format.
\<close>

subsection \<open>The paths of the tree\<close>

definition key :: "ac_dec_list \<Rightarrow> int \<times> int" where
  "key c = (dl_id c, dl_value c)"

text \<open>The checks on the way to each instruction, in the order of the search.\<close>

type_synonym dec_path = "(int \<times> int) list \<times> nat \<times> ac_decoder"

definition under :: "ac_dec_list \<Rightarrow> dec_path list \<Rightarrow> dec_path list" where
  "under c ps = map (\<lambda>(p, r). (key c # p, r)) ps"

primrec paths :: "ac_decoder \<Rightarrow> dec_path list" where
  "paths Dec_null = []"
| "paths (Dec_node c f s n) =
     (case f of Some k \<Rightarrow> [([key c], k, s)] | None \<Rightarrow> under c (paths s)) @ paths n"

primrec heads :: "ac_decoder \<Rightarrow> (int \<times> int) set" where
  "heads Dec_null = {}"
| "heads (Dec_node c f s n) = insert (key c) (heads n)"

primrec trie_ok :: "ac_decoder \<Rightarrow> bool" where
  "trie_ok Dec_null = True"
| "trie_ok (Dec_node c f s n) =
     ((f = None \<longrightarrow> s \<noteq> Dec_null \<and> trie_ok s) \<and> trie_ok n \<and> key c \<notin> heads n)"

lemma same_check_key: "same_check c l \<longleftrightarrow> key c = key l"
  by (simp add: same_check_def key_def)

lemma paths_under:
  "(p, r) \<in> set (under c ps) \<longleftrightarrow> (\<exists>q. p = key c # q \<and> (q, r) \<in> set ps)"
  by (auto simp: under_def)

lemma paths_heads: "(p, r) \<in> set (paths d) \<Longrightarrow> \<exists>h t. p = h # t \<and> h \<in> heads d"
proof (induction d arbitrary: p r)
  case (Dec_node c f s n)
  then have "(p, r) \<in> set (paths n) \<or> (\<exists>t. p = key c # t)"
    by (auto simp: paths_under split: option.splits)
  with Dec_node.IH(2) show ?case by fastforce
qed simp

lemma add_path_null:
  "add_path chain k (l # ls) Dec_null =
     (if ls = [] then Inr (Dec_node l (Some k) chain Dec_null)
      else case add_path chain k ls Dec_null of
             Inl j \<Rightarrow> Inl j | Inr s' \<Rightarrow> Inr (Dec_node l None s' Dec_null))"
  by (simp add: same_check_def)

declare add_path.simps(2) [simp del]

text \<open>Adding a path to a trie: what it does to the set of the paths.\<close>

lemma add_path_paths:
  assumes "trie_ok d" "ls \<noteq> []" "add_path chain k ls d = Inr d'"
  shows "trie_ok d' \<and> heads d' = insert (key (hd ls)) (heads d) \<and> d' \<noteq> Dec_null \<and>
    set (paths d') = {x \<in> set (paths d). \<not> prefix (map key ls) (fst x)} \<union> {(map key ls, k, chain)}"
  using assms
proof (induction ls arbitrary: d d')
  case (Cons l ls)
  from Cons.prems(1,3) show ?case
  proof (induction d arbitrary: d')
    case Dec_null
    show ?case
    proof (cases "ls = []")
      case False
      with Dec_null obtain s' where s': "add_path chain k ls Dec_null = Inr s'"
        "d' = Dec_node l None s' Dec_null" by (auto simp: add_path_null split: sum.splits)
      with Cons.IH [of Dec_null s'] False show ?thesis by (auto simp: under_def)
    qed (use Dec_null in \<open>auto simp: add_path_null\<close>)
  next
    case (Dec_node c f s n)
    have n: "key c \<notin> heads n" "trie_ok n" using Dec_node.prems by simp_all
    show ?case
    proof (cases "same_check c l")
      case True
      have kept: "\<not> prefix (key l # K) p" if "(p, r) \<in> set (paths n)" for K p r
        using paths_heads [OF that] n(1) True by (auto simp: same_check_key)
      have f: "f = None" using Dec_node.prems True by (auto split: option.splits)
      show ?thesis
      proof (cases "ls = []")
        case True
        with \<open>same_check c l\<close> f have "d' = Dec_node c (Some k) chain n" using Dec_node.prems by simp
        then show ?thesis
          using n True \<open>same_check c l\<close> f kept by (auto simp: same_check_key under_def)
      next
        case False
        with \<open>same_check c l\<close> f obtain s' where s': "add_path chain k ls s = Inr s'"
          "d' = Dec_node c None s' n" using Dec_node.prems by (auto split: sum.splits)
        have "trie_ok s" using Dec_node.prems f by simp
        note IH = Cons.IH [OF this False s'(1)]
        have "set (paths d') = (\<lambda>(p, r). (key c # p, r)) ` set (paths s') \<union> set (paths n)"
          using s' by (auto simp: under_def)
        also have "\<dots> = {x \<in> set (paths (Dec_node c f s n)). \<not> prefix (map key (l # ls)) (fst x)}
            \<union> {(map key (l # ls), k, chain)}"
          using IH \<open>same_check c l\<close> f kept by (auto simp: same_check_key under_def image_iff split_beta)
        finally show ?thesis using IH s' n \<open>same_check c l\<close> by (auto simp: same_check_key)
      qed
    next
      case False
      then obtain n' where n': "add_path chain k (l # ls) n = Inr n'" "d' = Dec_node c f s n'"
        using Dec_node.prems by (auto split: sum.splits)
      note IH = Dec_node.IH(2) [OF n(2) n'(1)]
      have "\<not> prefix (map key (l # ls)) p" if "(p, r) \<in> set (under c (paths s))" for p r
        using that False by (auto simp: paths_under same_check_key)
      then show ?thesis
        using IH n' False Dec_node.prems(1) by (auto simp: same_check_key split: option.splits)
    qed
  qed
qed simp

lemma add_path_conflict:
  assumes "trie_ok d" "ls \<noteq> []"
  shows "(\<exists>j. add_path chain k ls d = Inl j) \<longleftrightarrow> (\<exists>p \<in> set (paths d). prefix (fst p) (map key ls))"
    and "add_path chain k ls d = Inl j \<Longrightarrow> \<exists>p s. (p, j, s) \<in> set (paths d) \<and> prefix p (map key ls)"
proof -
  have "case add_path chain k ls d of
      Inl j \<Rightarrow> \<exists>p s. (p, j, s) \<in> set (paths d) \<and> prefix p (map key ls)
    | Inr _ \<Rightarrow> \<forall>p r. (p, r) \<in> set (paths d) \<longrightarrow> \<not> prefix p (map key ls)"
    using assms
  proof (induction ls arbitrary: d)
    case (Cons l ls)
    from Cons.prems(1) show ?case
    proof (induction d)
      case Dec_null
      show ?case
        using Cons.IH [of Dec_null] by (cases "ls = []") (auto simp: add_path_null split: sum.splits)
    next
      case (Dec_node c f s n)
      show ?case
      proof (cases "same_check c l")
        case True
        have kept: "\<not> prefix p (key l # K)" if "(p, r) \<in> set (paths n)" for K p r
          using paths_heads [OF that] Dec_node.prems True by (auto simp: same_check_key)
        show ?thesis
        proof (cases f)
          case None
          with Dec_node.prems have "trie_ok s" by simp
          note IH = Cons.IH [OF this]
          have s: "q \<noteq> []" if "(q, r) \<in> set (paths s)" for q r
            using paths_heads [OF that] by auto
          show ?thesis
          proof (cases "ls = []")
            case True
            with s kept None \<open>same_check c l\<close> show ?thesis by (auto simp: same_check_key paths_under)
          next
            case False
            then have IH: "case add_path chain k ls s of
                Inl j \<Rightarrow> \<exists>p t. (p, j, t) \<in> set (paths s) \<and> prefix p (map key ls)
              | Inr _ \<Rightarrow> \<forall>p r. (p, r) \<in> set (paths s) \<longrightarrow> \<not> prefix p (map key ls)"
              by (rule IH)
            show ?thesis
            proof (cases "add_path chain k ls s")
              case (Inl j)
              with IH obtain p t where "(p, j, t) \<in> set (paths s)" "prefix p (map key ls)" by auto
              then have "(key l # p, j, t) \<in> set (paths (Dec_node c f s n)) \<and>
                  prefix (key l # p) (map key (l # ls))"
                using None True by (simp add: same_check_key paths_under)
              then show ?thesis using Inl False None True by auto
            next
              case (Inr s')
              then show ?thesis using IH kept False None True
                by (simp add: same_check_key paths_under) (metis Cons_prefix_Cons)
            qed
          qed
        qed (use True in \<open>auto simp: same_check_key\<close>)
      next
        case False
        with Dec_node show ?thesis
          by (cases "add_path chain k (l # ls) n") (auto simp: same_check_key paths_under split: option.splits)
      qed
    qed
  qed simp
  then show "(\<exists>j. add_path chain k ls d = Inl j) \<longleftrightarrow> (\<exists>p \<in> set (paths d). prefix (fst p) (map key ls))"
    and "add_path chain k ls d = Inl j \<Longrightarrow> \<exists>p s. (p, j, s) \<in> set (paths d) \<and> prefix p (map key ls)"
    by (cases "add_path chain k ls d"; force)+
qed


subsection \<open>The numbering of the fields\<close>

definition vec_ok :: "ac_dec_field list \<Rightarrow> bool" where
  "vec_ok v \<longleftrightarrow> (\<forall>i < length v. field_id (v ! i) = int i + 1) \<and>
     (\<forall>i < length v. \<forall>j < length v. CheckFields (v ! i) (v ! j) \<longrightarrow> i = j)"

definition numbered_in :: "ac_dec_field list \<Rightarrow> ac_dec_field \<Rightarrow> bool" where
  "numbered_in v f \<longleftrightarrow> (\<exists>g \<in> set v. CheckFields g f \<and> field_id g = field_id f)"

definition same_but_id :: "ac_dec_field \<Rightarrow> ac_dec_field \<Rightarrow> bool" where
  "same_but_id f g \<longleftrightarrow> (\<exists>i. g = f\<lparr>field_id := i\<rparr>)"

lemma CheckFields_sym: "CheckFields f g \<Longrightarrow> CheckFields g f"
  by (simp add: CheckFields_def)

lemma CheckFields_trans: "CheckFields f g \<Longrightarrow> CheckFields g h \<Longrightarrow> CheckFields f h"
  by (simp add: CheckFields_def)

lemma CheckFields_id [simp]: "CheckFields (f\<lparr>field_id := i\<rparr>) g = CheckFields f g"
  "CheckFields f (g\<lparr>field_id := i\<rparr>) = CheckFields f g"
  by (simp_all add: CheckFields_def)

lemma vec_ok_snoc:
  assumes "vec_ok v" "\<forall>g \<in> set v. \<not> CheckFields g f"
  shows "vec_ok (v @ [f\<lparr>field_id := int (length v) + 1\<rparr>])"
  using assms by (auto simp: vec_ok_def nth_append less_Suc_eq dest: CheckFields_sym)

lemma numbered_in_append: "numbered_in v f \<Longrightarrow> numbered_in (v @ w) f"
  by (auto simp: numbered_in_def)

lemma put_fields_spec:
  assumes "vec_ok v"
  shows "vec_ok (fst (put_fields v fs)) \<and> (\<exists>w. fst (put_fields v fs) = v @ w \<and> length w \<le> length fs)
    \<and> list_all2 same_but_id fs (snd (put_fields v fs))
    \<and> (\<forall>f \<in> set (snd (put_fields v fs)). numbered_in (fst (put_fields v fs)) f)"
  using assms
proof (induction fs arbitrary: v)
  case (Cons f fs)
  show ?case
  proof (cases "find_first (\<lambda>g. CheckFields g f) v")
    case None
    let ?f = "f\<lparr>field_id := int (length v) + 1\<rparr>"
    have "vec_ok (v @ [?f])" using None Cons.prems by (intro vec_ok_snoc) auto
    note IH = Cons.IH [OF this]
    then obtain w where w: "fst (put_fields (v @ [?f]) fs) = (v @ [?f]) @ w" "length w \<le> length fs" by blast
    have "numbered_in (v @ [?f]) ?f" by (auto simp: numbered_in_def CheckFields_def)
    then have "numbered_in ((v @ [?f]) @ w) ?f" by (rule numbered_in_append)
    moreover have "put_fields v (f # fs) =
        (fst (put_fields (v @ [?f]) fs), ?f # snd (put_fields (v @ [?f]) fs))"
      by (simp add: None Let_def)
    ultimately show ?thesis using IH w by (auto simp: same_but_id_def)
  next
    case (Some g)
    note IH = Cons.IH [OF Cons.prems]
    then obtain w where w: "fst (put_fields v fs) = v @ w" "length w \<le> length fs" by blast
    have "numbered_in v (f\<lparr>field_id := field_id g\<rparr>)"
      using find_first_SomeD [OF Some] by (auto simp: numbered_in_def)
    then show ?thesis using IH Some w by (auto simp: same_but_id_def intro: numbered_in_append)
  qed
qed auto

definition same_but_ids :: "ac_dec_format \<Rightarrow> ac_dec_format \<Rightarrow> bool" where
  "same_but_ids f g \<longleftrightarrow> format_name g = format_name f \<and> format_size g = format_size f \<and>
     list_all2 same_but_id (format_fields f) (format_fields g)"

lemma put_formats_spec:
  assumes "vec_ok v"
  shows "vec_ok (fst (put_formats v fs)) \<and>
    (\<exists>w. fst (put_formats v fs) = v @ w \<and> length w \<le> sum_list (map (\<lambda>f. length (format_fields f)) fs))
    \<and> list_all2 same_but_ids fs (snd (put_formats v fs))
    \<and> (\<forall>p \<in> set (snd (put_formats v fs)). \<forall>f \<in> set (format_fields p). numbered_in (fst (put_formats v fs)) f)"
  using assms
proof (induction fs arbitrary: v)
  case (Cons p fs)
  note A = put_fields_spec [OF Cons.prems, of "format_fields p"]
  then obtain w where w: "fst (put_fields v (format_fields p)) = v @ w" "length w \<le> length (format_fields p)"
    by blast
  have "vec_ok (v @ w)" using A w by simp
  note B = Cons.IH [OF this]
  then obtain w' where w': "fst (put_formats (v @ w) fs) = (v @ w) @ w'"
    "length w' \<le> sum_list (map (\<lambda>f. length (format_fields f)) fs)" by blast
  have "\<forall>f \<in> set (snd (put_fields v (format_fields p))). numbered_in ((v @ w) @ w') f"
    using A w(1) numbered_in_append by metis
  then show ?case
    using A B w w' by (auto simp: same_but_ids_def Let_def)
qed auto

lemma vec_ok_Nil: "vec_ok []" by (simp add: vec_ok_def)

lemma FindDecField_vec:
  assumes "vec_ok v" "g \<in> set v"
  shows "FindDecField v (field_id g) = Some g" "1 \<le> field_id g" "field_id g \<le> int (length v)"
proof -
  obtain i where i: "i < length v" "g = v ! i" using assms(2) by (auto simp: in_set_conv_nth)
  then show "1 \<le> field_id g" "field_id g \<le> int (length v)" using assms(1) by (auto simp: vec_ok_def)
  show "FindDecField v (field_id g) = Some g"
  proof (cases "FindDecField v (field_id g)")
    case None
    then show ?thesis using assms(2) by (auto simp: FindDecField_def)
  next
    case (Some h)
    then have "h \<in> set v" "field_id h = field_id g" by (auto simp: FindDecField_def dest: find_first_SomeD)
    then show ?thesis using Some i assms(1) by (auto simp: in_set_conv_nth vec_ok_def)
  qed
qed

text \<open>Two numbered fields have one identifier exactly if they are the same bits.\<close>

lemma numbered_in_same:
  assumes "vec_ok v" "numbered_in v f" "numbered_in v g"
  shows "field_id f = field_id g \<longleftrightarrow> CheckFields f g"
proof -
  obtain f' g' where *: "f' \<in> set v" "CheckFields f' f" "field_id f' = field_id f"
    "g' \<in> set v" "CheckFields g' g" "field_id g' = field_id g" using assms(2,3) by (auto simp: numbered_in_def)
  have "f' = g' \<longleftrightarrow> field_id f' = field_id g'"
    using FindDecField_vec(1) [OF assms(1)] *(1,4) by (metis option.inject)
  moreover have "f' = g'" if "CheckFields f' g'"
    using that assms(1) *(1,4) by (auto simp: in_set_conv_nth vec_ok_def)
  ultimately show ?thesis
    using * by (metis CheckFields_sym CheckFields_trans)
qed

lemma number_formats_simps [simp]:
  "map format_fields (number_formats n fs) = map format_fields fs"
  "length (number_formats n fs) = length fs"
  by (induction fs arbitrary: n) auto

lemma number_formats_same: "list_all2 same_but_ids (number_formats n fs) gs \<longleftrightarrow> list_all2 same_but_ids fs gs"
  by (induction fs arbitrary: n gs) (auto simp: list_all2_Cons1 same_but_ids_def)

lemma sum_fields_numbered [simp]:
  "sum_list (map (\<lambda>f. length (format_fields f)) (number_formats n fs))
   = sum_list (map (\<lambda>f. length (format_fields f)) fs)"
  by (induction fs arbitrary: n) auto

lemma PutIDs_ok:
  obtains v gs where "PutIDs (number_formats 0 fs) (sum_list (map (\<lambda>f. length (format_fields f)) fs) + 1) = Some (v, gs)"
    "vec_ok v" "length v \<le> sum_list (map (\<lambda>f. length (format_fields f)) fs)"
    "list_all2 same_but_ids fs gs" "\<forall>p \<in> set gs. \<forall>f \<in> set (format_fields p). numbered_in v f"
proof -
  obtain v gs where r: "put_formats [] (number_formats 0 fs) = (v, gs)" by fastforce
  have s: "vec_ok v" "length v \<le> sum_list (map (\<lambda>f. length (format_fields f)) fs)"
    "list_all2 same_but_ids fs gs" "\<forall>p \<in> set gs. \<forall>f \<in> set (format_fields p). numbered_in v f"
    using put_formats_spec [OF vec_ok_Nil, of "number_formats 0 fs"] by (auto simp: r number_formats_same)
  then show ?thesis by (intro that [of v gs]) (simp_all add: PutIDs_def r)
qed


subsection \<open>The tree of a description\<close>

definition checks :: "ac_dec_instr \<Rightarrow> (int \<times> int) list" where
  "checks i = map key (instr_dec_list i)"

definition no_later_prefix :: "'a list list \<Rightarrow> nat \<Rightarrow> bool" where
  "no_later_prefix cs k \<longleftrightarrow> (\<forall>j < length cs. k < j \<longrightarrow> \<not> prefix (cs ! j) (cs ! k))"

definition no_earlier_prefix :: "'a list list \<Rightarrow> bool" where
  "no_earlier_prefix cs \<longleftrightarrow> (\<forall>k < length cs. \<forall>j < k. \<not> prefix (cs ! j) (cs ! k))"

definition chain_of :: "ac_dec_format list \<Rightarrow> ac_dec_instr \<Rightarrow> ac_decoder" where
  "chain_of formats i =
     (case FindFormat formats (instr_format i) of
        Inl _ \<Rightarrow> Dec_null
      | Inr fmt \<Rightarrow> operand_chain (instr_dec_list i) (format_fields fmt))"

definition assigned :: "ac_dec_format list \<Rightarrow> ac_dec_instr \<Rightarrow> ac_dec_instr" where
  "assigned formats i =
     (case FindFormat formats (instr_format i) of
        Inl _ \<Rightarrow> i
      | Inr fmt \<Rightarrow> i\<lparr>instr_dec_list := map (assign_id fmt) (instr_dec_list i),
                      instr_size := format_size fmt sdiv 8\<rparr>)"

text \<open>The tree holds the instructions whose checks no later instruction cuts off.\<close>

definition entries :: "ac_dec_format list \<Rightarrow> ac_dec_instr list \<Rightarrow> dec_path set" where
  "entries formats ins = (\<lambda>k. (checks (ins ! k), k, chain_of formats (ins ! k))) `
     {k. k < length ins \<and> no_later_prefix (map checks ins) k}"

definition tree_of :: "ac_dec_format list \<Rightarrow> ac_dec_instr list \<Rightarrow> ac_decoder \<Rightarrow> bool" where
  "tree_of formats ins d \<longleftrightarrow> trie_ok d \<and> set (paths d) = entries formats ins"

lemma no_later_prefix_snoc:
  "k < length cs \<Longrightarrow> no_later_prefix (cs @ [c]) k \<longleftrightarrow> no_later_prefix cs k \<and> \<not> prefix c (cs ! k)"
  by (auto simp: no_later_prefix_def nth_append less_Suc_eq)

lemma no_earlier_prefix_snoc:
  "no_earlier_prefix (cs @ [c]) \<longleftrightarrow> no_earlier_prefix cs \<and> (\<forall>j < length cs. \<not> prefix (cs ! j) c)"
  by (auto simp: no_earlier_prefix_def nth_append less_Suc_eq)

lemma no_earlier_at: "no_earlier_prefix cs \<Longrightarrow> k < length cs \<Longrightarrow> j < k \<Longrightarrow> \<not> prefix (cs ! j) (cs ! k)"
  by (simp add: no_earlier_prefix_def)

lemma entries_snoc:
  "entries formats (ins @ [x]) = {e \<in> entries formats ins. \<not> prefix (checks x) (fst e)}
     \<union> {(checks x, length ins, chain_of formats x)}"
proof -
  let ?L = "{k. k < length ins \<and> no_later_prefix (map checks ins) k}"
  have "{k. k < length (ins @ [x]) \<and> no_later_prefix (map checks (ins @ [x])) k}
      = insert (length ins) {k \<in> ?L. \<not> prefix (checks x) (checks (ins ! k))}"
    using no_later_prefix_snoc [of _ "map checks ins" "checks x"]
    by (auto simp: less_Suc_eq) (auto simp: no_later_prefix_def)
  then have "entries formats (ins @ [x]) =
      (\<lambda>k. (checks ((ins @ [x]) ! k), k, chain_of formats ((ins @ [x]) ! k))) `
        insert (length ins) {k \<in> ?L. \<not> prefix (checks x) (checks (ins ! k))}"
    by (simp only: entries_def)
  also have "\<dots> = insert (checks x, length ins, chain_of formats x)
      ((\<lambda>k. (checks (ins ! k), k, chain_of formats (ins ! k))) ` {k \<in> ?L. \<not> prefix (checks x) (checks (ins ! k))})"
    by (auto simp: nth_append image_iff)
  also have "\<dots> = {e \<in> entries formats ins. \<not> prefix (checks x) (fst e)}
     \<union> {(checks x, length ins, chain_of formats x)}"
    by (auto simp: entries_def)
  finally show ?thesis .
qed

text \<open>A prefix among all the instructions is a prefix among those still in the tree.\<close>

lemma live_prefix:
  "(\<exists>j < length cs. prefix (cs ! j) c) \<longleftrightarrow> (\<exists>j < length cs. no_later_prefix cs j \<and> prefix (cs ! j) c)"
proof
  assume "\<exists>j < length cs. prefix (cs ! j) c"
  then obtain j where j: "j < length cs" "prefix (cs ! j) c"
    and max: "\<And>i. i < length cs \<Longrightarrow> prefix (cs ! i) c \<Longrightarrow> i \<le> j"
  proof -
    let ?S = "{j. j < length cs \<and> prefix (cs ! j) c}"
    have "finite ?S" "?S \<noteq> {}" using \<open>\<exists>j < length cs. prefix (cs ! j) c\<close> by auto
    then have "Max ?S \<in> ?S" "\<And>i. i \<in> ?S \<Longrightarrow> i \<le> Max ?S" using Max_in Max_ge by blast+
    then show thesis using that [of "Max ?S"] by simp
  qed
  have "no_later_prefix cs j"
    unfolding no_later_prefix_def
  proof (intro allI impI notI)
    fix i assume i: "i < length cs" "j < i" "prefix (cs ! i) (cs ! j)"
    then have "prefix (cs ! i) c" using j(2) prefix_order.trans by blast
    with max i show False by fastforce
  qed
  with j show "\<exists>j < length cs. no_later_prefix cs j \<and> prefix (cs ! j) c" by blast
qed blast

lemma AddToDecoder_spec:
  assumes "tree_of formats ins d" "FindFormat formats (instr_format i) = Inr fmt" "instr_dec_list i \<noteq> []"
  shows "case AddToDecoder d ins i fmt of
      Inl e \<Rightarrow> \<exists>j < length ins. prefix (checks (ins ! j)) (checks (assigned formats i))
    | Inr (d', i') \<Rightarrow> i'\<lparr>instr_size := format_size fmt sdiv 8\<rparr> = assigned formats i \<and>
        tree_of formats (ins @ [assigned formats i]) d' \<and>
        (\<forall>j < length ins. \<not> prefix (checks (ins ! j)) (checks (assigned formats i)))"
proof -
  let ?ls = "map (assign_id fmt) (instr_dec_list i)"
  let ?chain = "operand_chain ?ls (format_fields fmt)"
  let ?cs = "map checks ins"
  have ls: "?ls \<noteq> []" using assms(3) by simp
  have trie: "trie_ok d" and paths: "set (paths d) = entries formats ins"
    using assms(1) by (simp_all add: tree_of_def)
  have i: "checks (assigned formats i) = map key ?ls"
      "chain_of formats (assigned formats i) = ?chain"
    by (simp_all add: checks_def assigned_def chain_of_def assms(2))
  have conflict: "(\<exists>j. add_path ?chain (length ins) ?ls d = Inl j) \<longleftrightarrow>
      (\<exists>j < length ins. prefix (checks (ins ! j)) (checks (assigned formats i)))"
    unfolding add_path_conflict(1) [OF trie ls] paths
    using live_prefix [of ?cs "map key ?ls"] by (auto simp: i entries_def)
  show ?thesis
  proof (cases "add_path ?chain (length ins) ?ls d")
    case (Inl j)
    then show ?thesis using conflict assms(3) by (simp add: AddToDecoder_def Let_def)
  next
    case (Inr d')
    have no: "\<forall>j < length ins. \<not> prefix (checks (ins ! j)) (checks (assigned formats i))"
      using conflict Inr by auto
    note P = add_path_paths [OF trie ls Inr]
    have "set (paths d') = entries formats (ins @ [assigned formats i])"
      using P by (simp add: entries_snoc paths i)
    then show ?thesis
      using Inr P no assms by (simp add: AddToDecoder_def Let_def tree_of_def assigned_def)
  qed
qed

lemma add_instrs_spec:
  assumes "tree_of formats ins d" "no_earlier_prefix (map checks ins)"
    "\<forall>i \<in> set rest. \<exists>fmt. FindFormat formats (instr_format i) = Inr fmt"
  shows "case add_instrs formats d ins rest of
      Inl e \<Rightarrow> (\<exists>i \<in> set rest. instr_dec_list i = []) \<or>
        \<not> no_earlier_prefix (map checks (ins @ map (assigned formats) rest))
    | Inr (d', all) \<Rightarrow> all = ins @ map (assigned formats) rest \<and> tree_of formats all d' \<and>
        no_earlier_prefix (map checks all) \<and> (\<forall>i \<in> set rest. instr_dec_list i \<noteq> [])"
  using assms
proof (induction rest arbitrary: ins d)
  case (Cons i rest)
  obtain fmt where fmt: "FindFormat formats (instr_format i) = Inr fmt" using Cons.prems(3) by auto
  show ?case
  proof (cases "instr_dec_list i = []")
    case True
    then show ?thesis by (simp add: fmt AddToDecoder_def)
  next
    case False
    note A = AddToDecoder_spec [OF Cons.prems(1) fmt False]
    show ?thesis
    proof (cases "AddToDecoder d ins i fmt")
      case (Inl e)
      with A obtain j where "j < length ins" "prefix (checks (ins ! j)) (checks (assigned formats i))" by auto
      then have "\<not> no_earlier_prefix (map checks (ins @ map (assigned formats) (i # rest)))"
        using no_earlier_at [of "map checks (ins @ map (assigned formats) (i # rest))" "length ins" j]
        by (auto simp: nth_append)
      then show ?thesis by (simp add: fmt Inl)
    next
      case (Inr p)
      then obtain d' i' where p: "AddToDecoder d ins i fmt = Inr (d', i')" by (cases p) auto
      let ?ins = "ins @ [assigned formats i]"
      have "i'\<lparr>instr_size := format_size fmt sdiv 8\<rparr> = assigned formats i" "tree_of formats ?ins d'"
        "no_earlier_prefix (map checks ?ins)"
        using A p Cons.prems(2) by (simp_all add: no_earlier_prefix_snoc)
      with Cons.IH [of ?ins d'] Cons.prems(3) False show ?thesis
        by (auto simp: fmt p split: sum.splits)
    qed
  qed
qed simp

lemma tree_of_Nil: "tree_of formats [] Dec_null"
  by (simp add: tree_of_def entries_def)


subsection \<open>Descriptions and the bits their checks read\<close>

definition field_named :: "ac_dec_format \<Rightarrow> string \<Rightarrow> ac_dec_field option" where
  "field_named fmt name = find_first (\<lambda>f. strcmp (field_name f) name = 0) (format_fields fmt)"

definition check_field :: "ac_dec_format list \<Rightarrow> ac_dec_instr \<Rightarrow> ac_dec_list \<Rightarrow> ac_dec_field option" where
  "check_field formats i c =
     (case FindFormat formats (instr_format i) of Inl _ \<Rightarrow> None | Inr fmt \<Rightarrow> field_named fmt (dl_name c))"

definition bits_of :: "ac_dec_field \<Rightarrow> int \<times> int \<times> int" where
  "bits_of f = (first_bit f, field_size f, field_sign f)"

text \<open>The checks of an instruction as the bits they read, and the values.\<close>

definition bit_path :: "ac_dec_format list \<Rightarrow> ac_dec_instr \<Rightarrow> ((int \<times> int \<times> int) option \<times> int) list" where
  "bit_path formats i =
     map (\<lambda>c. (map_option bits_of (check_field formats i c), dl_value c)) (instr_dec_list i)"

text \<open>What \<open>acpp\<close> checks of a decode list: the format and the fields of its entries exist.\<close>

definition names_ok :: "ac_dec_format list \<Rightarrow> ac_dec_instr list \<Rightarrow> bool" where
  "names_ok formats ins \<longleftrightarrow>
     (\<forall>i \<in> set ins. (\<exists>fmt. FindFormat formats (instr_format i) = Inr fmt) \<and>
        (\<forall>c \<in> set (instr_dec_list i). check_field formats i c \<noteq> None))"

lemma CheckFields_bits: "CheckFields f g \<longleftrightarrow> bits_of f = bits_of g"
  by (auto simp: CheckFields_def bits_of_def)

lemma find_first_all2:
  assumes "list_all2 R xs ys" "\<And>x y. R x y \<Longrightarrow> P x \<longleftrightarrow> Q y"
  shows "rel_option R (find_first P xs) (find_first Q ys)"
  using assms(1) by (induction rule: list_all2_induct) (auto simp: assms(2))

lemma FindFormat_same:
  assumes "list_all2 same_but_ids fs gs"
  shows "rel_sum (=) same_but_ids (FindFormat fs name) (FindFormat gs name)"
  using find_first_all2 [OF assms, of "\<lambda>f. strcmp (format_name f) name = 0" "\<lambda>f. strcmp (format_name f) name = 0"]
  unfolding FindFormat_def
  by (cases rule: option.rel_cases) (auto simp: same_but_ids_def simp del: find_first_None)

lemma field_named_same:
  assumes "same_but_ids fmt fmt'"
  shows "rel_option same_but_id (field_named fmt name) (field_named fmt' name)"
  unfolding field_named_def using assms
  by (intro find_first_all2) (auto simp: same_but_ids_def same_but_id_def)

lemma FindFormat_in: "FindFormat fs name = Inr fmt \<Longrightarrow> fmt \<in> set fs \<and> format_name fmt = name"
  by (auto simp: FindFormat_def split: option.splits dest: find_first_SomeD)

lemma field_named_in: "field_named fmt name = Some f \<Longrightarrow> f \<in> set (format_fields fmt) \<and> field_name f = name"
  by (auto simp: field_named_def dest: find_first_SomeD)

text \<open>The field of a check, before and after the numbering.\<close>

lemma check_field_numbered:
  assumes "list_all2 same_but_ids fs gs" "check_field fs i c = Some f"
  obtains fmt g where "FindFormat gs (instr_format i) = Inr fmt" "field_named fmt (dl_name c) = Some g"
    "bits_of g = bits_of f" "g \<in> set (format_fields fmt)" "fmt \<in> set gs"
    "assign_id fmt c = c\<lparr>dl_id := field_id g\<rparr>"
proof -
  obtain fmt0 where f0: "FindFormat fs (instr_format i) = Inr fmt0" "field_named fmt0 (dl_name c) = Some f"
    using assms(2) by (auto simp: check_field_def split: sum.splits)
  then obtain fmt where fmt: "FindFormat gs (instr_format i) = Inr fmt" "same_but_ids fmt0 fmt"
    using FindFormat_same [OF assms(1), of "instr_format i"] by (auto elim: rel_sum.cases)
  then obtain g where g: "field_named fmt (dl_name c) = Some g" "same_but_id f g"
    using field_named_same [OF fmt(2), of "dl_name c"] f0(2) by (auto elim: option.rel_cases)
  show ?thesis
  proof (rule that [OF fmt(1) g(1)])
    show "bits_of g = bits_of f" using g(2) by (auto simp: same_but_id_def bits_of_def)
    show "g \<in> set (format_fields fmt)" using field_named_in [OF g(1)] by simp
    show "fmt \<in> set gs" using FindFormat_in [OF fmt(1)] by simp
    show "assign_id fmt c = c\<lparr>dl_id := field_id g\<rparr>"
      using g(1) by (simp add: assign_id_def field_named_def)
  qed
qed

lemma prefix_map_iff:
  assumes "\<And>x y. x \<in> set xs \<Longrightarrow> y \<in> set ys \<Longrightarrow> f x = g y \<longleftrightarrow> f' x = g' y"
  shows "prefix (map f xs) (map g ys) \<longleftrightarrow> prefix (map f' xs) (map g' ys)"
  using assms by (induction xs arbitrary: ys) (auto simp: prefix_Cons split: list.splits | case_tac ys)+


definition decoder_ok :: "ac_dec_format list \<Rightarrow> ac_dec_instr list \<Rightarrow> ac_decoder_full \<Rightarrow> bool" where
  "decoder_ok formats ins full \<longleftrightarrow>
     list_all2 same_but_ids formats (df_formats full) \<and>
     vec_ok (df_fields full) \<and> length (df_fields full) < df_nFields full \<and>
     (\<forall>p \<in> set (df_formats full). \<forall>f \<in> set (format_fields p). numbered_in (df_fields full) f) \<and>
     df_instructions full = map (assigned (df_formats full)) ins \<and>
     tree_of (df_formats full) (df_instructions full) (df_decoder full)"

lemma checks_assigned:
  assumes "list_all2 same_but_ids formats gs" "vec_ok v"
    "\<forall>p \<in> set gs. \<forall>f \<in> set (format_fields p). numbered_in v f"
    "names_ok formats ins" "i \<in> set ins" "j \<in> set ins"
  shows "prefix (checks (assigned gs i)) (checks (assigned gs j)) \<longleftrightarrow>
    prefix (bit_path formats i) (bit_path formats j)"
proof -
  have field: "\<exists>f fmt g. check_field formats i c = Some f \<and> FindFormat gs (instr_format i) = Inr fmt \<and>
      bits_of g = bits_of f \<and> numbered_in v g \<and> assign_id fmt c = c\<lparr>dl_id := field_id g\<rparr>"
    if "i \<in> set ins" "c \<in> set (instr_dec_list i)" for i c
  proof -
    from that assms(4) obtain f where f: "check_field formats i c = Some f"
      by (auto simp: names_ok_def)
    show ?thesis
      by (rule check_field_numbered [OF assms(1) f]) (use f assms(3) in blast)
  qed
  have form: "checks (assigned gs i) = map (\<lambda>c. key (assign_id (projr (FindFormat gs (instr_format i))) c)) (instr_dec_list i)"
    if "i \<in> set ins" for i
  proof -
    from that assms(4) obtain fmt where "FindFormat formats (instr_format i) = Inr fmt" by (auto simp: names_ok_def)
    then obtain fmt' where "FindFormat gs (instr_format i) = Inr fmt'"
      using FindFormat_same [OF assms(1), of "instr_format i"] by (auto elim: rel_sum.cases)
    then show ?thesis by (simp add: checks_def assigned_def)
  qed
  have "key (assign_id (projr (FindFormat gs (instr_format i))) c) = key (assign_id (projr (FindFormat gs (instr_format j))) c')
      \<longleftrightarrow> (map_option bits_of (check_field formats i c), dl_value c) = (map_option bits_of (check_field formats j c'), dl_value c')"
    if c: "c \<in> set (instr_dec_list i)" "c' \<in> set (instr_dec_list j)" for c c'
  proof -
    obtain f fmt g where g: "check_field formats i c = Some f" "FindFormat gs (instr_format i) = Inr fmt"
      "bits_of g = bits_of f" "numbered_in v g" "assign_id fmt c = c\<lparr>dl_id := field_id g\<rparr>"
      using field [OF assms(5) c(1)] by blast
    obtain f' fmt' g' where g': "check_field formats j c' = Some f'" "FindFormat gs (instr_format j) = Inr fmt'"
      "bits_of g' = bits_of f'" "numbered_in v g'" "assign_id fmt' c' = c'\<lparr>dl_id := field_id g'\<rparr>"
      using field [OF assms(6) c(2)] by blast
    show ?thesis
      using numbered_in_same [OF assms(2) g(4) g'(4)] g g' by (simp add: key_def CheckFields_bits)
  qed
  then show ?thesis
    unfolding form [OF assms(5)] form [OF assms(6)] bit_path_def by (rule prefix_map_iff)
qed

lemma no_earlier_prefix_cong:
  "length cs = length ds \<Longrightarrow>
   (\<And>j k. j < length cs \<Longrightarrow> k < length cs \<Longrightarrow> prefix (cs ! j) (cs ! k) \<longleftrightarrow> prefix (ds ! j) (ds ! k)) \<Longrightarrow>
   no_earlier_prefix cs \<longleftrightarrow> no_earlier_prefix ds"
  unfolding no_earlier_prefix_def by (metis less_trans)

lemma no_later_prefix_cong:
  "length cs = length ds \<Longrightarrow>
   (\<And>j k. j < length cs \<Longrightarrow> k < length cs \<Longrightarrow> prefix (cs ! j) (cs ! k) \<longleftrightarrow> prefix (ds ! j) (ds ! k)) \<Longrightarrow>
   k < length cs \<Longrightarrow> no_later_prefix cs k \<longleftrightarrow> no_later_prefix ds k"
  unfolding no_later_prefix_def by auto

lemma CreateDecoder_spec:
  assumes "names_ok formats ins"
  shows "\<exists>r. CreateDecoder formats ins = Some r \<and> (case r of
      Inl e \<Rightarrow> (\<exists>i \<in> set ins. instr_dec_list i = []) \<or> \<not> no_earlier_prefix (map (bit_path formats) ins)
    | Inr full \<Rightarrow> decoder_ok formats ins full \<and> (\<forall>i \<in> set ins. instr_dec_list i \<noteq> []) \<and>
        no_earlier_prefix (map (bit_path formats) ins))"
proof -
  let ?n = "sum_list (map (\<lambda>f. length (format_fields f)) formats) + 1"
  obtain v gs where ids: "PutIDs (number_formats 0 formats) ?n = Some (v, gs)"
    and v: "vec_ok v" "length v < ?n" and gs: "list_all2 same_but_ids formats gs"
    and num: "\<forall>p \<in> set gs. \<forall>f \<in> set (format_fields p). numbered_in v f"
    by (rule PutIDs_ok [of formats]) (use that in fastforce)
  have "\<exists>fmt. FindFormat gs (instr_format i) = Inr fmt" if "i \<in> set ins" for i
    using that assms FindFormat_same [OF gs, of "instr_format i"]
    by (fastforce simp: names_ok_def elim: rel_sum.cases)
  then have A: "case add_instrs gs Dec_null [] ins of
      Inl e \<Rightarrow> (\<exists>i \<in> set ins. instr_dec_list i = []) \<or> \<not> no_earlier_prefix (map checks (map (assigned gs) ins))
    | Inr (d', all) \<Rightarrow> all = map (assigned gs) ins \<and> tree_of gs all d' \<and>
        no_earlier_prefix (map checks all) \<and> (\<forall>i \<in> set ins. instr_dec_list i \<noteq> [])"
    by (intro add_instrs_spec [OF tree_of_Nil, of ins gs, unfolded append_Nil])
      (simp_all add: no_earlier_prefix_def)
  have "no_earlier_prefix (map checks (map (assigned gs) ins)) \<longleftrightarrow> no_earlier_prefix (map (bit_path formats) ins)"
    by (rule no_earlier_prefix_cong) (simp_all add: checks_assigned [OF gs v(1) num assms])
  with A ids v gs num show ?thesis
    by (auto simp: CreateDecoder_def Let_def decoder_ok_def split: sum.splits)
qed

lemma decoder_ok_paths:
  assumes "decoder_ok formats ins full" "names_ok formats ins"
  shows "set (paths (df_decoder full)) =
    (\<lambda>k. (checks (df_instructions full ! k), k, chain_of (df_formats full) (df_instructions full ! k))) `
      {k. k < length ins \<and> no_later_prefix (map (bit_path formats) ins) k}"
proof -
  let ?gs = "df_formats full"
  have "no_later_prefix (map checks (map (assigned ?gs) ins)) k \<longleftrightarrow> no_later_prefix (map (bit_path formats) ins) k"
    if "k < length ins" for k
    using assms that
    by (intro no_later_prefix_cong) (simp_all add: decoder_ok_def checks_assigned [of formats ?gs "df_fields full" ins])
  then have "{k. k < length ins \<and> no_later_prefix (map checks (map (assigned ?gs) ins)) k}
      = {k. k < length ins \<and> no_later_prefix (map (bit_path formats) ins) k}" by blast
  then show ?thesis using assms(1) by (simp add: decoder_ok_def tree_of_def entries_def)
qed


subsection \<open>The search\<close>

text \<open>
  The instruction word as the field values \<open>v\<close> that \<open>GetBits\<close> returns for it: what has been
  fetched and read before does not change them. \<open>ok\<close> is an invariant of the buffer.
\<close>

type_synonym field_values = "int \<Rightarrow> int \<Rightarrow> int \<Rightarrow> int"

definition reads :: "'b getbits \<Rightarrow> ('b \<Rightarrow> bool) \<Rightarrow> field_values \<Rightarrow> bool" where
  "reads gb ok v \<longleftrightarrow>
     (\<forall>b f s g. ok b \<longrightarrow> sint (fst (gb b f s g)) = v f s g \<and> ok (snd (gb b f s g)))"

definition value_of :: "field_values \<Rightarrow> ac_dec_field \<Rightarrow> int" where
  "value_of v f = v (first_bit f) (field_size f) (field_sign f)"

definition id_value :: "field_values \<Rightarrow> ac_dec_field list \<Rightarrow> int \<Rightarrow> int" where
  "id_value v dfs i = (case FindDecField dfs i of Some f \<Rightarrow> value_of v f | None \<Rightarrow> 0)"

definition holds :: "field_values \<Rightarrow> ac_dec_field list \<Rightarrow> (int \<times> int) list \<Rightarrow> bool" where
  "holds v dfs p \<longleftrightarrow> (\<forall>(i, w) \<in> set p. id_value v dfs i = w)"

definition good_id :: "ac_dec_field list \<Rightarrow> nat \<Rightarrow> int \<Rightarrow> bool" where
  "good_id dfs n i \<longleftrightarrow> FindDecField dfs i \<noteq> None \<and> 0 < i \<and> i < int n"

primrec ids_ok :: "ac_dec_field list \<Rightarrow> nat \<Rightarrow> ac_decoder \<Rightarrow> bool" where
  "ids_ok dfs m Dec_null = True"
| "ids_ok dfs m (Dec_node c f s n) = (good_id dfs m (dl_id c) \<and> ids_ok dfs m s \<and> ids_ok dfs m n)"

primrec dec_depth :: "ac_decoder \<Rightarrow> nat" where
  "dec_depth Dec_null = 0"
| "dec_depth (Dec_node c f s n) = max (if f = None then dec_depth s + 1 else 0) (dec_depth n)"

definition node_ok :: "ac_dec_field list \<Rightarrow> nat \<Rightarrow> ac_decoder \<Rightarrow> nat \<Rightarrow> bool" where
  "node_ok dfs m d len \<longleftrightarrow> trie_ok d \<and> ids_ok dfs m d \<and> len + dec_depth d \<le> 63"

primrec stack_ok :: "field_values \<Rightarrow> ac_dec_field list \<Rightarrow> u32 list \<Rightarrow> ac_decoder list \<Rightarrow> bool" where
  "stack_ok v dfs out [] = True"
| "stack_ok v dfs out (d # path) =
     (d \<noteq> Dec_null \<and> node_ok dfs (length out) (dec_next d) (length path) \<and>
      good_id dfs (length out) (dl_id (dec_check d)) \<and>
      id_value v dfs (dl_id (dec_check d)) = dl_value (dec_check d) \<and>
      out ! nat (dl_id (dec_check d)) = of_int (dl_value (dec_check d)) \<and>
      stack_ok v dfs out path)"

definition cache_ok :: "field_values \<Rightarrow> ac_dec_field list \<Rightarrow> ac_decoder \<Rightarrow> (ac_dec_field \<times> int) option \<Rightarrow> bool" where
  "cache_ok v dfs d field \<longleftrightarrow>
     (case field of None \<Rightarrow> True
      | Some (f, x) \<Rightarrow> x = value_of v f \<and> FindDecField dfs (field_id f) = Some f \<and>
          (d \<noteq> Dec_null \<longrightarrow> dl_id (dec_check d) = field_id f))"

text \<open>The paths still to be tried when the search stands at the paths \<open>ps\<close> with a stack.\<close>

fun unwind :: "dec_path list \<Rightarrow> ac_decoder list \<Rightarrow> dec_path list" where
  "unwind ps [] = ps"
| "unwind ps (d # path) = unwind (under (dec_check d) ps @ paths (dec_next d)) path"

lemma unwind_Cons:
  "unwind ((p, r) # ps) path = (map (key \<circ> dec_check) (rev path) @ p, r) # unwind ps path"
  by (induction path arbitrary: p ps) (auto simp: under_def)

lemma unwind_filter:
  "filter (\<lambda>e. holds v dfs (fst e)) (unwind ps path) =
   filter (\<lambda>e. holds v dfs (fst e)) (unwind (filter (\<lambda>e. holds v dfs (fst e)) ps) path)"
proof (induction path arbitrary: ps)
  case (Cons d path)
  have u: "filter (\<lambda>e. holds v dfs (fst e)) (under c ps) =
      filter (\<lambda>e. holds v dfs (fst e)) (under c (filter (\<lambda>e. holds v dfs (fst e)) ps))" for c
    by (induction ps) (auto simp: under_def holds_def)
  show ?case
    using Cons [of "under (dec_check d) ps @ paths (dec_next d)"]
      Cons [of "under (dec_check d) (filter (\<lambda>e. holds v dfs (fst e)) ps) @ paths (dec_next d)"]
    by (simp add: u [symmetric])
qed simp

lemma FindDecField_id: "FindDecField dfs i = Some f \<Longrightarrow> field_id f = i"
  by (auto simp: FindDecField_def dest: find_first_SomeD)

text \<open>Every value written is the value of its identifier, so nothing the stack relies on is lost.\<close>

lemma put_nth:
  assumes "0 < i" "good_id dfs (length out) j"
  shows "out[nat i := x] ! nat j = (if i = j then x else out ! nat j)"
  using assms by (auto simp: good_id_def eq_nat_nat_iff)

lemma stack_ok_put:
  assumes "stack_ok v dfs out path" "0 < i"
  shows "stack_ok v dfs (out[nat i := of_int (id_value v dfs i)]) path"
  using assms by (induction path) (auto simp: put_nth [of i dfs out])

lemma keep_field_cached:
  assumes "cache_ok v dfs Dec_null (Some fv)"
  shows "\<exists>field. keep_field n (Some fv) = Some field \<and> cache_ok v dfs n field \<and> (n = Dec_null \<longrightarrow> field = Some fv)"
  using assms by (cases n; cases fv) (auto simp: keep_field_def cache_ok_def)

lemma backtrack_ok:
  assumes "stack_ok v dfs out path" "cache_ok v dfs Dec_null (Some fv)"
  shows "\<exists>d field path'. backtrack (Some fv) path = Some (d, field, path') \<and> stack_ok v dfs out path' \<and>
    node_ok dfs (length out) d (length path') \<and> cache_ok v dfs d field \<and>
    unwind [] path = unwind (paths d) path' \<and> (d = Dec_null \<longrightarrow> path' = [])"
  using assms(1)
proof (induction path)
  case Nil
  then show ?case using assms(2) by (simp add: node_ok_def)
next
  case (Cons x path)
  then obtain c f s n where x: "x = Dec_node c f s n" by (cases x) auto
  obtain field where field: "keep_field n (Some fv) = Some field" "cache_ok v dfs n field"
    "n = Dec_null \<longrightarrow> field = Some fv" using keep_field_cached [OF assms(2)] by blast
  show ?case
  proof (cases "n = Dec_null")
    case True
    with Cons field x show ?thesis by (auto simp: under_def)
  next
    case False
    with Cons.prems field x show ?thesis by (auto simp: under_def)
  qed
qed

lemma resume_ok:
  assumes "stack_ok v dfs out path" "node_ok dfs (length out) d (length path)" "cache_ok v dfs d field"
    "d = Dec_null \<Longrightarrow> field \<noteq> None"
  shows "\<exists>d' field' path'. resume d field path = Some (d', field', path') \<and> stack_ok v dfs out path' \<and>
    node_ok dfs (length out) d' (length path') \<and> cache_ok v dfs d' field' \<and>
    unwind (paths d) path = unwind (paths d') path' \<and> (d' = Dec_null \<longrightarrow> path' = [])"
proof (cases "d = Dec_null")
  case True
  with assms(3,4) obtain fv where "field = Some fv" "cache_ok v dfs Dec_null (Some fv)" by auto
  with backtrack_ok [OF assms(1)] True show ?thesis by (simp add: resume_def)
qed (use assms in \<open>simp add: resume_def\<close>)

lemma load_field_ok:
  assumes "reads gb ok v" "ok b" "good_id dfs m (dl_id c)" "cache_ok v dfs (Dec_node c f s n) field"
  shows "\<exists>fd b'. load_field gb dfs (dl_id c) field b = Some ((fd, id_value v dfs (dl_id c)), b') \<and> ok b' \<and>
    cache_ok v dfs Dec_null (Some (fd, id_value v dfs (dl_id c)))"
proof (cases field)
  case None
  obtain fd where fd: "FindDecField dfs (dl_id c) = Some fd" using assms(3) by (auto simp: good_id_def)
  obtain w b' where gb: "gb b (first_bit fd) (field_size fd) (field_sign fd) = (w, b')" by fastforce
  have "sint w = value_of v fd" "ok b'"
    using assms(1,2) gb unfolding reads_def value_of_def by (metis fst_conv, metis snd_conv)
  then show ?thesis
    using None fd gb FindDecField_id [OF fd]
    by (simp add: load_field_def read_field_def id_value_def cache_ok_def)
next
  case (Some fv)
  then show ?thesis
    using assms(2,4) by (cases fv) (auto simp: load_field_def id_value_def cache_ok_def)
qed

definition outcome :: "field_values \<Rightarrow> ac_dec_field list \<Rightarrow> dec_path list \<Rightarrow> (nat \<times> ac_decoder) option \<Rightarrow> u32 list \<Rightarrow> bool" where
  "outcome v dfs ps res out \<longleftrightarrow>
     (case filter (\<lambda>e. holds v dfs (fst e)) ps of
        [] \<Rightarrow> res = None
      | (p, k, s) # _ \<Rightarrow> res = Some (k, s) \<and> (\<forall>(i, w) \<in> set p. out ! nat i = of_int w))"

lemma outcome_filter:
  "filter (\<lambda>e. holds v dfs (fst e)) ps = filter (\<lambda>e. holds v dfs (fst e)) qs \<Longrightarrow>
   outcome v dfs (unwind ps path) res out = outcome v dfs (unwind qs path) res out"
  by (simp only: outcome_def unwind_filter [of v dfs ps path] unwind_filter [of v dfs qs path])

lemma stack_holds:
  "stack_ok v dfs out path \<Longrightarrow> holds v dfs (map (key \<circ> dec_check) (rev path)) \<and>
     (\<forall>(i, w) \<in> set (map (key \<circ> dec_check) (rev path)). out ! nat i = of_int w)"
  by (induction path) (auto simp: holds_def key_def)

text \<open>A round that goes on keeps the invariant and the paths to be tried.\<close>

lemma decode_round_ok:
  assumes "reads gb ok v" "ok b" "node_ok dfs (length out) (Dec_node c f s n) (length path)"
    "stack_ok v dfs out path" "cache_ok v dfs (Dec_node c f s n) field"
  shows "(\<exists>k out' b'. decode_round gb dfs c f s n field path out b = Some (Found_at k s out' b') \<and> ok b' \<and>
        length out' = length out \<and> outcome v dfs (unwind (paths (Dec_node c f s n)) path) (Some (k, s)) out') \<or>
    (\<exists>d' field' path' out' b'. decode_round gb dfs c f s n field path out b = Some (Go_on d' field' path' out' b') \<and>
        ok b' \<and> length out' = length out \<and> node_ok dfs (length out) d' (length path') \<and>
        stack_ok v dfs out' path' \<and> cache_ok v dfs d' field' \<and> (d' = Dec_null \<longrightarrow> path' = []) \<and>
        (\<forall>res out''. outcome v dfs (unwind (paths (Dec_node c f s n)) path) res out''
           = outcome v dfs (unwind (paths d') path') res out''))"
proof -
  let ?x = "id_value v dfs (dl_id c)"
  have good: "good_id dfs (length out) (dl_id c)" and n: "node_ok dfs (length out) n (length path)"
    using assms(3) by (auto simp: node_ok_def)
  obtain fd b' where ld: "load_field gb dfs (dl_id c) field b = Some ((fd, ?x), b')" "ok b'"
    and fd: "cache_ok v dfs Dec_null (Some (fd, ?x))"
    using load_field_ok [OF assms(1,2) good assms(5)] by blast
  show ?thesis
  proof (cases "?x = dl_value c")
    case False
    obtain field' where kf: "keep_field n (Some (fd, ?x)) = Some field'" "cache_ok v dfs n field'"
      "n = Dec_null \<longrightarrow> field' = Some (fd, ?x)" using keep_field_cached [OF fd] by blast
    obtain d' field'' path' where r: "resume n field' path = Some (d', field'', path')"
      "stack_ok v dfs out path'" "node_ok dfs (length out) d' (length path')" "cache_ok v dfs d' field''"
      "unwind (paths n) path = unwind (paths d') path'" "d' = Dec_null \<longrightarrow> path' = []"
      using resume_ok [OF assms(4) n kf(2)] kf(3) by blast
    have "filter (\<lambda>e. holds v dfs (fst e)) (paths (Dec_node c f s n)) = filter (\<lambda>e. holds v dfs (fst e)) (paths n)"
      using False by (auto simp: filter_empty_conv under_def holds_def key_def split: option.splits)
    then have "outcome v dfs (unwind (paths (Dec_node c f s n)) path) res out''
        = outcome v dfs (unwind (paths d') path') res out''" for res out''
      using outcome_filter r(5) by metis
    with r ld False kf show ?thesis by (simp add: decode_round_def)
  next
    case True
    define out' where "out' = out[nat (dl_id c) := of_int ?x]"
    have i: "0 < dl_id c" "dl_id c < int (length out)" using good by (simp_all add: good_id_def)
    then have put: "put_value out (dl_id c) ?x = Some out'" "length out' = length out"
      "out' ! nat (dl_id c) = of_int (dl_value c)"
      using True by (simp_all add: put_value_def out'_def)
    have st: "stack_ok v dfs out' path" unfolding out'_def by (rule stack_ok_put [OF assms(4) i(1)])
    show ?thesis
    proof (cases f)
      case (Some k)
      have "holds v dfs (map (key \<circ> dec_check) (rev path) @ [key c])"
        using stack_holds [OF st] True by (auto simp: holds_def key_def)
      moreover have "\<forall>(i, w) \<in> set (map (key \<circ> dec_check) (rev path) @ [key c]). out' ! nat i = of_int w"
        using stack_holds [OF st] put(3) by (auto simp: key_def)
      ultimately have "outcome v dfs (unwind (paths (Dec_node c f s n)) path) (Some (k, s)) out'"
        using Some by (simp add: outcome_def unwind_Cons)
      with Some ld put True show ?thesis by (simp add: decode_round_def)
    next
      case None
      with assms(3) have s: "s \<noteq> Dec_null" "node_ok dfs (length out) s (length path + 1)"
        "length path + 1 < 64" by (auto simp: node_ok_def)
      have "stack_ok v dfs out' (Dec_node c f s n # path)"
        using n good True put st by simp
      moreover have "unwind (paths (Dec_node c f s n)) path = unwind (paths s) (Dec_node c f s n # path)"
        using None by simp
      ultimately show ?thesis
        using None ld put True s by (simp add: decode_round_def resume_def cache_ok_def)
    qed
  qed
qed

lemma decode_loop_ok:
  assumes "reads gb ok v" "ok b" "node_ok dfs (length out) d (length path)"
    "stack_ok v dfs out path" "cache_ok v dfs d field" "d = Dec_null \<longrightarrow> path = []"
  shows "\<exists>res out' b'. decode_loop gb dfs d field path out b = Some (res, out', b') \<and> ok b' \<and>
    length out' = length out \<and> outcome v dfs (unwind (paths d) path) res out'"
  using assms
proof (induction gb dfs d field path out b rule: decode_loop.induct)
  case (1 gb dfs field path out b)
  then show ?case by (simp add: outcome_def)
next
  case (2 gb dfs c f s n field path out b)
  from decode_round_ok [OF 2(2-6)] show ?case
  proof (elim disjE exE conjE)
    fix d' field' path' out' b'
    assume r: "decode_round gb dfs c f s n field path out b = Some (Go_on d' field' path' out' b')"
      "ok b'" "length out' = length out" "node_ok dfs (length out) d' (length path')"
      "stack_ok v dfs out' path'" "cache_ok v dfs d' field'" "d' = Dec_null \<longrightarrow> path' = []"
      "\<forall>res out''. outcome v dfs (unwind (paths (Dec_node c f s n)) path) res out''
           = outcome v dfs (unwind (paths d') path') res out''"
    with 2(1) [OF r(1) refl 2(2)] show ?thesis by simp
  qed auto
qed

lemma id_value_numbered:
  assumes "vec_ok dfs" "numbered_in dfs f" "length dfs < m"
  shows "id_value v dfs (field_id f) = value_of v f" "good_id dfs m (field_id f)"
proof -
  obtain g where g: "g \<in> set dfs" "CheckFields g f" "field_id g = field_id f"
    using assms(2) by (auto simp: numbered_in_def)
  note F = FindDecField_vec [OF assms(1) g(1)]
  show "id_value v dfs (field_id f) = value_of v f"
    using F(1) g by (simp add: id_value_def value_of_def CheckFields_def)
  show "good_id dfs m (field_id f)" using F g assms(3) by (simp add: good_id_def)
qed

lemma extract_ok:
  assumes "reads gb ok v" "ok b" "\<forall>f \<in> set fs. good_id dfs (length out) (field_id f)"
  shows "\<exists>out' b'. extract_operands gb dfs (operand_chain ls fs) out b = Some (out', b') \<and> ok b' \<and>
    length out' = length out \<and>
    (\<forall>f \<in> set fs. \<not> list_ex (\<lambda>l. dl_id l = field_id f) ls \<longrightarrow> out' ! nat (field_id f) = of_int (id_value v dfs (field_id f))) \<and>
    (\<forall>i. good_id dfs (length out) i \<longrightarrow> out ! nat i = of_int (id_value v dfs i) \<longrightarrow> out' ! nat i = of_int (id_value v dfs i))"
  using assms
proof (induction fs arbitrary: out b)
  case (Cons f fs)
  show ?case
  proof (cases "list_ex (\<lambda>l. dl_id l = field_id f) ls")
    case True
    with Cons show ?thesis by simp
  next
    case False
    let ?i = "field_id f" and ?x = "id_value v dfs (field_id f)"
    have good: "good_id dfs (length out) ?i" using Cons.prems(3) by simp
    then obtain fd where fd: "FindDecField dfs ?i = Some fd" by (auto simp: good_id_def)
    obtain w b' where gb: "gb b (first_bit fd) (field_size fd) (field_sign fd) = (w, b')" by fastforce
    have "sint w = ?x" "ok b'"
      using Cons.prems(1,2) gb fd unfolding reads_def id_value_def value_of_def
      by (metis fst_conv option.simps(5), metis snd_conv)
    then have rd: "read_field gb fd b = (?x, b')" using gb by (simp add: read_field_def)
    let ?out = "out[nat ?i := of_int ?x]"
    have put: "put_value out ?i ?x = Some ?out" using good by (simp add: put_value_def good_id_def)
    obtain out' b'' where IH: "extract_operands gb dfs (operand_chain ls fs) ?out b' = Some (out', b'')" "ok b''"
      "length out' = length out"
      "\<forall>f \<in> set fs. \<not> list_ex (\<lambda>l. dl_id l = field_id f) ls \<longrightarrow> out' ! nat (field_id f) = of_int (id_value v dfs (field_id f))"
      "\<forall>i. good_id dfs (length out) i \<longrightarrow> ?out ! nat i = of_int (id_value v dfs i) \<longrightarrow> out' ! nat i = of_int (id_value v dfs i)"
      using Cons.IH [of b' ?out] Cons.prems(1,3) \<open>ok b'\<close> by auto
    have pos: "0 < ?i" using good by (simp add: good_id_def)
    have "extract_operands gb dfs (operand_chain ls (f # fs)) out b = Some (out', b'')"
      using False fd rd put IH(1) by simp
    moreover have "out' ! nat ?i = of_int ?x"
      using IH(5) good put_nth [OF pos good] by simp
    moreover have "out' ! nat i = of_int (id_value v dfs i)"
      if "good_id dfs (length out) i" "out ! nat i = of_int (id_value v dfs i)" for i
      using IH(5) that put_nth [OF pos that(1)] by simp
    ultimately show ?thesis using IH(2-4) by auto
  qed
qed simp

lemma trie_ok_paths: "trie_ok d \<Longrightarrow> d \<noteq> Dec_null \<Longrightarrow> paths d \<noteq> []"
  by (induction d) (auto simp: under_def split: option.splits)

lemma ids_ok_paths:
  assumes "trie_ok d" "\<forall>p k s. (p, k, s) \<in> set (paths d) \<longrightarrow> (\<forall>(i, w) \<in> set p. good_id dfs m i) \<and> ids_ok dfs m s"
  shows "ids_ok dfs m d"
  using assms
proof (induction d)
  case (Dec_node c f s n)
  have n: "ids_ok dfs m n" using Dec_node by simp
  show ?case
  proof (cases f)
    case (Some k)
    with Dec_node.prems(2) [rule_format, of "[key c]" k s] n show ?thesis by (simp add: key_def)
  next
    case None
    have sub: "(\<forall>(i, w) \<in> set (key c # p). good_id dfs m i) \<and> ids_ok dfs m t"
      if "(p, k, t) \<in> set (paths s)" for p k t
      using Dec_node.prems(2) [rule_format, of "key c # p" k t] that None by (auto simp: paths_under)
    then have "ids_ok dfs m s" using Dec_node None by simp
    moreover obtain p k t where "(p, k, t) \<in> set (paths s)"
      using trie_ok_paths [of s] Dec_node.prems(1) None by (cases "paths s") auto
    ultimately show ?thesis using sub n by (fastforce simp: key_def)
  qed
qed simp

lemma depth_paths:
  assumes "trie_ok d" "\<forall>p k s. (p, k, s) \<in> set (paths d) \<longrightarrow> length p \<le> m + 1"
  shows "dec_depth d \<le> m"
  using assms
proof (induction d arbitrary: m)
  case (Dec_node c f s n)
  have "\<forall>p k s. (p, k, s) \<in> set (paths n) \<longrightarrow> length p \<le> m + 1" using Dec_node.prems(2) by simp
  then have n: "dec_depth n \<le> m" using Dec_node.IH(2) [of m] Dec_node.prems(1) by simp
  show ?case
  proof (cases f)
    case None
    have sub: "length p \<le> m" if "(p, k, t) \<in> set (paths s)" for p k t
      using Dec_node.prems(2) [rule_format, of "key c # p" k t] that None by (auto simp: paths_under)
    obtain p k t where "(p, k, t) \<in> set (paths s)"
      using trie_ok_paths [of s] Dec_node.prems(1) None by (cases "paths s") auto
    with sub paths_heads [OF this] have "0 < m" by fastforce
    then have "dec_depth s \<le> m - 1"
      using Dec_node.IH(1) [of "m - 1"] Dec_node.prems(1) None sub by simp
    with n \<open>0 < m\<close> None show ?thesis by simp
  qed (use n in simp)
qed simp

definition matches :: "ac_dec_format list \<Rightarrow> field_values \<Rightarrow> ac_dec_instr \<Rightarrow> bool" where
  "matches formats v i \<longleftrightarrow>
     (\<forall>c \<in> set (instr_dec_list i).
        case check_field formats i c of Some f \<Rightarrow> value_of v f = dl_value c | None \<Rightarrow> False)"

lemma matches_bit_path:
  "matches formats v i \<longleftrightarrow>
     (\<forall>(q, w) \<in> set (bit_path formats i). case q of Some (a, s, g) \<Rightarrow> v a s g = w | None \<Rightarrow> False)"
  by (auto simp: matches_def bit_path_def bits_of_def value_of_def split: option.splits)

lemma matches_prefix:
  "prefix (bit_path formats i) (bit_path formats j) \<Longrightarrow> matches formats v j \<Longrightarrow> matches formats v i"
  unfolding matches_bit_path by (meson in_mono set_mono_prefix)

text \<open>If an instruction matches, then one does that is in the tree.\<close>

lemma matches_live:
  assumes "k < length ins" "matches formats v (ins ! k)"
  shows "\<exists>j < length ins. no_later_prefix (map (bit_path formats) ins) j \<and> matches formats v (ins ! j)"
proof -
  let ?cs = "map (bit_path formats) ins"
  obtain j where "j < length ins" "no_later_prefix ?cs j" "prefix (?cs ! j) (bit_path formats (ins ! k))"
    using live_prefix [of ?cs "bit_path formats (ins ! k)"] assms(1) by auto
  then show ?thesis using matches_prefix [OF _ assms(2)] by auto
qed


lemma in_assigned:
  assumes "decoder_ok formats ins full" "names_ok formats ins" "k < length ins"
  obtains fmt where "FindFormat (df_formats full) (instr_format (ins ! k)) = Inr fmt"
    "df_instructions full ! k = assigned (df_formats full) (ins ! k)"
    "instr_dec_list (df_instructions full ! k) = map (assign_id fmt) (instr_dec_list (ins ! k))"
    "chain_of (df_formats full) (df_instructions full ! k)
       = operand_chain (map (assign_id fmt) (instr_dec_list (ins ! k))) (format_fields fmt)"
    "\<forall>f \<in> set (format_fields fmt). numbered_in (df_fields full) f"
proof -
  have gs: "list_all2 same_but_ids formats (df_formats full)" using assms(1) by (simp add: decoder_ok_def)
  obtain fmt0 where "FindFormat formats (instr_format (ins ! k)) = Inr fmt0"
    using assms(2,3) by (auto simp: names_ok_def dest!: bspec [of _ _ "ins ! k"])
  then obtain fmt where fmt: "FindFormat (df_formats full) (instr_format (ins ! k)) = Inr fmt"
    using FindFormat_same [OF gs, of "instr_format (ins ! k)"] by (auto elim: rel_sum.cases)
  show ?thesis
    using assms(1,3) FindFormat_in [OF fmt]
    by (intro that [OF fmt]) (auto simp: decoder_ok_def chain_of_def assigned_def fmt)
qed

text \<open>The checks of an instruction, after the numbering, hold exactly if it matches.\<close>

lemma check_numbered:
  assumes "decoder_ok formats ins full" "names_ok formats ins" "i \<in> set ins" "c \<in> set (instr_dec_list i)"
  obtains f g fmt where "check_field formats i c = Some f" "FindFormat (df_formats full) (instr_format i) = Inr fmt"
    "g \<in> set (format_fields fmt)" "dl_id (assign_id fmt c) = field_id g" "dl_value (assign_id fmt c) = dl_value c"
    "numbered_in (df_fields full) g" "value_of v g = value_of v f"
proof -
  have gs: "list_all2 same_but_ids formats (df_formats full)" using assms(1) by (simp add: decoder_ok_def)
  obtain f where f: "check_field formats i c = Some f" using assms(2-4) by (auto simp: names_ok_def)
  show ?thesis
    by (rule check_field_numbered [OF gs f])
      (use assms(1) in \<open>auto intro!: that [OF f] simp: decoder_ok_def value_of_def bits_of_def\<close>)
qed

lemma holds_matches:
  assumes "decoder_ok formats ins full" "names_ok formats ins" "k < length ins"
  shows "holds v (df_fields full) (checks (df_instructions full ! k)) \<longleftrightarrow> matches formats v (ins ! k)"
proof -
  obtain fmt where fmt: "FindFormat (df_formats full) (instr_format (ins ! k)) = Inr fmt"
    "instr_dec_list (df_instructions full ! k) = map (assign_id fmt) (instr_dec_list (ins ! k))"
    by (rule in_assigned [OF assms])
  have vec: "vec_ok (df_fields full)" "length (df_fields full) < df_nFields full"
    using assms(1) by (simp_all add: decoder_ok_def)
  have "id_value v (df_fields full) (dl_id (assign_id fmt c)) = dl_value (assign_id fmt c) \<longleftrightarrow>
      (case check_field formats (ins ! k) c of Some f \<Rightarrow> value_of v f = dl_value c | None \<Rightarrow> False)"
    if "c \<in> set (instr_dec_list (ins ! k))" for c
    by (rule check_numbered [OF assms(1,2) nth_mem [OF assms(3)] that, of v])
      (use fmt(1) id_value_numbered(1) [OF vec(1) _ vec(2)] in auto)
  then show ?thesis by (auto simp: holds_def checks_def fmt(2) key_def matches_def)
qed

text \<open>The tree is fit for the search.\<close>

lemma decoder_node_ok:
  assumes "decoder_ok formats ins full" "names_ok formats ins" "df_nFields full \<le> m"
    "\<forall>i \<in> set ins. length (instr_dec_list i) \<le> 64"
  shows "node_ok (df_fields full) m (df_decoder full) 0"
proof -
  have vec: "vec_ok (df_fields full)" "length (df_fields full) < m"
    using assms(1,3) by (simp_all add: decoder_ok_def)
  have trie: "trie_ok (df_decoder full)" using assms(1) by (simp add: decoder_ok_def tree_of_def)
  have good: "good_id (df_fields full) m (field_id f)" if "numbered_in (df_fields full) f" for f
    by (rule id_value_numbered(2) [OF vec(1) that vec(2)])
  have chain: "ids_ok (df_fields full) m (operand_chain ls fs)"
    if "\<forall>f \<in> set fs. numbered_in (df_fields full) f" for ls fs
    using that good by (induction fs) auto
  have "(\<forall>(i, w) \<in> set p. good_id (df_fields full) m i) \<and> ids_ok (df_fields full) m s \<and> length p \<le> 64"
    if "(p, k, s) \<in> set (paths (df_decoder full))" for p k s
  proof -
    from that have k: "k < length ins" "p = checks (df_instructions full ! k)"
      "s = chain_of (df_formats full) (df_instructions full ! k)"
      unfolding decoder_ok_paths [OF assms(1,2)] by auto
    obtain fmt where fmt: "FindFormat (df_formats full) (instr_format (ins ! k)) = Inr fmt"
      "instr_dec_list (df_instructions full ! k) = map (assign_id fmt) (instr_dec_list (ins ! k))"
      "s = operand_chain (map (assign_id fmt) (instr_dec_list (ins ! k))) (format_fields fmt)"
      "\<forall>f \<in> set (format_fields fmt). numbered_in (df_fields full) f"
      by (rule in_assigned [OF assms(1,2) k(1)]) (use k in auto)
    have "good_id (df_fields full) m (dl_id (assign_id fmt c))" if "c \<in> set (instr_dec_list (ins ! k))" for c
      by (rule check_numbered [OF assms(1,2) nth_mem [OF k(1)] that]) (use fmt(1) good in auto)
    then show ?thesis
      using chain [OF fmt(4)] assms(4) k(1) by (auto simp: k(2) checks_def fmt(2,3) key_def)
  qed
  then show ?thesis
    using ids_ok_paths [OF trie] depth_paths [OF trie, of 63] trie by (fastforce simp: node_ok_def)
qed

definition room :: "ac_decoder_full \<Rightarrow> u32 list option \<Rightarrow> bool" where
  "room full static \<longleftrightarrow> (case static of None \<Rightarrow> True | Some out \<Rightarrow> df_nFields full \<le> length out)"

definition lists_fit :: "ac_dec_instr list \<Rightarrow> bool" where
  "lists_fit ins \<longleftrightarrow> (\<forall>i \<in> set ins. length (instr_dec_list i) \<le> 64)"

text \<open>The fields of a decoded instruction: its identifier, and every field of its format.\<close>

definition decoded_as :: "ac_decoder_full \<Rightarrow> field_values \<Rightarrow> ac_dec_instr \<Rightarrow> u32 list \<Rightarrow> bool" where
  "decoded_as full v i out \<longleftrightarrow> out ! 0 = of_nat (instr_id i) \<and>
     (\<forall>fmt. FindFormat (df_formats full) (instr_format i) = Inr fmt \<longrightarrow>
        (\<forall>f \<in> set (format_fields fmt). out ! nat (field_id f) = of_int (value_of v f)))"

lemma Decode_ok:
  assumes "decoder_ok formats ins full" "names_ok formats ins" "lists_fit ins" "reads gb ok v" "ok b"
    "room full static"
  shows "\<exists>r out b'. Decode gb full static b = Some (r, out, b') \<and> ok b' \<and>
    (case r of
       None \<Rightarrow> \<forall>k < length ins. \<not> matches formats v (ins ! k)
     | Some res \<Rightarrow> \<exists>k < length ins. no_later_prefix (map (bit_path formats) ins) k \<and>
         matches formats v (ins ! k) \<and> decoded_as full v (ins ! k) res)"
proof -
  let ?dfs = "df_fields full" and ?d = "df_decoder full"
  define out where "out = (case static of None \<Rightarrow> replicate (df_nFields full) 0 | Some f \<Rightarrow> f)"
  have len: "df_nFields full \<le> length out" using assms(6) by (auto simp: out_def room_def split: option.splits)
  have node: "node_ok ?dfs (length out) ?d 0"
    using decoder_node_ok [OF assms(1,2) len] assms(3) by (simp add: lists_fit_def)
  obtain res out1 b1 where loop: "decode_loop gb ?dfs ?d None [] out b = Some (res, out1, b1)" "ok b1"
    "length out1 = length out" "outcome v ?dfs (paths ?d) res out1"
    using decode_loop_ok [OF assms(4,5), of ?dfs out ?d "[]" None] node by (auto simp: cache_ok_def)
  have holds: "holds v ?dfs p \<longleftrightarrow> matches formats v (ins ! k)" if "(p, k, s) \<in> set (paths ?d)" for p k s
    using that holds_matches [OF assms(1,2)] unfolding decoder_ok_paths [OF assms(1,2)] by auto
  show ?thesis
  proof (cases res)
    case None
    then have none: "\<forall>(p, k, s) \<in> set (paths ?d). \<not> matches formats v (ins ! k)"
      using loop(4) holds by (auto simp: outcome_def filter_empty_conv split: list.splits)
    have "\<not> matches formats v (ins ! k)" if k: "k < length ins" for k
    proof
      assume "matches formats v (ins ! k)"
      with matches_live [OF k] obtain j where "j < length ins"
        "no_later_prefix (map (bit_path formats) ins) j" "matches formats v (ins ! j)" by blast
      with none show False unfolding decoder_ok_paths [OF assms(1,2)] by auto
    qed
    with None loop show ?thesis by (simp add: Decode_def out_def [symmetric])
  next
    case (Some ks)
    obtain k s where ks: "res = Some (k, s)" using Some by (cases ks) auto
    obtain p where p: "(p, k, s) \<in> set (paths ?d)" "holds v ?dfs p" "\<forall>(i, w) \<in> set p. out1 ! nat i = of_int w"
    proof (cases "filter (\<lambda>e. holds v ?dfs (fst e)) (paths ?d)")
      case (Cons e r)
      moreover from this have "e \<in> set (paths ?d)" "holds v ?dfs (fst e)"
        by (auto dest!: arg_cong [of _ _ set])
      ultimately show ?thesis using loop(4) ks that by (cases e) (auto simp: outcome_def)
    qed (use loop(4) ks in \<open>simp add: outcome_def\<close>)
    have k: "k < length ins" "no_later_prefix (map (bit_path formats) ins) k"
      "p = checks (df_instructions full ! k)" "s = chain_of (df_formats full) (df_instructions full ! k)"
      using p(1) unfolding decoder_ok_paths [OF assms(1,2)] by auto
    obtain fmt where fmt: "FindFormat (df_formats full) (instr_format (ins ! k)) = Inr fmt"
      "df_instructions full ! k = assigned (df_formats full) (ins ! k)"
      "instr_dec_list (df_instructions full ! k) = map (assign_id fmt) (instr_dec_list (ins ! k))"
      "s = operand_chain (map (assign_id fmt) (instr_dec_list (ins ! k))) (format_fields fmt)"
      "\<forall>f \<in> set (format_fields fmt). numbered_in ?dfs f"
      by (rule in_assigned [OF assms(1,2) k(1)]) (use k in auto)
    let ?ls = "map (assign_id fmt) (instr_dec_list (ins ! k))"
    have vec: "vec_ok ?dfs" "length ?dfs < length out" using assms(1) len by (simp_all add: decoder_ok_def)
    note num = id_value_numbered [OF vec(1) _ vec(2)]
    obtain out2 b2 where ext: "extract_operands gb ?dfs s out1 b1 = Some (out2, b2)" "ok b2"
      "length out2 = length out"
      "\<forall>f \<in> set (format_fields fmt). \<not> list_ex (\<lambda>l. dl_id l = field_id f) ?ls \<longrightarrow> out2 ! nat (field_id f) = of_int (id_value v ?dfs (field_id f))"
      "\<forall>i. good_id ?dfs (length out) i \<longrightarrow> out1 ! nat i = of_int (id_value v ?dfs i) \<longrightarrow> out2 ! nat i = of_int (id_value v ?dfs i)"
      using extract_ok [OF assms(4) loop(2), of "format_fields fmt" ?dfs out1 ?ls] fmt(4,5) num(2) loop(3) by auto
    have all: "out2 ! nat (field_id f) = of_int (value_of v f)" if f: "f \<in> set (format_fields fmt)" for f
    proof (cases "list_ex (\<lambda>l. dl_id l = field_id f) ?ls")
      case True
      then obtain l where l: "l \<in> set ?ls" "dl_id l = field_id f" by (auto simp: list_ex_iff)
      from l(1) have "key l \<in> key ` set ?ls" by (rule imageI)
      then have "key l \<in> set p" unfolding k(3) checks_def fmt(3) by (simp only: set_map)
      then have w: "(field_id f, dl_value l) \<in> set p" using l(2) by (simp add: key_def)
      then have "out1 ! nat (field_id f) = of_int (id_value v ?dfs (field_id f))"
        using p(2,3) by (fastforce simp: holds_def)
      with ext(5) num fmt(5) f show ?thesis by metis
    next
      case False
      with ext(4) num(1) fmt(5) f show ?thesis by metis
    qed
    let ?id = "int (instr_id (df_instructions full ! k))"
    have pos: "0 < length out2" "instr_id (df_instructions full ! k) = instr_id (ins ! k)"
      using vec(2) ext(3) by (auto simp: fmt(2) assigned_def fmt(1))
    have "nat (field_id f) \<noteq> 0" if "f \<in> set (format_fields fmt)" for f
      using num(2) [where f = f] fmt(5) that by (auto simp: good_id_def)
    with all pos have "decoded_as full v (ins ! k) (out2[0 := of_int ?id])"
      by (auto simp: decoded_as_def fmt(1))
    moreover have "matches formats v (ins ! k)" using holds [OF p(1)] p(2) by simp
    ultimately show ?thesis
      using loop(1) ks ext(1,2) pos k by (auto simp: Decode_def out_def [symmetric] put_value_def)
  qed
qed

subsection \<open>A small machine\<close>

text \<open>One format of two fields; \<open>a\<close> checks both, \<open>b\<close> only the first. Fields read as given.\<close>

definition demo_dec_formats :: "ac_dec_format list" where
  "demo_dec_formats = [\<lparr>format_id = 0, format_name = ''F'', format_size = 8, format_fields =
     [\<lparr>field_name = ''op'', field_size = 4, first_bit = 3, field_id = 0, field_val = 0, field_sign = 0\<rparr>,
      \<lparr>field_name = ''fn'', field_size = 4, first_bit = 7, field_id = 0, field_val = 0, field_sign = 0\<rparr>]\<rparr>]"

definition demo_instr :: "string \<Rightarrow> nat \<Rightarrow> (string \<times> int) list \<Rightarrow> ac_dec_instr" where
  "demo_instr name n cs = \<lparr>instr_name = name, instr_size = 0, instr_mnemonic = None,
     instr_asm_str = None, instr_format = ''F'', instr_id = n, instr_cycles = 1, instr_min_latency = 1,
     instr_max_latency = 1, instr_dec_list = map (\<lambda>(s, v). \<lparr>dl_name = s, dl_id = 0, dl_value = v\<rparr>) cs,
     instr_cflow = None\<rparr>"

definition demo_a :: ac_dec_instr where "demo_a = demo_instr ''a'' 1 [(''op'', 1), (''fn'', 2)]"

definition demo_b :: ac_dec_instr where "demo_b = demo_instr ''b'' 2 [(''op'', 1)]"

definition demo_c :: ac_dec_instr where "demo_c = demo_instr ''c'' 3 [(''op'', 1), (''fn'', 3)]"

definition demo_bits :: "unit getbits" where
  "demo_bits b f s g = (if f = 3 then 1 else 2, b)"

definition demo_values :: field_values where
  "demo_values f s g = (if f = 3 then 1 else 2)"

lemma demo_reads: "reads demo_bits (\<lambda>_. True) demo_values"
  by (simp add: reads_def demo_bits_def demo_values_def)

lemma demo_names: "names_ok demo_dec_formats [demo_a, demo_c]" "names_ok demo_dec_formats [demo_a, demo_b]"
  "lists_fit [demo_a, demo_c]"
  by (simp_all add: names_ok_def lists_fit_def demo_a_def demo_b_def demo_c_def demo_instr_def check_field_def
      FindFormat_def demo_dec_formats_def field_named_def)

definition demo_full :: ac_decoder_full where
  "demo_full = projr (the (CreateDecoder demo_dec_formats [demo_a, demo_c]))"

lemma demo_full: "CreateDecoder demo_dec_formats [demo_a, demo_c] = Some (Inr demo_full)"
  by code_simp

subsection \<open>Properties\<close>

text \<open>C22: \<open>CreateDecoder\<close> always returns, without a write behind its vector of fields, and
  accepts a description whose decode lists name fields exactly if no decode list is empty and
  no instruction checks the same bits for the same values, in the same order, as the first
  checks of an instruction declared after it. Otherwise it exits with an error.\<close>
theorem decoder_accepts:
  assumes "names_ok formats ins"
  shows "\<exists>r. CreateDecoder formats ins = Some r \<and>
    ((\<exists>full. r = Inr full) \<longleftrightarrow>
     (\<forall>i \<in> set ins. instr_dec_list i \<noteq> []) \<and> no_earlier_prefix (map (bit_path formats) ins))"
proof -
  obtain r where "CreateDecoder formats ins = Some r" "case r of
      Inl e \<Rightarrow> (\<exists>i \<in> set ins. instr_dec_list i = []) \<or> \<not> no_earlier_prefix (map (bit_path formats) ins)
    | Inr full \<Rightarrow> decoder_ok formats ins full \<and> (\<forall>i \<in> set ins. instr_dec_list i \<noteq> []) \<and>
        no_earlier_prefix (map (bit_path formats) ins)" using CreateDecoder_spec [OF assms] by blast
  then show ?thesis by (cases r) auto
qed

theorem decoder_accepts_witness:
  "\<exists>r. CreateDecoder demo_dec_formats [demo_a, demo_b] = Some r \<and> (\<exists>full. r = Inr full)"
proof -
  have "no_earlier_prefix (map (bit_path demo_dec_formats) [demo_a, demo_b])"
    "\<forall>i \<in> set [demo_a, demo_b]. instr_dec_list i \<noteq> []"
    by (auto simp: no_earlier_prefix_def bit_path_def demo_a_def demo_b_def demo_instr_def less_Suc_eq)
  with decoder_accepts [OF demo_names(2)] show ?thesis by blast
qed

text \<open>C18: the decoder tree implements the description: its paths are the check lists of the
  instructions, each leading to its instruction and the operands its checks leave over. An
  instruction whose checks start with those of a later instruction is the exception: it is
  dropped without a message, while the opposite order of the two is a conflict.\<close>
theorem decoder_tree:
  assumes "CreateDecoder formats ins = Some (Inr full)" "names_ok formats ins"
  shows "set (paths (df_decoder full)) =
    (\<lambda>k. (checks (df_instructions full ! k), k, chain_of (df_formats full) (df_instructions full ! k))) `
      {k. k < length ins \<and> (\<forall>j < length ins. k < j \<longrightarrow> \<not> prefix (bit_path formats (ins ! j)) (bit_path formats (ins ! k)))}"
proof -
  have "decoder_ok formats ins full" using CreateDecoder_spec [OF assms(2)] assms(1) by auto
  from decoder_ok_paths [OF this assms(2)] show ?thesis
    by (simp add: no_later_prefix_def cong: conj_cong)
qed

theorem decoder_tree_witness:
  "\<exists>full. CreateDecoder demo_dec_formats [demo_a, demo_b] = Some (Inr full) \<and>
     list_all (\<lambda>(p, k, s). k \<noteq> 0) (paths (df_decoder full))"
proof -
  obtain full where full: "CreateDecoder demo_dec_formats [demo_a, demo_b] = Some (Inr full)"
    by (rule that [of "projr (the (CreateDecoder demo_dec_formats [demo_a, demo_b]))"]) code_simp
  have "prefix (bit_path demo_dec_formats demo_b) (bit_path demo_dec_formats demo_a)"
    by (auto simp: bit_path_def demo_a_def demo_b_def demo_instr_def check_field_def FindFormat_def
        demo_dec_formats_def field_named_def)
  then have "\<forall>x \<in> set (paths (df_decoder full)). case x of (p, k, s) \<Rightarrow> k \<noteq> 0"
    unfolding decoder_tree [OF full demo_names(2)] by (auto simp: less_Suc_eq)
  with full show ?thesis unfolding list_all_iff by blast
qed

text \<open>Identifiers are bits: in the formats of a decoder two fields have the same
  identifier exactly if they have the same position, size and sign. \<open>FindDecField\<close> finds for
  each a field with these bits, and each is an index into the fields \<open>Decode\<close> returns.\<close>
theorem field_ids_are_bits:
  assumes "CreateDecoder formats ins = Some (Inr full)" "names_ok formats ins"
    "p \<in> set (df_formats full)" "f \<in> set (format_fields p)"
    "q \<in> set (df_formats full)" "g \<in> set (format_fields q)"
  shows "(field_id f = field_id g \<longleftrightarrow> CheckFields f g) \<and>
    (\<exists>h. FindDecField (df_fields full) (field_id f) = Some h \<and> CheckFields h f) \<and>
    0 < field_id f \<and> field_id f < int (df_nFields full)"
proof -
  have ok: "decoder_ok formats ins full" using CreateDecoder_spec [OF assms(2)] assms(1) by auto
  then have vec: "vec_ok (df_fields full)" "length (df_fields full) < df_nFields full"
    and num: "numbered_in (df_fields full) f" "numbered_in (df_fields full) g"
    using assms(3-6) by (auto simp: decoder_ok_def)
  obtain h where "h \<in> set (df_fields full)" "CheckFields h f" "field_id h = field_id f"
    using num(1) by (auto simp: numbered_in_def)
  with FindDecField_vec(1) [OF vec(1)] id_value_numbered(2) [OF vec(1) num(1) vec(2)]
    numbered_in_same [OF vec(1) num] show ?thesis by (fastforce simp: good_id_def)
qed

theorem field_ids_are_bits_witness:
  "\<exists>(f :: ac_dec_field) (g :: ac_dec_field). field_name f = ''op'' \<and> field_name g = ''fn'' \<and> field_id f \<noteq> field_id g \<and>
     f \<in> set (format_fields (hd (df_formats demo_full)))"
proof -
  define p where "p = hd (df_formats demo_full)"
  define f where "f = hd (format_fields p)"
  define g where "g = hd (tl (format_fields p))"
  have F: "df_formats demo_full = [p]" "format_fields p = [f, g]"
    "f = \<lparr>field_name = ''op'', field_size = 4, first_bit = 3, field_id = 1, field_val = 0, field_sign = 0\<rparr>"
    "g = \<lparr>field_name = ''fn'', field_size = 4, first_bit = 7, field_id = 2, field_val = 0, field_sign = 0\<rparr>"
    unfolding f_def g_def p_def by code_simp+
  have "field_id f = field_id g \<longleftrightarrow> CheckFields f g"
    using field_ids_are_bits [OF demo_full demo_names(1), of p f p g] F(1,2) by simp
  then have "field_id f \<noteq> field_id g" by (simp add: F(3,4) CheckFields_def)
  moreover have "field_name f = ''op''" "field_name g = ''fn''" "f \<in> set (format_fields (hd (df_formats demo_full)))"
    using F by simp_all
  ultimately show ?thesis by blast
qed

text \<open>C1: decoding is correct. For a decoder built from a description whose decode lists name
  fields and have at most 64 entries, and an instruction word that \<open>GetBits\<close> reads as \<open>v\<close>,
  \<open>Decode\<close> returns and does nothing undefined. It returns \<open>NULL\<close> exactly if no instruction of
  the description matches the word. Otherwise it returns the identifier of an instruction that
  matches, together with the value of every field of its format.\<close>
theorem decode_correct:
  assumes "CreateDecoder formats ins = Some (Inr full)" "names_ok formats ins" "lists_fit ins"
    "reads gb ok v" "ok b" "room full static"
  shows "\<exists>r out b'. Decode gb full static b = Some (r, out, b') \<and> ok b' \<and>
    (case r of
       None \<Rightarrow> \<forall>k < length ins. \<not> matches formats v (ins ! k)
     | Some res \<Rightarrow> \<exists>k < length ins. matches formats v (ins ! k) \<and> decoded_as full v (ins ! k) res)"
proof -
  have "decoder_ok formats ins full" using CreateDecoder_spec [OF assms(2)] assms(1) by auto
  from Decode_ok [OF this assms(2-6)] show ?thesis by (fastforce split: option.splits)
qed

theorem decode_correct_witness:
  "\<exists>res out. Decode demo_bits demo_full None () = Some (Some res, out, ()) \<and>
     decoded_as demo_full demo_values demo_a res"
proof -
  have "matches demo_dec_formats demo_values demo_a" "\<not> matches demo_dec_formats demo_values demo_c"
    by (simp_all add: matches_def demo_a_def demo_c_def demo_instr_def check_field_def FindFormat_def demo_dec_formats_def
        field_named_def value_of_def demo_values_def)
  then show ?thesis
    using decode_correct [OF demo_full demo_names(1,3) demo_reads, where b = "()" and static = None]
    by (fastforce simp: room_def less_Suc_eq split: option.splits)
qed

text \<open>If the word matches one instruction of the description and no other, \<open>Decode\<close>
  decodes that instruction.\<close>
theorem decode_unique:
  assumes "CreateDecoder formats ins = Some (Inr full)" "names_ok formats ins" "lists_fit ins"
    "reads gb ok v" "ok b" "room full static"
    "k < length ins" "\<forall>j < length ins. matches formats v (ins ! j) \<longleftrightarrow> j = k"
  shows "\<exists>res out b'. Decode gb full static b = Some (Some res, out, b') \<and> decoded_as full v (ins ! k) res"
proof -
  have "decoder_ok formats ins full" using CreateDecoder_spec [OF assms(2)] assms(1) by auto
  from Decode_ok [OF this assms(2-6)] assms(7,8) show ?thesis by (fastforce split: option.splits)
qed

theorem decode_unique_witness:
  "\<exists>res out. Decode demo_bits demo_full None () = Some (Some res, out, ()) \<and>
     decoded_as demo_full demo_values ([demo_a, demo_c] ! 0) res"
proof -
  have "matches demo_dec_formats demo_values demo_a" "\<not> matches demo_dec_formats demo_values demo_c"
    by (simp_all add: matches_def demo_a_def demo_c_def demo_instr_def check_field_def FindFormat_def demo_dec_formats_def
        field_named_def value_of_def demo_values_def)
  then show ?thesis
    using decode_unique [OF demo_full demo_names(1,3) demo_reads, where b = "()" and static = None and k = 0]
    by (fastforce simp: room_def less_Suc_eq)
qed

end
