(* ===== verification/AsmMap.thy ===== *)
theory AsmMap
  imports SymbolTable
begin

text \<open>
  The \<open>ac_asm_map\<close> declarations of \<open>archc/src/acpp/asm_actions.c\<close>: the list of the maps, the
  one sorted list of all their symbols, and the queue of the symbols that wait for a value; with
  the grammar action \<open>mapbody\<close> of \<open>archc_grammar.y\<close>, which goes on after an error. \<open>None\<close>
  as the result of an operation is undefined behaviour: \<open>mapping_list_tail\<close> followed while it
  is \<open>NULL\<close>, or the 200 characters of \<open>final_symbol\<close> exceeded.
\<close>

subsection \<open>State\<close>

record ac_asm_symbol =
  as_symbol :: string
  as_value :: int
  as_map_marker :: string

text \<open>A map is its marker; \<open>mapping_list_tail\<close> is the last one.\<close>

record asm_map_state =
  comment_chars :: "string option"
  line_comment_chars :: "string option"
  mapping_list :: "string list"
  symbol_list :: "ac_asm_symbol list"
  symbol_name_list :: "string list"

definition init_asm_map :: asm_map_state where
  "init_asm_map = \<lparr>comment_chars = None, line_comment_chars = None, mapping_list = [],
     symbol_list = [], symbol_name_list = []\<rparr>"

datatype asm_map_error =
    Duplicated_comment_chars string
  | Duplicated_line_comment_chars string
  | Builtin_marker string
  | Marker_already_used string
  | Symbol_already_used string
  | Symbol_cannot_start string
  | Symbol_cannot_end string char
  | Symbol_cannot_have string char
  | Internal_parser_error
  | Only_positive_values
  | Different_ranges

definition mapping_list_tail :: "asm_map_state \<Rightarrow> string option" where
  "mapping_list_tail s = (if mapping_list s = [] then None else Some (last (mapping_list s)))"

subsection \<open>Comment characters\<close>

definition ac_asm_get_comment_chars :: "asm_map_state \<Rightarrow> string" where
  "ac_asm_get_comment_chars s = (case comment_chars s of Some c \<Rightarrow> c | None \<Rightarrow> ''#!'')"

definition ac_asm_get_line_comment_chars :: "asm_map_state \<Rightarrow> string" where
  "ac_asm_get_line_comment_chars s = (case line_comment_chars s of Some c \<Rightarrow> c | None \<Rightarrow> ''#'')"

definition acpp_set_assembler_comment_chars ::
  "string \<Rightarrow> asm_map_state \<Rightarrow> asm_map_state \<times> asm_map_error option" where
  "acpp_set_assembler_comment_chars inp s =
     (if comment_chars s \<noteq> None then (s, Some (Duplicated_comment_chars inp))
      else (s\<lparr>comment_chars := Some inp\<rparr>, None))"

definition acpp_set_assembler_line_comment_chars ::
  "string \<Rightarrow> asm_map_state \<Rightarrow> asm_map_state \<times> asm_map_error option" where
  "acpp_set_assembler_line_comment_chars inp s =
     (if line_comment_chars s \<noteq> None then (s, Some (Duplicated_line_comment_chars inp))
      else (s\<lparr>line_comment_chars := Some inp\<rparr>, None))"

subsection \<open>Lookups\<close>

text \<open>The lists are sorted by symbol, so the loops stop behind the symbol.\<close>

fun symbol_loop :: "string \<Rightarrow> string option \<Rightarrow> ac_asm_symbol list \<Rightarrow> bool \<times> int" where
  "symbol_loop symbol mapname [] = (False, -1)"
| "symbol_loop symbol mapname (sl # r) =
     (if strcmp (as_symbol sl) symbol = 0 \<and>
         (mapname = None \<or> strcmp (as_map_marker sl) (the mapname) = 0) then (True, as_value sl)
      else if strcmp (as_symbol sl) symbol > 0 then (False, -1)
      else symbol_loop symbol mapname r)"

definition get_symbol_value :: "asm_map_state \<Rightarrow> string \<Rightarrow> string option \<Rightarrow> bool \<times> int" where
  "get_symbol_value s symbol mapname = symbol_loop symbol mapname (symbol_list s)"

definition find_mapping_marker :: "asm_map_state \<Rightarrow> string \<Rightarrow> string option" where
  "find_mapping_marker s marker = find_first (\<lambda>m. strcmp m marker = 0) (mapping_list s)"

text \<open>The tail of the map list is followed only when a symbol has the name.\<close>

fun mapping_symbol_loop ::
  "string \<Rightarrow> string option \<Rightarrow> ac_asm_symbol list \<Rightarrow> ac_asm_symbol option option" where
  "mapping_symbol_loop symbol tail [] = Some None"
| "mapping_symbol_loop symbol tail (sl # r) =
     (if strcmp (as_symbol sl) symbol = 0 \<and> tail = None then None
      else if strcmp (as_symbol sl) symbol = 0 \<and> strcmp (as_map_marker sl) (the tail) = 0 then Some (Some sl)
      else if strcmp (as_symbol sl) symbol > 0 then Some None
      else mapping_symbol_loop symbol tail r)"

definition find_mapping_symbol :: "asm_map_state \<Rightarrow> string \<Rightarrow> ac_asm_symbol option option" where
  "find_mapping_symbol s symbol = mapping_symbol_loop symbol (mapping_list_tail s) (symbol_list s)"

subsection \<open>Characters of symbols\<close>

text \<open>A character is examined through a pointer: the empty string stands at the NUL.\<close>

definition is_map_symbol_name :: "string \<Rightarrow> bool" where
  "is_map_symbol_name s =
     (case s of [] \<Rightarrow> False
      | c # _ \<Rightarrow> islower c \<or> isupper c \<or> isdigit c \<or> c = CHR ''.'' \<or> c = CHR ''_'')"

definition is_map_symbol_begin :: "string \<Rightarrow> bool" where
  "is_map_symbol_begin s =
     (case s of [] \<Rightarrow> True
      | c # _ \<Rightarrow> is_map_symbol_name s \<or> c \<in> set ''%!@#$&*-+=|:<>^~?/,_'')"

definition is_map_symbol_end :: "string \<Rightarrow> bool" where
  "is_map_symbol_end s = is_map_symbol_name s"

definition is_builtin_marker :: "string \<Rightarrow> bool" where
  "is_builtin_marker s \<longleftrightarrow> strcmp s ''exp'' = 0 \<or> strcmp s ''addr'' = 0 \<or> strcmp s ''imm'' = 0"

subsection \<open>Declaring\<close>

definition acpp_asm_create_mapping_block ::
  "string \<Rightarrow> asm_map_state \<Rightarrow> asm_map_state \<times> asm_map_error option" where
  "acpp_asm_create_mapping_block marker s =
     (if is_builtin_marker marker then (s, Some (Builtin_marker marker))
      else if find_mapping_marker s marker \<noteq> None then (s, Some (Marker_already_used marker))
      else (s\<lparr>mapping_list := mapping_list s @ [marker]\<rparr>, None))"

text \<open>The loop over the name behind its first character.\<close>

fun check_symbol :: "string \<Rightarrow> string \<Rightarrow> asm_map_error option" where
  "check_symbol symbol [] = None"
| "check_symbol symbol [c] =
     (if is_map_symbol_end [c] then None else Some (Symbol_cannot_end symbol c))"
| "check_symbol symbol (c # d # r) =
     (if is_map_symbol_name (d # r) then check_symbol symbol (d # r)
      else Some (Symbol_cannot_have symbol d))"

definition acpp_asm_add_mapping_symbol ::
  "string \<Rightarrow> asm_map_state \<Rightarrow> (asm_map_state \<times> asm_map_error option) option" where
  "acpp_asm_add_mapping_symbol symbol s =
     (case find_mapping_symbol s symbol of
        None \<Rightarrow> None
      | Some (Some _) \<Rightarrow> Some (s, Some (Symbol_already_used symbol))
      | Some None \<Rightarrow>
          if list_ex (\<lambda>t. strcmp t symbol = 0) (symbol_name_list s) then Some (s, Some (Symbol_already_used symbol))
          else if \<not> is_map_symbol_begin symbol then Some (s, Some (Symbol_cannot_start symbol))
          else (case check_symbol symbol symbol of
                  Some e \<Rightarrow> Some (s, Some e)
                | None \<Rightarrow> Some (s\<lparr>symbol_name_list := symbol_name_list s @ [symbol]\<rparr>, None)))"

text \<open>\<open>char final_symbol[200]\<close> holds 199 characters.\<close>

fun add_symbols :: "string list \<Rightarrow> asm_map_state \<Rightarrow> (asm_map_state \<times> asm_map_error option) option" where
  "add_symbols [] s = Some (s, None)"
| "add_symbols (final_symbol # r) s =
     (if 200 \<le> length final_symbol then None
      else (case acpp_asm_add_mapping_symbol final_symbol s of
              None \<Rightarrow> None
            | Some (s, Some e) \<Rightarrow> Some (s, Some e)
            | Some (s, None) \<Rightarrow> add_symbols r s))"

definition increment_sign :: "int \<Rightarrow> int \<Rightarrow> int" where
  "increment_sign a b = (if a < b then 1 else -1)"

definition range_symbols :: "string option \<Rightarrow> string option \<Rightarrow> int \<Rightarrow> int \<Rightarrow> string list" where
  "range_symbols sb sa r1 r2 =
     map (\<lambda>i. (case sb of Some s \<Rightarrow> s | None \<Rightarrow> []) @ dec_str_int (r1 + int i * increment_sign r1 r2) @
              (case sa of Some s \<Rightarrow> s | None \<Rightarrow> []))
       [0..<nat \<bar>r2 - r1\<bar> + 1]"

definition acpp_asm_add_mapping_symbol_range ::
  "string option \<Rightarrow> string option \<Rightarrow> int \<Rightarrow> int \<Rightarrow> asm_map_state
     \<Rightarrow> (asm_map_state \<times> asm_map_error option) option" where
  "acpp_asm_add_mapping_symbol_range sb sa r1 r2 s =
     (if sb = None \<and> sa = None then Some (s, Some Internal_parser_error)
      else if r1 < 0 \<or> r2 < 0 then Some (s, Some Only_positive_values)
      else add_symbols (range_symbols sb sa r1 r2) s)"

text \<open>The insertion of one symbol: before the first greater one.\<close>

fun insert_behind :: "ac_asm_symbol \<Rightarrow> ac_asm_symbol list \<Rightarrow> ac_asm_symbol list" where
  "insert_behind x [] = [x]"
| "insert_behind x (t # r) =
     (if strcmp (as_symbol x) (as_symbol t) \<ge> 0 then t # insert_behind x r else x # t # r)"

fun insert_symbol :: "ac_asm_symbol \<Rightarrow> ac_asm_symbol list \<Rightarrow> ac_asm_symbol list" where
  "insert_symbol x [] = [x]"
| "insert_symbol x (t # r) =
     (if strcmp (as_symbol x) (as_symbol t) < 0 then x # t # r else t # insert_behind x r)"

fun assign_values :: "string \<Rightarrow> int \<Rightarrow> int \<Rightarrow> string list \<Rightarrow> ac_asm_symbol list \<Rightarrow> ac_asm_symbol list" where
  "assign_values marker v step [] l = l"
| "assign_values marker v step (name # r) l =
     assign_values marker (v + step) step r
       (insert_symbol \<lparr>as_symbol = name, as_value = v, as_map_marker = marker\<rparr> l)"

text \<open>\<open>step\<close> is \<open>increment_sign\<close> for a range, and nothing is added for a single value.\<close>

definition acpp_asm_add_symbol_value ::
  "int \<Rightarrow> int \<Rightarrow> asm_map_state \<Rightarrow> (asm_map_state \<times> asm_map_error option) option" where
  "acpp_asm_add_symbol_value val1 val2 s =
     (let range = \<bar>val2 - val1\<bar> in
      if range \<noteq> 0 \<and> range + 1 \<noteq> int (length (symbol_name_list s)) then Some (s, Some Different_ranges)
      else if symbol_name_list s = [] then Some (s, None)
      else (case mapping_list_tail s of
              None \<Rightarrow> None
            | Some marker \<Rightarrow>
                Some (s\<lparr>symbol_list := assign_values marker val1
                          (if range \<noteq> 0 then increment_sign val1 val2 else 0)
                          (symbol_name_list s) (symbol_list s),
                        symbol_name_list := []\<rparr>, None)))"

subsection \<open>The grammar action\<close>

text \<open>
  The two forms of \<open>mapbody\<close>; \<open>yyerror\<close> reports an error and the action goes on. The result
  lists the errors.
\<close>

datatype mapbody =
    Symbols "string list" int
  | Symbol_range "string option" "string option" int int int int

fun add_each ::
  "string list \<Rightarrow> asm_map_state \<Rightarrow> (asm_map_state \<times> asm_map_error list) option" where
  "add_each [] s = Some (s, [])"
| "add_each (x # xs) s =
     (case acpp_asm_add_mapping_symbol x s of
        None \<Rightarrow> None
      | Some (s, e) \<Rightarrow>
          (case add_each xs s of
             None \<Rightarrow> None
           | Some (s, es) \<Rightarrow> Some (s, (case e of None \<Rightarrow> es | Some e \<Rightarrow> e # es))))"

definition assign_action ::
  "int \<Rightarrow> int \<Rightarrow> asm_map_state \<times> asm_map_error list \<Rightarrow> (asm_map_state \<times> asm_map_error list) option" where
  "assign_action v1 v2 r =
     (case acpp_asm_add_symbol_value v1 v2 (fst r) of
        None \<Rightarrow> None
      | Some (s, e) \<Rightarrow> Some (s, snd r @ (case e of None \<Rightarrow> [] | Some e \<Rightarrow> [e])))"

fun mapbody_action :: "mapbody \<Rightarrow> asm_map_state \<Rightarrow> (asm_map_state \<times> asm_map_error list) option" where
  "mapbody_action (Symbols names v) s = Option.bind (add_each names s) (assign_action v v)"
| "mapbody_action (Symbol_range sb sa r1 r2 v1 v2) s =
     (case acpp_asm_add_mapping_symbol_range sb sa r1 r2 s of
        None \<Rightarrow> None
      | Some (s, e) \<Rightarrow> assign_action v1 v2 (s, (case e of None \<Rightarrow> [] | Some e \<Rightarrow> [e])))"

fun mapbodylist_action :: "mapbody list \<Rightarrow> asm_map_state \<Rightarrow> (asm_map_state \<times> asm_map_error list) option" where
  "mapbodylist_action [] s = Some (s, [])"
| "mapbodylist_action (b # bs) s =
     (case mapbody_action b s of
        None \<Rightarrow> None
      | Some (s, es) \<Rightarrow> map_option (\<lambda>(s, es'). (s, es @ es')) (mapbodylist_action bs s))"

definition asmmapdec_action ::
  "string \<Rightarrow> mapbody list \<Rightarrow> asm_map_state \<Rightarrow> (asm_map_state \<times> asm_map_error list) option" where
  "asmmapdec_action marker bs s =
     (let (s, e) = acpp_asm_create_mapping_block marker s in
      map_option (\<lambda>(s, es). (s, (case e of None \<Rightarrow> [] | Some e \<Rightarrow> [e]) @ es)) (mapbodylist_action bs s))"


subsection \<open>The list of the symbols\<close>

lemma insert_behind_after: "insert_behind x l = insert_after as_symbol x l"
  by (induction l) (auto simp: strcmp_simps)

lemma insert_symbol_after: "insert_symbol x l = insert_after as_symbol x l"
  by (cases l) (auto simp: strcmp_simps insert_behind_after)

definition is_entry :: "string \<Rightarrow> string option \<Rightarrow> ac_asm_symbol \<Rightarrow> bool" where
  "is_entry n mo x \<longleftrightarrow> as_symbol x = n \<and> (mo = None \<or> as_map_marker x = the mo)"

definition sym_value :: "ac_asm_symbol list \<Rightarrow> string \<Rightarrow> string option \<Rightarrow> int option" where
  "sym_value l n mo = map_option as_value (find_first (is_entry n mo) l)"

definition answer :: "int option \<Rightarrow> bool \<times> int" where
  "answer r = (case r of None \<Rightarrow> (False, -1) | Some v \<Rightarrow> (True, v))"

lemma answer_eq [simp]: "answer r = (True, v) \<longleftrightarrow> r = Some v" "answer r = answer q \<longleftrightarrow> r = q"
  by (auto simp: answer_def split: option.splits)

abbreviation sorted_syms :: "ac_asm_symbol list \<Rightarrow> bool" where
  "sorted_syms l \<equiv> sorted (map as_symbol l)"

lemma symbol_loop_until:
  "symbol_loop n mo l = answer (map_option as_value (find_until (is_entry n mo) (\<lambda>x. n < as_symbol x) l))"
  by (induction l) (auto simp: is_entry_def answer_def strcmp_simps)

lemma symbol_loop_full: "sorted_syms l \<Longrightarrow> symbol_loop n mo l = answer (sym_value l n mo)"
  unfolding symbol_loop_until sym_value_def
  by (subst find_until_find_first [of as_symbol]) (auto simp: is_entry_def)

lemma mapping_symbol_loop_full:
  "sorted_syms l \<Longrightarrow> mapping_symbol_loop n (Some m) l = Some (find_first (is_entry n (Some m)) l)"
proof -
  have "mapping_symbol_loop n (Some m) l = Some (find_until (is_entry n (Some m)) (\<lambda>x. n < as_symbol x) l)"
    by (induction l) (auto simp: is_entry_def strcmp_simps)
  then show "sorted_syms l \<Longrightarrow> ?thesis"
    by (subst (asm) find_until_find_first [of as_symbol]) (auto simp: is_entry_def)
qed

lemma mapping_symbol_loop_None:
  "mapping_symbol_loop n None [] = Some None"
  by simp

text \<open>The values given to a queue of names: \<open>v\<close>, \<open>v + step\<close>, and so on.\<close>

fun numbered :: "int \<Rightarrow> int \<Rightarrow> string list \<Rightarrow> (string \<times> int) list" where
  "numbered v step [] = []"
| "numbered v step (n # ns) = (n, v) # numbered (v + step) step ns"

lemma map_fst_numbered [simp]: "map fst (numbered v step ns) = ns"
  by (induction ns arbitrary: v) auto

lemma sorted_assign: "sorted_syms l \<Longrightarrow> sorted_syms (assign_values m v step ns l)"
  by (induction ns arbitrary: v l) (auto simp: insert_symbol_after sorted_insert_after)

lemma set_assign:
  "set (assign_values m v step ns l) =
   set l \<union> (\<lambda>(n, w). \<lparr>as_symbol = n, as_value = w, as_map_marker = m\<rparr>) ` set (numbered v step ns)"
  by (induction ns arbitrary: v l) (auto simp: insert_symbol_after)

lemma distinct_insert_after:
  "distinct (map f (insert_after k x l)) \<longleftrightarrow> distinct (map f l) \<and> f x \<notin> f ` set l"
  by (induction l) auto

definition entry_key :: "ac_asm_symbol \<Rightarrow> string \<times> string" where
  "entry_key x = (as_symbol x, as_map_marker x)"

lemma entry_key_make [simp]: "entry_key \<lparr>as_symbol = n, as_value = v, as_map_marker = m\<rparr> = (n, m)"
  by (simp add: entry_key_def)

lemma distinct_assign:
  "distinct (map entry_key l) \<Longrightarrow> distinct ns \<Longrightarrow> \<forall>n \<in> set ns. (n, m) \<notin> entry_key ` set l \<Longrightarrow>
   distinct (map entry_key (assign_values m v step ns l))"
proof (induction ns arbitrary: v l)
  case (Cons a ns)
  let ?x = "\<lparr>as_symbol = a, as_value = v, as_map_marker = m\<rparr>"
  have "distinct (map entry_key (insert_symbol ?x l))"
    using Cons.prems by (simp add: insert_symbol_after distinct_insert_after)
  moreover have "\<forall>n \<in> set ns. (n, m) \<notin> entry_key ` set (insert_symbol ?x l)"
    using Cons.prems by (auto simp: insert_symbol_after)
  ultimately show ?case using Cons by simp
qed simp

lemma sym_value_assign:
  assumes "distinct ns" "\<forall>n \<in> set ns. (n, m) \<notin> entry_key ` set l"
  shows "sym_value (assign_values m v step ns l) n (Some m') =
    (if m' = m \<and> n \<in> set ns then map_of (numbered v step ns) n else sym_value l n (Some m'))"
  using assms
proof (induction ns arbitrary: v l)
  case (Cons a ns)
  let ?x = "\<lparr>as_symbol = a, as_value = v, as_map_marker = m\<rparr>"
  have IH: "sym_value (assign_values m (v + step) step ns (insert_symbol ?x l)) n (Some m') =
    (if m' = m \<and> n \<in> set ns then map_of (numbered (v + step) step ns) n
     else sym_value (insert_symbol ?x l) n (Some m'))"
    using Cons.prems by (intro Cons.IH) (auto simp: insert_symbol_after entry_key_def)
  have "sym_value (insert_symbol ?x l) n (Some m') =
      (if m' = m \<and> n = a then Some v else sym_value l n (Some m'))"
  proof (cases "m' = m \<and> n = a")
    case True
    then have "\<forall>y \<in> set l. \<not> is_entry n (Some m') y"
      using Cons.prems(2) by (auto simp: is_entry_def entry_key_def)
    with True show ?thesis
      by (simp add: sym_value_def insert_symbol_after find_first_insert_new is_entry_def)
  next
    case False
    then have "\<not> is_entry n (Some m') ?x" by (auto simp: is_entry_def)
    then have "sym_value (insert_symbol ?x l) n (Some m') = sym_value l n (Some m')"
      by (simp add: sym_value_def insert_symbol_after find_first_insert_other)
    with False show ?thesis by auto
  qed
  with IH Cons.prems(1) show ?case by auto
qed simp

lemma sym_value_keep:
  "sorted_syms l \<Longrightarrow> sym_value l n mo = Some w \<Longrightarrow> sym_value (assign_values m v step ns l) n mo = Some w"
proof (induction ns arbitrary: v l)
  case (Cons a ns)
  let ?x = "\<lparr>as_symbol = a, as_value = v, as_map_marker = m\<rparr>"
  obtain y where y: "find_first (is_entry n mo) l = Some y" "as_value y = w"
    using Cons.prems(2) by (auto simp: sym_value_def)
  have "find_first (is_entry n mo) (insert_symbol ?x l) = Some y"
  proof (cases "is_entry n mo ?x")
    case True
    then have "as_symbol y \<le> as_symbol ?x"
      using find_first_SomeD [OF y(1)] by (auto simp: is_entry_def)
    with Cons.prems(1) y(1) show ?thesis
      unfolding insert_symbol_after by (rule find_first_insert_keep)
  qed (use y(1) in \<open>simp add: insert_symbol_after find_first_insert_other\<close>)
  then have "sym_value (insert_symbol ?x l) n mo = Some w" using y(2) by (simp add: sym_value_def)
  moreover have "sorted_syms (insert_symbol ?x l)"
    using Cons.prems(1) by (simp add: insert_symbol_after sorted_insert_after)
  ultimately show ?case using Cons.IH by simp
qed simp


subsection \<open>What every operation keeps\<close>

definition asm_ok :: "asm_map_state \<Rightarrow> bool" where
  "asm_ok s \<longleftrightarrow> sorted_syms (symbol_list s) \<and> distinct (map entry_key (symbol_list s)) \<and>
     distinct (mapping_list s) \<and> as_map_marker ` set (symbol_list s) \<subseteq> set (mapping_list s) \<and>
     distinct (symbol_name_list s) \<and>
     (\<forall>n \<in> set (symbol_name_list s). \<forall>m. mapping_list_tail s = Some m \<longrightarrow> (n, m) \<notin> entry_key ` set (symbol_list s))"

lemma find_marker: "find_mapping_marker s m = None \<longleftrightarrow> m \<notin> set (mapping_list s)"
  by (auto simp: find_mapping_marker_def)

lemma find_symbol_ok:
  assumes "asm_ok s"
  shows "find_mapping_symbol s n =
    Some (case mapping_list_tail s of None \<Rightarrow> None | Some m \<Rightarrow> find_first (is_entry n (Some m)) (symbol_list s))"
proof (cases "mapping_list_tail s")
  case None
  then have "symbol_list s = []" using assms by (auto simp: asm_ok_def mapping_list_tail_def split: if_splits)
  with None show ?thesis by (simp add: find_mapping_symbol_def)
next
  case (Some m)
  then show ?thesis
    using assms by (simp add: find_mapping_symbol_def asm_ok_def mapping_symbol_loop_full)
qed

lemma find_symbol_fresh:
  assumes "asm_ok s"
  shows "find_mapping_symbol s n = Some None \<longleftrightarrow>
    (\<forall>m. mapping_list_tail s = Some m \<longrightarrow> (n, m) \<notin> entry_key ` set (symbol_list s))"
  unfolding find_symbol_ok [OF assms]
  by (auto simp: is_entry_def entry_key_def split: option.splits)

definition valid_symbol :: "string \<Rightarrow> bool" where
  "valid_symbol n \<longleftrightarrow> is_map_symbol_begin n \<and> check_symbol n n = None"

text \<open>A symbol is queued exactly if it is valid and neither declared nor queued.\<close>

lemma add_symbol_spec:
  assumes "asm_ok s"
  shows "\<exists>s' e. acpp_asm_add_mapping_symbol n s = Some (s', e) \<and> asm_ok s' \<and>
    (e = None \<longleftrightarrow> valid_symbol n \<and> n \<notin> set (symbol_name_list s) \<and>
       (\<forall>m. mapping_list_tail s = Some m \<longrightarrow> (n, m) \<notin> entry_key ` set (symbol_list s))) \<and>
    s' = (if e = None then s\<lparr>symbol_name_list := symbol_name_list s @ [n]\<rparr> else s)"
proof -
  have q: "list_ex (\<lambda>t. t = n) (symbol_name_list s) \<longleftrightarrow> n \<in> set (symbol_name_list s)"
    by (auto simp: list_ex_iff)
  have "asm_ok (s\<lparr>symbol_name_list := symbol_name_list s @ [n]\<rparr>)"
    if "n \<notin> set (symbol_name_list s)"
      "\<forall>m. mapping_list_tail s = Some m \<longrightarrow> (n, m) \<notin> entry_key ` set (symbol_list s)"
    using assms that by (auto simp: asm_ok_def mapping_list_tail_def)
  moreover obtain r where "find_mapping_symbol s n = Some r" using find_symbol_ok [OF assms] by simp
  moreover note find_symbol_fresh [OF assms, of n]
  ultimately show ?thesis
    using assms
    by (cases r) (auto simp: acpp_asm_add_mapping_symbol_def q valid_symbol_def split: option.split)
qed

lemma add_symbols_ok:
  "asm_ok s \<Longrightarrow> add_symbols ns s = Some (s', e) \<Longrightarrow> asm_ok s' \<and>
     mapping_list s' = mapping_list s \<and> symbol_list s' = symbol_list s"
proof (induction ns arbitrary: s)
  case (Cons n ns)
  obtain t d where t: "acpp_asm_add_mapping_symbol n s = Some (t, d)" "asm_ok t"
    "mapping_list t = mapping_list s" "symbol_list t = symbol_list s"
    using add_symbol_spec [OF Cons.prems(1), of n] by (auto split: if_splits)
  with Cons.prems(2) Cons.IH [of t] show ?case by (auto split: if_splits option.splits)
qed auto

lemma assign_ok:
  assumes "asm_ok s" "acpp_asm_add_symbol_value v1 v2 s = Some (s', e)"
  shows "asm_ok s'"
proof -
  let ?step = "if \<bar>v2 - v1\<bar> \<noteq> 0 then increment_sign v1 v2 else 0"
  consider "s' = s" | m where "mapping_list_tail s = Some m" "s' = s\<lparr>symbol_list := assign_values m v1 ?step
      (symbol_name_list s) (symbol_list s), symbol_name_list := []\<rparr>"
    using assms(2) unfolding acpp_asm_add_symbol_value_def Let_def
    by (fastforce split: if_splits option.splits)
  then show ?thesis
  proof cases
    case 2
    have "m \<in> set (mapping_list s)" using 2(1) by (auto simp: mapping_list_tail_def split: if_splits)
    then show ?thesis
      using assms(1) 2 unfolding asm_ok_def
      by (auto simp: sorted_assign distinct_assign set_assign)
  qed (use assms(1) in simp)
qed

lemma create_ok: "asm_ok s \<Longrightarrow> asm_ok (fst (acpp_asm_create_mapping_block m s))"
  unfolding acpp_asm_create_mapping_block_def find_marker
  by (auto simp: asm_ok_def mapping_list_tail_def entry_key_def)

inductive map_step :: "asm_map_state \<Rightarrow> asm_map_state \<Rightarrow> bool" where
  map_create: "map_step s (fst (acpp_asm_create_mapping_block m s))"
| map_symbol: "acpp_asm_add_mapping_symbol n s = Some (s', e) \<Longrightarrow> map_step s s'"
| map_range: "acpp_asm_add_mapping_symbol_range sb sa r1 r2 s = Some (s', e) \<Longrightarrow> map_step s s'"
| map_value: "acpp_asm_add_symbol_value v1 v2 s = Some (s', e) \<Longrightarrow> map_step s s'"
| map_comment: "map_step s (fst (acpp_set_assembler_comment_chars c s))"
| map_line_comment: "map_step s (fst (acpp_set_assembler_line_comment_chars c s))"

inductive map_reachable :: "asm_map_state \<Rightarrow> bool" where
  map_init: "map_reachable init_asm_map"
| map_next: "map_reachable s \<Longrightarrow> map_step s s' \<Longrightarrow> map_reachable s'"

lemma asm_ok_frame:
  "asm_ok s \<Longrightarrow> mapping_list s' = mapping_list s \<Longrightarrow> symbol_list s' = symbol_list s \<Longrightarrow>
   symbol_name_list s' = symbol_name_list s \<Longrightarrow> asm_ok s'"
  by (simp add: asm_ok_def mapping_list_tail_def)

lemma map_step_ok: "map_step s s' \<Longrightarrow> asm_ok s \<Longrightarrow> asm_ok s'"
proof (induction rule: map_step.induct)
  case (map_symbol n s s' e)
  with add_symbol_spec [of s n] show ?case by auto
next
  case (map_range sb sa r1 r2 s s' e)
  then show ?case
    by (auto simp: acpp_asm_add_mapping_symbol_range_def split: if_splits dest: add_symbols_ok)
qed (auto simp: create_ok acpp_set_assembler_comment_chars_def acpp_set_assembler_line_comment_chars_def
    intro: assign_ok asm_ok_frame)

lemma map_reachable_ok: "map_reachable s \<Longrightarrow> asm_ok s"
proof (induction rule: map_reachable.induct)
  case map_init
  show ?case by (simp add: asm_ok_def init_asm_map_def)
qed (blast intro: map_step_ok)

subsection \<open>A block of a description\<close>

text \<open>What the statements of a block declare, and when they are in order.\<close>

fun body_pairs :: "mapbody \<Rightarrow> (string \<times> int) list" where
  "body_pairs (Symbols ns v) = numbered v 0 ns"
| "body_pairs (Symbol_range sb sa r1 r2 v1 v2) =
     numbered v1 (if v1 = v2 then 0 else increment_sign v1 v2) (range_symbols sb sa r1 r2)"

fun body_ok :: "mapbody \<Rightarrow> bool" where
  "body_ok (Symbols ns v) \<longleftrightarrow> True"
| "body_ok (Symbol_range sb sa r1 r2 v1 v2) \<longleftrightarrow> \<not> (sb = None \<and> sa = None) \<and> 0 \<le> r1 \<and> 0 \<le> r2 \<and>
     (v1 = v2 \<or> \<bar>v2 - v1\<bar> = \<bar>r2 - r1\<bar>) \<and> (\<forall>n \<in> set (range_symbols sb sa r1 r2). length n < 200)"

definition block_names :: "mapbody list \<Rightarrow> string list" where
  "block_names bs = map fst (concat (map body_pairs bs))"

text \<open>New valid names are queued one after the other.\<close>

definition fresh_names :: "asm_map_state \<Rightarrow> string list \<Rightarrow> bool" where
  "fresh_names s ns \<longleftrightarrow> distinct ns \<and> (\<forall>n \<in> set ns. valid_symbol n \<and> n \<notin> set (symbol_name_list s) \<and>
     (\<forall>m. mapping_list_tail s = Some m \<longrightarrow> (n, m) \<notin> entry_key ` set (symbol_list s)))"

lemma add_symbol_fresh:
  assumes "asm_ok s" "fresh_names s (n # ns)"
  shows "acpp_asm_add_mapping_symbol n s = Some (s\<lparr>symbol_name_list := symbol_name_list s @ [n]\<rparr>, None)"
    "asm_ok (s\<lparr>symbol_name_list := symbol_name_list s @ [n]\<rparr>)"
    "fresh_names (s\<lparr>symbol_name_list := symbol_name_list s @ [n]\<rparr>) ns"
  using add_symbol_spec [OF assms(1), of n] assms(2) by (auto simp: fresh_names_def mapping_list_tail_def)

lemma add_each_fresh:
  "asm_ok s \<Longrightarrow> fresh_names s ns \<Longrightarrow>
   add_each ns s = Some (s\<lparr>symbol_name_list := symbol_name_list s @ ns\<rparr>, []) \<and>
   asm_ok (s\<lparr>symbol_name_list := symbol_name_list s @ ns\<rparr>)"
proof (induction ns arbitrary: s)
  case (Cons n ns)
  note A = add_symbol_fresh [OF Cons.prems]
  from Cons.IH [OF A(2,3)] A(1) show ?case by simp
qed simp

lemma add_symbols_fresh:
  "asm_ok s \<Longrightarrow> fresh_names s ns \<Longrightarrow> \<forall>n \<in> set ns. length n < 200 \<Longrightarrow>
   add_symbols ns s = Some (s\<lparr>symbol_name_list := symbol_name_list s @ ns\<rparr>, None) \<and>
   asm_ok (s\<lparr>symbol_name_list := symbol_name_list s @ ns\<rparr>)"
proof (induction ns arbitrary: s)
  case (Cons n ns)
  note A = add_symbol_fresh [OF Cons.prems(1,2)]
  from Cons.IH [OF A(2,3)] A(1) Cons.prems(3) show ?case by simp
qed simp


lemma assign_spec:
  assumes "mapping_list_tail s = Some m"
    "v1 = v2 \<or> \<bar>v2 - v1\<bar> + 1 = int (length (symbol_name_list s))"
  shows "acpp_asm_add_symbol_value v1 v2 s =
    Some (s\<lparr>symbol_list := assign_values m v1 (if v1 = v2 then 0 else increment_sign v1 v2)
               (symbol_name_list s) (symbol_list s), symbol_name_list := []\<rparr>, None)"
  using assms by (auto simp: acpp_asm_add_symbol_value_def Let_def)

definition block_step :: "string \<Rightarrow> (string \<times> int) list \<Rightarrow> asm_map_state \<Rightarrow> asm_map_state \<Rightarrow> bool" where
  "block_step m ps s s' \<longleftrightarrow> asm_ok s' \<and> symbol_name_list s' = [] \<and> mapping_list s' = mapping_list s \<and>
     entry_key ` set (symbol_list s') = entry_key ` set (symbol_list s) \<union> (\<lambda>(n, v). (n, m)) ` set ps \<and>
     (\<forall>n m'. sym_value (symbol_list s') n (Some m') =
        (if m' = m \<and> n \<in> fst ` set ps then map_of ps n else sym_value (symbol_list s) n (Some m')))"

lemma map_of_append_disjoint:
  "fst ` set ps \<inter> fst ` set qs = {} \<Longrightarrow>
   map_of (ps @ qs) n = (if n \<in> fst ` set qs then map_of qs n else map_of ps n)"
  using map_of_eq_None_iff [of ps n] map_of_eq_None_iff [of qs n]
  by (auto simp: map_add_def split: option.split)

lemma block_step_append:
  assumes "block_step m ps s t" "block_step m qs t s'" "fst ` set ps \<inter> fst ` set qs = {}"
  shows "block_step m (ps @ qs) s s'"
proof -
  have "sym_value (symbol_list s') n (Some m') =
      (if m' = m \<and> n \<in> fst ` set (ps @ qs) then map_of (ps @ qs) n else sym_value (symbol_list s) n (Some m'))" for n m'
    using assms(1,2) unfolding map_of_append_disjoint [OF assms(3)]
    by (simp add: block_step_def image_Un) blast
  moreover have "entry_key ` set (symbol_list s') =
      entry_key ` set (symbol_list s) \<union> (\<lambda>(n, v). (n, m)) ` set (ps @ qs)"
    using assms(1,2) by (simp add: block_step_def image_Un Un_assoc)
  ultimately show ?thesis using assms(1,2) by (simp add: block_step_def del: map_of_append)
qed

lemma body_action_ok:
  assumes "asm_ok s" "symbol_name_list s = []" "mapping_list_tail s = Some m" "body_ok b"
    "fresh_names s (map fst (body_pairs b))"
  shows "\<exists>s'. mapbody_action b s = Some (s', []) \<and> block_step m (body_pairs b) s s'"
proof -
  obtain v1 v2 where b: "body_pairs b = numbered v1 (if v1 = v2 then 0 else increment_sign v1 v2) (map fst (body_pairs b))"
      "v1 = v2 \<or> \<bar>v2 - v1\<bar> + 1 = int (length (body_pairs b))"
    and act: "\<And>t. t = s\<lparr>symbol_name_list := map fst (body_pairs b)\<rparr> \<Longrightarrow>
      mapbody_action b s = assign_action v1 v2 (t, [])"
  proof (cases b)
    case (Symbols ns v)
    with add_each_fresh [OF assms(1)] assms(2,5) show ?thesis
      by (intro that [of v v]) auto
  next
    case (Symbol_range sb sa r1 r2 v1 v2)
    let ?ns = "range_symbols sb sa r1 r2"
    have "length (numbered v1 x ?ns) = nat \<bar>r2 - r1\<bar> + 1" for x
      using map_fst_numbered [of v1 x ?ns] by (metis length_map length_upt minus_nat.diff_0 range_symbols_def)
    moreover have "acpp_asm_add_mapping_symbol_range sb sa r1 r2 s = Some (s\<lparr>symbol_name_list := ?ns\<rparr>, None)"
      using add_symbols_fresh [OF assms(1), of ?ns] assms(2,4,5) Symbol_range
      by (auto simp: acpp_asm_add_mapping_symbol_range_def)
    ultimately show ?thesis
      using assms(4) Symbol_range by (intro that [of v1 v2]) auto
  qed
  define ns where "ns = map fst (body_pairs b)"
  define step where "step = (if v1 = v2 then 0 else increment_sign v1 v2)"
  let ?s' = "s\<lparr>symbol_list := assign_values m v1 step ns (symbol_list s), symbol_name_list := []\<rparr>"
  let ?q = "s\<lparr>symbol_name_list := map fst (body_pairs b)\<rparr>"
  have "mapping_list_tail ?q = Some m" using assms(3) by (auto simp: mapping_list_tail_def split: if_splits)
  from assign_spec [OF this, of v1 v2] b(2)
  have "acpp_asm_add_symbol_value v1 v2 ?q = Some (?s', None)" by (simp add: ns_def step_def)
  then have "mapbody_action b s = Some (?s', [])"
    by (simp add: act [OF refl] assign_action_def)
  moreover have fresh: "distinct ns" "\<forall>n \<in> set ns. (n, m) \<notin> entry_key ` set (symbol_list s)"
    using assms(3,5) by (simp_all add: fresh_names_def ns_def)
  have bp: "body_pairs b = numbered v1 step ns" unfolding ns_def step_def by (rule b(1))
  have img: "fst ` set (numbered v1 step ns) = set ns" by (metis list.set_map map_fst_numbered)
  have "asm_ok ?s'"
    using assms(1,3) fresh
    by (auto simp: asm_ok_def sorted_assign distinct_assign set_assign mapping_list_tail_def split: if_splits)
  then have "block_step m (body_pairs b) s ?s'"
    using sym_value_assign [OF fresh]
    by (simp add: block_step_def bp set_assign image_Un image_image split_beta img)
  ultimately show ?thesis by blast
qed

lemma body_list_ok:
  assumes "asm_ok s" "symbol_name_list s = []" "mapping_list_tail s = Some m" "\<forall>b \<in> set bs. body_ok b"
    "fresh_names s (block_names bs)"
  shows "\<exists>s'. mapbodylist_action bs s = Some (s', []) \<and> block_step m (concat (map body_pairs bs)) s s'"
  using assms
proof (induction bs arbitrary: s)
  case Nil
  then show ?case by (simp add: block_step_def)
next
  case (Cons b bs)
  have "fresh_names s (map fst (body_pairs b))"
    using Cons.prems(5) by (simp add: fresh_names_def block_names_def)
  then obtain t where t: "mapbody_action b s = Some (t, [])" "block_step m (body_pairs b) s t"
    using body_action_ok [OF Cons.prems(1-3)] Cons.prems(4) by auto
  then have tail: "mapping_list_tail t = Some m" using Cons.prems(3) by (auto simp: block_step_def mapping_list_tail_def split: if_splits)
  have disj: "fst ` set (body_pairs b) \<inter> set (block_names bs) = {}" "distinct (block_names bs)"
    using Cons.prems(5) by (auto simp: fresh_names_def block_names_def)
  have valid: "valid_symbol n" "(n, m) \<notin> entry_key ` set (symbol_list s)" if "n \<in> set (block_names bs)" for n
    using Cons.prems(3,5) that by (auto simp: fresh_names_def block_names_def)
  have "(n, m) \<notin> entry_key ` set (symbol_list t)" if "n \<in> set (block_names bs)" for n
  proof -
    have "(n, m) \<notin> (\<lambda>(n, v). (n, m)) ` set (body_pairs b)" using disj(1) that by force
    with valid(2) [OF that] t(2) show ?thesis by (simp add: block_step_def)
  qed
  with valid(1) disj(2) t(2) tail have "fresh_names t (block_names bs)"
    by (simp add: fresh_names_def block_step_def)
  then obtain s' where s': "mapbodylist_action bs t = Some (s', [])"
    "block_step m (concat (map body_pairs bs)) t s'"
    using Cons.IH [of t] t(2) tail Cons.prems(4) by (auto simp: block_step_def)
  have "fst ` set (body_pairs b) \<inter> fst ` set (concat (map body_pairs bs)) = {}"
    using disj(1) unfolding block_names_def set_map .
  from block_step_append [OF t(2) s'(2) this]
  have "block_step m (concat (map body_pairs (b # bs))) s s'" by simp
  with t(1) s'(1) show ?case by simp
qed


lemma get_symbol_value_ok: "asm_ok s \<Longrightarrow> get_symbol_value s n mo = answer (sym_value (symbol_list s) n mo)"
  by (simp add: get_symbol_value_def asm_ok_def symbol_loop_full)

lemma asm_ok_unique:
  "asm_ok s \<Longrightarrow> x \<in> set (symbol_list s) \<Longrightarrow> y \<in> set (symbol_list s) \<Longrightarrow>
   as_symbol x = as_symbol y \<Longrightarrow> as_map_marker x = as_map_marker y \<Longrightarrow> x = y"
  by (auto simp: asm_ok_def distinct_map inj_on_def entry_key_def)

lemma demo_map_reachable:
  "map_reachable (init_asm_map\<lparr>mapping_list := [''reg'']\<rparr>)"
  "map_reachable (init_asm_map\<lparr>mapping_list := [''reg''], symbol_name_list := [''$zero'']\<rparr>)"
  "map_reachable (init_asm_map\<lparr>mapping_list := [''reg''], symbol_list := [\<lparr>as_symbol = ''$zero'', as_value = 0, as_map_marker = ''reg''\<rparr>]\<rparr>)"
proof -
  have "fst (acpp_asm_create_mapping_block ''reg'' init_asm_map) = init_asm_map\<lparr>mapping_list := [''reg'']\<rparr>"
    by code_simp
  then show 1: "map_reachable (init_asm_map\<lparr>mapping_list := [''reg'']\<rparr>)"
    using map_next [OF map_init map_create [of init_asm_map "''reg''"]] by simp
  have "acpp_asm_add_mapping_symbol ''$zero'' (init_asm_map\<lparr>mapping_list := [''reg'']\<rparr>)
      = Some (init_asm_map\<lparr>mapping_list := [''reg''], symbol_name_list := [''$zero'']\<rparr>, None)"
    by code_simp
  from map_next [OF 1 map_symbol [OF this]]
  show 2: "map_reachable (init_asm_map\<lparr>mapping_list := [''reg''], symbol_name_list := [''$zero'']\<rparr>)" .
  have "acpp_asm_add_symbol_value 0 0 (init_asm_map\<lparr>mapping_list := [''reg''], symbol_name_list := [''$zero'']\<rparr>)
      = Some (init_asm_map\<lparr>mapping_list := [''reg''], symbol_list := [\<lparr>as_symbol = ''$zero'', as_value = 0, as_map_marker = ''reg''\<rparr>]\<rparr>, None)"
    by code_simp
  from map_next [OF 2 map_value [OF this]]
  show "map_reachable (init_asm_map\<lparr>mapping_list := [''reg''], symbol_list := [\<lparr>as_symbol = ''$zero'', as_value = 0, as_map_marker = ''reg''\<rparr>]\<rparr>)" .
qed

subsection \<open>Properties\<close>

text \<open>C36: whatever calls the parser makes, the list of symbols stays sorted by symbol, no map
  has a symbol twice, no map is declared twice, and every symbol belongs to a declared map.\<close>
theorem symbols_well_formed:
  assumes "map_reachable s"
  shows "sorted (map as_symbol (symbol_list s)) \<and>
    distinct (map (\<lambda>x. (as_symbol x, as_map_marker x)) (symbol_list s)) \<and>
    distinct (mapping_list s) \<and> as_map_marker ` set (symbol_list s) \<subseteq> set (mapping_list s)"
proof -
  have "entry_key = (\<lambda>x. (as_symbol x, as_map_marker x))" by (rule ext) (simp add: entry_key_def)
  with map_reachable_ok [OF assms] show ?thesis by (simp add: asm_ok_def)
qed

theorem symbols_well_formed_witness:
  "as_map_marker ` set (symbol_list (init_asm_map\<lparr>mapping_list := [''reg''],
     symbol_list := [\<lparr>as_symbol = ''$zero'', as_value = 0, as_map_marker = ''reg''\<rparr>]\<rparr>)) \<subseteq> {''reg''}"
  using symbols_well_formed [OF demo_map_reachable(3)] by simp

text \<open>Stopping at the first greater symbol loses nothing: \<open>get_symbol_value\<close> finds a value
  for a symbol in a map exactly if the list has that entry, in every state the parser reaches.\<close>
theorem get_symbol_value_exact:
  assumes "map_reachable s"
  shows "get_symbol_value s n (Some m) = (True, v) \<longleftrightarrow>
    \<lparr>as_symbol = n, as_value = v, as_map_marker = m\<rparr> \<in> set (symbol_list s)"
proof -
  let ?x = "\<lparr>as_symbol = n, as_value = v, as_map_marker = m\<rparr>"
  have ok: "asm_ok s" using map_reachable_ok [OF assms] .
  show ?thesis
  proof (cases "find_first (is_entry n (Some m)) (symbol_list s)")
    case None
    then have "?x \<notin> set (symbol_list s)" by (auto simp: is_entry_def)
    moreover have "sym_value (symbol_list s) n (Some m) = None" by (simp add: sym_value_def None)
    ultimately show ?thesis by (simp add: get_symbol_value_ok [OF ok] del: answer_eq(2))
  next
    case (Some y)
    then have y: "y \<in> set (symbol_list s)" "as_symbol y = n" "as_map_marker y = m"
      by (auto simp: is_entry_def dest: find_first_SomeD)
    have "?x \<in> set (symbol_list s) \<longleftrightarrow> as_value y = v"
    proof
      assume "?x \<in> set (symbol_list s)"
      from asm_ok_unique [OF ok this y(1)] y(2,3) show "as_value y = v" by auto
    next
      assume "as_value y = v"
      then have "?x = y" using y(2,3) by (cases y) simp
      then show "?x \<in> set (symbol_list s)" using y(1) by simp
    qed
    with Some show ?thesis by (simp add: get_symbol_value_ok [OF ok] sym_value_def)
  qed
qed

theorem get_symbol_value_exact_witness:
  "get_symbol_value (init_asm_map\<lparr>mapping_list := [''reg''],
     symbol_list := [\<lparr>as_symbol = ''$zero'', as_value = 0, as_map_marker = ''reg''\<rparr>]\<rparr>) ''$zero'' (Some ''reg'') = (True, 0)"
  using get_symbol_value_exact [OF demo_map_reachable(3), of "''$zero''" "''reg''" 0] by simp



text \<open>The first declaration of a symbol wins: once \<open>get_symbol_value\<close> has an answer for a
  symbol, in one map or in all of them, no later declaration changes it.\<close>
theorem first_value_kept:
  assumes "map_reachable s" "map_step s s'" "get_symbol_value s n mo = (True, v)"
  shows "get_symbol_value s' n mo = (True, v)"
proof -
  have ok: "asm_ok s" using map_reachable_ok [OF assms(1)] .
  then have v: "sym_value (symbol_list s) n mo = Some v"
    using assms(3) by (simp add: get_symbol_value_ok)
  have "sym_value (symbol_list s') n mo = Some v"
    using assms(2)
  proof (cases rule: map_step.cases)
    case (map_symbol n e)
    with add_symbol_spec [OF ok, of n] v show ?thesis by auto
  next
    case (map_range sb sa r1 r2 e)
    with add_symbols_ok [OF ok] v show ?thesis
      by (fastforce simp: acpp_asm_add_mapping_symbol_range_def split: if_splits)
  next
    case (map_value v1 v2 e)
    then consider "s' = s" | m step where "symbol_list s' = assign_values m v1 step (symbol_name_list s) (symbol_list s)"
      unfolding acpp_asm_add_symbol_value_def Let_def by (fastforce split: if_splits option.splits)
    then show ?thesis
      by cases (use v ok sym_value_keep in \<open>auto simp: asm_ok_def\<close>)
  qed (use v in \<open>simp_all add: acpp_asm_create_mapping_block_def acpp_set_assembler_comment_chars_def
         acpp_set_assembler_line_comment_chars_def\<close>)
  then show ?thesis
    using get_symbol_value_ok [OF map_step_ok [OF assms(2) ok]] by simp
qed

theorem first_value_kept_witness:
  "get_symbol_value (fst (acpp_asm_create_mapping_block ''freg'' (init_asm_map\<lparr>mapping_list := [''reg''],
     symbol_list := [\<lparr>as_symbol = ''$zero'', as_value = 0, as_map_marker = ''reg''\<rparr>]\<rparr>))) ''$zero'' None = (True, 0)"
  by (rule first_value_kept [OF demo_map_reachable(3) map_create]) code_simp

text \<open>An error leaves names in the queue, and neither the next statement nor
  \<open>acpp_asm_create_mapping_block\<close>, which is documented to do it, clears them: the names of a
  refused range of the map \<open>a\<close> get the value of the first statement of the map \<open>b\<close>.\<close>
theorem refused_names_leak:
  "\<exists>s s'. asmmapdec_action ''a'' [Symbol_range (Some ''r'') None 0 1 0 5] init_asm_map = Some (s, [Different_ranges]) \<and>
     asmmapdec_action ''b'' [Symbols [''x''] 7] s = Some (s', []) \<and>
     get_symbol_value s' ''r1'' (Some ''b'') = (True, 7)"
proof -
  let ?s = "init_asm_map\<lparr>mapping_list := [''a''], symbol_name_list := [''r0'', ''r1'']\<rparr>"
  have "asmmapdec_action ''a'' [Symbol_range (Some ''r'') None 0 1 0 5] init_asm_map = Some (?s, [Different_ranges])"
    by code_simp
  moreover have "asmmapdec_action ''b'' [Symbols [''x''] 7] ?s =
      Some (?s\<lparr>mapping_list := [''a'', ''b''], symbol_name_list := [], symbol_list :=
        map (\<lambda>n. \<lparr>as_symbol = n, as_value = 7, as_map_marker = ''b''\<rparr>) [''r0'', ''r1'', ''x'']\<rparr>, [])"
    by code_simp
  moreover have "get_symbol_value (?s\<lparr>mapping_list := [''a'', ''b''], symbol_name_list := [], symbol_list :=
        map (\<lambda>n. \<lparr>as_symbol = n, as_value = 7, as_map_marker = ''b''\<rparr>) [''r0'', ''r1'', ''x'']\<rparr>) ''r1'' (Some ''b'') = (True, 7)"
    by code_simp
  ultimately show ?thesis by blast
qed

text \<open>If the first map of a description has the name of a built-in type, its refusal does not
  stop the parser, and the first symbol to get a value is stored through a \<open>NULL\<close> tail of the
  map list.\<close>
theorem refused_first_map_undefined:
  assumes "mapping_list s = []" "symbol_list s = []" "is_builtin_marker m" "valid_symbol n"
    "n \<notin> set (symbol_name_list s)"
  shows "asmmapdec_action m (Symbols [n] v # bs) s = None"
proof -
  have q: "\<not> list_ex (\<lambda>t. t = n) (symbol_name_list s)" using assms(5) by (auto simp: list_ex_iff)
  have "acpp_asm_add_mapping_symbol n s = Some (s\<lparr>symbol_name_list := symbol_name_list s @ [n]\<rparr>, None)"
    using assms q by (simp add: acpp_asm_add_mapping_symbol_def find_mapping_symbol_def valid_symbol_def)
  then show ?thesis
    using assms by (simp add: asmmapdec_action_def acpp_asm_create_mapping_block_def assign_action_def
        acpp_asm_add_symbol_value_def mapping_list_tail_def)
qed

theorem refused_first_map_undefined_witness:
  "asmmapdec_action ''imm'' [Symbols [''a''] 1] init_asm_map = None"
proof -
  have "is_builtin_marker ''imm''" "valid_symbol ''a''" by code_simp+
  then show ?thesis by (intro refused_first_map_undefined) (simp_all add: init_asm_map_def)
qed

end
