(* ===== verification/SourceOrder.thy ===== *)
theory SourceOrder
  imports Prelude
begin

text \<open>
  The contract of the sorted lists of \<open>acpp\<close>: every insertion keeps the list sorted by a key
  and puts the new element behind those with the same key, so that equal keys stay in source
  order. What a client gets from it is stated for a whole sequence of insertions.
\<close>

locale source_ordered =
  fixes key :: "'a \<Rightarrow> 'k::linorder"
    and insert_elem :: "'a \<Rightarrow> 'a list \<Rightarrow> 'a list"
  assumes insert_stable: "sorted (map key xs) \<Longrightarrow> insert_elem x xs = insert_after key x xs"
begin

definition inserted :: "'a list \<Rightarrow> 'a list \<Rightarrow> 'a list" where
  "inserted xs l = fold insert_elem xs l"

lemma inserted_simps [simp]:
  "inserted [] l = l" "inserted (x # xs) l = inserted xs (insert_elem x l)"
  by (simp_all add: inserted_def)

lemma inserted_append: "inserted (xs @ ys) l = inserted ys (inserted xs l)"
  by (simp add: inserted_def)

lemma sorted_insert: "sorted (map key l) \<Longrightarrow> sorted (map key (insert_elem x l))"
  by (simp add: insert_stable sorted_insert_after)

lemma sorted_inserted: "sorted (map key l) \<Longrightarrow> sorted (map key (inserted xs l))"
  by (induction xs arbitrary: l) (auto simp: sorted_insert)

lemma same_key_insert:
  assumes "sorted (map key l)"
  shows "filter (\<lambda>y. key y = k) (insert_elem x l) =
    filter (\<lambda>y. key y = k) l @ (if key x = k then [x] else [])"
proof (cases "key x = k")
  case True
  with filter_insert_after_same [OF assms, of x] show ?thesis by (simp add: insert_stable assms)
next
  case False
  then show ?thesis
    using filter_insert_after_other [of k key x l] by (simp add: insert_stable assms)
qed

text \<open>The elements with one key are in the order of their insertion.\<close>

lemma same_key_inserted:
  "sorted (map key l) \<Longrightarrow>
   filter (\<lambda>y. key y = k) (inserted xs l) = filter (\<lambda>y. key y = k) l @ filter (\<lambda>y. key y = k) xs"
  by (induction xs arbitrary: l) (auto simp: same_key_insert sorted_insert)

lemma set_inserted: "sorted (map key l) \<Longrightarrow> set (inserted xs l) = set l \<union> set xs"
  by (induction xs arbitrary: l) (auto simp: sorted_insert insert_stable sorted_insert_after)

lemma length_inserted: "sorted (map key l) \<Longrightarrow> length (inserted xs l) = length l + length xs"
  by (induction xs arbitrary: l) (auto simp: sorted_insert insert_stable sorted_insert_after)

end

end
