(* ===== verification/AsmInsn.thy ===== *)
theory AsmInsn
  imports AsmMap CLib CoreActions SourceOrder
begin

text \<open>
  The \<open>set_asm\<close> and \<open>pseudo_instr\<close> declarations of \<open>archc/src/acpp/asm_actions.c\<close>: the
  parser of the syntax strings and of their operands, the arguments, and the two lists of
  instructions. An instruction of the description is its index in \<open>instr_list\<close>. The result
  \<open>None\<close> is undefined behaviour: a \<open>NULL\<close> pointer followed, a buffer of 200 characters
  exceeded, or the input read behind its end.
\<close>

subsection \<open>Data\<close>

datatype operand_type = op_userdef | op_exp | op_imm | op_addr

record ac_asm_insn_field =
  aif_name :: "string option"
  aif_size :: u32
  aif_first_bit :: u32
  aif_id :: u32

record ac_modifier =
  mod_name :: "string option"
  mod_type :: int
  mod_addend :: int

record ac_operand_list =
  op_str :: string
  op_type :: operand_type
  op_modifier :: ac_modifier
  op_fields :: "ac_asm_insn_field list"
  op_is_list :: bool
  op_oper_id :: int
  op_reloc_id :: u32

record ac_const_field_list =
  acf_value :: u32
  acf_field :: ac_asm_insn_field

record ac_asm_insn =
  ai_mnemonic :: string
  ai_op_literal :: "string option"
  ai_op_literal_unformatted :: "string option"
  ai_operands :: "ac_operand_list list"
  ai_insn :: "nat option"
  ai_const_fields :: "ac_const_field_list list"
  ai_pseudolist :: "string list"
  ai_num_pseudo :: nat

text \<open>The static variables; the buffer \<open>formatted_asm_str\<close> lives within one call.\<close>

record asm_insn_state =
  formatted_pseudo :: string
  num_args_expected :: nat
  num_args_found :: nat
  in_error :: bool
  asm_insn_list :: "ac_asm_insn list"
  asm_insn_list_original_order :: "ac_asm_insn list"
  current_insn :: "ac_asm_insn option"
  num_pseudo_insn :: nat
  pseudo_list :: "string list"

definition init_asm_insn :: asm_insn_state where
  "init_asm_insn = \<lparr>formatted_pseudo = [], num_args_expected = 0, num_args_found = 0, in_error = False,
     asm_insn_list = [], asm_insn_list_original_order = [], current_insn = None, num_pseudo_insn = 0,
     pseudo_list = []\<rparr>"

datatype asm_error =
    No_operand_specified
  | Mnemonic_suffix_type string
  | Invalid_conversion string
  | List_with_addr
  | List_needs_modifier
  | No_matching_bracket
  | No_modifier_identifier
  | Comma_expected
  | No_addend
  | No_closing_parenthesis
  | No_assembly_syntax
  | Invalid_mnemonic_begin char
  | Invalid_mnemonic_symbol char
  | Invalid_escape
  | Invalid_character string
  | Macro_argument_not_valid char
  | Invalid_macro_substitution
  | Undeclared_instruction_argument
  | Invalid_field string
  | Invalid_number_of_arguments
  | Invalid_map_symbol string
  | No_pseudo_instructions

subsection \<open>Characters\<close>

definition is_identifier :: "string \<Rightarrow> bool" where
  "is_identifier s =
     (case s of [] \<Rightarrow> False | c # _ \<Rightarrow> islower c \<or> isupper c \<or> isdigit c \<or> c = CHR ''_'')"

definition is_mnemonic_begin :: "string \<Rightarrow> bool" where
  "is_mnemonic_begin s =
     (case s of [] \<Rightarrow> False | c # _ \<Rightarrow> islower c \<or> isupper c \<or> c = CHR ''_'' \<or> c = CHR ''%'')"

definition comment_edge :: "string \<Rightarrow> bool" where
  "comment_edge s \<longleftrightarrow> take 2 s = ''/*'' \<or> take 2 s = ''*/''"

definition is_mnemonic_name :: "string \<Rightarrow> bool" where
  "is_mnemonic_name s =
     (case s of [] \<Rightarrow> True | c # _ \<Rightarrow> \<not> (c = CHR '';'' \<or> c = CHR 0x27 \<or> comment_edge s))"

definition is_pseudo_mnemonic_begin :: "string \<Rightarrow> bool" where
  "is_pseudo_mnemonic_begin s = (case s of [] \<Rightarrow> False | c # _ \<Rightarrow> islower c \<or> isupper c \<or> c = CHR ''_'')"

definition is_pseudo_mnemonic_name :: "string \<Rightarrow> bool" where
  "is_pseudo_mnemonic_name s =
     (case s of [] \<Rightarrow> True
      | c # _ \<Rightarrow> \<not> (c = CHR '';'' \<or> c = CHR ''#'' \<or> c = CHR 0x27 \<or> c = CHR ''%'' \<or> comment_edge s))"

definition is_operand_string :: "string \<Rightarrow> bool" where
  "is_operand_string s = is_mnemonic_name s"

definition is_group_token :: "string \<Rightarrow> bool" where
  "is_group_token s =
     (case s of [] \<Rightarrow> False | c # _ \<Rightarrow> c = CHR ''$'' \<or> c = CHR ''.'' \<or> is_identifier s)"

subsection \<open>Operands\<close>

definition starts :: "char \<Rightarrow> string \<Rightarrow> bool" where
  "starts c s = (case s of [] \<Rightarrow> False | d # _ \<Rightarrow> d = c)"

abbreviation id_char :: "char \<Rightarrow> bool" where
  "id_char c \<equiv> is_identifier [c]"

definition operand_kind :: "asm_map_state \<Rightarrow> bool \<Rightarrow> string \<Rightarrow> asm_error + operand_type" where
  "operand_kind maps mne_mode name =
     (if strcmp name ''exp'' = 0 then (if mne_mode then Inl (Mnemonic_suffix_type ''exp'') else Inr op_exp)
      else if strcmp name ''imm'' = 0 then (if mne_mode then Inl (Mnemonic_suffix_type ''imm'') else Inr op_imm)
      else if strcmp name ''addr'' = 0 then (if mne_mode then Inl (Mnemonic_suffix_type ''addr'') else Inr op_addr)
      else (case find_mapping_marker maps name of
              None \<Rightarrow> Inl (Invalid_conversion name)
            | Some _ \<Rightarrow> Inr op_userdef))"

definition new_operand :: "string \<Rightarrow> operand_type \<Rightarrow> bool \<Rightarrow> string option \<Rightarrow> int \<Rightarrow> ac_operand_list" where
  "new_operand name k listmod modifier addend = \<lparr>op_str = name, op_type = k,
     op_modifier = \<lparr>mod_name = modifier, mod_type = -1, mod_addend = addend\<rparr>, op_fields = [],
     op_is_list = listmod, op_oper_id = -1, op_reloc_id = 0\<rparr>"

text \<open>The closing bracket, if there was an opening one.\<close>

definition close_bracket :: "bool \<Rightarrow> ac_operand_list \<Rightarrow> string \<Rightarrow> asm_error + ac_operand_list \<times> string" where
  "close_bracket has_lbrack oper s =
     (if has_lbrack \<and> \<not> starts CHR '']'' s then Inl No_matching_bracket
      else Inr (oper, if has_lbrack then tl s else s))"

text \<open>Behind the opening parenthesis: the modifier and its optional addend.\<close>

definition parse_modifier ::
  "bool \<Rightarrow> string \<Rightarrow> operand_type \<Rightarrow> bool \<Rightarrow> string \<Rightarrow> asm_error + ac_operand_list \<times> string" where
  "parse_modifier has_lbrack name k listmod s =
     (let m = takeWhile id_char s; s = dropWhile (\<lambda>c. c = CHR '' '') (dropWhile id_char s) in
      if m = [] then Inl No_modifier_identifier
      else if starts CHR '')'' s then close_bracket has_lbrack (new_operand name k listmod (Some m) 0) (tl s)
      else if \<not> starts CHR '','' s then Inl Comma_expected
      else
        let s = dropWhile (\<lambda>c. c = CHR '' '') (tl s); digits = takeWhile isdigit s in
        if digits = [] then Inl No_addend
        else
          let s = dropWhile (\<lambda>c. c = CHR '' '') (dropWhile isdigit s) in
          if \<not> starts CHR '')'' s then Inl No_closing_parenthesis
          else close_bracket has_lbrack (new_operand name k listmod (Some m) (atoi digits)) (tl s))"

definition create_operand ::
  "asm_map_state \<Rightarrow> bool \<Rightarrow> string \<Rightarrow> asm_error + ac_operand_list \<times> string" where
  "create_operand maps mne_mode s =
     (let has_lbrack = starts CHR ''['' s; s = (if has_lbrack then tl s else s);
          name = takeWhile id_char s; s = dropWhile id_char s in
      if name = [] then Inl No_operand_specified
      else (case operand_kind maps mne_mode name of
              Inl e \<Rightarrow> Inl e
            | Inr k \<Rightarrow>
                let has_listmod = (take 3 s = ''...''); s = (if has_listmod then drop 3 s else s) in
                if has_listmod \<and> k = op_addr then Inl List_with_addr
                else if \<not> starts CHR ''('' s then
                  (if has_listmod then Inl List_needs_modifier
                   else close_bracket has_lbrack (new_operand name k has_listmod None 0) s)
                else parse_modifier has_lbrack name k has_listmod (tl s)))"

subsection \<open>The syntax string\<close>

text \<open>
  A character behind the last but one of the buffers of 200 characters is undefined; so is the
  NUL that ends a string of 200.
\<close>

definition emit :: "string \<Rightarrow> string \<Rightarrow> string option" where
  "emit cs out = (if length (out @ cs) \<le> 200 then Some (out @ cs) else None)"

fun mnemonic_loop :: "bool \<Rightarrow> string \<Rightarrow> string \<Rightarrow> (asm_error + string \<times> string) option" where
  "mnemonic_loop is_pseudo [] out = Some (Inr ([], out))"
| "mnemonic_loop is_pseudo (c # s) out =
     (if isspace c then Some (Inr (c # s, out))
      else if is_pseudo \<and> \<not> is_pseudo_mnemonic_name (c # s) then Some (Inl (Invalid_mnemonic_symbol c))
      else if \<not> is_mnemonic_name (c # s) then Some (Inl (Invalid_mnemonic_symbol c))
      else if c = CHR ''%'' \<and> \<not> is_pseudo then Some (Inr (c # s, out))
      else if c = CHR 0x5C then
        (case emit [CHR 0x5C] out of
           None \<Rightarrow> None
         | Some out \<Rightarrow>
             if \<not> starts CHR ''%'' s then Some (Inl Invalid_escape)
             else (case emit ''%'' out of None \<Rightarrow> None | Some out \<Rightarrow> mnemonic_loop is_pseudo (tl s) out))
      else (case emit [c] out of None \<Rightarrow> None | Some out \<Rightarrow> mnemonic_loop is_pseudo s out))"

record operand_state =
  os_in :: string
  os_out :: string
  os_mne :: bool
  os_operands :: "ac_operand_list list"
  os_expected :: nat

text \<open>The part of a round behind the blanks; \<open>s\<close> is where the round stands.\<close>

definition operand_token ::
  "asm_map_state \<Rightarrow> bool \<Rightarrow> operand_state \<Rightarrow> (asm_error + operand_state) option" where
  "operand_token maps is_pseudo st =
     (let s = os_in st in
      if \<not> is_operand_string s then Some (Inl (Invalid_character s))
      else if is_group_token s then
        (let t = takeWhile (\<lambda>c. is_group_token [c]) s; r = dropWhile (\<lambda>c. is_group_token [c]) s;
             r' = (if os_mne st then r else dropWhile isspace r) in
         map_option (\<lambda>out. Inr (st\<lparr>os_in := r', os_out := out\<rparr>))
           (emit (t @ (if \<not> os_mne st \<and> r' \<noteq> r \<and> is_group_token r' then '' '' else [])) (os_out st)))
      else if starts CHR ''%'' s then
        (case emit ''%'' (os_out st) of
           None \<Rightarrow> None
         | Some out \<Rightarrow>
             if is_pseudo then
               (case tl s of
                  [] \<Rightarrow> Some (Inl Invalid_macro_substitution)
                | c # r \<Rightarrow>
                    if isdigit c then
                      (if int (of_char c) > 48 + int (os_expected st) - 1 then Some (Inl (Macro_argument_not_valid c))
                       else map_option (\<lambda>out. Inr (st\<lparr>os_in := r, os_out := out\<rparr>)) (emit [c] out))
                    else Some (Inl Invalid_macro_substitution))
             else
               (case create_operand maps (os_mne st) (tl s) of
                  Inl e \<Rightarrow> Some (Inl e)
                | Inr (operand, r) \<Rightarrow>
                    Some (Inr (st\<lparr>os_in := r, os_out := out, os_operands := os_operands st @ [operand],
                                 os_expected := os_expected st + 1\<rparr>))))
      else if starts CHR 0x5C s then
        (case emit [CHR 0x5C, CHR 0x5C] (os_out st) of
           None \<Rightarrow> None
         | Some out \<Rightarrow>
             if \<not> starts CHR ''%'' (tl s) then Some (Inl Invalid_escape)
             else map_option (\<lambda>out. Inr (st\<lparr>os_in := tl (tl s), os_out := out\<rparr>)) (emit ''%'' out))
      else (case s of
              [] \<Rightarrow> None
            | c # r \<Rightarrow> map_option (\<lambda>out. Inr (st\<lparr>os_in := r, os_out := out\<rparr>)) (emit [c] (os_out st))))"

text \<open>One round: the first blank behind a mnemonic suffix ends the mnemonic.\<close>

definition operand_round ::
  "asm_map_state \<Rightarrow> bool \<Rightarrow> operand_state \<Rightarrow> (asm_error + operand_state) option" where
  "operand_round maps is_pseudo st =
     (case (if os_mne st \<and> os_in st \<noteq> [] \<and> isspace (hd (os_in st))
            then map_option (\<lambda>out. st\<lparr>os_out := out, os_mne := False, os_in := tl (os_in st)\<rparr>) (emit '' '' (os_out st))
            else Some st) of
        None \<Rightarrow> None
      | Some st \<Rightarrow> operand_token maps is_pseudo (st\<lparr>os_in := dropWhile isspace (os_in st)\<rparr>))"

lemma close_bracket_rest: "close_bracket b oper s = Inr (oper', r) \<Longrightarrow> length r \<le> length s"
  by (auto simp: close_bracket_def split: if_splits)

lemma length_skip [simp]: "length (dropWhile p s) \<le> length s"
  by (rule length_dropWhile_le)

lemma parse_modifier_rest:
  assumes "parse_modifier b name k l s = Inr (oper, r)"
  shows "length r \<le> length s"
proof -
  let ?sp = "\<lambda>c. c = CHR '' ''"
  define s1 where "s1 = dropWhile ?sp (dropWhile id_char s)"
  define s2 where "s2 = dropWhile ?sp (tl s1)"
  define s3 where "s3 = dropWhile ?sp (dropWhile isdigit s2)"
  have d: "length (dropWhile p (dropWhile q x)) \<le> length x" for p q and x :: string
    by (rule le_trans [OF length_skip length_skip])
  have "length s3 \<le> length s2" "length s1 \<le> length s" by (simp_all add: s3_def s1_def d)
  moreover have "length s2 \<le> length s1" unfolding s2_def by (rule le_trans [OF length_skip]) simp
  moreover have "length r \<le> length s1 \<or> length r \<le> length s3"
    using assms unfolding parse_modifier_def Let_def s1_def [symmetric] s2_def [symmetric] s3_def [symmetric]
    by (auto split: if_splits dest!: close_bracket_rest)
  ultimately show ?thesis by linarith
qed

lemma create_operand_rest:
  assumes "create_operand maps m s = Inr (oper, r)"
  shows "length r \<le> length s"
proof -
  define s1 where "s1 = (if starts CHR ''['' s then tl s else s)"
  define s2 where "s2 = dropWhile id_char s1"
  define s3 where "s3 = (if take 3 s2 = ''...'' then drop 3 s2 else s2)"
  have "length s3 \<le> length s2" "length s2 \<le> length s1" "length s1 \<le> length s"
    by (simp_all add: s3_def s2_def s1_def)
  moreover have "length r \<le> length s3"
    using assms unfolding create_operand_def Let_def s1_def [symmetric] s2_def [symmetric] s3_def [symmetric]
    by (auto split: if_splits sum.splits dest!: close_bracket_rest parse_modifier_rest)
  ultimately show ?thesis by linarith
qed

lemma dropWhile_shrinks: "s \<noteq> [] \<Longrightarrow> p (hd s) \<Longrightarrow> length (dropWhile p s) < length s"
  by (cases s) (auto simp: le_imp_less_Suc)

lemma group_head: "is_group_token s \<Longrightarrow> s \<noteq> [] \<and> is_group_token [hd s]"
  by (cases s) (auto simp: is_group_token_def is_identifier_def)

lemma operand_token_shorter:
  assumes "operand_token maps is_pseudo st = Some (Inr st')"
  shows "length (os_in st') < length (os_in st)"
proof -
  let ?s = "os_in st"
  have g: "length (dropWhile (\<lambda>c. is_group_token [c]) ?s) < length ?s" if "is_group_token ?s"
    using group_head [OF that] by (intro dropWhile_shrinks) auto
  have "length (dropWhile isspace (dropWhile (\<lambda>c. is_group_token [c]) ?s)) < length ?s" if "is_group_token ?s"
    using le_less_trans [OF length_skip g [OF that]] .
  with g assms show ?thesis
    by (cases ?s) (auto simp: operand_token_def Let_def starts_def emit_def split: if_splits option.splits sum.splits list.splits
        dest!: create_operand_rest)
qed

lemma operand_round_shorter:
  assumes "operand_round maps is_pseudo st = Some (Inr st')"
  shows "length (os_in st') < length (os_in st)"
proof -
  have "length (dropWhile isspace (tl s)) \<le> length s" for s
    using le_trans [OF length_skip, of "tl s" "length s"] by simp
  then show ?thesis
    using assms by (fastforce simp: operand_round_def split: if_splits option.splits
        dest!: operand_token_shorter intro: less_le_trans)
qed

text \<open>An error reports how many operands were counted before it.\<close>

function operand_loop ::
  "asm_map_state \<Rightarrow> bool \<Rightarrow> operand_state \<Rightarrow> ((asm_error \<times> nat) + operand_state) option" where
  "operand_loop maps is_pseudo st =
     (if os_in st = [] then Some (Inr st)
      else (case operand_round maps is_pseudo st of
              None \<Rightarrow> None
            | Some (Inl e) \<Rightarrow> Some (Inl (e, os_expected st))
            | Some (Inr st') \<Rightarrow> operand_loop maps is_pseudo st'))"
  by pat_completeness auto
termination
  by (relation "measure (\<lambda>(maps, is_pseudo, st). length (os_in st))") (auto dest: operand_round_shorter)

declare operand_loop.simps [simp del]

definition end_string :: "string \<Rightarrow> string option" where
  "end_string out = (if length out < 200 then Some out else None)"

text \<open>An error keeps the number of operands counted so far.\<close>

definition syntax_error ::
  "asm_error \<Rightarrow> nat \<Rightarrow> asm_insn_state \<Rightarrow> (asm_insn_state \<times> asm_error option) option" where
  "syntax_error e n s = Some (s\<lparr>in_error := True, num_args_expected := n\<rparr>, Some e)"

text \<open>
  The end of the string: a member of a pseudo instruction stays in \<open>formatted_pseudo\<close>, whose
  contents after an error nothing reads; an instruction gets its literal and its operands.
\<close>

definition store_string ::
  "bool \<Rightarrow> string \<Rightarrow> string \<Rightarrow> string \<Rightarrow> ac_operand_list list \<Rightarrow> nat \<Rightarrow> asm_insn_state
     \<Rightarrow> (asm_insn_state \<times> asm_error option) option" where
  "store_string is_pseudo asm_str mne out operands n s =
     (if is_pseudo then Some (s\<lparr>formatted_pseudo := out\<rparr>, None)
      else (case current_insn s of
              None \<Rightarrow> None
            | Some c \<Rightarrow>
                Some (s\<lparr>num_args_expected := n,
                        current_insn := Some (c\<lparr>ai_mnemonic := mne, ai_op_literal := Some out,
                          ai_op_literal_unformatted := Some asm_str, ai_operands := operands\<rparr>)\<rparr>, None)))"

text \<open>Behind the mnemonic: the operands, and then the end of the string.\<close>

definition finish_operands ::
  "bool \<Rightarrow> string \<Rightarrow> string \<Rightarrow> ((asm_error \<times> nat) + operand_state) option \<Rightarrow> asm_insn_state
     \<Rightarrow> (asm_insn_state \<times> asm_error option) option" where
  "finish_operands is_pseudo asm_str mne r s =
     (case r of
        None \<Rightarrow> None
      | Some (Inl (e, n)) \<Rightarrow> syntax_error e n s
      | Some (Inr st) \<Rightarrow>
          (case end_string (os_out st) of
             None \<Rightarrow> None
           | Some out \<Rightarrow> store_string is_pseudo asm_str mne out (os_operands st) (os_expected st) s))"

text \<open>
  \<open>out\<close> is what the buffer holds: the mnemonic of a pseudo member, and a blank if the mnemonic
  ended with one, which is taken back if nothing follows.
\<close>

definition parse_operands ::
  "asm_map_state \<Rightarrow> bool \<Rightarrow> string \<Rightarrow> nat \<Rightarrow> string \<Rightarrow> bool \<Rightarrow> string \<Rightarrow> string \<Rightarrow> asm_insn_state
     \<Rightarrow> (asm_insn_state \<times> asm_error option) option" where
  "parse_operands maps is_pseudo asm_str n mne blank r out s =
     (if r = [] then
        (case end_string (if blank then butlast out else out) of
           None \<Rightarrow> None
         | Some out \<Rightarrow> store_string is_pseudo asm_str mne out [] n s)
      else finish_operands is_pseudo asm_str mne
             (operand_loop maps is_pseudo \<lparr>os_in = r, os_out = out, os_mne = \<not> blank,
                os_operands = [], os_expected = n\<rparr>) s)"

definition parse_behind_mnemonic ::
  "asm_map_state \<Rightarrow> bool \<Rightarrow> string \<Rightarrow> nat \<Rightarrow> string \<Rightarrow> string \<Rightarrow> asm_insn_state
     \<Rightarrow> (asm_insn_state \<times> asm_error option) option" where
  "parse_behind_mnemonic maps is_pseudo asm_str n mne r s =
     (let out = (if is_pseudo then mne else []) in
      if \<not> is_pseudo \<and> end_string mne = None then None
      else if r \<noteq> [] \<and> isspace (hd r) then
        (case emit '' '' out of
           None \<Rightarrow> None
         | Some out \<Rightarrow> parse_operands maps is_pseudo asm_str n mne True (dropWhile isspace (tl r)) out s)
      else parse_operands maps is_pseudo asm_str n mne False r out s)"

definition acpp_asm_parse_asm_string ::
  "asm_map_state \<Rightarrow> string \<Rightarrow> bool \<Rightarrow> asm_insn_state \<Rightarrow> (asm_insn_state \<times> asm_error option) option" where
  "acpp_asm_parse_asm_string maps asm_str is_pseudo s =
     (let n = (if is_pseudo then num_args_expected s else 0); t = dropWhile isspace asm_str in
      if t = [] then syntax_error No_assembly_syntax n s
      else if is_pseudo \<and> \<not> is_pseudo_mnemonic_begin t \<or> \<not> is_mnemonic_begin t
      then syntax_error (Invalid_mnemonic_begin (hd t)) n s
      else (case mnemonic_loop is_pseudo t [] of
              None \<Rightarrow> None
            | Some (Inl e) \<Rightarrow> syntax_error e n s
            | Some (Inr (r, mne)) \<Rightarrow> parse_behind_mnemonic maps is_pseudo asm_str n mne r s))"

subsection \<open>Arguments\<close>

definition blank_insn :: ac_asm_insn where
  "blank_insn = \<lparr>ai_mnemonic = [], ai_op_literal = None, ai_op_literal_unformatted = None, ai_operands = [],
     ai_insn = None, ai_const_fields = [], ai_pseudolist = [], ai_num_pseudo = 0\<rparr>"

definition acpp_asm_new_insn :: "asm_insn_state \<Rightarrow> asm_insn_state" where
  "acpp_asm_new_insn s = s\<lparr>pseudo_list := [], num_pseudo_insn := 0, num_args_found := 0, in_error := False,
     current_insn := Some blank_insn\<rparr>"

text \<open>The first field with the name, and its index.\<close>

fun find_field_index :: "string \<Rightarrow> nat \<Rightarrow> ac_dec_field list \<Rightarrow> (nat \<times> ac_dec_field) option" where
  "find_field_index name f_id [] = None"
| "find_field_index name f_id (f # fs) =
     (if strcmp name (field_name f) = 0 then Some (f_id, f) else find_field_index name (f_id + 1) fs)"

definition asm_field :: "nat \<Rightarrow> ac_dec_field \<Rightarrow> ac_asm_insn_field" where
  "asm_field f_id f = \<lparr>aif_name = Some (field_name f), aif_size = of_int (field_size f),
     aif_first_bit = of_int (first_bit f), aif_id = of_nat f_id\<rparr>"

definition arg_error :: "asm_error \<Rightarrow> asm_insn_state \<Rightarrow> (asm_insn_state \<times> asm_error option) option" where
  "arg_error e s = Some (s\<lparr>in_error := True\<rparr>, Some e)"

text \<open>Without an argument yet, a concatenated one walks behind the end of every list.\<close>

definition acpp_asm_parse_asm_argument ::
  "ac_dec_format option \<Rightarrow> string \<Rightarrow> bool \<Rightarrow> asm_insn_state \<Rightarrow> (asm_insn_state \<times> asm_error option) option" where
  "acpp_asm_parse_asm_argument pf field_str is_concatenated s =
     (case pf of
        None \<Rightarrow> Some (s, Some Undeclared_instruction_argument)
      | Some pf \<Rightarrow>
          (case find_field_index field_str 0 (format_fields pf) of
             None \<Rightarrow> arg_error (Invalid_field field_str) s
           | Some (f_id, pfield) \<Rightarrow>
               let s = (if is_concatenated then s else s\<lparr>num_args_found := num_args_found s + 1\<rparr>) in
               (case current_insn s of
                  None \<Rightarrow> None
                | Some c \<Rightarrow>
                    let ops = ai_operands c; i = num_args_found s - 1 in
                    if num_args_found s = 0 \<or> length ops \<le> i then arg_error Invalid_number_of_arguments s
                    else
                      let oper = ops ! i; oper' = oper\<lparr>op_fields := op_fields oper @ [asm_field f_id pfield]\<rparr>
                      in Some (s\<lparr>current_insn := Some (c\<lparr>ai_operands := ops[i := oper']\<rparr>)\<rparr>, None))))"

text \<open>
  An undeclared map name only writes a message that the next error overwrites: it has no
  symbols. The value is an \<open>int\<close> stored as \<open>unsigned\<close>.
\<close>

definition acpp_asm_parse_const_asm_argument ::
  "asm_map_state \<Rightarrow> ac_dec_format option \<Rightarrow> string \<Rightarrow> string option \<Rightarrow> int \<Rightarrow> string option \<Rightarrow> asm_insn_state
     \<Rightarrow> (asm_insn_state \<times> asm_error option) option" where
  "acpp_asm_parse_const_asm_argument maps pf field_str mapname iconst_field sconst_field s =
     (case (case sconst_field of None \<Rightarrow> (True, iconst_field) | Some x \<Rightarrow> get_symbol_value maps x mapname) of
        (False, _) \<Rightarrow> arg_error (Invalid_map_symbol (the sconst_field)) s
      | (True, v) \<Rightarrow>
          (case pf of
             None \<Rightarrow> None
           | Some pf \<Rightarrow>
               (case find_field_index field_str 0 (format_fields pf) of
                  None \<Rightarrow> arg_error (Invalid_field field_str) s
                | Some (_, pfield) \<Rightarrow>
                    (case current_insn s of
                       None \<Rightarrow> None
                     | Some c \<Rightarrow>
                         Some (s\<lparr>current_insn := Some (c\<lparr>ai_const_fields := ai_const_fields c @
                           [\<lparr>acf_value = of_int v, acf_field = asm_field 0 pfield\<rparr>]\<rparr>)\<rparr>, None)))))"

fun clone_const_fields :: "ac_const_field_list list \<Rightarrow> ac_const_field_list list" where
  "clone_const_fields [] = []"
| "clone_const_fields (c # cs) = \<lparr>acf_value = acf_value c, acf_field = acf_field c\<rparr> # clone_const_fields cs"

subsection \<open>The end of a declaration\<close>

fun insert_insn :: "ac_asm_insn \<Rightarrow> ac_asm_insn list \<Rightarrow> ac_asm_insn list" where
  "insert_insn insn [] = [insn]"
| "insert_insn insn (t # r) =
     (if strcmp (ai_mnemonic insn) (ai_mnemonic t) < 0 then insn # t # r else t # insert_insn insn r)"

text \<open>
  The comparison of the second list: pseudo instructions by mnemonic, the others by the names
  of their instructions; \<open>t->insn\<close> is \<open>NULL\<close> for a pseudo instruction.
\<close>

definition original_less :: "ac_dec_instr list \<Rightarrow> ac_asm_insn \<Rightarrow> ac_asm_insn \<Rightarrow> bool option" where
  "original_less instrs x t =
     (case ai_insn x of
        None \<Rightarrow> Some (strcmp (ai_mnemonic x) (ai_mnemonic t) < 0)
      | Some k \<Rightarrow>
          map_option (\<lambda>j. strcmp (instr_name (instrs ! k)) (instr_name (instrs ! j)) < 0) (ai_insn t))"

fun insert_original ::
  "ac_dec_instr list \<Rightarrow> ac_asm_insn \<Rightarrow> ac_asm_insn list \<Rightarrow> ac_asm_insn list option" where
  "insert_original instrs x [] = Some [x]"
| "insert_original instrs x (t # r) =
     (case original_less instrs x t of
        None \<Rightarrow> None
      | Some True \<Rightarrow> Some (x # t # r)
      | Some False \<Rightarrow> map_option ((#) t) (insert_original instrs x r))"

definition dummy_field :: ac_asm_insn_field where
  "dummy_field = \<lparr>aif_name = None, aif_size = 0, aif_first_bit = 0, aif_id = 0\<rparr>"

text \<open>A pseudo instruction has one dummy field for each operand.\<close>

definition with_dummies :: "nat option \<Rightarrow> ac_asm_insn \<Rightarrow> ac_asm_insn" where
  "with_dummies p c =
     (if p = None then c\<lparr>ai_operands := map (\<lambda>x. x\<lparr>op_fields := [dummy_field]\<rparr>) (ai_operands c)\<rparr> else c)"

definition new_asm_insn :: "nat option \<Rightarrow> asm_insn_state \<Rightarrow> ac_asm_insn \<Rightarrow> ac_asm_insn" where
  "new_asm_insn p s c = c\<lparr>ai_insn := p, ai_const_fields := clone_const_fields (ai_const_fields c),
     ai_pseudolist := pseudo_list s, ai_num_pseudo := num_pseudo_insn s\<rparr>"

definition acpp_asm_end_insn ::
  "ac_dec_instr list \<Rightarrow> nat option \<Rightarrow> asm_insn_state \<Rightarrow> (asm_insn_state \<times> asm_error option) option" where
  "acpp_asm_end_insn instrs p s =
     (if num_args_found s \<noteq> num_args_expected s then Some (s, Some Invalid_number_of_arguments)
      else if in_error s then Some (s, None)
      else if p = None \<and> pseudo_list s = [] then Some (s, Some No_pseudo_instructions)
      else (case current_insn s of
              None \<Rightarrow> None
            | Some c \<Rightarrow>
                let c = with_dummies p c; insn = new_asm_insn p s c in
                if ai_op_literal c = None \<or> ai_op_literal_unformatted c = None then None
                else (case insert_original instrs insn (asm_insn_list_original_order s) of
                        None \<Rightarrow> None
                      | Some l \<Rightarrow>
                          Some (s\<lparr>current_insn := Some c, asm_insn_list := insert_insn insn (asm_insn_list s),
                                  asm_insn_list_original_order := l\<rparr>, None))))"

subsection \<open>Pseudo instructions\<close>

definition acpp_asm_new_pseudo :: "asm_insn_state \<Rightarrow> asm_insn_state" where
  "acpp_asm_new_pseudo s =
     s\<lparr>pseudo_list := [], num_pseudo_insn := 0, num_args_found := num_args_expected s\<rparr>"

definition acpp_asm_add_pseudo_member ::
  "asm_map_state \<Rightarrow> string \<Rightarrow> asm_insn_state \<Rightarrow> (asm_insn_state \<times> asm_error option) option" where
  "acpp_asm_add_pseudo_member maps pseudo s =
     (case acpp_asm_parse_asm_string maps pseudo True s of
        None \<Rightarrow> None
      | Some (s, Some e) \<Rightarrow> Some (s, Some e)
      | Some (s, None) \<Rightarrow>
          Some (s\<lparr>pseudo_list := pseudo_list s @ [formatted_pseudo s], num_pseudo_insn := num_pseudo_insn s + 1\<rparr>, None))"

end
