(* ===== verification/AsmInsnCorrect.thy ===== *)
theory AsmInsnCorrect
  imports AsmInsn
begin

text \<open>
  The grammar actions that declare assembly syntax, and what they keep: the order of the two
  lists, and that every operand of a listed instruction has the fields it is encoded in. The
  parser of operands reads back what \<open>show_operand\<close> prints.
\<close>

subsection \<open>Grammar actions\<close>

text \<open>
  \<open>id_list\<close>: the arguments behind the syntax string. An error is reported and the parser goes
  on; the results list what was reported.
\<close>

datatype asm_arg =
    Const_int string int
  | Const_map string string string
  | Const_symbol string string
  | Field_arg string
  | Field_plus string

definition arg_action ::
  "asm_map_state \<Rightarrow> ac_dec_format option \<Rightarrow> asm_arg \<Rightarrow> asm_insn_state \<Rightarrow> (asm_insn_state \<times> asm_error option) option" where
  "arg_action maps pf a s =
     (case a of
        Const_int f v \<Rightarrow> acpp_asm_parse_const_asm_argument maps pf f None v None s
      | Const_map f m x \<Rightarrow> acpp_asm_parse_const_asm_argument maps pf f (Some m) 0 (Some x) s
      | Const_symbol f x \<Rightarrow> acpp_asm_parse_const_asm_argument maps pf f None 0 (Some x) s
      | Field_arg f \<Rightarrow> acpp_asm_parse_asm_argument pf f False s
      | Field_plus f \<Rightarrow> acpp_asm_parse_asm_argument pf f True s)"

text \<open>A sequence of calls that each report at most one error.\<close>

fun run_calls ::
  "(asm_insn_state \<Rightarrow> (asm_insn_state \<times> asm_error option) option) list \<Rightarrow> asm_insn_state
     \<Rightarrow> (asm_insn_state \<times> asm_error list) option" where
  "run_calls [] s = Some (s, [])"
| "run_calls (f # fs) s =
     (case f s of
        None \<Rightarrow> None
      | Some (s, e) \<Rightarrow>
          map_option (\<lambda>(s, es). (s, (case e of None \<Rightarrow> es | Some e \<Rightarrow> e # es))) (run_calls fs s))"

text \<open>
  \<open>asmdec\<close> for the instruction \<open>k\<close> with the format \<open>pf\<close>; and \<open>pseudodec\<close>. The syntax of an
  undeclared instruction is skipped, but its arguments and the end of the declaration are not.
\<close>

definition asmdec_action ::
  "asm_map_state \<Rightarrow> ac_dec_instr list \<Rightarrow> ac_dec_format option \<Rightarrow> nat \<Rightarrow> string \<Rightarrow> asm_arg list
     \<Rightarrow> asm_insn_state \<Rightarrow> (asm_insn_state \<times> asm_error list) option" where
  "asmdec_action maps instrs pf k str args s =
     run_calls ([acpp_asm_parse_asm_string maps str False] @ map (arg_action maps pf) args @
       [acpp_asm_end_insn instrs (Some k)]) (acpp_asm_new_insn s)"

definition undeclared_asmdec_action ::
  "asm_map_state \<Rightarrow> ac_dec_instr list \<Rightarrow> ac_dec_format option \<Rightarrow> asm_arg list
     \<Rightarrow> asm_insn_state \<Rightarrow> (asm_insn_state \<times> asm_error list) option" where
  "undeclared_asmdec_action maps instrs pf args s =
     run_calls (map (arg_action maps pf) args @ [acpp_asm_end_insn instrs None]) s"

definition pseudodec_action ::
  "asm_map_state \<Rightarrow> ac_dec_instr list \<Rightarrow> string \<Rightarrow> string list
     \<Rightarrow> asm_insn_state \<Rightarrow> (asm_insn_state \<times> asm_error list) option" where
  "pseudodec_action maps instrs str members s =
     run_calls ([acpp_asm_parse_asm_string maps str False, \<lambda>s. Some (acpp_asm_new_pseudo s, None)] @
       map (acpp_asm_add_pseudo_member maps) members @ [acpp_asm_end_insn instrs None]) (acpp_asm_new_insn s)"

inductive asm_step :: "asm_insn_state \<Rightarrow> asm_insn_state \<Rightarrow> bool" where
  asm_native: "asmdec_action maps instrs pf k str args s = Some (s', es) \<Longrightarrow> asm_step s s'"
| asm_undeclared: "undeclared_asmdec_action maps instrs pf args s = Some (s', es) \<Longrightarrow> asm_step s s'"
| asm_pseudo: "pseudodec_action maps instrs str members s = Some (s', es) \<Longrightarrow> asm_step s s'"

inductive asm_reachable :: "asm_insn_state \<Rightarrow> bool" where
  asm_init: "asm_reachable init_asm_insn"
| asm_next: "asm_reachable s \<Longrightarrow> asm_step s s' \<Longrightarrow> asm_reachable s'"

subsection \<open>The sorted list\<close>

lemma insert_insn_after: "insert_insn x l = insert_after ai_mnemonic x l"
  by (induction l) (auto simp: strcmp_simps)

interpretation insns: source_ordered ai_mnemonic insert_insn
  by unfold_locales (rule insert_insn_after)

interpretation syms: source_ordered as_symbol insert_symbol
  by unfold_locales (rule insert_symbol_after)

subsection \<open>What the calls keep\<close>

text \<open>
  What is true of every listed instruction, and of the instruction being declared: unless an
  error was met, it has as many operands as are expected, and an operand whose argument was
  found has a field. A pseudo instruction in the making counts all its arguments as found and
  gets its fields at the end.
\<close>

definition listed_ok :: "ac_asm_insn \<Rightarrow> bool" where
  "listed_ok i \<longleftrightarrow> (\<forall>x \<in> set (ai_operands i). op_fields x \<noteq> []) \<and>
     ai_num_pseudo i = length (ai_pseudolist i) \<and> (ai_insn i = None \<longrightarrow> ai_pseudolist i \<noteq> [])"

definition lists_ok :: "asm_insn_state \<Rightarrow> bool" where
  "lists_ok s \<longleftrightarrow> sorted (map ai_mnemonic (asm_insn_list s)) \<and> (\<forall>i \<in> set (asm_insn_list s). listed_ok i) \<and>
     num_pseudo_insn s = length (pseudo_list s)"

definition native_ok :: "asm_insn_state \<Rightarrow> bool" where
  "native_ok s \<longleftrightarrow> in_error s \<or> (\<exists>c. current_insn s = Some c \<and> length (ai_operands c) = num_args_expected s \<and>
     (\<forall>i < length (ai_operands c). i < num_args_found s \<longrightarrow> op_fields (ai_operands c ! i) \<noteq> []))"

lemma operand_token_count:
  "operand_token maps False st = Some (Inr st') \<Longrightarrow> length (os_operands st) = os_expected st \<Longrightarrow>
   length (os_operands st') = os_expected st'"
  by (auto simp: operand_token_def Let_def emit_def split: if_splits sum.splits option.splits list.splits)

lemma operand_loop_count:
  "operand_loop maps False st = Some (Inr st') \<Longrightarrow> length (os_operands st) = os_expected st \<Longrightarrow>
   length (os_operands st') = os_expected st'"
proof (induction maps "False" st rule: operand_loop.induct)
  case (1 maps st)
  show ?case
  proof (cases "os_in st = []")
    case True
    with 1 show ?thesis by (simp add: operand_loop.simps)
  next
    case False
    then obtain st1 where st1: "operand_round maps False st = Some (Inr st1)" "operand_loop maps False st1 = Some (Inr st')"
      using 1(2) by (subst (asm) operand_loop.simps) (auto split: option.splits sum.splits)
    then have "length (os_operands st1) = os_expected st1"
      using 1(3) by (auto simp: operand_round_def split: option.splits if_splits dest!: operand_token_count)
    with 1(1) [OF False st1(1) refl st1(2)] show ?thesis by simp
  qed
qed

text \<open>Parsing ends with an error, or it stores a string whose operands are counted.\<close>

definition parsed :: "bool \<Rightarrow> asm_insn_state \<Rightarrow> asm_insn_state \<times> asm_error option \<Rightarrow> bool" where
  "parsed p s r \<longleftrightarrow>
     (\<exists>n e. r = (s\<lparr>in_error := True, num_args_expected := n\<rparr>, Some e)) \<or>
     (\<exists>str mne out ops n. store_string p str mne out ops n s = Some r \<and> (\<not> p \<longrightarrow> length ops = n))"

lemma parsed_error: "syntax_error e n s = Some r \<Longrightarrow> parsed p s r"
  by (auto simp: syntax_error_def parsed_def)

lemma parsed_operands:
  assumes "parse_operands maps p str n mne blank r out s = Some q" "\<not> p \<longrightarrow> n = 0"
  shows "parsed p s q"
proof (cases "r = []")
  case True
  with assms show ?thesis
    unfolding parsed_def parse_operands_def by (fastforce split: option.splits)
next
  case False
  let ?st = "\<lparr>os_in = r, os_out = out, os_mne = \<not> blank, os_operands = [], os_expected = n\<rparr>"
  have f: "finish_operands p str mne (operand_loop maps p ?st) s = Some q"
    using assms(1) False by (simp add: parse_operands_def)
  show ?thesis
  proof (cases "operand_loop maps p ?st")
    case None
    with f show ?thesis by (simp add: finish_operands_def)
  next
    case (Some x)
    show ?thesis
    proof (cases x)
      case (Inl e)
      with Some f show ?thesis by (cases e) (auto simp: finish_operands_def intro: parsed_error)
    next
      case (Inr st)
      have "\<not> p \<longrightarrow> length (os_operands st) = os_expected st"
        using operand_loop_count [of maps ?st st] Some Inr assms(2) by auto
      with f Some Inr show ?thesis
        unfolding parsed_def finish_operands_def by (fastforce split: option.splits)
    qed
  qed
qed

lemma parse_string_cases:
  assumes "acpp_asm_parse_asm_string maps str p s = Some r"
  shows "parsed p s r"
proof -
  have "parsed p s r" if "parse_behind_mnemonic maps p str n mne t s = Some r" "\<not> p \<longrightarrow> n = 0" for n mne t
    using that by (auto simp: parse_behind_mnemonic_def Let_def intro: parsed_operands split: if_splits option.splits)
  with assms show ?thesis
    unfolding acpp_asm_parse_asm_string_def Let_def
    by (auto split: if_splits option.splits sum.splits prod.splits intro: parsed_error)
qed

lemma parse_string_frame:
  assumes "acpp_asm_parse_asm_string maps str p s = Some (s', e)"
  shows "asm_insn_list s' = asm_insn_list s \<and> asm_insn_list_original_order s' = asm_insn_list_original_order s \<and>
    pseudo_list s' = pseudo_list s \<and> num_pseudo_insn s' = num_pseudo_insn s"
  using parse_string_cases [OF assms]
  by (auto simp: parsed_def store_string_def split: if_splits option.splits)

text \<open>What a call keeps that does not end a declaration.\<close>

definition keeps :: "(asm_insn_state \<Rightarrow> (asm_insn_state \<times> asm_error option) option) \<Rightarrow> bool" where
  "keeps f \<longleftrightarrow> (\<forall>s s' e. f s = Some (s', e) \<longrightarrow> asm_insn_list s' = asm_insn_list s \<and>
     asm_insn_list_original_order s' = asm_insn_list_original_order s \<and>
     (num_pseudo_insn s = length (pseudo_list s) \<longrightarrow> num_pseudo_insn s' = length (pseudo_list s')))"

lemma keeps_parse: "keeps (acpp_asm_parse_asm_string maps str p)"
  unfolding keeps_def by (auto dest!: parse_string_frame)

lemma keeps_arg: "keeps (arg_action maps pf a)"
  unfolding keeps_def
  by (auto simp: arg_action_def acpp_asm_parse_asm_argument_def acpp_asm_parse_const_asm_argument_def
      arg_error_def Let_def split: asm_arg.splits option.splits if_splits prod.splits bool.splits)

lemma keeps_member: "keeps (acpp_asm_add_pseudo_member maps str)"
  unfolding keeps_def
proof (intro allI impI)
  fix s s' e
  assume "acpp_asm_add_pseudo_member maps str s = Some (s', e)"
  then obtain t d where t: "acpp_asm_parse_asm_string maps str True s = Some (t, d)"
    "s' = (if d = None then t\<lparr>pseudo_list := pseudo_list t @ [formatted_pseudo t],
       num_pseudo_insn := num_pseudo_insn t + 1\<rparr> else t)"
    by (auto simp: acpp_asm_add_pseudo_member_def split: option.splits)
  have "keeps (acpp_asm_parse_asm_string maps str True)" by (rule keeps_parse)
  with t show "asm_insn_list s' = asm_insn_list s \<and>
     asm_insn_list_original_order s' = asm_insn_list_original_order s \<and>
     (num_pseudo_insn s = length (pseudo_list s) \<longrightarrow> num_pseudo_insn s' = length (pseudo_list s'))"
    unfolding keeps_def by fastforce
qed

lemma keeps_new_pseudo: "keeps (\<lambda>s. Some (acpp_asm_new_pseudo s, None))"
  by (simp add: keeps_def acpp_asm_new_pseudo_def)

lemma run_calls_inv:
  assumes "\<And>f s s' e. f \<in> set fs \<Longrightarrow> P s \<Longrightarrow> f s = Some (s', e) \<Longrightarrow> P s'"
    "run_calls fs s = Some (s', es)" "P s"
  shows "P s'"
  using assms
proof (induction fs arbitrary: s es)
  case (Cons f fs)
  then obtain t e es' where t: "f s = Some (t, e)" "run_calls fs t = Some (s', es')"
    by (auto split: option.splits)
  have "P t" using Cons.prems(1) [of f s t e] Cons.prems(3) t(1) by simp
  with Cons.IH [of t es'] Cons.prems(1) t(2) show ?case by auto
qed simp

lemma run_calls_append:
  "run_calls (fs @ gs) s = Some (s', es) \<Longrightarrow>
   \<exists>t e1 e2. run_calls fs s = Some (t, e1) \<and> run_calls gs t = Some (s', e2)"
proof (induction fs arbitrary: s es)
  case (Cons f fs)
  then obtain t e es' where t: "f s = Some (t, e)" "run_calls (fs @ gs) t = Some (s', es')"
    by (auto split: option.splits)
  with Cons.IH [OF t(2)] show ?case by auto
qed simp

lemma lists_ok_keeps: "keeps f \<Longrightarrow> lists_ok s \<Longrightarrow> f s = Some (s', e) \<Longrightarrow> lists_ok s'"
  unfolding keeps_def lists_ok_def by metis

lemma native_ok_arg: "native_ok s \<Longrightarrow> arg_action maps pf a s = Some (s', e) \<Longrightarrow> native_ok s'"
  by (auto simp: native_ok_def arg_action_def acpp_asm_parse_asm_argument_def nth_list_update
      acpp_asm_parse_const_asm_argument_def arg_error_def Let_def
      split: asm_arg.splits option.splits if_splits prod.splits bool.splits)

lemma native_ok_parse:
  assumes "acpp_asm_parse_asm_string maps str False (acpp_asm_new_insn s) = Some (s', e)"
  shows "native_ok s'"
proof -
  consider "in_error s'" | c where "current_insn s' = Some c" "length (ai_operands c) = num_args_expected s'"
    "num_args_found s' = 0"
    using parse_string_cases [OF assms]
    by (auto simp: parsed_def store_string_def acpp_asm_new_insn_def)
  then show ?thesis by cases (auto simp: native_ok_def)
qed

text \<open>The end of a declaration adds one instruction, or none.\<close>

lemma end_insn_cases:
  assumes "acpp_asm_end_insn instrs p s = Some (s', e)" "lists_ok s" "p \<noteq> None \<Longrightarrow> native_ok s"
  shows "lists_ok s' \<and> (s' = s \<or> (\<exists>i. asm_insn_list s' = insert_insn i (asm_insn_list s) \<and> ai_insn i = p \<and>
    insert_original instrs i (asm_insn_list_original_order s) = Some (asm_insn_list_original_order s')))"
proof (cases "s' = s")
  case True
  with assms(2) show ?thesis by simp
next
  case False
  then obtain c where c: "current_insn s = Some c" "num_args_found s = num_args_expected s" "\<not> in_error s"
    "\<not> (p = None \<and> pseudo_list s = [])"
    using assms(1) unfolding acpp_asm_end_insn_def by (auto split: if_splits option.splits)
  define i where "i = new_asm_insn p s (with_dummies p c)"
  obtain l where l: "insert_original instrs i (asm_insn_list_original_order s) = Some l"
    "s' = s\<lparr>current_insn := Some (with_dummies p c), asm_insn_list := insert_insn i (asm_insn_list s),
       asm_insn_list_original_order := l\<rparr>"
    using assms(1) c unfolding acpp_asm_end_insn_def Let_def i_def by (auto split: if_splits option.splits)
  note defs = i_def new_asm_insn_def with_dummies_def
  have "op_fields x \<noteq> []" if "x \<in> set (ai_operands i)" for x
  proof (cases "p = None")
    case True
    with that show ?thesis by (auto simp: defs)
  next
    case False
    with assms(3) c have "length (ai_operands c) = num_args_expected s"
      "\<forall>j < length (ai_operands c). j < num_args_found s \<longrightarrow> op_fields (ai_operands c ! j) \<noteq> []"
      by (auto simp: native_ok_def)
    with that c(2) False show ?thesis by (auto simp: defs in_set_conv_nth)
  qed
  then have "listed_ok i" using assms(2) c(4) by (auto simp: listed_ok_def defs lists_ok_def)
  then have "lists_ok s'"
    using assms(2) insns.sorted_insert [of "asm_insn_list s" i] unfolding l(2)
    by (auto simp: lists_ok_def insert_insn_after)
  moreover have "ai_insn i = p" by (simp add: defs)
  ultimately show ?thesis using l by auto
qed

text \<open>A declaration adds at most one instruction to the sorted list.\<close>

definition adds :: "asm_insn_state \<Rightarrow> asm_insn_state \<Rightarrow> bool" where
  "adds s s' \<longleftrightarrow> asm_insn_list s' = asm_insn_list s \<or>
     (\<exists>i. asm_insn_list s' = insert_insn i (asm_insn_list s))"

definition unchanged :: "asm_insn_state \<Rightarrow> asm_insn_state \<Rightarrow> bool" where
  "unchanged s t \<longleftrightarrow> asm_insn_list t = asm_insn_list s \<and> lists_ok t"

lemma unchanged_keeps: "keeps f \<Longrightarrow> unchanged s t \<Longrightarrow> f t = Some (t', e) \<Longrightarrow> unchanged s t'"
  unfolding unchanged_def using lists_ok_keeps by (metis keeps_def)

lemma run_end:
  assumes "run_calls [acpp_asm_end_insn instrs p] t = Some (s', es)" "unchanged s t" "p \<noteq> None \<Longrightarrow> native_ok t"
  shows "lists_ok s' \<and> adds s s'"
proof -
  obtain e where "acpp_asm_end_insn instrs p t = Some (s', e)" using assms(1) by (auto split: option.splits)
  from end_insn_cases [OF this] assms(2,3) show ?thesis by (auto simp: adds_def unchanged_def)
qed

lemma new_insn_unchanged: "lists_ok s \<Longrightarrow> unchanged s (acpp_asm_new_insn s)"
  by (simp add: unchanged_def lists_ok_def acpp_asm_new_insn_def)

lemma run_keeps:
  assumes "run_calls fs t = Some (t', es)" "unchanged s t" "\<And>f. f \<in> set fs \<Longrightarrow> keeps f"
  shows "unchanged s t'"
  by (rule run_calls_inv [where P = "unchanged s", OF _ assms(1,2)]) (blast intro: unchanged_keeps assms(3))

lemma asm_step_ok:
  assumes "asm_step s s'" "lists_ok s"
  shows "lists_ok s' \<and> adds s s'"
  using assms(1)
proof (cases rule: asm_step.cases)
  case (asm_native maps instrs pf k str args es)
  obtain t1 e1 r1 where t1: "run_calls [acpp_asm_parse_asm_string maps str False] (acpp_asm_new_insn s) = Some (t1, e1)"
    "run_calls (map (arg_action maps pf) args @ [acpp_asm_end_insn instrs (Some k)]) t1 = Some (s', r1)"
    using run_calls_append [OF asm_native [unfolded asmdec_action_def]] by blast
  obtain t2 e2 r2 where t2: "run_calls (map (arg_action maps pf) args) t1 = Some (t2, e2)"
    "run_calls [acpp_asm_end_insn instrs (Some k)] t2 = Some (s', r2)"
    using run_calls_append [OF t1(2)] by blast
  have "unchanged s t1"
    by (rule run_keeps [OF t1(1) new_insn_unchanged [OF assms(2)]]) (auto simp: keeps_parse)
  then have "unchanged s t2" by (rule run_keeps [OF t2(1)]) (auto simp: keeps_arg)
  moreover have "native_ok t1" using t1(1) native_ok_parse by (auto split: option.splits)
  then have "native_ok t2"
    by (intro run_calls_inv [where P = native_ok, OF _ t2(1)]) (auto intro: native_ok_arg)
  ultimately show ?thesis by (rule run_end [OF t2(2)])
next
  case (asm_undeclared maps instrs pf args es)
  obtain t e1 e2 where t: "run_calls (map (arg_action maps pf) args) s = Some (t, e1)"
    "run_calls [acpp_asm_end_insn instrs None] t = Some (s', e2)"
    using run_calls_append [OF asm_undeclared [unfolded undeclared_asmdec_action_def]] by blast
  have "unchanged s s" using assms(2) by (simp add: unchanged_def)
  then have "unchanged s t" by (rule run_keeps [OF t(1)]) (auto simp: keeps_arg)
  then show ?thesis by (rule run_end [OF t(2)]) simp
next
  case (asm_pseudo maps instrs str members es)
  obtain t e1 r where t: "run_calls [acpp_asm_parse_asm_string maps str False, \<lambda>s. Some (acpp_asm_new_pseudo s, None)]
      (acpp_asm_new_insn s) = Some (t, e1)"
    "run_calls (map (acpp_asm_add_pseudo_member maps) members @ [acpp_asm_end_insn instrs None]) t = Some (s', r)"
    using run_calls_append [OF asm_pseudo [unfolded pseudodec_action_def]] by blast
  obtain t2 e2 r2 where t2: "run_calls (map (acpp_asm_add_pseudo_member maps) members) t = Some (t2, e2)"
    "run_calls [acpp_asm_end_insn instrs None] t2 = Some (s', r2)"
    using run_calls_append [OF t(2)] by blast
  have "unchanged s t"
    by (rule run_keeps [OF t(1) new_insn_unchanged [OF assms(2)]]) (auto simp: keeps_parse keeps_new_pseudo)
  then have "unchanged s t2" by (rule run_keeps [OF t2(1)]) (auto simp: keeps_member)
  then show ?thesis by (rule run_end [OF t2(2)]) simp
qed

lemma asm_reachable_ok: "asm_reachable s \<Longrightarrow> lists_ok s"
proof (induction rule: asm_reachable.induct)
  case asm_init
  show ?case by (simp add: lists_ok_def init_asm_insn_def)
qed (blast dest: asm_step_ok)

subsection \<open>Printed operands\<close>

definition ids :: "string \<Rightarrow> bool" where
  "ids s \<longleftrightarrow> s \<noteq> [] \<and> (\<forall>c \<in> set s. id_char c)"

text \<open>\<open>name\<close>, \<open>name(mod)\<close>, \<open>name(mod,7)\<close>, each possibly in brackets and with the list dots.\<close>

definition show_modifier :: "(string \<times> nat option) option \<Rightarrow> string" where
  "show_modifier m =
     (case m of
        None \<Rightarrow> []
      | Some (n, None) \<Rightarrow> ''('' @ n @ '')''
      | Some (n, Some a) \<Rightarrow> ''('' @ n @ '','' @ dec_str a @ '')'')"

definition show_operand :: "bool \<Rightarrow> string \<Rightarrow> bool \<Rightarrow> (string \<times> nat option) option \<Rightarrow> string" where
  "show_operand bracket name dots m =
     (if bracket then ''['' else []) @ name @ (if dots then ''...'' else []) @ show_modifier m @
     (if bracket then '']'' else [])"

fun modifier_of :: "string \<Rightarrow> operand_type \<Rightarrow> bool \<Rightarrow> (string \<times> nat option) option \<Rightarrow> ac_operand_list" where
  "modifier_of name k dots None = new_operand name k dots None 0"
| "modifier_of name k dots (Some (n, a)) =
     new_operand name k dots (Some n) (case a of None \<Rightarrow> 0 | Some a \<Rightarrow> int a)"

definition operand_ok :: "operand_type \<Rightarrow> string \<Rightarrow> bool \<Rightarrow> (string \<times> nat option) option \<Rightarrow> bool" where
  "operand_ok k name dots m \<longleftrightarrow> ids name \<and> (dots \<longrightarrow> m \<noteq> None \<and> k \<noteq> op_addr) \<and>
     (case m of None \<Rightarrow> True | Some (n, a) \<Rightarrow> ids n \<and> (case a of None \<Rightarrow> True | Some a \<Rightarrow> a < 2 ^ 31))"

text \<open>What follows an operand without brackets and modifier must not go on with it.\<close>

definition ends_operand :: "string \<Rightarrow> bool" where
  "ends_operand s \<longleftrightarrow> \<not> is_identifier s \<and> \<not> starts CHR ''('' s \<and> take 3 s \<noteq> ''...''"

lemma id_char_simps:
  "\<not> id_char CHR ''(''" "\<not> id_char CHR '')''" "\<not> id_char CHR '',''" "\<not> id_char CHR ''.''" "\<not> id_char CHR '']''"
  "\<not> id_char CHR ''[''" "\<not> isdigit CHR '')''"
  by code_simp+

lemma ids_skip:
  assumes "ids n" "\<not> is_identifier r"
  shows "takeWhile id_char (n @ r) = n" "dropWhile id_char (n @ r) = r"
proof -
  have "takeWhile id_char r = []" "dropWhile id_char r = r"
    using assms(2) by (cases r; simp add: is_identifier_def)+
  then show "takeWhile id_char (n @ r) = n" "dropWhile id_char (n @ r) = r"
    using assms(1) by (simp_all add: ids_def)
qed

lemma atoi_dec_str: "a < 2 ^ 31 \<Longrightarrow> atoi (dec_str a) = int a"
proof -
  assume a: "a < 2 ^ 31"
  have "strtol 10 (dec_str a @ []) = (int a, [])" using a by (intro strtol_dec_str) simp_all
  moreover have "signed_take_bit 31 (int a) = int a"
    using a by (intro signed_take_bit_int_eq_self) simp_all
  ultimately show ?thesis by (simp add: atoi_def int_of_long_def)
qed

lemma parse_show_modifier:
  assumes "ids n" "case a of None \<Rightarrow> True | Some a \<Rightarrow> a < 2 ^ 31"
  shows "parse_modifier b name k dots (tl (show_modifier (Some (n, a))) @ (if b then '']'' else []) @ rest) =
    Inr (modifier_of name k dots (Some (n, a)), rest)"
proof (cases a)
  case None
  let ?r = "CHR '')'' # (if b then '']'' else []) @ rest"
  have id: "takeWhile id_char (n @ ?r) = n" "dropWhile id_char (n @ ?r) = ?r"
    using ids_skip [OF assms(1), of ?r] id_char_simps(2) by (simp_all add: is_identifier_def)
  have "n \<noteq> []" using assms(1) by (simp add: ids_def)
  with id None show ?thesis
    by (cases b) (simp_all add: parse_modifier_def show_modifier_def Let_def starts_def close_bracket_def)
next
  case (Some v)
  let ?r = "CHR '')'' # (if b then '']'' else []) @ rest"
  have id: "takeWhile id_char (n @ CHR '','' # dec_str v @ ?r) = n"
    "dropWhile id_char (n @ CHR '','' # dec_str v @ ?r) = CHR '','' # dec_str v @ ?r"
    using ids_skip [OF assms(1), of "CHR '','' # dec_str v @ ?r"] id_char_simps(3) by (auto simp: is_identifier_def)
  have digits: "takeWhile isdigit (dec_str v @ ?r) = dec_str v" "dropWhile isdigit (dec_str v @ ?r) = ?r"
    using dec_str_isdigit [of _ v] id_char_simps(7) by (simp_all add: takeWhile_append2 dropWhile_append2)
  obtain c s where c: "dec_str v = c # s" "isdigit c" using dec_str_Cons by blast
  then have "c \<noteq> CHR '' ''" by (auto simp: isdigit_def less_eq_char_def)
  then have sp: "dropWhile (\<lambda>c. c = CHR '' '') (dec_str v @ ?r) = dec_str v @ ?r" using c(1) by simp
  have "n \<noteq> []" "atoi (dec_str v) = int v" using assms Some by (simp_all add: ids_def atoi_dec_str)
  with id digits sp Some show ?thesis
    by (cases b) (simp_all add: parse_modifier_def show_modifier_def Let_def starts_def close_bracket_def)
qed

lemma create_operand_name:
  assumes "operand_kind maps mne name = Inr k" "ids name" "\<not> is_identifier r"
  shows "create_operand maps mne ((if b then ''['' else []) @ name @ r) =
    (let dots = (take 3 r = ''...''); s = (if dots then drop 3 r else r) in
     if dots \<and> k = op_addr then Inl List_with_addr
     else if \<not> starts CHR ''('' s then
       (if dots then Inl List_needs_modifier else close_bracket b (new_operand name k dots None 0) s)
     else parse_modifier b name k dots (tl s))"
proof -
  have "\<not> starts CHR ''['' (name @ r)"
    using assms(2) id_char_simps(6) by (cases name) (auto simp: ids_def starts_def)
  moreover have "name \<noteq> []" using assms(2) by (simp add: ids_def)
  ultimately show ?thesis
    using ids_skip [OF assms(2,3)] assms(1)
    by (cases b) (simp_all add: create_operand_def Let_def starts_def)
qed

lemma operand_tail:
  assumes "m = None \<longrightarrow> \<not> b \<longrightarrow> ends_operand rest" "dots \<longrightarrow> m \<noteq> None"
    "t = show_modifier m @ (if b then '']'' else []) @ rest"
  shows "\<not> is_identifier ((if dots then ''...'' else []) @ t)"
    "take 3 ((if dots then ''...'' else []) @ t) = ''...'' \<longleftrightarrow> dots"
    "m = None \<Longrightarrow> \<not> starts CHR ''('' t"
    "m \<noteq> None \<Longrightarrow> starts CHR ''('' t \<and> tl t = tl (show_modifier m) @ (if b then '']'' else []) @ rest"
  using assms
  by (cases m; cases dots; cases b;
      auto simp: show_modifier_def is_identifier_def id_char_simps ends_operand_def starts_def islower_def isupper_def
        isdigit_def less_eq_char_def split: option.splits)+

subsection \<open>Demonstration\<close>

definition demo_maps :: asm_map_state where
  "demo_maps = init_asm_map\<lparr>mapping_list := [''reg'']\<rparr>"

definition demo_names :: "ac_dec_instr list" where
  "demo_names = [new_instr ''sub'' ''R'' 1, new_instr ''add'' ''R'' 2]"

definition demo_format :: ac_dec_format where
  "demo_format = \<lparr>format_id = 0, format_name = ''R'', format_size = 32, format_fields =
     [\<lparr>field_name = ''rd'', field_size = 5, first_bit = 31, field_id = 0, field_val = 0, field_sign = 0\<rparr>]\<rparr>"

definition demo_insn1 :: asm_insn_state where
  "demo_insn1 = fst (the (asmdec_action demo_maps demo_names (Some demo_format) 0 ''sub %reg'' [Field_arg ''rd''] init_asm_insn))"

definition demo_insn2 :: asm_insn_state where
  "demo_insn2 = fst (the (asmdec_action demo_maps demo_names (Some demo_format) 1 ''add %reg'' [Field_arg ''rd''] demo_insn1))"

lemma demo_insn:
  "asmdec_action demo_maps demo_names (Some demo_format) 0 ''sub %reg'' [Field_arg ''rd''] init_asm_insn = Some (demo_insn1, [])"
  "asmdec_action demo_maps demo_names (Some demo_format) 1 ''add %reg'' [Field_arg ''rd''] demo_insn1 = Some (demo_insn2, [])"
  "map ai_mnemonic (asm_insn_list demo_insn2) = [''add'', ''sub'']"
  by code_simp+

lemma demo_insn_reachable: "asm_reachable demo_insn1" "asm_reachable demo_insn2"
  by (rule asm_next [OF asm_init asm_native [OF demo_insn(1)]],
      rule asm_next [OF asm_next [OF asm_init asm_native [OF demo_insn(1)]] asm_native [OF demo_insn(2)]])

subsection \<open>Properties\<close>

text \<open>The list of the assembler instructions is sorted by mnemonic in every state the parser
  reaches, and each declaration adds at most one instruction to it, behind all those with the
  same mnemonic: instructions with one mnemonic are in source order.\<close>
theorem insn_list_source_order:
  assumes "asm_reachable s" "asm_step s s'"
  shows "sorted (map ai_mnemonic (asm_insn_list s')) \<and>
    (\<exists>new. length new \<le> 1 \<and> (\<forall>k. filter (\<lambda>i. ai_mnemonic i = k) (asm_insn_list s') =
       filter (\<lambda>i. ai_mnemonic i = k) (asm_insn_list s) @ filter (\<lambda>i. ai_mnemonic i = k) new))"
proof -
  have ok: "lists_ok s" using asm_reachable_ok [OF assms(1)] .
  have s': "lists_ok s'" "adds s s'" using asm_step_ok [OF assms(2) ok] by auto
  have sorted: "sorted (map ai_mnemonic (asm_insn_list s))" using ok by (simp add: lists_ok_def)
  from s'(2) consider "asm_insn_list s' = asm_insn_list s"
    | i where "asm_insn_list s' = insert_insn i (asm_insn_list s)" by (auto simp: adds_def)
  then have "\<exists>new. length new \<le> 1 \<and> (\<forall>k. filter (\<lambda>i. ai_mnemonic i = k) (asm_insn_list s') =
       filter (\<lambda>i. ai_mnemonic i = k) (asm_insn_list s) @ filter (\<lambda>i. ai_mnemonic i = k) new)"
  proof cases
    case 1
    then show ?thesis by (intro exI [of _ "[]"]) simp
  next
    case (2 i)
    then show ?thesis
      using insns.same_key_inserted [OF sorted, of _ "[i]"] by (intro exI [of _ "[i]"]) simp
  qed
  with s'(1) show ?thesis by (simp add: lists_ok_def)
qed

theorem insn_list_source_order_witness:
  "sorted (map ai_mnemonic (asm_insn_list demo_insn2))"
  using insn_list_source_order [OF demo_insn_reachable(1) asm_native [OF demo_insn(2)]] by blast

text \<open>Every operand of every listed instruction is assigned to at least one field, the length
  recorded for a pseudo instruction is that of its list, and an instruction that belongs to no
  instruction of the description is a pseudo instruction with members.\<close>
theorem listed_insn_complete:
  assumes "asm_reachable s" "i \<in> set (asm_insn_list s)"
  shows "(\<forall>x \<in> set (ai_operands i). op_fields x \<noteq> []) \<and> ai_num_pseudo i = length (ai_pseudolist i) \<and>
    (ai_insn i \<noteq> None \<or> ai_pseudolist i \<noteq> [])"
  using asm_reachable_ok [OF assms(1)] assms(2) by (auto simp: lists_ok_def listed_ok_def)

theorem listed_insn_complete_witness:
  "op_fields (hd (ai_operands (hd (asm_insn_list demo_insn2)))) \<noteq> []"
proof -
  have "asm_insn_list demo_insn2 \<noteq> []" using demo_insn(3) by auto
  then have "hd (asm_insn_list demo_insn2) \<in> set (asm_insn_list demo_insn2)" by (rule hd_in_set)
  moreover have "ai_operands (hd (asm_insn_list demo_insn2)) \<noteq> []" by code_simp
  ultimately show ?thesis using listed_insn_complete [OF demo_insn_reachable(2)] by (meson hd_in_set)
qed

text \<open>C26: the parser of operands reads back what is printed: the name with its type, the list
  dots, the modifier and its addend; in brackets or followed by a modifier, whatever comes
  behind, and otherwise if what comes behind cannot go on with the operand.\<close>
theorem operand_roundtrip:
  assumes "operand_kind maps mne name = Inr k" "operand_ok k name dots m"
    "m = None \<Longrightarrow> \<not> b \<Longrightarrow> ends_operand rest"
  shows "create_operand maps mne (show_operand b name dots m @ rest) = Inr (modifier_of name k dots m, rest)"
proof -
  define t where "t = show_modifier m @ (if b then '']'' else []) @ rest"
  have ok: "ids name" "dots \<longrightarrow> m \<noteq> None" "dots \<longrightarrow> k \<noteq> op_addr" using assms(2) by (auto simp: operand_ok_def)
  have "m = None \<longrightarrow> \<not> b \<longrightarrow> ends_operand rest" using assms(3) by blast
  note T = operand_tail [OF this ok(2) t_def]
  have eq: "show_operand b name dots m @ rest = (if b then ''['' else []) @ name @ (if dots then ''...'' else []) @ t"
    by (simp add: show_operand_def t_def)
  let ?r = "(if dots then ''...'' else []) @ t"
  have C0: "create_operand maps mne ((if b then ''['' else []) @ name @ ?r) =
    (let dots = (take 3 ?r = ''...''); s = (if dots then drop 3 ?r else ?r) in
     if dots \<and> k = op_addr then Inl List_with_addr
     else if \<not> starts CHR ''('' s then
       (if dots then Inl List_needs_modifier else close_bracket b (new_operand name k dots None 0) s)
     else parse_modifier b name k dots (tl s))"
    by (rule create_operand_name [OF assms(1) ok(1) T(1)])
  have "(if dots then drop 3 ((if dots then ''...'' else []) @ t) else (if dots then ''...'' else []) @ t) = t"
    by simp
  then have C: "create_operand maps mne (show_operand b name dots m @ rest) =
     (if \<not> starts CHR ''('' t then
       (if dots then Inl List_needs_modifier else close_bracket b (new_operand name k dots None 0) t)
     else parse_modifier b name k dots (tl t))"
    unfolding eq C0 Let_def using ok(3) T(2) by (cases dots) simp_all
  show ?thesis
  proof (cases m)
    case None
    then have "\<not> dots" using ok(2) by auto
    with C T(3) None show ?thesis
      by (cases b) (simp_all add: t_def show_modifier_def close_bracket_def starts_def)
  next
    case (Some p)
    obtain n a where p: "p = (n, a)" by (cases p)
    have "ids n" "case a of None \<Rightarrow> True | Some a \<Rightarrow> a < 2 ^ 31"
      using assms(2) Some p by (auto simp: operand_ok_def)
    from parse_show_modifier [OF this, of b name k dots rest] C T(4) Some p show ?thesis by simp
  qed
qed

theorem operand_roundtrip_witness:
  "create_operand demo_maps False (show_operand False ''imm'' False (Some (''hi'', Some 16)) @ ''(%reg)'')
   = Inr (modifier_of ''imm'' op_imm False (Some (''hi'', Some 16)), ''(%reg)'')"
proof (rule operand_roundtrip)
  show "operand_kind demo_maps False ''imm'' = Inr op_imm" by code_simp
  have "ids ''imm''" "ids ''hi''" by code_simp+
  then show "operand_ok op_imm ''imm'' False (Some (''hi'', Some 16))" by (simp add: operand_ok_def)
qed simp

text \<open>A syntax string with a blank behind its last operand is read behind its end: after the
  blanks the loop takes the terminating NUL for an ordinary character. Without the blank the
  same string is accepted.\<close>
theorem trailing_blank_undefined:
  "acpp_asm_parse_asm_string demo_maps ''li %imm '' False (acpp_asm_new_insn init_asm_insn) = None \<and>
   (\<exists>s. acpp_asm_parse_asm_string demo_maps ''li %imm'' False (acpp_asm_new_insn init_asm_insn) = Some (s, None))"
proof
  show "acpp_asm_parse_asm_string demo_maps ''li %imm '' False (acpp_asm_new_insn init_asm_insn) = None"
    by code_simp
  let ?r = "acpp_asm_parse_asm_string demo_maps ''li %imm'' False (acpp_asm_new_insn init_asm_insn)"
  have "?r = Some (fst (the ?r), None)" by code_simp
  then show "\<exists>s. ?r = Some (s, None)" by blast
qed

text \<open>The list that is documented to keep the order of the source is sorted by the names of
  the instructions: the syntax of \<open>sub\<close>, declared first, comes behind that of \<open>add\<close>.\<close>
theorem original_order_is_sorted:
  "\<exists>s s'. asmdec_action demo_maps demo_names (Some demo_format) 0 ''sub %reg'' [Field_arg ''rd''] init_asm_insn = Some (s, []) \<and>
     asmdec_action demo_maps demo_names (Some demo_format) 1 ''add %reg'' [Field_arg ''rd''] s = Some (s', []) \<and>
     map ai_mnemonic (asm_insn_list_original_order s') = [''add'', ''sub'']"
  using demo_insn(1,2) by (intro exI conjI) code_simp+

text \<open>If that list starts with a pseudo instruction, ending the declaration of a native
  instruction follows the \<open>NULL\<close> instruction of the pseudo instruction.\<close>
theorem native_behind_pseudo_undefined:
  assumes "asm_insn_list_original_order s = t # r" "ai_insn t = None"
    "num_args_found s = num_args_expected s" "\<not> in_error s"
  shows "acpp_asm_end_insn instrs (Some k) s = None"
  using assms by (auto simp: acpp_asm_end_insn_def Let_def new_asm_insn_def with_dummies_def original_less_def
      split: option.split)

theorem native_behind_pseudo_undefined_witness:
  "\<exists>s. pseudodec_action demo_maps demo_names ''nop'' [''sub''] init_asm_insn = Some (s, []) \<and>
     acpp_asm_end_insn demo_names (Some 0) s = None"
proof -
  let ?r = "pseudodec_action demo_maps demo_names ''nop'' [''sub''] init_asm_insn"
  let ?s = "fst (the ?r)"
  have "?r = Some (?s, [])" "asm_insn_list_original_order ?s = [hd (asm_insn_list_original_order ?s)]"
    "ai_insn (hd (asm_insn_list_original_order ?s)) = None" "num_args_found ?s = num_args_expected ?s" "\<not> in_error ?s"
    by code_simp+
  with native_behind_pseudo_undefined [of ?s] show ?thesis by blast
qed

end
