(* ===== verification/BinUtils.thy ===== *)
theory BinUtils
  imports DecTypes AsmInsn
begin

text \<open>
  The routines of \<open>archc/src/acbinutils/utils.c\<close> that the generators of the binary utilities
  share. A call of \<open>internal_error\<close> ends the program: the outcome \<open>Exit\<close>. Shifts of 32 or
  more places and \<open>NULL\<close> pointers followed are \<open>Undef\<close>. A shift of the \<open>int\<close> 1 into the
  sign bit gives the word with that bit, as the compilers of the program document.
\<close>

subsection \<open>Outcomes\<close>

datatype 'a run = Undef | Exit | Ret 'a

fun run_then :: "'a run \<Rightarrow> ('a \<Rightarrow> 'b run) \<Rightarrow> 'b run" where
  "run_then Undef f = Undef"
| "run_then Exit f = Exit"
| "run_then (Ret x) f = f x"

lemma run_then_Ret [simp]: "run_then r f = Ret y \<longleftrightarrow> (\<exists>x. r = Ret x \<and> f x = Ret y)"
  by (cases r) auto

lemma run_then_Exit [simp]: "run_then r f = Exit \<longleftrightarrow> r = Exit \<or> (\<exists>x. r = Ret x \<and> f x = Exit)"
  by (cases r) auto

lemma run_then_assoc [simp]: "run_then (run_then r f) g = run_then r (\<lambda>x. run_then (f x) g)"
  by (cases r) auto

lemma unat_small: "n < 2 ^ 32 \<Longrightarrow> unat (of_nat n :: u32) = n"
  by (simp add: unat_of_nat)

lemma of_nat_eq_iff_u32: "m < 2 ^ 32 \<Longrightarrow> n < 2 ^ 32 \<Longrightarrow> (of_nat m :: u32) = of_nat n \<longleftrightarrow> m = n"
  by (metis unat_small)

definition c_shl :: "u32 \<Rightarrow> u32 \<Rightarrow> u32 run" where
  "c_shl x k = (if unat k < 32 then Ret (push_bit (unat k) x) else Undef)"

definition c_shr :: "u32 \<Rightarrow> u32 \<Rightarrow> u32 run" where
  "c_shr x k = (if unat k < 32 then Ret (drop_bit (unat k) x) else Undef)"

definition internal_error :: "'a run" where
  "internal_error = Exit"

subsection \<open>The name of the architecture\<close>

definition set_arch_name :: "string option \<Rightarrow> string option \<Rightarrow> string option" where
  "set_arch_name arch str = (case str of None \<Rightarrow> None | Some s \<Rightarrow> Some s)"

definition get_arch_name :: "string option \<Rightarrow> string option" where
  "get_arch_name arch = arch"

definition log_table :: "nat list" where
  "log_table = [0, 0, 1, 1, 2, 2, 2, 2, 3, 3, 3, 3, 3, 3, 3, 3, 4, 4, 4, 4]"

subsection \<open>Formats\<close>

text \<open>\<open>get_format_id\<close> counts up to the format with the name; \<open>-1\<close> if there is none.\<close>

fun format_index :: "string \<Rightarrow> 'w::len word \<Rightarrow> ac_dec_format list \<Rightarrow> 'w word option" where
  "format_index fname n [] = None"
| "format_index fname n (p # ps) = (if strcmp fname (format_name p) = 0 then Some n else format_index fname (n + 1) ps)"

definition get_format_id :: "ac_dec_format list \<Rightarrow> string \<Rightarrow> int" where
  "get_format_id fmts fname =
     (case format_index fname (0 :: u32) fmts of None \<Rightarrow> -1 | Some n \<Rightarrow> sint n)"

definition get_arch_size :: "int \<Rightarrow> u32" where
  "get_arch_size wordsize = (if wordsize \<noteq> 0 then of_int wordsize else 32)"

definition get_insn_size :: "ac_dec_format list \<Rightarrow> ac_dec_instr list \<Rightarrow> ac_asm_insn \<Rightarrow> u32 run" where
  "get_insn_size fmts instrs insn =
     (case ai_insn insn of
        None \<Rightarrow> internal_error
      | Some k \<Rightarrow>
          (case find_first (\<lambda>p. strcmp (instr_format (instrs ! k)) (format_name p) = 0) fmts of
             None \<Rightarrow> internal_error
           | Some p \<Rightarrow> Ret (of_int (format_size p))))"

fun max_size_loop :: "int \<Rightarrow> ac_dec_format list \<Rightarrow> int" where
  "max_size_loop max_size [] = max_size"
| "max_size_loop max_size (p # ps) =
     max_size_loop (if format_size p > max_size then format_size p else max_size) ps"

definition get_max_format_size :: "ac_dec_format list \<Rightarrow> u32" where
  "get_max_format_size fmts = of_int (max_size_loop 0 fmts)"

fun size_differs :: "int \<Rightarrow> ac_dec_format list \<Rightarrow> u32" where
  "size_differs n [] = 0"
| "size_differs n (p # ps) = (if format_size p \<noteq> n then 1 else size_differs n ps)"

text \<open>The size of the first format is read before the test for the end of the list.\<close>

definition get_variable_format_size :: "ac_dec_format list \<Rightarrow> u32 run" where
  "get_variable_format_size fmts =
     (case fmts of [] \<Rightarrow> Undef | p # ps \<Rightarrow> Ret (size_differs (format_size p) (p # ps)))"

fun count_fields :: "u32 \<Rightarrow> ac_dec_field list \<Rightarrow> u32" where
  "count_fields n [] = n"
| "count_fields n (f # fs) = count_fields (n + 1) fs"

definition get_format_number_fields :: "ac_dec_format \<Rightarrow> u32" where
  "get_format_number_fields p = count_fields 0 (format_fields p)"

fun max_fields_loop :: "u32 \<Rightarrow> ac_dec_format list \<Rightarrow> u32" where
  "max_fields_loop m [] = m"
| "max_fields_loop m (p # ps) =
     (let nt = get_format_number_fields p in max_fields_loop (if nt > m then nt else m) ps)"

definition get_max_number_fields :: "ac_dec_format list \<Rightarrow> u32" where
  "get_max_number_fields fmts = max_fields_loop 0 fmts"

subsection \<open>Fields as bits\<close>

fun encode_fields_from :: "u32 \<Rightarrow> ac_asm_insn_field list \<Rightarrow> u32 run" where
  "encode_fields_from encoding [] = Ret encoding"
| "encode_fields_from encoding (f # fs) =
     run_then (c_shl 1 (aif_id f)) (\<lambda>b. encode_fields_from (encoding OR b) fs)"

definition encode_fields :: "ac_asm_insn_field list \<Rightarrow> u32 run" where
  "encode_fields fs = encode_fields_from 0 fs"

fun encode_positions_from :: "u32 \<Rightarrow> u32 \<Rightarrow> ac_asm_insn_field list \<Rightarrow> u32 run" where
  "encode_positions_from insn_size encoding [] = Ret encoding"
| "encode_positions_from insn_size encoding (f # fs) =
     (let startbit = insn_size - aif_first_bit f - 1; endbit = startbit + aif_size f - 1 in
      run_then (c_shl 1 startbit) (\<lambda>a. run_then (c_shl 1 endbit) (\<lambda>b.
        encode_positions_from insn_size (encoding OR (a OR b)) fs)))"

definition encode_fields_positions :: "ac_asm_insn_field list \<Rightarrow> u32 \<Rightarrow> u32 run" where
  "encode_fields_positions fs insn_size = encode_positions_from insn_size 0 fs"

subsection \<open>Searching and counting the formats\<close>

lemma format_index_None [simp]: "format_index fname n ps = None \<longleftrightarrow> (\<forall>p \<in> set ps. format_name p \<noteq> fname)"
  by (induction ps arbitrary: n) auto

lemma format_index_Some:
  "format_index fname n ps = Some m \<Longrightarrow>
   \<exists>k < length ps. m = n + of_nat k \<and> format_name (ps ! k) = fname \<and> (\<forall>j < k. format_name (ps ! j) \<noteq> fname)"
proof (induction ps arbitrary: n)
  case (Cons p ps)
  show ?case
  proof (cases "fname = format_name p")
    case True
    with Cons.prems show ?thesis by (intro exI [of _ 0]) simp
  next
    case False
    with Cons.prems obtain k where "k < length ps" "m = n + 1 + of_nat k" "format_name (ps ! k) = fname"
      "\<forall>j < k. format_name (ps ! j) \<noteq> fname" using Cons.IH [of "n + 1"] by auto
    with False show ?thesis by (intro exI [of _ "Suc k"]) (auto simp: less_Suc_eq_0_disj)
  qed
qed simp

lemma max_size_loop_spec:
  "max_size_loop m ps = fold (\<lambda>p a. max a (format_size p)) ps m"
  by (induction ps arbitrary: m) (auto simp: max_def)

lemma size_differs_spec: "size_differs n ps = (if \<exists>p \<in> set ps. format_size p \<noteq> n then 1 else 0)"
  by (induction ps) auto

lemma count_fields_spec: "count_fields n fs = n + of_nat (length fs)"
  by (induction fs arbitrary: n) (auto simp: algebra_simps)

lemma max_fields_loop_ge: "m \<le> max_fields_loop m ps"
  by (induction ps arbitrary: m) (auto simp: Let_def intro: order_trans less_imp_le)

lemma max_fields_loop_upper: "p \<in> set ps \<Longrightarrow> get_format_number_fields p \<le> max_fields_loop m ps"
proof (induction ps arbitrary: m)
  case (Cons q qs)
  then show ?case using max_fields_loop_ge
    by (auto simp: Let_def not_less intro: order_trans)
qed simp

lemma max_fields_loop_attained:
  "max_fields_loop m ps = m \<or> max_fields_loop m ps \<in> get_format_number_fields ` set ps"
proof (induction ps arbitrary: m)
  case (Cons q qs)
  show ?case using Cons.IH [of m] Cons.IH [of "get_format_number_fields q"] by (auto simp: Let_def)
qed simp

end
