(* ===== verification/Opcodes.thy ===== *)
theory Opcodes
  imports BinUtils
begin

text \<open>
  The generator of the tables of the opcodes library, \<open>archc/src/acbinutils/opcodes.c\<close>: the
  list of modifiers, the list of operands with the identifiers given to the operands of the
  instructions, and the text of each generated file. A generator returns 0 if \<open>fopen\<close> fails
  (\<open>opened\<close> is \<open>False\<close>), otherwise 1 with the text it wrote. The operand and modifier
  structures shared by the two lists of instructions are those of the list that is passed and
  returned.
\<close>

subsection \<open>Data\<close>

record oper_list =
  ol_id :: u32
  ol_name :: string
  ol_type :: operand_type
  ol_mod_type :: int
  ol_mod_addend :: int
  ol_is_list :: bool
  ol_fields :: u32
  ol_format_id :: u32
  ol_reloc_id :: u32
  ol_fields_positions :: u32

record mod_list =
  ml_id :: int
  ml_name :: string

record opcodes_state =
  operand_list :: "oper_list list"
  modifier_list :: "mod_list list"

definition init_opcodes :: opcodes_state where
  "init_opcodes = \<lparr>operand_list = [], modifier_list = []\<rparr>"

subsection \<open>Modifiers\<close>

text \<open>The first item is the default; a new one gets its position as identifier.\<close>

definition default_modifier :: mod_list where
  "default_modifier = \<lparr>ml_id = 0, ml_name = ''default''\<rparr>"

definition enter_modifier :: "mod_list list \<Rightarrow> string \<Rightarrow> mod_list list \<times> int" where
  "enter_modifier ms name =
     (case find_first (\<lambda>m. strcmp (ml_name m) name = 0) ms of
        Some m \<Rightarrow> (ms, ml_id m)
      | None \<Rightarrow> (let last_id = int (length ms) - 1 in
                 (ms @ [\<lparr>ml_id = last_id + 1, ml_name = name\<rparr>], last_id + 1)))"

definition set_mod_type :: "int \<Rightarrow> ac_operand_list \<Rightarrow> ac_operand_list" where
  "set_mod_type n x = x\<lparr>op_modifier := (op_modifier x)\<lparr>mod_type := n\<rparr>\<rparr>"

fun type_operands :: "mod_list list \<Rightarrow> ac_operand_list list \<Rightarrow> mod_list list \<times> ac_operand_list list" where
  "type_operands ms [] = (ms, [])"
| "type_operands ms (x # xs) =
     (case mod_name (op_modifier x) of
        None \<Rightarrow> (let (ms', xs') = type_operands ms xs in (ms', set_mod_type 0 x # xs'))
      | Some name \<Rightarrow>
          (let (ms, n) = enter_modifier ms name; (ms', xs') = type_operands ms xs
           in (ms', set_mod_type n x # xs')))"

fun type_insns :: "mod_list list \<Rightarrow> ac_asm_insn list \<Rightarrow> mod_list list \<times> ac_asm_insn list" where
  "type_insns ms [] = (ms, [])"
| "type_insns ms (a # as) =
     (let (ms, xs) = type_operands ms (ai_operands a); (ms', as') = type_insns ms as
      in (ms', a\<lparr>ai_operands := xs\<rparr> # as'))"

definition create_modifier_list :: "ac_asm_insn list \<Rightarrow> mod_list list \<times> ac_asm_insn list" where
  "create_modifier_list asml = type_insns [default_modifier] asml"

subsection \<open>Operands\<close>

definition same_operand :: "oper_list \<Rightarrow> oper_list \<Rightarrow> bool" where
  "same_operand x y \<longleftrightarrow> strcmp (ol_name x) (ol_name y) = 0 \<and> ol_type x = ol_type y \<and>
     ol_is_list x = ol_is_list y \<and> ol_mod_type x = ol_mod_type y \<and> ol_mod_addend x = ol_mod_addend y \<and>
     ol_fields x = ol_fields y \<and> ol_format_id x = ol_format_id y"

definition find_operand :: "oper_list list \<Rightarrow> oper_list \<Rightarrow> oper_list option" where
  "find_operand ops opl = find_first (\<lambda>x. same_operand x opl) ops"

text \<open>The item for an operand, before it has an identifier.\<close>

definition new_oper ::
  "ac_dec_format list \<Rightarrow> ac_dec_instr list \<Rightarrow> ac_asm_insn \<Rightarrow> nat \<Rightarrow> ac_operand_list \<Rightarrow> oper_list run" where
  "new_oper fmts instrs insn k x =
     run_then (encode_fields (op_fields x)) (\<lambda>fs.
     run_then (get_insn_size fmts instrs insn) (\<lambda>n.
     run_then (encode_fields_positions (op_fields x) n) (\<lambda>pos.
       Ret \<lparr>ol_id = 0, ol_name = op_str x, ol_type = op_type x, ol_mod_type = mod_type (op_modifier x),
            ol_mod_addend = mod_addend (op_modifier x), ol_is_list = op_is_list x, ol_fields = fs,
            ol_format_id = of_int (get_format_id fmts (instr_format (instrs ! k))), ol_reloc_id = 0,
            ol_fields_positions = pos\<rparr>)))"

text \<open>An operand that is already there is shared; the identifier is stored as an \<open>int\<close>.\<close>

definition enter_operand :: "oper_list list \<Rightarrow> oper_list \<Rightarrow> oper_list list \<times> u32" where
  "enter_operand ops oper =
     (case find_operand ops oper of
        Some f \<Rightarrow> (ops, ol_id f)
      | None \<Rightarrow>
          if ops = [] then ([oper\<lparr>ol_id := 0\<rparr>], 0)
          else (let i = ol_id (last ops) + 1 in (ops @ [oper\<lparr>ol_id := i\<rparr>], i)))"

fun enter_operands ::
  "ac_dec_format list \<Rightarrow> ac_dec_instr list \<Rightarrow> ac_asm_insn \<Rightarrow> nat \<Rightarrow> oper_list list \<Rightarrow> ac_operand_list list
     \<Rightarrow> (oper_list list \<times> ac_operand_list list) run" where
  "enter_operands fmts instrs insn k ops [] = Ret (ops, [])"
| "enter_operands fmts instrs insn k ops (x # xs) =
     run_then (new_oper fmts instrs insn k x) (\<lambda>oper.
       let (ops, i) = enter_operand ops oper in
       run_then (enter_operands fmts instrs insn k ops xs) (\<lambda>(ops, xs).
         Ret (ops, x\<lparr>op_oper_id := sint i\<rparr> # xs)))"

fun enter_insns ::
  "ac_dec_format list \<Rightarrow> ac_dec_instr list \<Rightarrow> oper_list list \<Rightarrow> ac_asm_insn list
     \<Rightarrow> (oper_list list \<times> ac_asm_insn list) run" where
  "enter_insns fmts instrs ops [] = Ret (ops, [])"
| "enter_insns fmts instrs ops (a # as) =
     (case ai_insn a of
        None \<Rightarrow> run_then (enter_insns fmts instrs ops as) (\<lambda>(ops, as). Ret (ops, a # as))
      | Some k \<Rightarrow>
          run_then (enter_operands fmts instrs a k ops (ai_operands a)) (\<lambda>(ops, xs).
          run_then (enter_insns fmts instrs ops as) (\<lambda>(ops, as).
            Ret (ops, a\<lparr>ai_operands := xs\<rparr> # as))))"

definition create_operand_list ::
  "ac_dec_format list \<Rightarrow> ac_dec_instr list \<Rightarrow> opcodes_state \<Rightarrow> ac_asm_insn list
     \<Rightarrow> (opcodes_state \<times> ac_asm_insn list) run" where
  "create_operand_list fmts instrs st asml =
     (let (ms, asml) = create_modifier_list asml in
      run_then (enter_insns fmts instrs (operand_list st) asml) (\<lambda>(ops, asml).
        Ret (st\<lparr>operand_list := ops, modifier_list := ms\<rparr>, asml)))"

fun put_reloc :: "u32 \<Rightarrow> u32 \<Rightarrow> oper_list list \<Rightarrow> oper_list list option" where
  "put_reloc i r [] = None"
| "put_reloc i r (x # xs) =
     (if ol_id x = i then Some (x\<lparr>ol_reloc_id := r\<rparr> # xs) else map_option ((#) x) (put_reloc i r xs))"

definition update_oper_list :: "int \<Rightarrow> u32 \<Rightarrow> opcodes_state \<Rightarrow> opcodes_state run" where
  "update_oper_list oper_id reloc_id st =
     (case put_reloc (of_int oper_id) reloc_id (operand_list st) of
        None \<Rightarrow> internal_error
      | Some ops \<Rightarrow> Ret (st\<lparr>operand_list := ops\<rparr>))"

definition get_compatible_oper_id :: "oper_list list \<Rightarrow> operand_type \<Rightarrow> int" where
  "get_compatible_oper_id ops k =
     (case find_first (\<lambda>x. ol_type x = k) ops of None \<Rightarrow> -1 | Some x \<Rightarrow> sint (ol_id x))"

subsection \<open>The string of arguments\<close>

text \<open>The buffer has 100 characters; \<open>put\<close> is a write of \<open>cs\<close> behind \<open>out\<close>.\<close>

definition put :: "string \<Rightarrow> string \<Rightarrow> string run" where
  "put cs out = (if length (out @ cs) \<le> 100 then Ret (out @ cs) else Undef)"

text \<open>
  The tag of an operand: \<open>sprintf\<close> writes the number and a NUL, the pointer moves behind its
  leading digits (there is none if the number is negative), and a colon is written there.
\<close>

definition operand_tag :: "oper_list list \<Rightarrow> ac_operand_list \<Rightarrow> string \<Rightarrow> (string \<times> ac_operand_list) run" where
  "operand_tag ops x out =
     (let x = (if op_oper_id x = -1 then x\<lparr>op_oper_id := get_compatible_oper_id ops (op_type x)\<rparr> else x);
          d = dec_str_int (op_oper_id x) in
      run_then (put (CHR ''%'' # d @ [CHR 0x00]) out) (\<lambda>_.
        Ret (out @ CHR ''%'' # takeWhile isdigit d @ '':'', x)))"

function operand_string ::
  "oper_list list \<Rightarrow> string \<Rightarrow> ac_operand_list list \<Rightarrow> string \<Rightarrow> (string \<times> ac_operand_list list) run" where
  "operand_string ops out xs [] = run_then (put [CHR 0x00] out) (\<lambda>_. Ret (out, xs))"
| "operand_string ops out xs (c # lit) =
     (if c = CHR ''%'' then
        (case xs of
           [] \<Rightarrow> Undef
         | x # xs \<Rightarrow>
             run_then (operand_tag ops x out) (\<lambda>(out, x).
             run_then (operand_string ops out xs lit) (\<lambda>(out, xs). Ret (out, x # xs))))
      else if c = CHR 0x5C \<and> starts CHR 0x5C lit then
        (let t = (if starts CHR ''%'' (tl lit) then ''%'' else []) in
         run_then (put (c # CHR 0x5C # t) out) (\<lambda>out.
           operand_string ops out xs (drop (length t) (tl lit))))
      else run_then (put [c] out) (\<lambda>out. operand_string ops out xs lit))"
  by pat_completeness auto
termination
  by (relation "measure (\<lambda>(ops, out, xs, lit). length lit)") auto

definition create_operand_string ::
  "oper_list list \<Rightarrow> ac_asm_insn \<Rightarrow> (string \<times> ac_asm_insn) run" where
  "create_operand_string ops insn =
     (case ai_op_literal insn of
        None \<Rightarrow> Undef
      | Some lit \<Rightarrow>
          run_then (operand_string ops [] (ai_operands insn) lit) (\<lambda>(out, xs).
            Ret (out, insn\<lparr>ai_operands := xs\<rparr>)))"

subsection \<open>The opcode table\<close>

definition encode_insn_field :: "u32 \<Rightarrow> u32 \<Rightarrow> u32 \<Rightarrow> u32 \<Rightarrow> u32 run" where
  "encode_insn_field field_value insn_size fbit fsize =
     run_then (c_shl 0xFFFFFFFF (insn_size - (fbit + 1))) (\<lambda>mask1.
     run_then (c_shr 0xFFFFFFFF (fbit + 1 - fsize)) (\<lambda>mask2.
     run_then (c_shl field_value (insn_size - (fbit + 1))) (\<lambda>v.
       Ret (v AND (mask1 AND mask2)))))"

text \<open>The counter of the loop is an \<open>int\<close>: it overflows if the size is not positive as one.\<close>

definition all_ones :: "u32 \<Rightarrow> u32 run" where
  "all_ones fsize = (if fsize < 0x80000000 then Ret (((\<lambda>v. push_bit 1 v + 1) ^^ unat fsize) 0) else Undef)"

definition encode_dmask_field :: "u32 \<Rightarrow> u32 \<Rightarrow> u32 \<Rightarrow> u32 run" where
  "encode_dmask_field insn_size fbit fsize =
     run_then (all_ones fsize) (\<lambda>field_value.
     run_then (c_shl 0xFFFFFFFF (insn_size - (fbit + 1))) (\<lambda>mask1.
     run_then (c_shr 0xFFFFFFFF (fbit + 1 - fsize)) (\<lambda>mask2.
     run_then (c_shl field_value (insn_size - (fbit + 1))) (\<lambda>v.
       Ret (v AND (mask1 AND mask2))))))"

text \<open>One field: its value into the image, its bits into the mask.\<close>

definition add_field_bits :: "u32 \<Rightarrow> u32 \<Rightarrow> u32 \<Rightarrow> u32 \<Rightarrow> u64 \<times> u64 \<Rightarrow> (u64 \<times> u64) run" where
  "add_field_bits field_value insn_size fbit fsize acc =
     run_then (encode_insn_field field_value insn_size fbit fsize) (\<lambda>x.
     run_then (encode_dmask_field insn_size fbit fsize) (\<lambda>m.
       Ret (fst acc OR ucast x, snd acc OR ucast m)))"

fun add_dec_fields :: "ac_dec_format \<Rightarrow> ac_dec_list list \<Rightarrow> u64 \<times> u64 \<Rightarrow> (u64 \<times> u64) run" where
  "add_dec_fields p [] acc = Ret acc"
| "add_dec_fields p (c # cs) acc =
     (case find_first (\<lambda>f. strcmp (dl_name c) (field_name f) = 0) (format_fields p) of
        None \<Rightarrow> internal_error
      | Some f \<Rightarrow>
          run_then (add_field_bits (of_int (dl_value c)) (of_int (format_size p)) (of_int (first_bit f))
                      (of_int (field_size f)) acc) (add_dec_fields p cs))"

fun add_const_fields :: "ac_dec_format \<Rightarrow> ac_const_field_list list \<Rightarrow> u64 \<times> u64 \<Rightarrow> (u64 \<times> u64) run" where
  "add_const_fields p [] acc = Ret acc"
| "add_const_fields p (c # cs) acc =
     run_then (add_field_bits (acf_value c) (of_int (format_size p)) (aif_first_bit (acf_field c))
                 (aif_size (acf_field c)) acc) (add_const_fields p cs)"

fun walk_formats :: "string \<Rightarrow> u64 \<Rightarrow> ac_dec_format list \<Rightarrow> (u64 \<times> ac_dec_format) option" where
  "walk_formats name n [] = None"
| "walk_formats name n (p # ps) =
     (if strcmp name (format_name p) = 0 then Some (n, p) else walk_formats name (n + 1) ps)"

text \<open>The base image, the mask and the format identifier.\<close>

definition insn_image ::
  "ac_dec_format list \<Rightarrow> ac_dec_instr list \<Rightarrow> ac_asm_insn \<Rightarrow> ((u64 \<times> u64) \<times> u64) run" where
  "insn_image fmts instrs insn =
     (case ai_insn insn of
        None \<Rightarrow> Ret ((0, 0), 99)
      | Some k \<Rightarrow>
          (case walk_formats (instr_format (instrs ! k)) 0 fmts of
             None \<Rightarrow> internal_error
           | Some (fid, p) \<Rightarrow>
               run_then (add_dec_fields p (instr_dec_list (instrs ! k)) (0, 0)) (\<lambda>acc.
               run_then (add_const_fields p (ai_const_fields insn) acc) (\<lambda>acc.
                 Ret (acc, fid)))))"

record acasm_opcode =
  oc_mnemonic :: string
  oc_args :: string
  oc_image :: u64
  oc_format_id :: u64
  oc_pseudo_idx :: nat
  oc_dmask :: u64

definition opcode_row ::
  "ac_dec_format list \<Rightarrow> ac_dec_instr list \<Rightarrow> oper_list list \<Rightarrow> nat \<Rightarrow> ac_asm_insn
     \<Rightarrow> (acasm_opcode \<times> ac_asm_insn) run" where
  "opcode_row fmts instrs ops pseudo_idx insn =
     run_then (create_operand_string ops insn) (\<lambda>(args, insn).
     run_then (insn_image fmts instrs insn) (\<lambda>((image, dmask), fid).
       Ret (\<lparr>oc_mnemonic = ai_mnemonic insn, oc_args = args, oc_image = image, oc_format_id = fid,
             oc_pseudo_idx = (if ai_pseudolist insn \<noteq> [] then pseudo_idx else 0), oc_dmask = dmask\<rparr>, insn)))"

definition next_pseudo_idx :: "nat \<Rightarrow> ac_asm_insn \<Rightarrow> nat" where
  "next_pseudo_idx pseudo_idx insn =
     (if ai_pseudolist insn \<noteq> [] then pseudo_idx + (ai_num_pseudo insn + 1) else pseudo_idx)"

fun opcode_rows ::
  "ac_dec_format list \<Rightarrow> ac_dec_instr list \<Rightarrow> oper_list list \<Rightarrow> nat \<Rightarrow> ac_asm_insn list
     \<Rightarrow> (acasm_opcode list \<times> ac_asm_insn list) run" where
  "opcode_rows fmts instrs ops pseudo_idx [] = Ret ([], [])"
| "opcode_rows fmts instrs ops pseudo_idx (a # as) =
     run_then (opcode_row fmts instrs ops pseudo_idx a) (\<lambda>(row, a').
     run_then (opcode_rows fmts instrs ops (next_pseudo_idx pseudo_idx a) as) (\<lambda>(rows, as').
       Ret (row # rows, a' # as')))"

subsection \<open>Printing\<close>

abbreviation IND1 :: string where "IND1 \<equiv> ''  ''"
abbreviation IND2 :: string where "IND2 \<equiv> ''    ''"
abbreviation IND3 :: string where "IND3 \<equiv> ''      ''"
abbreviation tab :: string where "tab \<equiv> [CHR 0x09]"
abbreviation newline :: string where "newline \<equiv> [CHR 0x0A]"

definition quoted :: "string \<Rightarrow> string" where
  "quoted s = CHR 0x22 # s @ [CHR 0x22]"

definition hex_chr :: "bool \<Rightarrow> nat \<Rightarrow> char" where
  "hex_chr upper d = (if d < 10 then digit_chr d else char_of (d + (if upper then 55 else 87)))"

fun hex_str :: "bool \<Rightarrow> nat \<Rightarrow> string" where
  "hex_str upper n =
     (if n < 16 then [hex_chr upper n] else hex_str upper (n div 16) @ [hex_chr upper (n mod 16)])"

declare hex_str.simps [simp del]

text \<open>\<open>%08lX\<close> and \<open>%08x\<close>: at least eight digits.\<close>

definition hex8 :: "bool \<Rightarrow> nat \<Rightarrow> string" where
  "hex8 upper n = (let h = hex_str upper n in replicate (8 - length h) CHR ''0'' @ h)"

definition show_opcode :: "acasm_opcode \<Rightarrow> string" where
  "show_opcode r = IND1 @ ''{'' @ quoted (oc_mnemonic r) @ '','' @ tab @ quoted (oc_args r) @ '','' @ tab @
     ''0x'' @ hex8 True (unat (oc_image r)) @ '','' @ tab @ dec_str (unat (oc_format_id r)) @ '','' @ tab @
     dec_str (oc_pseudo_idx r) @ '','' @ tab @ ''0'' @ '', '' @ tab @ ''0x'' @ hex8 True (unat (oc_dmask r)) @
     ''},'' @ newline"

definition CreateOpcodeTable ::
  "ac_dec_format list \<Rightarrow> ac_dec_instr list \<Rightarrow> bool \<Rightarrow> opcodes_state \<Rightarrow> ac_asm_insn list
     \<Rightarrow> (int \<times> string \<times> ac_asm_insn list) run" where
  "CreateOpcodeTable fmts instrs opened st asml =
     (if \<not> opened then Ret (0, [], asml)
      else run_then (opcode_rows fmts instrs (operand_list st) 1 asml) (\<lambda>(rows, asml).
        Ret (1, concat (map show_opcode rows), asml)))"

definition show_symbol :: "ac_asm_symbol \<Rightarrow> string" where
  "show_symbol s = IND1 @ ''{'' @ quoted (as_symbol s) @ '','' @ tab @ quoted (as_map_marker s) @ '','' @ tab @
     dec_str_int (as_value s) @ ''},'' @ newline"

definition CreateAsmSymbolTable :: "bool \<Rightarrow> ac_asm_symbol list \<Rightarrow> int \<times> string" where
  "CreateAsmSymbolTable opened syms =
     (if \<not> opened then (0, []) else (1, concat (map show_symbol syms)))"

text \<open>The entries of the pseudo table; \<open>None\<close> is the \<open>NULL\<close> before and behind each run.\<close>

fun pseudo_entries :: "ac_asm_insn list \<Rightarrow> string option list" where
  "pseudo_entries [] = []"
| "pseudo_entries (a # as) =
     (if ai_pseudolist a \<noteq> [] then map Some (ai_pseudolist a) @ [None] else []) @ pseudo_entries as"

definition show_entry :: "string option \<Rightarrow> string" where
  "show_entry e = '','' @ newline @ IND1 @ (case e of None \<Rightarrow> ''NULL'' | Some s \<Rightarrow> quoted s)"

definition CreatePseudoOpsTable :: "bool \<Rightarrow> ac_asm_insn list \<Rightarrow> int \<times> string" where
  "CreatePseudoOpsTable opened asml =
     (if \<not> opened then (0, [])
      else (1, IND1 @ ''NULL'' @ concat (map show_entry (pseudo_entries asml))))"

fun type_number :: "operand_type \<Rightarrow> int" where
  "type_number op_userdef = 0"
| "type_number op_exp = 1"
| "type_number op_imm = 2"
| "type_number op_addr = 3"

definition show_operand_item :: "oper_list \<Rightarrow> string" where
  "show_operand_item x = IND1 @ ''{'' @ quoted (ol_name x) @ '','' @ tab @ '' // ('' @ dec_str_int (sint (ol_id x)) @
     '')'' @ newline @ tab @ dec_str_int (type_number (ol_type x)) @ '','' @ tab @ dec_str_int (ol_mod_type x) @
     '','' @ tab @ (if ol_is_list x then ''1'' else ''0'') @ '','' @ tab @ dec_str_int (ol_mod_addend x) @ '','' @ tab @
     dec_str (unat (ol_fields x)) @ '','' @ tab @ dec_str (unat (ol_format_id x)) @ '','' @ tab @
     dec_str (unat (ol_reloc_id x + 36)) @ '','' @ tab @ ''0x'' @ hex8 False (unat (ol_fields_positions x)) @ '' '' @
     ''},'' @ newline"

definition CreateOperandTable :: "bool \<Rightarrow> opcodes_state \<Rightarrow> int \<times> string" where
  "CreateOperandTable opened st =
     (if \<not> opened then (0, []) else (1, concat (map show_operand_item (operand_list st))))"

definition enum_item :: "mod_list \<Rightarrow> string" where
  "enum_item m = ''mod_'' @ ml_name m @ '' = '' @ dec_str_int (ml_id m)"

definition CreateModifierEnum :: "bool \<Rightarrow> opcodes_state \<Rightarrow> (int \<times> string) run" where
  "CreateModifierEnum opened st =
     (if \<not> opened then Ret (0, [])
      else (case modifier_list st of
              [] \<Rightarrow> Undef
            | m # ms \<Rightarrow> Ret (1, ''typedef enum {'' @ enum_item m @
                concat (map (\<lambda>m. '', '' @ enum_item m) ms) @ ''} operand_modifier;'' @ newline)))"

definition CreateModifierProt :: "bool \<Rightarrow> opcodes_state \<Rightarrow> int \<times> string" where
  "CreateModifierProt opened st =
     (if \<not> opened then (0, [])
      else (1, concat (map (\<lambda>m.
        ''extern void modifier_'' @ ml_name m @ ''_encode(mod_parms *reloc);'' @ newline @
        ''extern void modifier_'' @ ml_name m @ ''_decode(mod_parms *reloc);'' @ newline) (modifier_list st))))"

definition show_format_struct :: "ac_dec_format \<Rightarrow> string" where
  "show_format_struct p = IND2 @ ''struct {'' @ newline @
     concat (map (\<lambda>f. IND3 @ '' unsigned int '' @ field_name f @ '';'' @ newline) (format_fields p)) @
     IND2 @ ''} '' @ format_name p @ '';'' @ newline"

definition CreateFormatStruct :: "bool \<Rightarrow> ac_dec_format list \<Rightarrow> int \<times> string" where
  "CreateFormatStruct opened fmts =
     (if \<not> opened then (0, []) else (1, concat (map show_format_struct fmts)))"

definition CreateModifierPtr :: "bool \<Rightarrow> int \<Rightarrow> opcodes_state \<Rightarrow> int \<times> string" where
  "CreateModifierPtr opened which st =
     (if \<not> opened then (0, [])
      else (1, concat (map (\<lambda>m.
        if which = 0 then ''&modifier_'' @ ml_name m @ ''_encode,'' @ newline
        else ''&modifier_'' @ ml_name m @ ''_decode,'' @ newline) (modifier_list st))))"

end
