(* ===== verification/OpcodeImage.thy ===== *)
theory OpcodeImage
  imports Opcodes
begin

text \<open>
  The base image and the mask of an instruction in the generated opcode table: which words
  they describe, and how fields of formats shorter than 32 bits leak.
\<close>

subsection \<open>Fields in a word\<close>

text \<open>A field that lies inside an instruction of at most 32 bits, and its lowest bit.\<close>

definition fits :: "u32 \<Rightarrow> u32 \<Rightarrow> u32 \<Rightarrow> bool" where
  "fits n f s \<longleftrightarrow> 0 < unat s \<and> unat s \<le> unat f + 1 \<and> unat f < unat n \<and> unat n \<le> 32"

definition low_bit :: "u32 \<Rightarrow> u32 \<Rightarrow> nat" where
  "low_bit n f = unat n - 1 - unat f"

lemma fits_shifts:
  assumes "fits n f s"
  shows "unat (n - (f + 1)) = low_bit n f" "low_bit n f < 32"
    "unat (f + 1 - s) = unat f + 1 - unat s" "unat f + 1 - unat s < 32"
    "low_bit n f + unat s \<le> 32 - (unat f + 1 - unat s)"
proof -
  have f: "unat (f + 1) = unat f + 1"
    using assms by (simp add: fits_def unat_word_ariths)
  have "f + 1 \<le> n" "s \<le> f + 1"
    using assms f by (simp_all add: fits_def word_le_nat_alt)
  then show "unat (n - (f + 1)) = low_bit n f" "unat (f + 1 - s) = unat f + 1 - unat s"
    by (simp_all add: unat_sub low_bit_def f)
  show "low_bit n f < 32" "unat f + 1 - unat s < 32" "low_bit n f + unat s \<le> 32 - (unat f + 1 - unat s)"
    using assms by (auto simp: fits_def low_bit_def)
qed

lemma all_ones_word: "(4294967295 :: u32) = mask 32"
  by (simp add: mask_numeral)

text \<open>The upper mask is that of a word of 32 bits, whatever the size of the instruction.\<close>

lemma encode_insn_field_bits:
  assumes "fits n f s"
  shows "\<exists>x. encode_insn_field v n f s = Ret x \<and>
    (\<forall>b. bit x b \<longleftrightarrow> low_bit n f \<le> b \<and> b < 32 - (unat f + 1 - unat s) \<and> bit v (b - low_bit n f))"
  using fits_shifts [OF assms]
  by (auto simp: encode_insn_field_def c_shl_def c_shr_def all_ones_word bit_simps)

lemma ones_pow: "((\<lambda>v. push_bit 1 v + 1) ^^ k) (0 :: u32) = mask k"
proof (induction k)
  case (Suc k)
  then show ?case by (simp del: push_bit_numeral_minus_1) (simp add: mask_eq_exp_minus_1)
qed simp

lemma all_ones_mask: "unat s \<le> 32 \<Longrightarrow> all_ones s = Ret (mask (unat s))"
  unfolding all_ones_def ones_pow by (simp add: word_less_nat_alt)

lemma encode_dmask_field_mask:
  assumes "fits n f s"
  shows "encode_dmask_field n f s = Ret (push_bit (low_bit n f) (mask (unat s)))"
proof -
  have "unat s \<le> 32" using assms by (simp add: fits_def)
  then show ?thesis
    using fits_shifts [OF assms]
    by (auto simp: encode_dmask_field_def all_ones_mask c_shl_def c_shr_def all_ones_word bit_simps
        intro!: bit_word_eqI)
qed

lemma small_bits:
  assumes "unat (v :: u32) < 2 ^ k" "bit v b"
  shows "b < k"
proof -
  have "bit (unat v) b" using assms(2) by (simp add: bit_simps bit_imp_le_length)
  moreover have "unat v = take_bit k (unat v)" using assms(1) by (simp add: take_bit_nat_eq_self)
  ultimately show ?thesis by (metis bit_take_bit_iff)
qed

lemma encode_insn_field_push:
  assumes "fits n f s" "unat v < 2 ^ unat s"
  shows "encode_insn_field v n f s = Ret (push_bit (low_bit n f) v)"
proof -
  obtain x where x: "encode_insn_field v n f s = Ret x"
    "\<And>b. bit x b \<longleftrightarrow> low_bit n f \<le> b \<and> b < 32 - (unat f + 1 - unat s) \<and> bit v (b - low_bit n f)"
    using encode_insn_field_bits [OF assms(1)] by blast
  have "x = push_bit (low_bit n f) v"
    using fits_shifts [OF assms(1)] small_bits [OF assms(2)]
    by (intro bit_word_eqI) (fastforce simp: x(2) bit_simps)
  with x(1) show ?thesis by simp
qed

subsection \<open>Images and masks\<close>

text \<open>A field with its value; what it contributes to an image and to a mask.\<close>

type_synonym entry = "u32 \<times> u32 \<times> u32"

fun entry_ok :: "u32 \<Rightarrow> entry \<Rightarrow> bool" where
  "entry_ok n (v, f, s) \<longleftrightarrow> fits n f s \<and> unat v < 2 ^ unat s"

fun in_entry :: "u32 \<Rightarrow> nat \<Rightarrow> entry \<Rightarrow> bool" where
  "in_entry n b (v, f, s) \<longleftrightarrow> low_bit n f \<le> b \<and> b < low_bit n f + unat s"

fun set_in_entry :: "u32 \<Rightarrow> nat \<Rightarrow> entry \<Rightarrow> bool" where
  "set_in_entry n b (v, f, s) \<longleftrightarrow> low_bit n f \<le> b \<and> bit v (b - low_bit n f)"

fun carries :: "u32 \<Rightarrow> u64 \<Rightarrow> entry \<Rightarrow> bool" where
  "carries n w (v, f, s) \<longleftrightarrow> take_bit (unat s) (drop_bit (low_bit n f) w) = ucast v"

fun add_entries :: "u32 \<Rightarrow> entry list \<Rightarrow> u64 \<times> u64 \<Rightarrow> (u64 \<times> u64) run" where
  "add_entries n [] acc = Ret acc"
| "add_entries n ((v, f, s) # es) acc = run_then (add_field_bits v n f s acc) (add_entries n es)"

lemma add_entries_append:
  "add_entries n (es @ fs) acc = run_then (add_entries n es acc) (add_entries n fs)"
proof (induction es arbitrary: acc)
  case (Cons e es)
  obtain v f s where "e = (v, f, s)" by (cases e) auto
  with Cons.IH show ?case by (cases "add_field_bits v n f s acc") auto
qed simp

definition describes :: "u32 \<Rightarrow> entry list \<Rightarrow> u64 \<times> u64 \<Rightarrow> bool" where
  "describes n es acc \<longleftrightarrow>
     (\<forall>b. bit (snd acc) b \<longleftrightarrow> b < 64 \<and> (\<exists>e \<in> set es. in_entry n b e)) \<and>
     (\<forall>b. bit (fst acc) b \<longleftrightarrow> b < 64 \<and> (\<exists>e \<in> set es. set_in_entry n b e))"

lemma entry_ok_range: "entry_ok n e \<Longrightarrow> in_entry n b e \<Longrightarrow> b < 32"
  using fits_shifts(5) by (cases e) (fastforce simp: fits_def)

lemma set_in_entry_in: "entry_ok n e \<Longrightarrow> set_in_entry n b e \<Longrightarrow> in_entry n b e"
  using small_bits by (cases e) fastforce

lemma describes_snoc:
  assumes "describes n es acc" "entry_ok n e"
    "\<And>b. bit (snd acc') b \<longleftrightarrow> bit (snd acc) b \<or> in_entry n b e"
    "\<And>b. bit (fst acc') b \<longleftrightarrow> bit (fst acc) b \<or> set_in_entry n b e"
  shows "describes n (es @ [e]) acc'"
proof -
  have "b < 64" if "in_entry n b e" for b using entry_ok_range [OF assms(2) that] by simp
  with set_in_entry_in [OF assms(2)] assms(1) show ?thesis
    unfolding describes_def assms(3,4) by auto
qed

lemma add_field_bits_describes:
  assumes "entry_ok n (v, f, s)" "describes n es acc"
  shows "\<exists>acc'. add_field_bits v n f s acc = Ret acc' \<and> describes n (es @ [(v, f, s)]) acc'"
proof -
  have fit: "fits n f s" and v: "unat v < 2 ^ unat s" using assms(1) by auto
  define acc' :: "u64 \<times> u64" where "acc' = (fst acc OR ucast (push_bit (low_bit n f) v),
    snd acc OR ucast (push_bit (low_bit n f) (mask (unat s)) :: u32))"
  have "add_field_bits v n f s acc = Ret acc'"
    by (simp add: add_field_bits_def encode_insn_field_push [OF fit v] encode_dmask_field_mask [OF fit] acc'_def)
  moreover have "bit (snd acc') b \<longleftrightarrow> bit (snd acc) b \<or> in_entry n b (v, f, s)" for b
    using entry_ok_range [OF assms(1), of b]
    by (auto simp: acc'_def bit_simps)
  moreover have "bit (fst acc') b \<longleftrightarrow> bit (fst acc) b \<or> set_in_entry n b (v, f, s)" for b
    using entry_ok_range [OF assms(1) set_in_entry_in [OF assms(1)], of b]
    by (auto simp: acc'_def bit_simps)
  ultimately show ?thesis using describes_snoc [OF assms(2,1)] by blast
qed

lemma add_entries_describes:
  assumes "\<forall>e \<in> set es. entry_ok n e" "describes n done acc"
  shows "\<exists>acc'. add_entries n es acc = Ret acc' \<and> describes n (done @ es) acc'"
  using assms
proof (induction es arbitrary: "done" acc)
  case (Cons e es)
  obtain v f s where e: "e = (v, f, s)" by (cases e) auto
  obtain acc' where "add_field_bits v n f s acc = Ret acc'" "describes n (done @ [e]) acc'"
    using add_field_bits_describes [of n v f s "done" acc] Cons.prems e by auto
  with Cons.IH [of "done @ [e]" acc'] Cons.prems(1) show ?case by (simp add: e)
qed simp

lemma word_eq_bits: "(x :: 'a::len word) = y \<longleftrightarrow> (\<forall>b. bit x b = bit y b)"
  by (auto intro: bit_word_eqI)

text \<open>A word with all the values settles the image; then the mask tells the words with them.\<close>

lemma carries_bits:
  assumes "entry_ok n e"
  shows "carries n w e \<longleftrightarrow> (\<forall>b. in_entry n b e \<longrightarrow> bit w b = set_in_entry n b e)"
proof -
  obtain v f s where e: "e = (v, f, s)" by (cases e) auto
  let ?l = "low_bit n f"
  have v: "bit v b \<Longrightarrow> b < unat s" for b using assms small_bits by (auto simp: e)
  have s: "unat s \<le> 32" using assms by (auto simp: e fits_def)
  have "carries n w e \<longleftrightarrow> (\<forall>b. bit (take_bit (unat s) (drop_bit ?l w)) b = bit (ucast v :: u64) b)"
    by (simp only: e carries.simps word_eq_bits)
  also have "\<dots> \<longleftrightarrow> (\<forall>b. (b < unat s \<and> bit w (?l + b)) = bit v b)"
  proof -
    have "bit (take_bit (unat s) (drop_bit ?l w)) b \<longleftrightarrow> b < unat s \<and> bit w (?l + b)" for b
      by (simp add: bit_take_bit_iff bit_drop_bit_eq)
    moreover have "bit (ucast v :: u64) b \<longleftrightarrow> bit v b" for b
      using v [of b] s by (auto simp: bit_ucast_iff)
    ultimately show ?thesis by (simp only:)
  qed
  also have "\<dots> \<longleftrightarrow> (\<forall>b. b < unat s \<longrightarrow> bit w (?l + b) = bit v b)"
    using v by blast
  also have "\<dots> \<longleftrightarrow> (\<forall>b. in_entry n b e \<longrightarrow> bit w b = set_in_entry n b e)"
  proof
    assume *: "\<forall>b. b < unat s \<longrightarrow> bit w (?l + b) = bit v b"
    show "\<forall>b. in_entry n b e \<longrightarrow> bit w b = set_in_entry n b e"
    proof (intro allI impI)
      fix b
      assume "in_entry n b e"
      then have "b - ?l < unat s" "?l + (b - ?l) = b" "?l \<le> b" by (auto simp: e)
      with * show "bit w b = set_in_entry n b e" by (metis e set_in_entry.simps)
    qed
  next
    assume *: "\<forall>b. in_entry n b e \<longrightarrow> bit w b = set_in_entry n b e"
    show "\<forall>b. b < unat s \<longrightarrow> bit w (?l + b) = bit v b"
      using * [rule_format, of "?l + b" for b] by (auto simp: e)
  qed
  finally show ?thesis .
qed

lemma describes_carries:
  assumes "\<forall>e \<in> set es. entry_ok n e" "describes n es (img, dmask)"
    "\<forall>e \<in> set es. carries n w0 e"
  shows "w AND dmask = img \<longleftrightarrow> (\<forall>e \<in> set es. carries n w e)"
proof -
  have m: "bit dmask b \<longleftrightarrow> b < 64 \<and> (\<exists>e \<in> set es. in_entry n b e)"
    and i: "bit img b \<longleftrightarrow> b < 64 \<and> (\<exists>e \<in> set es. set_in_entry n b e)" for b
    using assms(2) by (auto simp: describes_def)
  have "bit img b \<longleftrightarrow> bit dmask b \<and> bit w0 b" for b
  proof -
    have "bit w0 b \<longleftrightarrow> set_in_entry n b e" if "e \<in> set es" "in_entry n b e" for e
      using carries_bits assms(1,3) that by blast
    with set_in_entry_in assms(1) show ?thesis unfolding m i by blast
  qed
  then have "img = w0 AND dmask" by (intro bit_word_eqI) (simp add: bit_simps conj_commute)
  then have "w AND dmask = img \<longleftrightarrow> (\<forall>b. bit dmask b \<longrightarrow> bit w b = bit w0 b)"
    by (auto simp: word_eq_bits bit_simps)
  also have "\<dots> \<longleftrightarrow> (\<forall>e \<in> set es. \<forall>b. in_entry n b e \<longrightarrow> bit w b = bit w0 b)"
  proof -
    have "b < 64" if "e \<in> set es" "in_entry n b e" for e b
      using entry_ok_range assms(1) that by fastforce
    then show ?thesis unfolding m by blast
  qed
  also have "\<dots> \<longleftrightarrow> (\<forall>e \<in> set es. carries n w e)"
    using assms(1,3) by (simp add: carries_bits)
  finally show ?thesis .
qed

subsection \<open>The image of an instruction\<close>

definition named_field :: "ac_dec_format \<Rightarrow> string \<Rightarrow> ac_dec_field option" where
  "named_field p name = find_first (\<lambda>f. strcmp name (field_name f) = 0) (format_fields p)"

definition dec_entry :: "ac_dec_format \<Rightarrow> ac_dec_list \<Rightarrow> entry" where
  "dec_entry p c = (case named_field p (dl_name c) of
     None \<Rightarrow> (0, 0, 0) | Some f \<Rightarrow> (of_int (dl_value c), of_int (first_bit f), of_int (field_size f)))"

definition const_entry :: "ac_const_field_list \<Rightarrow> entry" where
  "const_entry c = (acf_value c, aif_first_bit (acf_field c), aif_size (acf_field c))"

lemma add_dec_fields_entries:
  "\<forall>c \<in> set cs. named_field p (dl_name c) \<noteq> None \<Longrightarrow>
   add_dec_fields p cs acc = add_entries (of_int (format_size p)) (map (dec_entry p) cs) acc"
proof (induction cs arbitrary: acc)
  case (Cons c cs)
  then obtain f where f: "named_field p (dl_name c) = Some f" by auto
  with Cons show ?case
    by (cases "add_field_bits (of_int (dl_value c)) (of_int (format_size p)) (of_int (first_bit f))
          (of_int (field_size f)) acc") (auto simp: dec_entry_def named_field_def simp del: find_first_None)
qed simp

lemma add_const_fields_entries:
  "add_const_fields p cs acc = add_entries (of_int (format_size p)) (map const_entry cs) acc"
proof (induction cs arbitrary: acc)
  case (Cons c cs)
  then show ?case
    by (cases "add_field_bits (acf_value c) (of_int (format_size p)) (aif_first_bit (acf_field c))
          (aif_size (acf_field c)) acc") (auto simp: const_entry_def)
qed simp

text \<open>The value of a field of an instruction word, and the ranges of the source.\<close>

definition word_field :: "int \<Rightarrow> int \<Rightarrow> int \<Rightarrow> u64 \<Rightarrow> int" where
  "word_field n f s w = uint (take_bit (nat s) (drop_bit (nat (n - 1 - f)) w))"

definition value_fits :: "int \<Rightarrow> int \<Rightarrow> int \<Rightarrow> int \<Rightarrow> bool" where
  "value_fits n f s v \<longleftrightarrow> 0 < s \<and> s \<le> f + 1 \<and> f < n \<and> n \<le> 32 \<and> 0 \<le> v \<and> v < 2 ^ nat s"

lemma unat_of_int_u32: "0 \<le> i \<Longrightarrow> i < 2 ^ 32 \<Longrightarrow> unat (of_int i :: u32) = nat i"
  by (simp add: unat_eq_nat_uint uint_word_of_int)

lemma value_fits_words:
  assumes "value_fits n f s v"
  shows "unat (of_int n :: u32) = nat n" "unat (of_int f :: u32) = nat f" "unat (of_int s :: u32) = nat s"
    "unat (of_int v :: u32) = nat v" "v < 2 ^ 32"
proof -
  have "(2 :: int) ^ nat s \<le> 2 ^ 32" using assms by (intro power_increasing) (auto simp: value_fits_def)
  with assms show "v < 2 ^ 32" by (simp add: value_fits_def)
  with assms show "unat (of_int n :: u32) = nat n" "unat (of_int f :: u32) = nat f"
    "unat (of_int s :: u32) = nat s" "unat (of_int v :: u32) = nat v"
    by (simp_all add: unat_of_int_u32 value_fits_def)
qed

lemma value_fits_entry:
  assumes "value_fits n f s v"
  shows "entry_ok (of_int n) (of_int v, of_int f, of_int s)"
proof -
  have "nat v < 2 ^ nat s" using assms by (simp add: value_fits_def nat_less_iff)
  with assms show ?thesis
    using value_fits_words [OF assms] by (auto simp: fits_def value_fits_def)
qed

lemma carries_word_field:
  assumes "value_fits n f s v"
  shows "carries (of_int n) w (of_int v, of_int f, of_int s) \<longleftrightarrow> word_field n f s w = v"
proof -
  have l: "low_bit (of_int n) (of_int f) = nat (n - 1 - f)"
    using assms value_fits_words [OF assms] by (simp add: low_bit_def value_fits_def nat_diff_distrib)
  have "0 \<le> v" using assms by (simp add: value_fits_def)
  then have "uint (ucast (of_int v :: u32) :: u64) = v"
    using value_fits_words(4,5) [OF assms]
    by (simp add: unsigned_ucast_eq uint_word_of_int take_bit_int_eq_self)
  then show ?thesis
    using value_fits_words(3) [OF assms] by (auto simp: word_field_def l) (metis word_uint_eq_iff)
qed

text \<open>All the fixed fields of an instruction, and a word that has their values.\<close>

definition in_range :: "ac_dec_format \<Rightarrow> ac_dec_instr \<Rightarrow> ac_asm_insn \<Rightarrow> bool" where
  "in_range p instr insn \<longleftrightarrow>
     list_all (\<lambda>c. case named_field p (dl_name c) of
        None \<Rightarrow> False
      | Some f \<Rightarrow> value_fits (format_size p) (first_bit f) (field_size f) (dl_value c)) (instr_dec_list instr) \<and>
     list_all (\<lambda>c. value_fits (format_size p) (uint (aif_first_bit (acf_field c))) (uint (aif_size (acf_field c)))
        (uint (acf_value c))) (ai_const_fields insn)"

definition has_fields :: "ac_dec_format \<Rightarrow> ac_dec_instr \<Rightarrow> ac_asm_insn \<Rightarrow> u64 \<Rightarrow> bool" where
  "has_fields p instr insn w \<longleftrightarrow>
     list_all (\<lambda>c. case named_field p (dl_name c) of
        None \<Rightarrow> False
      | Some f \<Rightarrow> word_field (format_size p) (first_bit f) (field_size f) w = dl_value c) (instr_dec_list instr) \<and>
     list_all (\<lambda>c. word_field (format_size p) (uint (aif_first_bit (acf_field c))) (uint (aif_size (acf_field c))) w
        = uint (acf_value c)) (ai_const_fields insn)"

definition insn_entries :: "ac_dec_format \<Rightarrow> ac_dec_instr \<Rightarrow> ac_asm_insn \<Rightarrow> entry list" where
  "insn_entries p instr insn = map (dec_entry p) (instr_dec_list instr) @ map const_entry (ai_const_fields insn)"

lemma in_range_entries:
  "in_range p instr insn \<Longrightarrow> \<forall>e \<in> set (insn_entries p instr insn). entry_ok (of_int (format_size p)) e"
  using value_fits_entry
  by (fastforce simp: in_range_def insn_entries_def list_all_iff dec_entry_def const_entry_def
      split: option.splits simp del: entry_ok.simps)

lemma has_fields_entries:
  assumes "in_range p instr insn"
  shows "has_fields p instr insn w \<longleftrightarrow> (\<forall>e \<in> set (insn_entries p instr insn). carries (of_int (format_size p)) w e)"
proof -
  let ?n = "of_int (format_size p) :: u32"
  have "(case named_field p (dl_name c) of None \<Rightarrow> False
      | Some f \<Rightarrow> word_field (format_size p) (first_bit f) (field_size f) w = dl_value c) = carries ?n w (dec_entry p c)"
    if "c \<in> set (instr_dec_list instr)" for c
    using assms that carries_word_field [of "format_size p"]
    by (auto simp: in_range_def list_all_iff dec_entry_def split: option.splits simp del: carries.simps)
  moreover have "(word_field (format_size p) (uint (aif_first_bit (acf_field c))) (uint (aif_size (acf_field c))) w
      = uint (acf_value c)) = carries ?n w (const_entry c)" if "c \<in> set (ai_const_fields insn)" for c
  proof -
    have "value_fits (format_size p) (uint (aif_first_bit (acf_field c))) (uint (aif_size (acf_field c))) (uint (acf_value c))"
      using assms that by (auto simp: in_range_def list_all_iff)
    from carries_word_field [OF this] show ?thesis by (simp add: const_entry_def del: carries.simps)
  qed
  ultimately show ?thesis by (simp add: has_fields_def insn_entries_def list_all_iff ball_Un)
qed

lemma insn_image_describes:
  assumes "ai_insn insn = Some k" "walk_formats (instr_format (instrs ! k)) 0 fmts = Some (fid, p)"
    "in_range p (instrs ! k) insn"
  shows "\<exists>acc. insn_image fmts instrs insn = Ret (acc, fid) \<and>
    describes (of_int (format_size p)) (insn_entries p (instrs ! k) insn) acc"
proof -
  let ?es = "insn_entries p (instrs ! k) insn" and ?n = "of_int (format_size p) :: u32"
  have named: "\<forall>c \<in> set (instr_dec_list (instrs ! k)). named_field p (dl_name c) \<noteq> None"
    using assms(3) by (auto simp: in_range_def list_all_iff split: option.splits)
  have "describes ?n [] (0, 0)" by (simp add: describes_def)
  from add_entries_describes [OF in_range_entries [OF assms(3)] this]
  obtain acc where acc: "add_entries ?n ?es (0, 0) = Ret acc" "describes ?n ([] @ ?es) acc" by blast
  obtain acc1 where 1: "add_entries ?n (map (dec_entry p) (instr_dec_list (instrs ! k))) (0, 0) = Ret acc1"
    "add_entries ?n (map const_entry (ai_const_fields insn)) acc1 = Ret acc"
    using acc(1) unfolding insn_entries_def add_entries_append by auto
  show ?thesis
    using assms(1,2) 1 acc(2)
    by (auto simp: insn_image_def add_dec_fields_entries [OF named] add_const_fields_entries)
qed

text \<open>C14: the base image and the mask of a native instruction. For decode and constant fields that
  lie inside a format of at most 32 bits and have values of their sizes, the table has an image
  without a bit outside the mask; if a word has all the fixed fields, the words whose masked
  bits are the image are exactly those with the fixed fields.\<close>
theorem image_mask_exact:
  assumes "ai_insn insn = Some k" "walk_formats (instr_format (instrs ! k)) 0 fmts = Some (fid, p)"
    "in_range p (instrs ! k) insn"
  shows "\<exists>img dmask. insn_image fmts instrs insn = Ret ((img, dmask), fid) \<and> img AND NOT dmask = 0 \<and>
    ((\<exists>w. has_fields p (instrs ! k) insn w) \<longrightarrow>
       (\<forall>w. w AND dmask = img \<longleftrightarrow> has_fields p (instrs ! k) insn w))"
proof -
  let ?es = "insn_entries p (instrs ! k) insn" and ?n = "of_int (format_size p) :: u32"
  note ok = in_range_entries [OF assms(3)]
  obtain img dmask where acc: "insn_image fmts instrs insn = Ret ((img, dmask), fid)" "describes ?n ?es (img, dmask)"
    using insn_image_describes [OF assms] by auto
  have "bit img b \<Longrightarrow> bit dmask b" for b
    using acc(2) ok unfolding describes_def fst_conv snd_conv by (blast dest: set_in_entry_in)
  then have "img AND NOT dmask = 0" by (intro bit_word_eqI) (auto simp: bit_simps)
  moreover have "w AND dmask = img \<longleftrightarrow> has_fields p (instrs ! k) insn w" if "has_fields p (instrs ! k) insn w0" for w w0
    using describes_carries [OF ok acc(2)] that by (simp add: has_fields_entries [OF assms(3)])
  ultimately show ?thesis using acc(1) by blast
qed

definition demo_op_format :: ac_dec_format where
  "demo_op_format = \<lparr>format_id = 0, format_name = ''R'', format_size = 32, format_fields =
     [\<lparr>field_name = ''op'', field_size = 4, first_bit = 3, field_id = 0, field_val = 0, field_sign = 0\<rparr>,
      \<lparr>field_name = ''rd'', field_size = 28, first_bit = 31, field_id = 0, field_val = 0, field_sign = 0\<rparr>]\<rparr>"

definition demo_op_instr :: ac_dec_instr where
  "demo_op_instr = (new_instr ''add'' ''R'' 1)\<lparr>instr_dec_list := [\<lparr>dl_name = ''op'', dl_id = 0, dl_value = 5\<rparr>]\<rparr>"

definition demo_op_insn :: ac_asm_insn where
  "demo_op_insn = blank_insn\<lparr>ai_mnemonic := ''add'', ai_op_literal := Some [], ai_insn := Some 0\<rparr>"

theorem image_mask_exact_witness:
  "\<exists>img dmask. insn_image [demo_op_format] [demo_op_instr] demo_op_insn = Ret ((img, dmask), 0) \<and>
     img AND NOT dmask = 0 \<and>
     (\<forall>w. w AND dmask = img \<longleftrightarrow> has_fields demo_op_format demo_op_instr demo_op_insn w)"
proof -
  have 1: "ai_insn demo_op_insn = Some 0" by code_simp
  have 2: "walk_formats (instr_format ([demo_op_instr] ! 0)) 0 [demo_op_format] = Some (0, demo_op_format)" by code_simp
  have 3: "in_range demo_op_format ([demo_op_instr] ! 0) demo_op_insn" by code_simp
  have 4: "has_fields demo_op_format ([demo_op_instr] ! 0) demo_op_insn 0x50000000" by code_simp
  from image_mask_exact [OF 1 2 3] 4 show ?thesis by auto
qed

text \<open>In a format of 16 bits a constant that is too wide for its field puts bits into the image
  that the mask does not have; in one of 32 bits it is cut off.\<close>
theorem short_format_leaks:
  "encode_insn_field 0x1FF 16 15 8 = Ret 0x1FF \<and> encode_dmask_field 16 15 8 = Ret 0xFF \<and>
   encode_insn_field 0x1FF 32 31 8 = Ret 0xFF \<and> encode_dmask_field 32 31 8 = Ret 0xFF"
  by code_simp

end
