(* ===== verification/AsmLiteral.thy ===== *)
theory AsmLiteral
  imports AsmInsnCorrect
begin

text \<open>
  The literal the parser of \<open>set_asm\<close> stores: it is made of ordinary characters, escaped per
  cent signs and one per cent sign for each operand. The generator of the opcode table walks
  the literal and the operands together and relies on this.
\<close>

inductive literal :: "string \<Rightarrow> nat \<Rightarrow> bool" where
  lit_nil: "literal [] 0"
| lit_char: "literal s n \<Longrightarrow> c \<noteq> CHR ''%'' \<Longrightarrow> c \<noteq> CHR 0x5C \<Longrightarrow> literal (c # s) n"
| lit_tag: "literal s n \<Longrightarrow> literal (CHR ''%'' # s) (Suc n)"
| lit_escape: "literal s n \<Longrightarrow> literal (CHR 0x5C # CHR 0x5C # CHR ''%'' # s) n"

lemma literal_append: "literal s m \<Longrightarrow> literal t n \<Longrightarrow> literal (s @ t) (m + n)"
  by (induction rule: literal.induct) (auto intro: literal.intros)

lemma literal_plain: "\<forall>c \<in> set s. c \<noteq> CHR ''%'' \<and> c \<noteq> CHR 0x5C \<Longrightarrow> literal s 0"
  by (induction s) (auto intro: literal.intros)

lemma literal_add_plain:
  "literal s n \<Longrightarrow> \<forall>c \<in> set t. c \<noteq> CHR ''%'' \<and> c \<noteq> CHR 0x5C \<Longrightarrow> literal (s @ t) n"
  using literal_append [OF _ literal_plain] by fastforce

lemma literal_add_tag: "literal s n \<Longrightarrow> literal (s @ ''%'') (Suc n)"
  using literal_append [OF _ lit_tag [OF lit_nil]] by fastforce

lemma literal_add_escape: "literal s n \<Longrightarrow> literal (s @ [CHR 0x5C, CHR 0x5C, CHR ''%'']) n"
  using literal_append [OF _ lit_escape [OF lit_nil]] by fastforce

subsection \<open>The loop over the operands\<close>

text \<open>The output so far is a literal for the operands so far, which have no identifier yet.\<close>

definition output_ok :: "operand_state \<Rightarrow> bool" where
  "output_ok st \<longleftrightarrow> literal (os_out st) (length (os_operands st)) \<and> (\<forall>x \<in> set (os_operands st). op_oper_id x = -1)"

lemma group_char_plain: "is_group_token [c] \<Longrightarrow> c \<noteq> CHR ''%'' \<and> c \<noteq> CHR 0x5C"
  by (auto simp: is_group_token_def is_identifier_def islower_def isupper_def isdigit_def less_eq_char_def)

lemma close_bracket_id: "close_bracket b x s = Inr (y, r) \<Longrightarrow> op_oper_id y = op_oper_id x"
  by (auto simp: close_bracket_def split: if_splits)

lemma parse_modifier_id: "parse_modifier b name k l s = Inr (y, r) \<Longrightarrow> op_oper_id y = -1"
  by (auto simp: parse_modifier_def Let_def new_operand_def split: if_splits dest!: close_bracket_id)

lemma create_operand_id: "create_operand maps m s = Inr (x, r) \<Longrightarrow> op_oper_id x = -1"
  by (auto simp: create_operand_def Let_def split: if_splits sum.splits dest!: close_bracket_id parse_modifier_id)
    (simp_all add: new_operand_def)

lemma emit_Some: "emit cs out = Some out' \<longleftrightarrow> out' = out @ cs \<and> length (out @ cs) \<le> 200"
  by (auto simp: emit_def)

lemma operand_token_literal:
  assumes "operand_token maps False st = Some (Inr st')" "output_ok st"
  shows "output_ok st'"
proof -
  let ?s = "os_in st"
  have lit: "literal (os_out st) (length (os_operands st))" using assms(2) by (simp add: output_ok_def)
  consider (group) "is_group_token ?s" | (tag) "starts CHR ''%'' ?s" | (escape) "starts CHR 0x5C ?s"
    | (other) "\<not> is_group_token ?s" "\<not> starts CHR ''%'' ?s" "\<not> starts CHR 0x5C ?s" by blast
  then show ?thesis
  proof cases
    case group
    have "\<forall>c \<in> set (takeWhile (\<lambda>c. is_group_token [c]) ?s). is_group_token [c]" by (meson set_takeWhileD)
    with group obtain t where "os_out st' = os_out st @ t" "os_operands st' = os_operands st"
      "\<forall>c \<in> set t. is_group_token [c] \<or> c = CHR '' ''"
      using assms(1) by (auto simp: operand_token_def Let_def emit_Some split: if_splits)
    with assms(2) literal_add_plain [OF lit, of t] group_char_plain show ?thesis by (fastforce simp: output_ok_def)
  next
    case tag
    then have "\<not> is_group_token ?s"
      using group_char_plain by (cases ?s) (auto simp: starts_def is_group_token_def is_identifier_def split: list.splits)
    with tag assms(1) obtain x r where "create_operand maps (os_mne st) (tl ?s) = Inr (x, r)"
      "os_out st' = os_out st @ ''%''" "os_operands st' = os_operands st @ [x]"
      by (auto simp: operand_token_def Let_def emit_Some split: if_splits option.splits sum.splits)
    with assms(2) literal_add_tag [OF lit] create_operand_id show ?thesis by (auto simp: output_ok_def)
  next
    case escape
    then have "\<not> is_group_token ?s" "\<not> starts CHR ''%'' ?s"
      using group_char_plain by (cases ?s; auto simp: starts_def is_group_token_def is_identifier_def split: list.splits)+
    with escape assms(1) have "os_out st' = os_out st @ [CHR 0x5C, CHR 0x5C, CHR ''%'']" "os_operands st' = os_operands st"
      by (auto simp: operand_token_def Let_def emit_Some split: if_splits option.splits)
    with assms(2) literal_add_escape [OF lit] show ?thesis by (auto simp: output_ok_def)
  next
    case other
    then obtain c where "os_out st' = os_out st @ [c]" "os_operands st' = os_operands st" "c \<noteq> CHR ''%''" "c \<noteq> CHR 0x5C"
      using assms(1) by (auto simp: operand_token_def Let_def emit_Some starts_def split: if_splits list.splits)
    with assms(2) literal_add_plain [OF lit, of "[c]"] show ?thesis by (auto simp: output_ok_def)
  qed
qed

lemma operand_loop_literal:
  "operand_loop maps False st = Some (Inr st') \<Longrightarrow> output_ok st \<Longrightarrow> output_ok st'"
proof (induction maps "False" st rule: operand_loop.induct)
  case (1 maps st)
  show ?case
  proof (cases "os_in st = []")
    case True
    with 1 show ?thesis by (simp add: operand_loop.simps)
  next
    case False
    then obtain st1 where st1: "operand_round maps False st = Some (Inr st1)" "operand_loop maps False st1 = Some (Inr st')"
      using 1(2) by (subst (asm) operand_loop.simps) (auto split: option.splits sum.splits)
    have blank: "output_ok (st\<lparr>os_out := os_out st @ '' '', os_mne := False, os_in := tl (os_in st)\<rparr>)"
      using 1(3) literal_add_plain [of "os_out st" _ "'' ''"] by (simp add: output_ok_def)
    have "output_ok st1"
      using st1(1) 1(3) blank
      by (auto simp: operand_round_def emit_Some output_ok_def split: option.splits if_splits dest!: operand_token_literal)
    with 1(1) [OF False st1(1) refl st1(2)] show ?thesis by simp
  qed
qed

subsection \<open>The instructions\<close>

definition lit_insn :: "ac_asm_insn \<Rightarrow> bool" where
  "lit_insn c \<longleftrightarrow> (\<forall>x \<in> set (ai_operands c). op_oper_id x = -1) \<and>
     (\<forall>lit. ai_op_literal c = Some lit \<longrightarrow> literal lit (length (ai_operands c)))"

definition lit_ok :: "asm_insn_state \<Rightarrow> bool" where
  "lit_ok s \<longleftrightarrow> (\<forall>c. current_insn s = Some c \<longrightarrow> lit_insn c) \<and>
     (\<forall>i \<in> set (asm_insn_list s). lit_insn i \<and> ai_op_literal i \<noteq> None)"

definition stores_literal :: "bool \<Rightarrow> asm_insn_state \<Rightarrow> asm_insn_state \<times> asm_error option \<Rightarrow> bool" where
  "stores_literal p s r \<longleftrightarrow>
     (\<exists>n e. r = (s\<lparr>in_error := True, num_args_expected := n\<rparr>, Some e)) \<or>
     (\<exists>str mne out ops n. store_string p str mne out ops n s = Some r \<and>
        (\<not> p \<longrightarrow> literal out (length ops) \<and> (\<forall>x \<in> set ops. op_oper_id x = -1)))"

lemma stores_error: "syntax_error e n s = Some r \<Longrightarrow> stores_literal p s r"
  by (auto simp: syntax_error_def stores_literal_def)

lemma stores_operands:
  assumes "parse_operands maps p str n mne blank r out s = Some q" "\<not> p \<longrightarrow> literal out 0 \<and> literal (butlast out) 0"
  shows "stores_literal p s q"
proof (cases "r = []")
  case True
  with assms show ?thesis
    unfolding stores_literal_def parse_operands_def end_string_def by (fastforce split: option.splits if_splits)
next
  case False
  let ?st = "\<lparr>os_in = r, os_out = out, os_mne = \<not> blank, os_operands = [], os_expected = n\<rparr>"
  have f: "finish_operands p str mne (operand_loop maps p ?st) s = Some q"
    using assms(1) False by (simp add: parse_operands_def)
  have start: "\<not> p \<Longrightarrow> output_ok ?st" using assms(2) by (simp add: output_ok_def)
  show ?thesis
  proof (cases "operand_loop maps p ?st")
    case None
    with f show ?thesis by (simp add: finish_operands_def)
  next
    case (Some x)
    show ?thesis
    proof (cases x)
      case (Inl e)
      with Some f show ?thesis by (cases e) (auto simp: finish_operands_def intro: stores_error)
    next
      case (Inr st)
      have "\<not> p \<Longrightarrow> output_ok st" using operand_loop_literal [of maps ?st st] Some Inr start by auto
      with f Some Inr show ?thesis
        unfolding stores_literal_def finish_operands_def end_string_def output_ok_def
        by (fastforce split: option.splits if_splits)
    qed
  qed
qed

lemma parse_string_literal:
  assumes "acpp_asm_parse_asm_string maps str p s = Some r"
  shows "stores_literal p s r"
proof -
  have "literal '' '' 0" by (intro literal_plain) simp
  then have "stores_literal p s r" if "parse_behind_mnemonic maps p str n mne t s = Some r" for n mne t
    using that lit_nil
    by (auto simp: parse_behind_mnemonic_def Let_def emit_Some split: if_splits option.splits)
      (erule stores_operands; simp)+
  with assms show ?thesis
    unfolding acpp_asm_parse_asm_string_def Let_def
    by (auto split: if_splits option.splits sum.splits prod.splits intro: stores_error)
qed

definition keeps_lit :: "(asm_insn_state \<Rightarrow> (asm_insn_state \<times> asm_error option) option) \<Rightarrow> bool" where
  "keeps_lit f \<longleftrightarrow> (\<forall>s s' e. lit_ok s \<longrightarrow> f s = Some (s', e) \<longrightarrow> lit_ok s')"

lemma keeps_lit_parse: "keeps_lit (acpp_asm_parse_asm_string maps str p)"
  unfolding keeps_lit_def
proof (intro allI impI)
  fix s s' e
  assume "lit_ok s" "acpp_asm_parse_asm_string maps str p s = Some (s', e)"
  with parse_string_literal [OF this(2)] show "lit_ok s'"
    by (cases p) (auto simp: stores_literal_def store_string_def lit_ok_def lit_insn_def split: option.splits)
qed

lemma lit_insn_const [simp]: "lit_insn (c\<lparr>ai_const_fields := x\<rparr>) = lit_insn c"
  by (simp add: lit_insn_def)

lemma lit_insn_field:
  assumes "lit_insn c" "i < length (ai_operands c)"
  shows "lit_insn (c\<lparr>ai_operands := (ai_operands c)[i := (ai_operands c ! i)\<lparr>op_fields := fs\<rparr>]\<rparr>)"
proof -
  have "op_oper_id x = -1" if "x \<in> set ((ai_operands c)[i := (ai_operands c ! i)\<lparr>op_fields := fs\<rparr>])" for x
    using that assms set_update_subset_insert [of "ai_operands c" i] by (fastforce simp: lit_insn_def)
  with assms(1) show ?thesis by (simp add: lit_insn_def)
qed

lemma keeps_lit_arg: "keeps_lit (arg_action maps pf a)"
  unfolding keeps_lit_def
  by (auto simp: lit_ok_def arg_action_def acpp_asm_parse_asm_argument_def acpp_asm_parse_const_asm_argument_def
      arg_error_def Let_def not_le intro!: lit_insn_field
      split: asm_arg.splits option.splits if_splits prod.splits bool.splits)

lemma keeps_lit_member: "keeps_lit (acpp_asm_add_pseudo_member maps str)"
  unfolding keeps_lit_def
proof (intro allI impI)
  fix s s' e
  assume s: "lit_ok s" "acpp_asm_add_pseudo_member maps str s = Some (s', e)"
  then obtain t d where t: "acpp_asm_parse_asm_string maps str True s = Some (t, d)"
    "s' = (if d = None then t\<lparr>pseudo_list := pseudo_list t @ [formatted_pseudo t],
       num_pseudo_insn := num_pseudo_insn t + 1\<rparr> else t)"
    by (auto simp: acpp_asm_add_pseudo_member_def split: option.splits)
  have "lit_ok t" using keeps_lit_parse s(1) t(1) unfolding keeps_lit_def by blast
  then show "lit_ok s'" by (simp add: t(2) lit_ok_def)
qed

lemma keeps_lit_new_pseudo: "keeps_lit (\<lambda>s. Some (acpp_asm_new_pseudo s, None))"
  by (simp add: keeps_lit_def acpp_asm_new_pseudo_def lit_ok_def)

lemma keeps_lit_end: "keeps_lit (acpp_asm_end_insn instrs p)"
  unfolding keeps_lit_def
proof (intro allI impI)
  fix s s' e
  assume s: "lit_ok s" "acpp_asm_end_insn instrs p s = Some (s', e)"
  show "lit_ok s'"
  proof (cases "s' = s")
    case False
    then obtain c l where c: "current_insn s = Some c" "ai_op_literal (with_dummies p c) \<noteq> None"
      "s' = s\<lparr>current_insn := Some (with_dummies p c),
         asm_insn_list := insert_insn (new_asm_insn p s (with_dummies p c)) (asm_insn_list s),
         asm_insn_list_original_order := l\<rparr>"
      using s(2) unfolding acpp_asm_end_insn_def Let_def by (auto split: if_splits option.splits)
    have d: "lit_insn (with_dummies p c)" using s(1) c(1) by (auto simp: lit_ok_def lit_insn_def with_dummies_def)
    then have "lit_insn (new_asm_insn p s (with_dummies p c))" by (simp add: lit_insn_def new_asm_insn_def)
    with d c(2) s(1) show ?thesis
      unfolding c(3) by (auto simp: lit_ok_def insert_insn_after new_asm_insn_def)
  qed (use s(1) in simp)
qed

lemma run_calls_lit:
  assumes "run_calls fs s = Some (s', es)" "lit_ok s" "\<And>f. f \<in> set fs \<Longrightarrow> keeps_lit f"
  shows "lit_ok s'"
  by (rule run_calls_inv [where P = lit_ok, OF _ assms(1,2)]) (use assms(3) in \<open>auto simp: keeps_lit_def\<close>)

lemma asm_step_lit: "asm_step s s' \<Longrightarrow> lit_ok s \<Longrightarrow> lit_ok s'"
proof (induction rule: asm_step.induct)
  case (asm_native maps instrs pf k str args s s' es)
  then have "lit_ok (acpp_asm_new_insn s)"
    by (simp add: lit_ok_def acpp_asm_new_insn_def lit_insn_def blank_insn_def)
  from run_calls_lit [OF asm_native(1) [unfolded asmdec_action_def] this] show ?case
    using keeps_lit_parse keeps_lit_arg keeps_lit_end by fastforce
next
  case (asm_undeclared maps instrs pf args s s' es)
  from run_calls_lit [OF this(1) [unfolded undeclared_asmdec_action_def] this(2)] show ?case
    using keeps_lit_arg keeps_lit_end by fastforce
next
  case (asm_pseudo maps instrs str members s s' es)
  then have "lit_ok (acpp_asm_new_insn s)"
    by (simp add: lit_ok_def acpp_asm_new_insn_def lit_insn_def blank_insn_def)
  from run_calls_lit [OF asm_pseudo(1) [unfolded pseudodec_action_def] this] show ?case
    using keeps_lit_parse keeps_lit_new_pseudo keeps_lit_member keeps_lit_end by fastforce
qed

lemma asm_reachable_lit: "asm_reachable s \<Longrightarrow> lit_ok s"
proof (induction rule: asm_reachable.induct)
  case asm_init
  show ?case by (simp add: lit_ok_def init_asm_insn_def)
qed (blast dest: asm_step_lit)

end
