(* ===== verification/OpcodeTables.thy ===== *)
theory OpcodeTables
  imports OpcodeImage AsmLiteral
begin

text \<open>
  What the lists behind the generated tables promise: the identifiers of modifiers and
  operands, the indices into the table of pseudo instructions, and the strings of arguments.
\<close>

subsection \<open>Modifiers\<close>

text \<open>A list of modifiers gives each name its position; an operand has the identifier of its
  modifier, and 0 if it has none.\<close>

definition modifiers_ok :: "mod_list list \<Rightarrow> bool" where
  "modifiers_ok ms \<longleftrightarrow> distinct (map ml_name ms) \<and> (\<forall>i < length ms. ml_id (ms ! i) = int i) \<and>
     take 1 ms = [default_modifier]"

definition mod_type_ok :: "mod_list list \<Rightarrow> ac_operand_list \<Rightarrow> bool" where
  "mod_type_ok ms x \<longleftrightarrow> (case mod_name (op_modifier x) of
     None \<Rightarrow> mod_type (op_modifier x) = 0
   | Some name \<Rightarrow> \<exists>m \<in> set ms. ml_name m = name \<and> ml_id m = mod_type (op_modifier x))"

lemma enter_modifier_ok:
  assumes "enter_modifier ms name = (ms', n)" "modifiers_ok ms"
  shows "modifiers_ok ms' \<and> (\<exists>new. ms' = ms @ new) \<and> (\<exists>m \<in> set ms'. ml_name m = name \<and> ml_id m = n)"
proof (cases "find_first (\<lambda>m. strcmp (ml_name m) name = 0) ms")
  case None
  then have ms': "ms' = ms @ [\<lparr>ml_id = int (length ms), ml_name = name\<rparr>]" "n = int (length ms)"
    using assms(1) by (auto simp: enter_modifier_def Let_def None simp del: find_first_None)
  have "name \<notin> ml_name ` set ms" using None by auto
  with assms(2) show ?thesis
    by (auto simp: ms' modifiers_ok_def nth_append less_Suc_eq)
next
  case (Some m)
  then have "ms' = ms" "n = ml_id m" using assms(1) by (auto simp: enter_modifier_def)
  with find_first_SomeD [OF Some] assms(2) show ?thesis by auto
qed

lemma mod_type_ok_more: "mod_type_ok ms x \<Longrightarrow> mod_type_ok (ms @ new) x"
  by (auto simp: mod_type_ok_def split: option.splits)

lemma type_operands_ok:
  "type_operands ms xs = (ms', xs') \<Longrightarrow> modifiers_ok ms \<Longrightarrow>
   modifiers_ok ms' \<and> (\<exists>new. ms' = ms @ new) \<and> (\<forall>x \<in> set xs'. mod_type_ok ms' x)"
proof (induction ms xs arbitrary: ms' xs' rule: type_operands.induct)
  case (2 ms x xs)
  show ?case
  proof (cases "mod_name (op_modifier x)")
    case None
    then obtain ys where ys: "type_operands ms xs = (ms', ys)" "xs' = set_mod_type 0 x # ys"
      using 2(3) by (auto split: prod.splits)
    have "mod_type_ok ms' (set_mod_type 0 x)" using None by (simp add: mod_type_ok_def set_mod_type_def)
    with 2(1) [OF None ys(1) 2(4)] ys(2) show ?thesis by auto
  next
    case (Some name)
    obtain ms1 n where 1: "enter_modifier ms name = (ms1, n)" by fastforce
    then obtain ys where ys: "type_operands ms1 xs = (ms', ys)" "xs' = set_mod_type n x # ys"
      using 2(3) Some by (auto split: prod.splits)
    note E = enter_modifier_ok [OF 1 2(4)]
    have IH: "modifiers_ok ms' \<and> (\<exists>new. ms' = ms1 @ new) \<and> (\<forall>x \<in> set ys. mod_type_ok ms' x)"
      using 2(2) [OF Some 1 [symmetric] refl ys(1)] E by blast
    have "mod_type_ok ms1 (set_mod_type n x)" using E Some by (simp add: mod_type_ok_def set_mod_type_def)
    with IH E ys(2) show ?thesis by (auto intro: mod_type_ok_more)
  qed
qed auto

lemma type_insns_ok:
  "type_insns ms as = (ms', as') \<Longrightarrow> modifiers_ok ms \<Longrightarrow>
   modifiers_ok ms' \<and> (\<exists>new. ms' = ms @ new) \<and> (\<forall>a \<in> set as'. \<forall>x \<in> set (ai_operands a). mod_type_ok ms' x)"
proof (induction ms as arbitrary: ms' as' rule: type_insns.induct)
  case (2 ms a as)
  obtain ms1 xs where 1: "type_operands ms (ai_operands a) = (ms1, xs)" by fastforce
  then obtain bs where bs: "type_insns ms1 as = (ms', bs)" "as' = a\<lparr>ai_operands := xs\<rparr> # bs"
    using 2(2) by (auto split: prod.splits)
  note T = type_operands_ok [OF 1 2(3)]
  have IH: "modifiers_ok ms' \<and> (\<exists>new. ms' = ms1 @ new) \<and> (\<forall>a \<in> set bs. \<forall>x \<in> set (ai_operands a). mod_type_ok ms' x)"
    using 2(1) [OF 1 [symmetric] refl bs(1)] T by blast
  with T bs(2) show ?case by (auto intro: mod_type_ok_more)
qed auto

text \<open>What the two passes leave alone.\<close>

definition op_skeleton :: "ac_operand_list \<Rightarrow> ac_operand_list" where
  "op_skeleton x = (set_mod_type 0 x)\<lparr>op_oper_id := 0\<rparr>"

definition skeleton :: "ac_asm_insn \<Rightarrow> ac_asm_insn" where
  "skeleton a = a\<lparr>ai_operands := map op_skeleton (ai_operands a)\<rparr>"

lemma op_skeleton_set [simp]:
  "op_skeleton (set_mod_type n x) = op_skeleton x" "op_skeleton (x\<lparr>op_oper_id := i\<rparr>) = op_skeleton x"
  by (simp_all add: op_skeleton_def set_mod_type_def)

lemma type_operands_skeleton: "type_operands ms xs = (ms', xs') \<Longrightarrow> map op_skeleton xs' = map op_skeleton xs"
  by (induction ms xs arbitrary: ms' xs' rule: type_operands.induct) (auto split: option.splits prod.splits)

lemma type_insns_skeleton: "type_insns ms as = (ms', as') \<Longrightarrow> map skeleton as' = map skeleton as"
  by (induction ms as arbitrary: ms' as' rule: type_insns.induct)
    (auto simp: skeleton_def split: prod.splits dest: type_operands_skeleton)

subsection \<open>Operands\<close>

definition operands_ok :: "oper_list list \<Rightarrow> bool" where
  "operands_ok ops \<longleftrightarrow> (\<forall>i < length ops. ol_id (ops ! i) = of_nat i) \<and>
     (\<forall>i < length ops. \<forall>j < length ops. same_operand (ops ! i) (ops ! j) \<longrightarrow> i = j)"

definition stands_for ::
  "ac_dec_format list \<Rightarrow> ac_dec_instr list \<Rightarrow> oper_list list \<Rightarrow> ac_asm_insn \<Rightarrow> nat \<Rightarrow> ac_operand_list \<Rightarrow> bool" where
  "stands_for fmts instrs ops a k x \<longleftrightarrow> (\<exists>j y. j < length ops \<and> op_oper_id x = sint (of_nat j :: u32) \<and>
     new_oper fmts instrs a k x = Ret y \<and> same_operand (ops ! j) y)"

lemma same_operand_sym: "same_operand x y \<Longrightarrow> same_operand y x"
  by (auto simp: same_operand_def)

lemma same_operand_id [simp]: "same_operand (x\<lparr>ol_id := i\<rparr>) y \<longleftrightarrow> same_operand x y"
  "same_operand x (y\<lparr>ol_id := i\<rparr>) \<longleftrightarrow> same_operand x y"
  by (auto simp: same_operand_def)

lemma new_oper_frame [simp]:
  "new_oper fmts instrs a k (x\<lparr>op_oper_id := i\<rparr>) = new_oper fmts instrs a k x"
  "new_oper fmts instrs (a\<lparr>ai_operands := xs\<rparr>) k x = new_oper fmts instrs a k x"
  by (simp_all add: new_oper_def get_insn_size_def)

lemma stands_for_frame [simp]: "stands_for fmts instrs ops (a\<lparr>ai_operands := xs\<rparr>) k x = stands_for fmts instrs ops a k x"
  by (simp add: stands_for_def)

lemma stands_for_more: "stands_for fmts instrs ops a k x \<Longrightarrow> stands_for fmts instrs (ops @ new) a k x"
  unfolding stands_for_def by (metis length_append nth_append trans_less_add1)

lemma operands_ok_snoc:
  assumes "operands_ok ops" "\<And>x. x \<in> set ops \<Longrightarrow> \<not> same_operand x y" "ol_id y = of_nat (length ops)"
  shows "operands_ok (ops @ [y])"
proof -
  have new: "\<not> same_operand (ops ! i) y" "\<not> same_operand y (ops ! i)" if "i < length ops" for i
    using assms(2) [of "ops ! i"] that same_operand_sym by auto
  have old: "i < length ops \<Longrightarrow> j < length ops \<Longrightarrow> same_operand (ops ! i) (ops ! j) \<Longrightarrow> i = j" for i j
    using assms(1) by (simp add: operands_ok_def)
  have "i = j" if "i < length (ops @ [y])" "j < length (ops @ [y])" "same_operand ((ops @ [y]) ! i) ((ops @ [y]) ! j)" for i j
    using that new old by (cases "i = length ops"; cases "j = length ops") (simp_all add: nth_append)
  with assms(1,3) show ?thesis by (simp add: operands_ok_def nth_append less_Suc_eq)
qed

lemma enter_operand_ok:
  assumes "enter_operand ops oper = (ops', i)" "operands_ok ops"
  shows "operands_ok ops' \<and> (\<exists>new. ops' = ops @ new) \<and>
    (\<exists>k < length ops'. i = of_nat k \<and> same_operand (ops' ! k) oper)"
proof (cases "find_operand ops oper")
  case None
  have last: "ops \<noteq> [] \<Longrightarrow> ol_id (last ops) + 1 = of_nat (length ops)"
  proof -
    assume ne: "ops \<noteq> []"
    then have "ol_id (last ops) = of_nat (length ops - 1)" using assms(2) by (simp add: operands_ok_def last_conv_nth)
    with ne show ?thesis by (simp add: of_nat_diff Suc_leI)
  qed
  have ops': "ops' = ops @ [oper\<lparr>ol_id := of_nat (length ops)\<rparr>]" "i = of_nat (length ops)"
    using assms(1) None last by (auto simp: enter_operand_def Let_def split: if_splits)
  have other: "\<not> same_operand x oper" if "x \<in> set ops" for x
    using None that by (auto simp: find_operand_def)
  have "operands_ok ops'"
    unfolding ops' using other by (intro operands_ok_snoc assms(2)) auto
  moreover have "same_operand oper oper" by (simp add: same_operand_def)
  ultimately show ?thesis by (auto simp: ops')
next
  case (Some f)
  then have eq: "ops' = ops" "i = ol_id f" using assms(1) by (auto simp: enter_operand_def)
  have "f \<in> set ops" "same_operand f oper" using find_first_SomeD [OF Some [unfolded find_operand_def]] by auto
  with assms(2) show ?thesis by (force simp: eq in_set_conv_nth operands_ok_def)
qed

lemma enter_operands_ok:
  "enter_operands fmts instrs a k ops xs = Ret (ops', xs') \<Longrightarrow> operands_ok ops \<Longrightarrow>
   operands_ok ops' \<and> (\<exists>new. ops' = ops @ new) \<and> (\<forall>x \<in> set xs'. stands_for fmts instrs ops' a k x) \<and>
   map op_skeleton xs' = map op_skeleton xs"
proof (induction xs arbitrary: ops ops' xs')
  case (Cons x xs)
  obtain oper where oper: "new_oper fmts instrs a k x = Ret oper" using Cons.prems(1) by auto
  obtain ops1 i where 1: "enter_operand ops oper = (ops1, i)" by fastforce
  obtain ys where ys: "enter_operands fmts instrs a k ops1 xs = Ret (ops', ys)" "xs' = x\<lparr>op_oper_id := sint i\<rparr> # ys"
    using Cons.prems(1) oper 1 by auto
  note E = enter_operand_ok [OF 1 Cons.prems(2)]
  have IH: "operands_ok ops' \<and> (\<exists>new. ops' = ops1 @ new) \<and> (\<forall>x \<in> set ys. stands_for fmts instrs ops' a k x) \<and>
     map op_skeleton ys = map op_skeleton xs" using Cons.IH [OF ys(1)] E by blast
  have "stands_for fmts instrs ops1 a k (x\<lparr>op_oper_id := sint i\<rparr>)"
    using E oper by (auto simp: stands_for_def)
  with IH E show ?case by (auto simp: ys(2) intro: stands_for_more)
qed simp

lemma enter_insns_ok:
  "enter_insns fmts instrs ops as = Ret (ops', as') \<Longrightarrow> operands_ok ops \<Longrightarrow>
   operands_ok ops' \<and> (\<exists>new. ops' = ops @ new) \<and> map skeleton as' = map skeleton as \<and>
   (\<forall>a \<in> set as'. \<forall>k. ai_insn a = Some k \<longrightarrow> (\<forall>x \<in> set (ai_operands a). stands_for fmts instrs ops' a k x))"
proof (induction as arbitrary: ops ops' as')
  case (Cons a as)
  show ?case
  proof (cases "ai_insn a")
    case None
    then obtain bs where "enter_insns fmts instrs ops as = Ret (ops', bs)" "as' = a # bs"
      using Cons.prems(1) by auto
    with Cons.IH [OF this(1) Cons.prems(2)] None show ?thesis by simp
  next
    case (Some k)
    then obtain ops1 xs bs where 1: "enter_operands fmts instrs a k ops (ai_operands a) = Ret (ops1, xs)"
      "enter_insns fmts instrs ops1 as = Ret (ops', bs)" "as' = a\<lparr>ai_operands := xs\<rparr> # bs"
      using Cons.prems(1) by auto
    note E = enter_operands_ok [OF 1(1) Cons.prems(2)]
    have IH: "operands_ok ops' \<and> (\<exists>new. ops' = ops1 @ new) \<and> map skeleton bs = map skeleton as \<and>
      (\<forall>a \<in> set bs. \<forall>k. ai_insn a = Some k \<longrightarrow> (\<forall>x \<in> set (ai_operands a). stands_for fmts instrs ops' a k x))"
      using Cons.IH [OF 1(2)] E by blast
    have "skeleton (a\<lparr>ai_operands := xs\<rparr>) = skeleton a" using E by (simp add: skeleton_def)
    with IH E Some show ?thesis by (auto simp: 1(3) intro: stands_for_more)
  qed
qed simp

lemma create_operand_list_ok:
  assumes "create_operand_list fmts instrs init_opcodes asml = Ret (st, asml')"
  shows "operands_ok (operand_list st)" "map skeleton asml' = map skeleton asml"
    "\<And>a k x. a \<in> set asml' \<Longrightarrow> ai_insn a = Some k \<Longrightarrow> x \<in> set (ai_operands a) \<Longrightarrow> stands_for fmts instrs (operand_list st) a k x"
proof -
  obtain ms as ops where 1: "type_insns [default_modifier] asml = (ms, as)"
    "enter_insns fmts instrs [] as = Ret (ops, asml')" "st = init_opcodes\<lparr>operand_list := ops, modifier_list := ms\<rparr>"
    using assms by (auto simp: create_operand_list_def create_modifier_list_def init_opcodes_def split: prod.splits)
  have "operands_ok []" by (simp add: operands_ok_def)
  note E = enter_insns_ok [OF 1(2) this]
  show "operands_ok (operand_list st)" "map skeleton asml' = map skeleton asml"
    "\<And>a k x. a \<in> set asml' \<Longrightarrow> ai_insn a = Some k \<Longrightarrow> x \<in> set (ai_operands a) \<Longrightarrow> stands_for fmts instrs (operand_list st) a k x"
    using E type_insns_skeleton [OF 1(1)] by (auto simp: 1(3))
qed

lemma create_operand_list_modifiers:
  assumes "create_operand_list fmts instrs init_opcodes asml = Ret (st, asml')"
  shows "modifier_list st = fst (create_modifier_list asml)"
  using assms by (auto simp: create_operand_list_def split: prod.splits)

subsection \<open>The string of arguments\<close>

definition int32 :: "int \<Rightarrow> bool" where
  "int32 i \<longleftrightarrow> - (2 ^ 31) \<le> i \<and> i < 2 ^ 31"

lemma sint_int32 [simp]: "int32 (sint (w :: u32))"
  using sint_greater_eq [of w] sint_less [of w] by (simp add: int32_def)

lemma dec_str_int_length: "int32 i \<Longrightarrow> length (dec_str_int i) \<le> 11"
proof -
  assume "int32 i"
  then have "nat (- i) < 10 ^ Suc 9" "nat i < 10 ^ Suc 9" by (auto simp: int32_def)
  from this [THEN dec_str_length] show ?thesis by (simp add: dec_str_int_def)
qed

text \<open>One tag needs at most twelve characters more than its sign in the literal.\<close>

lemma operand_tag_ok:
  assumes "int32 (op_oper_id x)" "length out + 13 \<le> 100"
  shows "\<exists>out' x'. operand_tag ops x out = Ret (out', x') \<and> length out' \<le> length out + 13"
proof -
  define y where "y = (if op_oper_id x = -1 then x\<lparr>op_oper_id := get_compatible_oper_id ops (op_type x)\<rparr> else x)"
  have "int32 (get_compatible_oper_id ops k)" for k
    by (auto simp: get_compatible_oper_id_def split: option.split) (simp add: int32_def)
  then have "int32 (op_oper_id y)" using assms(1) by (simp add: y_def)
  then have d: "length (dec_str_int (op_oper_id y)) \<le> 11" by (rule dec_str_int_length)
  have "length (takeWhile isdigit (dec_str_int (op_oper_id y))) \<le> 11"
    using d length_takeWhile_le le_trans by blast
  with d assms(2) show ?thesis
    unfolding operand_tag_def y_def [symmetric] Let_def by (simp add: put_def)
qed

lemma operand_string_ok:
  assumes "literal lit (length xs)" "\<forall>x \<in> set xs. int32 (op_oper_id x)" "length out + length lit + 12 * length xs < 100"
  shows "\<exists>out' xs'. operand_string ops out xs lit = Ret (out', xs')"
  using assms
proof (induction lit "length xs" arbitrary: out xs rule: literal.induct)
  case lit_nil
  then show ?case by (simp add: put_def)
next
  case (lit_char s c)
  then have "operand_string ops out xs (c # s) = operand_string ops (out @ [c]) xs s" by (simp add: put_def)
  with lit_char.hyps(2) [of xs "out @ [c]"] lit_char.prems show ?case by simp
next
  case (lit_tag s n)
  then obtain x ys where xs: "xs = x # ys" "length ys = n" by (cases xs) auto
  obtain out' x' where t: "operand_tag ops x out = Ret (out', x')" "length out' \<le> length out + 13"
    using operand_tag_ok [of x out ops] lit_tag.prems xs by auto
  obtain o2 y2 where "operand_string ops out' ys s = Ret (o2, y2)"
    using lit_tag.hyps(2) [of ys out'] lit_tag.prems t(2) xs by auto
  with xs t show ?case by simp
next
  case (lit_escape s)
  then have "operand_string ops out xs (CHR 0x5C # CHR 0x5C # CHR ''%'' # s) =
      operand_string ops (out @ [CHR 0x5C, CHR 0x5C, CHR ''%'']) xs s"
    by (simp add: put_def starts_def)
  with lit_escape.hyps(2) [of xs "out @ [CHR 0x5C, CHR 0x5C, CHR ''%'']"] lit_escape.prems show ?case by simp
qed

text \<open>Each character of the literal takes at least one of the buffer.\<close>

lemma operand_string_needs:
  "operand_string ops out xs lit = Ret r \<Longrightarrow> length out + length lit < 100"
proof (induction ops out xs lit arbitrary: r rule: operand_string.induct)
  case (1 ops out xs)
  then show ?case by (auto simp: put_def split: if_splits)
next
  case (2 ops out xs c lit)
  consider (tag) "c = CHR ''%''" | (esc) "c \<noteq> CHR ''%''" "c = CHR 0x5C" "starts CHR 0x5C lit"
    | (plain) "c \<noteq> CHR ''%''" "\<not> (c = CHR 0x5C \<and> starts CHR 0x5C lit)" by blast
  then show ?case
  proof cases
    case tag
    then obtain x ys out' x' r' where x: "xs = x # ys" "operand_tag ops x out = Ret (out', x')"
      "operand_string ops out' ys lit = Ret r'"
      using 2(4) by (auto split: list.splits)
    have "length out < length out'" using x(2) by (auto simp: operand_tag_def Let_def)
    with 2(1) [OF tag x(1) x(3)] show ?thesis by simp
  next
    case esc
    then obtain t where t: "lit = CHR 0x5C # t" by (cases lit) (auto simp: starts_def)
    let ?p = "if starts CHR ''%'' t then ''%'' else []"
    have n: "length ?p \<le> length t" by (cases t) (auto simp: starts_def)
    have "put (c # CHR 0x5C # ?p) out = Ret (out @ c # CHR 0x5C # ?p)" and
      r: "operand_string ops (out @ c # CHR 0x5C # ?p) xs (drop (length ?p) t) = Ret r"
      using 2(4) esc t by (auto simp: put_def Let_def starts_def split: if_splits)
    with 2(2) [OF esc(1) conjI [OF esc(2,3)] refl, of "out @ c # CHR 0x5C # ?p" r] t n show ?thesis
      by (auto split: if_splits)
  next
    case plain
    then have "put [c] out = Ret (out @ [c])" "operand_string ops (out @ [c]) xs lit = Ret r"
      using 2(4) by (auto simp: put_def split: if_splits)
    with 2(3) [OF plain, of "out @ [c]" r] show ?thesis by simp
  qed
qed

subsection \<open>Pseudo instructions\<close>

lemma create_operand_string_frame:
  "create_operand_string ops a = Ret (args, a') \<Longrightarrow> \<exists>xs. a' = a\<lparr>ai_operands := xs\<rparr>"
  by (auto simp: create_operand_string_def split: option.splits)

lemma opcode_row_frame:
  assumes "opcode_row fmts instrs ops n a = Ret (row, a')"
  shows "oc_mnemonic row = ai_mnemonic a \<and> oc_pseudo_idx row = (if ai_pseudolist a \<noteq> [] then n else 0) \<and>
    ai_pseudolist a' = ai_pseudolist a"
  using assms by (auto simp: opcode_row_def dest!: create_operand_string_frame)

definition indexed :: "nat \<Rightarrow> string option list \<Rightarrow> ac_asm_insn \<Rightarrow> acasm_opcode \<Rightarrow> bool" where
  "indexed n es a row \<longleftrightarrow> oc_mnemonic row = ai_mnemonic a \<and>
     (if ai_pseudolist a = [] then oc_pseudo_idx row = 0
      else n \<le> oc_pseudo_idx row \<and>
        take (length (ai_pseudolist a) + 1) (drop (oc_pseudo_idx row - n) es) = map Some (ai_pseudolist a) @ [None])"

lemma indexed_later: "indexed (n + length new) es a row \<Longrightarrow> indexed n (new @ es) a row"
  by (auto simp: indexed_def split: if_splits)

lemma opcode_rows_indexed:
  "opcode_rows fmts instrs ops n as = Ret (rows, as') \<Longrightarrow>
   \<forall>a \<in> set as. ai_num_pseudo a = length (ai_pseudolist a) \<Longrightarrow>
   list_all2 (indexed n (pseudo_entries as)) as rows \<and> pseudo_entries as' = pseudo_entries as"
proof (induction as arbitrary: n rows as')
  case (Cons a as)
  then obtain row a' rs bs where 1: "opcode_row fmts instrs ops n a = Ret (row, a')"
    "opcode_rows fmts instrs ops (next_pseudo_idx n a) as = Ret (rs, bs)" "rows = row # rs" "as' = a' # bs"
    by auto
  define new where "new = (if ai_pseudolist a \<noteq> [] then map Some (ai_pseudolist a) @ [None] else [])"
  have idx: "next_pseudo_idx n a = n + length new" using Cons.prems(2) by (simp add: next_pseudo_idx_def new_def)
  have es: "pseudo_entries (a # as) = new @ pseudo_entries as" by (simp add: new_def)
  note R = opcode_row_frame [OF 1(1)]
  from Cons.IH [OF 1(2)] Cons.prems(2)
  have IH: "list_all2 (indexed (n + length new) (pseudo_entries as)) as rs" "pseudo_entries bs = pseudo_entries as"
    by (simp_all add: idx)
  have "list_all2 (indexed n (new @ pseudo_entries as)) as rs"
    by (rule list_all2_mono [OF IH(1)]) (rule indexed_later)
  moreover have "indexed n (new @ pseudo_entries as) a row" using R by (auto simp: indexed_def new_def)
  moreover have "pseudo_entries as' = new @ pseudo_entries as" using R IH(2) by (simp add: 1(4) new_def)
  ultimately show ?case unfolding es 1(3) by simp
qed simp

subsection \<open>The tables are generated\<close>

text \<open>An instruction the generators can handle: its format is declared and has at most 32 bits,
  its fixed fields and those of its operands lie inside, the fields are numbered up to 31, and
  its string of arguments fits the buffer.\<close>

definition field_ok :: "ac_dec_format \<Rightarrow> ac_asm_insn_field \<Rightarrow> bool" where
  "field_ok p f \<longleftrightarrow> unat (aif_id f) < 32 \<and> fits (of_int (format_size p)) (aif_first_bit f) (aif_size f)"

definition string_fits :: "ac_asm_insn \<Rightarrow> bool" where
  "string_fits a \<longleftrightarrow> (case ai_op_literal a of
     None \<Rightarrow> True | Some lit \<Rightarrow> length lit + 12 * length (ai_operands a) < 100)"

definition generable :: "ac_dec_format list \<Rightarrow> ac_dec_instr list \<Rightarrow> ac_asm_insn \<Rightarrow> bool" where
  "generable fmts instrs a \<longleftrightarrow> string_fits a \<and>
     (case ai_insn a of
        None \<Rightarrow> True
      | Some k \<Rightarrow>
          (case walk_formats (instr_format (instrs ! k)) 0 fmts of
             None \<Rightarrow> False
           | Some (fid, p) \<Rightarrow> in_range p (instrs ! k) a \<and>
               list_all (\<lambda>x. list_all (field_ok p) (op_fields x)) (ai_operands a)))"

lemma op_skeleton_fields [simp]: "op_fields (op_skeleton x) = op_fields x"
  by (simp add: op_skeleton_def set_mod_type_def)

lemma skeleton_sel [simp]: "ai_insn (skeleton a) = ai_insn a" "ai_op_literal (skeleton a) = ai_op_literal a"
  "ai_const_fields (skeleton a) = ai_const_fields a" "ai_pseudolist (skeleton a) = ai_pseudolist a"
  "ai_num_pseudo (skeleton a) = ai_num_pseudo a" "ai_operands (skeleton a) = map op_skeleton (ai_operands a)"
  by (simp_all add: skeleton_def)

lemma generable_skeleton: "generable fmts instrs (skeleton a) = generable fmts instrs a"
  by (simp add: generable_def string_fits_def in_range_def list_all_length split: option.split)

lemma walk_formats_find:
  "walk_formats name n fmts = Some (fid, p) \<Longrightarrow> find_first (\<lambda>p. strcmp name (format_name p) = 0) fmts = Some p"
  by (induction fmts arbitrary: n) (auto split: if_splits)

lemma encode_fields_returns:
  "list_all (field_ok p) fs \<Longrightarrow> \<exists>e'. encode_fields_from e fs = Ret e'"
  by (induction fs arbitrary: e) (auto simp: field_ok_def c_shl_def)

lemma fits_end:
  assumes "fits n f s"
  shows "unat (n - f - 1) < 32" "unat (n - f - 1 + s - 1) < 32"
proof -
  have a: "n - f - 1 = n - (f + 1)" by simp
  note F = fits_shifts [OF assms]
  show "unat (n - f - 1) < 32" unfolding a using F by simp
  have s: "unat (s - 1) = unat s - 1" using assms by (auto simp: fits_def unat_minus_one unat_gt_0)
  have "unat (n - (f + 1) + (s - 1)) < 32"
    using assms F(1) by (subst unat_word_ariths, intro le_less_trans [OF mod_less_eq_dividend])
      (auto simp: s fits_def low_bit_def)
  moreover have "n - f - 1 + s - 1 = n - (f + 1) + (s - 1)" by simp
  ultimately show "unat (n - f - 1 + s - 1) < 32" by (simp only:)
qed

lemma encode_positions_returns:
  "list_all (field_ok p) fs \<Longrightarrow> \<exists>e'. encode_positions_from (of_int (format_size p)) e fs = Ret e'"
proof (induction fs arbitrary: e)
  case (Cons f fs)
  then have "fits (of_int (format_size p)) (aif_first_bit f) (aif_size f)" by (simp add: field_ok_def)
  from fits_end [OF this] Cons show ?case by (simp add: Let_def c_shl_def)
qed simp

lemma new_oper_returns:
  assumes "generable fmts instrs a" "ai_insn a = Some k" "x \<in> set (ai_operands a)"
  shows "\<exists>y. new_oper fmts instrs a k x = Ret y"
proof -
  obtain fid p where p: "walk_formats (instr_format (instrs ! k)) 0 fmts = Some (fid, p)"
    "list_all (field_ok p) (op_fields x)"
    using assms by (auto simp: generable_def list_all_iff split: option.splits)
  have "get_insn_size fmts instrs a = Ret (of_int (format_size p))"
    using assms(2) walk_formats_find [OF p(1)] by (simp add: get_insn_size_def)
  moreover obtain e where "encode_fields (op_fields x) = Ret e"
    using encode_fields_returns [OF p(2)] by (auto simp: encode_fields_def)
  moreover obtain e' where "encode_fields_positions (op_fields x) (of_int (format_size p)) = Ret e'"
    using encode_positions_returns [OF p(2)] by (auto simp: encode_fields_positions_def)
  ultimately show ?thesis by (simp add: new_oper_def)
qed

lemma enter_operands_returns:
  "\<forall>x \<in> set xs. \<exists>y. new_oper fmts instrs a k x = Ret y \<Longrightarrow> \<exists>r. enter_operands fmts instrs a k ops xs = Ret r"
proof (induction xs arbitrary: ops)
  case (Cons x xs)
  then obtain y where y: "new_oper fmts instrs a k x = Ret y" by auto
  obtain ops1 i where 1: "enter_operand ops y = (ops1, i)" by fastforce
  obtain r where "enter_operands fmts instrs a k ops1 xs = Ret r" using Cons.IH [of ops1] Cons.prems by auto
  with y 1 show ?case by (cases r) simp
qed simp

lemma enter_insns_returns:
  "\<forall>a \<in> set as. generable fmts instrs a \<Longrightarrow> \<exists>r. enter_insns fmts instrs ops as = Ret r"
proof (induction as arbitrary: ops)
  case (Cons a as)
  show ?case
  proof (cases "ai_insn a")
    case None
    with Cons.IH [of ops] Cons.prems show ?thesis by auto
  next
    case (Some k)
    have "\<forall>x \<in> set (ai_operands a). \<exists>y. new_oper fmts instrs a k x = Ret y"
      using new_oper_returns [OF _ Some] Cons.prems by simp
    from enter_operands_returns [OF this] obtain ops1 xs where
      "enter_operands fmts instrs a k ops (ai_operands a) = Ret (ops1, xs)" by (metis surj_pair)
    moreover obtain r where "enter_insns fmts instrs ops1 as = Ret r" using Cons.IH [of ops1] Cons.prems by auto
    ultimately show ?thesis using Some by (cases r) auto
  qed
qed simp

definition ids_fit :: "ac_asm_insn \<Rightarrow> bool" where
  "ids_fit a \<longleftrightarrow> (\<forall>x \<in> set (ai_operands a). int32 (op_oper_id x))"

lemma type_operands_ids: "type_operands ms xs = (ms', xs') \<Longrightarrow> map op_oper_id xs' = map op_oper_id xs"
  by (induction ms xs arbitrary: ms' xs' rule: type_operands.induct)
    (auto simp: set_mod_type_def split: option.splits prod.splits)

lemma type_insns_ids: "type_insns ms as = (ms', as') \<Longrightarrow> \<forall>a \<in> set as. ids_fit a \<Longrightarrow> \<forall>a \<in> set as'. ids_fit a"
proof (induction ms as arbitrary: ms' as' rule: type_insns.induct)
  case (2 ms a as)
  obtain ms1 xs where 1: "type_operands ms (ai_operands a) = (ms1, xs)" by fastforce
  then obtain bs where bs: "type_insns ms1 as = (ms', bs)" "as' = a\<lparr>ai_operands := xs\<rparr> # bs"
    using 2(2) by (auto split: prod.splits)
  have "op_oper_id ` set xs = op_oper_id ` set (ai_operands a)"
    using arg_cong [OF type_operands_ids [OF 1], of set] by simp
  then have "ids_fit (a\<lparr>ai_operands := xs\<rparr>)" using 2(3) unfolding ids_fit_def by simp (metis imageE imageI)
  with 2(1) [OF 1 [symmetric] refl bs(1)] 2(3) show ?case by (simp add: bs(2))
qed simp

lemma enter_operands_ids:
  "enter_operands fmts instrs a k ops xs = Ret (ops', xs') \<Longrightarrow> \<forall>x \<in> set xs'. int32 (op_oper_id x)"
proof (induction xs arbitrary: ops ops' xs')
  case (Cons x xs)
  obtain oper where oper: "new_oper fmts instrs a k x = Ret oper" using Cons.prems by auto
  obtain ops1 i where 1: "enter_operand ops oper = (ops1, i)" by fastforce
  from Cons.prems oper 1 obtain ys where "enter_operands fmts instrs a k ops1 xs = Ret (ops', ys)"
    "xs' = x\<lparr>op_oper_id := sint i\<rparr> # ys" by auto
  with Cons.IH [OF this(1)] show ?case by simp
qed simp

lemma enter_insns_ids:
  "enter_insns fmts instrs ops as = Ret (ops', as') \<Longrightarrow> \<forall>a \<in> set as. ids_fit a \<Longrightarrow> \<forall>a \<in> set as'. ids_fit a"
proof (induction as arbitrary: ops ops' as')
  case (Cons a as)
  then show ?case
    by (cases "ai_insn a") (fastforce simp: ids_fit_def dest: enter_operands_ids)+
qed simp

lemma reachable_ids: "asm_reachable s \<Longrightarrow> \<forall>a \<in> set (asm_insn_list s). ids_fit a"
  using asm_reachable_lit by (fastforce simp: lit_ok_def lit_insn_def ids_fit_def int32_def)

lemma skeleton_origin: "map skeleton as' = map skeleton as \<Longrightarrow> a \<in> set as' \<Longrightarrow> \<exists>b \<in> set as. skeleton a = skeleton b"
  by (metis (no_types, lifting) imageE image_eqI list.set_map)

lemma create_operand_list_ids:
  assumes "create_operand_list fmts instrs init_opcodes asml = Ret (st, asml')" "\<forall>a \<in> set asml. ids_fit a"
  shows "\<forall>a \<in> set asml'. ids_fit a"
  using assms
  by (auto simp: create_operand_list_def create_modifier_list_def init_opcodes_def split: prod.splits
      dest!: type_insns_ids enter_insns_ids)

lemma insn_image_returns:
  assumes "generable fmts instrs a"
  shows "\<exists>r. insn_image fmts instrs (a\<lparr>ai_operands := xs\<rparr>) = Ret r"
proof (cases "ai_insn a")
  case None
  then show ?thesis by (simp add: insn_image_def)
next
  case (Some k)
  then obtain fid p where p: "walk_formats (instr_format (instrs ! k)) 0 fmts = Some (fid, p)" "in_range p (instrs ! k) a"
    using assms by (auto simp: generable_def split: option.splits)
  have "insn_image fmts instrs (a\<lparr>ai_operands := xs\<rparr>) = insn_image fmts instrs a"
    by (simp add: insn_image_def split: option.split)
  with insn_image_describes [OF Some p] show ?thesis by auto
qed

definition printable :: "ac_asm_insn \<Rightarrow> bool" where
  "printable a \<longleftrightarrow> (\<exists>lit. ai_op_literal a = Some lit \<and> literal lit (length (ai_operands a))) \<and> ids_fit a"

lemma opcode_row_returns:
  assumes "generable fmts instrs a" "printable a"
  shows "\<exists>r. opcode_row fmts instrs ops n a = Ret r"
proof -
  obtain lit where lit: "ai_op_literal a = Some lit" "literal lit (length (ai_operands a))"
    using assms(2) by (auto simp: printable_def)
  have "length ([] :: string) + length lit + 12 * length (ai_operands a) < 100"
    using assms(1) lit(1) by (simp add: generable_def string_fits_def)
  from operand_string_ok [OF lit(2) _ this, of ops] assms(2) obtain out xs where
    "operand_string ops [] (ai_operands a) lit = Ret (out, xs)" by (auto simp: printable_def ids_fit_def)
  moreover obtain img dm fid where "insn_image fmts instrs (a\<lparr>ai_operands := xs\<rparr>) = Ret ((img, dm), fid)"
    using insn_image_returns [OF assms(1), of xs] by (metis surj_pair)
  ultimately show ?thesis using lit(1) by (simp add: opcode_row_def create_operand_string_def)
qed

lemma opcode_rows_returns:
  "\<forall>a \<in> set as. generable fmts instrs a \<and> printable a \<Longrightarrow> \<exists>r. opcode_rows fmts instrs ops n as = Ret r"
proof (induction as arbitrary: n)
  case (Cons a as)
  obtain row a' where "opcode_row fmts instrs ops n a = Ret (row, a')"
    using opcode_row_returns Cons.prems by (metis list.set_intros(1) surj_pair)
  moreover obtain r where "opcode_rows fmts instrs ops (next_pseudo_idx n a) as = Ret r"
    using Cons.IH [of "next_pseudo_idx n a"] Cons.prems by auto
  ultimately show ?case by (cases r) simp
qed simp

lemma printable_after:
  assumes "asm_reachable s" "create_operand_list fmts instrs init_opcodes (asm_insn_list s) = Ret (st, asml)" "a \<in> set asml"
  shows "printable a \<and> (\<exists>b \<in> set (asm_insn_list s). skeleton a = skeleton b)"
proof -
  obtain b where b: "b \<in> set (asm_insn_list s)" "skeleton a = skeleton b"
    using skeleton_origin [OF create_operand_list_ok(2) [OF assms(2)] assms(3)] by blast
  have lit: "lit_insn b" "ai_op_literal b \<noteq> None" using asm_reachable_lit [OF assms(1)] b(1) by (auto simp: lit_ok_def)
  have "map op_skeleton (ai_operands a) = map op_skeleton (ai_operands b)" "ai_op_literal a = ai_op_literal b"
    by (metis skeleton_sel(6) b(2), metis skeleton_sel(2) b(2))
  from map_eq_imp_length_eq [OF this(1)] this(2)
  have "ai_op_literal a = ai_op_literal b" "length (ai_operands a) = length (ai_operands b)" by blast+
  moreover have "ids_fit a" using create_operand_list_ids [OF assms(2) reachable_ids [OF assms(1)]] assms(3) by blast
  ultimately show ?thesis using lit b by (auto simp: printable_def lit_insn_def)
qed

subsection \<open>Properties\<close>

text \<open>The table of modifiers starts with the default, has each name once with its position as
  identifier, and the type stored in an operand is the identifier of its modifier, or 0.\<close>
theorem modifier_table:
  "case create_modifier_list asml of (ms, asml') \<Rightarrow>
     take 1 ms = [default_modifier] \<and> distinct (map ml_name ms) \<and> (\<forall>i < length ms. ml_id (ms ! i) = int i) \<and>
     (\<forall>a \<in> set asml'. \<forall>x \<in> set (ai_operands a). mod_type_ok ms x) \<and> map skeleton asml' = map skeleton asml"
proof -
  obtain ms asml' where 1: "type_insns [default_modifier] asml = (ms, asml')" by fastforce
  have "modifiers_ok [default_modifier]" by (simp add: modifiers_ok_def default_modifier_def)
  from type_insns_ok [OF 1 this] type_insns_skeleton [OF 1] show ?thesis
    by (simp add: create_modifier_list_def 1 modifiers_ok_def)
qed

theorem modifier_table_witness:
  "let ms = fst (create_modifier_list (asm_insn_list demo_insn2)) in
     take 1 ms = [default_modifier] \<and> distinct (map ml_name ms)"
  using modifier_table [of "asm_insn_list demo_insn2"] by (auto simp: Let_def split: prod.splits)

lemma sint_of_nat_small: "j < 2 ^ 31 \<Longrightarrow> sint (of_nat j :: u32) = int j"
proof -
  assume "j < 2 ^ 31"
  then have "signed_take_bit 31 (int j) = int j" by (intro signed_take_bit_int_eq_self) simp_all
  then show ?thesis by (simp add: signed_of_nat)
qed

text \<open>C24: the table of operands. Its entries have their positions as identifiers and no two of them
  are the same; the identifier of each operand of a native instruction is the position of an
  entry that is the same as the operand, and nothing else of the instructions changes.\<close>
theorem operand_table:
  assumes "create_operand_list fmts instrs init_opcodes asml = Ret (st, asml')" "length (operand_list st) < 2 ^ 31"
  shows "(\<forall>i < length (operand_list st). ol_id (operand_list st ! i) = of_nat i) \<and>
    (\<forall>i < length (operand_list st). \<forall>j < length (operand_list st).
       same_operand (operand_list st ! i) (operand_list st ! j) \<longrightarrow> i = j) \<and>
    (\<forall>a \<in> set asml'. \<forall>k. ai_insn a = Some k \<longrightarrow> (\<forall>x \<in> set (ai_operands a). \<exists>j y.
       j < length (operand_list st) \<and> op_oper_id x = int j \<and>
       new_oper fmts instrs a k x = Ret y \<and> same_operand (operand_list st ! j) y)) \<and>
    map skeleton asml' = map skeleton asml"
proof -
  have "\<exists>j y. j < length (operand_list st) \<and> op_oper_id x = int j \<and> new_oper fmts instrs a k x = Ret y \<and>
      same_operand (operand_list st ! j) y"
    if "a \<in> set asml'" "ai_insn a = Some k" "x \<in> set (ai_operands a)" for a k x
    using create_operand_list_ok(3) [OF assms(1) that] assms(2) sint_of_nat_small
    unfolding stands_for_def by (metis less_trans)
  with create_operand_list_ok(1,2) [OF assms(1)] show ?thesis by (simp add: operands_ok_def)
qed

definition demo_insn3 :: asm_insn_state where
  "demo_insn3 = fst (the (pseudodec_action demo_maps demo_names ''nop'' [''sub'', ''sub''] demo_insn1))"

definition demo_tables :: "opcodes_state \<times> ac_asm_insn list" where
  "demo_tables = (case create_operand_list [demo_format] demo_names init_opcodes (asm_insn_list demo_insn3) of Ret r \<Rightarrow> r)"

definition demo_rows :: "acasm_opcode list \<times> ac_asm_insn list" where
  "demo_rows = (case opcode_rows [demo_format] demo_names (operand_list (fst demo_tables)) 1 (snd demo_tables) of Ret r \<Rightarrow> r)"

lemma demo_insn3:
  "pseudodec_action demo_maps demo_names ''nop'' [''sub'', ''sub''] demo_insn1 = Some (demo_insn3, [])"
  "create_operand_list [demo_format] demo_names init_opcodes (asm_insn_list demo_insn3) = Ret (fst demo_tables, snd demo_tables)"
  "opcode_rows [demo_format] demo_names (operand_list (fst demo_tables)) 1 (snd demo_tables) = Ret (fst demo_rows, snd demo_rows)"
  "map ai_pseudolist (snd demo_tables) = [[''sub'', ''sub''], []]"
  by code_simp+

lemma demo_insn3_reachable: "asm_reachable demo_insn3"
  by (rule asm_next [OF demo_insn_reachable(1) asm_pseudo [OF demo_insn3(1)]])

theorem operand_table_witness:
  "map skeleton (snd demo_tables) = map skeleton (asm_insn_list demo_insn3)"
proof -
  have "length (operand_list (fst demo_tables)) = 1" by code_simp
  with operand_table [OF demo_insn3(2)] show ?thesis by simp
qed

text \<open>The indices of the opcode table. Each row has the mnemonic of its instruction; the row of
  an instruction without pseudo list has index 0, and otherwise the entries of the pseudo table
  from its index on are the members of the list and the end mark.\<close>
theorem pseudo_index_exact:
  assumes "asm_reachable s" "create_operand_list fmts instrs init_opcodes (asm_insn_list s) = Ret (st, asml)"
    "opcode_rows fmts instrs (operand_list st) 1 asml = Ret (rows, asml')"
  shows "list_all2 (\<lambda>a row. oc_mnemonic row = ai_mnemonic a \<and>
      (if ai_pseudolist a = [] then oc_pseudo_idx row = 0
       else take (length (ai_pseudolist a) + 1) (drop (oc_pseudo_idx row) (None # pseudo_entries asml'))
         = map Some (ai_pseudolist a) @ [None])) asml rows"
proof -
  have "ai_num_pseudo a = length (ai_pseudolist a)" if a: "a \<in> set asml" for a
  proof -
    obtain b where b: "b \<in> set (asm_insn_list s)" "skeleton a = skeleton b"
      using printable_after [OF assms(1,2) a] by blast
    have "ai_num_pseudo b = length (ai_pseudolist b)"
      using asm_reachable_ok [OF assms(1)] b(1) by (simp add: lists_ok_def listed_ok_def)
    with b(2) show ?thesis by (metis skeleton_sel(4,5))
  qed
  then have R: "list_all2 (indexed 1 (pseudo_entries asml)) asml rows" "pseudo_entries asml' = pseudo_entries asml"
    using opcode_rows_indexed [OF assms(3)] by blast+
  show ?thesis
    unfolding R(2) by (rule list_all2_mono [OF R(1)]) (auto simp: indexed_def drop_Cons' split: if_splits)
qed

theorem pseudo_index_exact_witness:
  "list_all2 (\<lambda>a row. oc_mnemonic row = ai_mnemonic a) (snd demo_tables) (fst demo_rows)"
  by (rule list_all2_mono [OF pseudo_index_exact [OF demo_insn3_reachable demo_insn3(2,3)]]) simp



text \<open>A literal of 100 characters or more, which the parser of \<open>set_asm\<close> accepts, does not fit the
  buffer of the string of arguments: the generator writes behind it.\<close>
theorem long_literal_undefined:
  assumes "ai_op_literal a = Some lit" "100 \<le> length lit"
  shows "create_operand_string ops a = Undef"
proof -
  have "operand_string ops out xs l \<noteq> Exit" for out xs l
  proof (induction ops out xs l rule: operand_string.induct)
    case (2 ops out xs c lit)
    then show ?case
      by (auto simp: put_def operand_tag_def Let_def split: list.splits if_splits)
  qed (simp add: put_def)
  moreover have "operand_string ops [] (ai_operands a) lit \<noteq> Ret r" for r
    using operand_string_needs [of ops "[]" "ai_operands a" lit r] assms(2) by auto
  ultimately have "operand_string ops [] (ai_operands a) lit = Undef" by (metis run.exhaust)
  with assms(1) show ?thesis by (simp add: create_operand_string_def)
qed

definition demo_long :: asm_insn_state where
  "demo_long = fst (the (asmdec_action demo_maps demo_names (Some demo_format) 0 (''sub '' @ replicate 100 CHR ''a'') [] init_asm_insn))"

theorem long_literal_undefined_witness:
  "asmdec_action demo_maps demo_names (Some demo_format) 0 (''sub '' @ replicate 100 CHR ''a'') [] init_asm_insn = Some (demo_long, []) \<and>
   create_operand_string [] (hd (asm_insn_list demo_long)) = Undef"
proof -
  let ?a = "hd (asm_insn_list demo_long)"
  have "asmdec_action demo_maps demo_names (Some demo_format) 0 (''sub '' @ replicate 100 CHR ''a'') [] init_asm_insn = Some (demo_long, [])"
    by code_simp
  moreover have "ai_op_literal ?a = Some (the (ai_op_literal ?a))" "100 \<le> length (the (ai_op_literal ?a))" by code_simp+
  ultimately show ?thesis using long_literal_undefined by blast
qed

lemma encode_fields_from_bits:
  "encode_fields_from e fs = Ret r \<Longrightarrow> bit r b \<longleftrightarrow> bit e b \<or> (b < 32 \<and> (\<exists>f \<in> set fs. unat (aif_id f) = b))"
proof (induction fs arbitrary: e)
  case (Cons f fs)
  then have f: "unat (aif_id f) < 32" "encode_fields_from (e OR push_bit (unat (aif_id f)) 1) fs = Ret r"
    by (auto simp: c_shl_def split: if_splits)
  from Cons.IH [OF f(2)] f(1) show ?case by (auto simp: bit_simps)
qed simp

text \<open>The order of concatenated fields is lost: two operands that differ only in the order of
  their fields get the same entry, so that the assembler encodes both in one way.\<close>
theorem field_order_lost:
  assumes "new_oper fmts instrs a k x = Ret y" "new_oper fmts instrs a k (x\<lparr>op_fields := rev (op_fields x)\<rparr>) = Ret z"
  shows "same_operand y z"
proof -
  obtain e e' where e: "encode_fields (op_fields x) = Ret e" "encode_fields (rev (op_fields x)) = Ret e'"
    using assms by (auto simp: new_oper_def)
  have "e = e'"
    using encode_fields_from_bits [OF e(1) [unfolded encode_fields_def]]
      encode_fields_from_bits [OF e(2) [unfolded encode_fields_def]]
    by (intro bit_word_eqI) simp
  with assms e show ?thesis by (auto simp: new_oper_def same_operand_def)
qed

definition demo_two_fields :: ac_operand_list where
  "demo_two_fields = (new_operand ''imm'' op_imm False None 0)\<lparr>op_fields :=
     [asm_field 0 (format_fields demo_op_format ! 0), asm_field 1 (format_fields demo_op_format ! 1)]\<rparr>"

theorem field_order_lost_witness:
  "\<exists>y z. new_oper [demo_op_format] [demo_op_instr] demo_op_insn 0 demo_two_fields = Ret y \<and>
     new_oper [demo_op_format] [demo_op_instr] demo_op_insn 0
       (demo_two_fields\<lparr>op_fields := rev (op_fields demo_two_fields)\<rparr>) = Ret z \<and> same_operand y z"
proof -
  let ?val = "\<lambda>r. case r of Ret y \<Rightarrow> (y :: oper_list)"
  let ?y = "new_oper [demo_op_format] [demo_op_instr] demo_op_insn 0 demo_two_fields"
  let ?z = "new_oper [demo_op_format] [demo_op_instr] demo_op_insn 0 (demo_two_fields\<lparr>op_fields := rev (op_fields demo_two_fields)\<rparr>)"
  have "?y = Ret (?val ?y)" "?z = Ret (?val ?z)" by code_simp+
  with field_order_lost show ?thesis by blast
qed

end
