(* ===== verification/Relocations.thy ===== *)
theory Relocations
  imports OpcodeTables
begin

text \<open>
  The relocations: \<open>archc/src/acbinutils/bfd.c\<close>. Each operand that is an address or an expression
  gets a relocation; three tables describe the relocations to the linker: the numbers of their
  types, the \<open>HOWTO\<close> rows, and the map from the codes of BFD to the types.
\<close>

subsection \<open>The list of relocations\<close>

record ac_relocation_type =
  rt_name :: string
  rt_id :: u32
  rt_operand_id :: u32

definition compare_relocs :: "ac_relocation_type \<Rightarrow> ac_relocation_type \<Rightarrow> bool" where
  "compare_relocs a b \<longleftrightarrow> rt_operand_id a = rt_operand_id b"

definition find_relocation :: "ac_relocation_type list \<Rightarrow> ac_relocation_type \<Rightarrow> ac_relocation_type option" where
  "find_relocation rels r = find_first (compare_relocs r) rels"

definition find_relocation_by_id :: "ac_relocation_type list \<Rightarrow> u32 \<Rightarrow> ac_relocation_type option" where
  "find_relocation_by_id rels i = find_first (\<lambda>r. rt_id r = i) rels"

text \<open>The buffer of the name has 128 characters.\<close>

definition reloc_name :: "string option \<Rightarrow> u32 \<Rightarrow> u32 \<Rightarrow> string run" where
  "reloc_name arch i oper =
     (case get_arch_name arch of
        None \<Rightarrow> Undef
      | Some a \<Rightarrow>
          (let s = ''R_'' @ a @ ''_ID'' @ dec_str_int (sint i) @ ''_Opr'' @ dec_str (unat oper) in
           if length s < 128 then Ret s else Undef))"

text \<open>The list is kept with the newest relocation first.\<close>

definition relocate_operand ::
  "string option \<Rightarrow> ac_operand_list \<Rightarrow> ac_relocation_type list \<Rightarrow> opcodes_state
     \<Rightarrow> (ac_operand_list \<times> ac_relocation_type list \<times> opcodes_state) run" where
  "relocate_operand arch x rels st =
     (let reloc = \<lparr>rt_name = [], rt_id = 0, rt_operand_id = of_int (op_oper_id x)\<rparr> in
      case find_relocation rels reloc of
        None \<Rightarrow>
          (let i = (case rels of [] \<Rightarrow> 1 | r # _ \<Rightarrow> rt_id r + 1) in
           run_then (reloc_name arch i (rt_operand_id reloc)) (\<lambda>name.
           run_then (update_oper_list (op_oper_id x) i st) (\<lambda>st.
             Ret (x\<lparr>op_reloc_id := i\<rparr>, reloc\<lparr>rt_name := name, rt_id := i\<rparr> # rels, st))))
      | Some r \<Rightarrow>
          run_then (update_oper_list (op_oper_id x) (rt_id r) st) (\<lambda>st.
            Ret (x\<lparr>op_reloc_id := rt_id r\<rparr>, rels, st)))"

fun process_instruction_relocation ::
  "string option \<Rightarrow> ac_operand_list list \<Rightarrow> ac_relocation_type list \<Rightarrow> opcodes_state
     \<Rightarrow> (ac_operand_list list \<times> ac_relocation_type list \<times> opcodes_state) run" where
  "process_instruction_relocation arch [] rels st = Ret ([], rels, st)"
| "process_instruction_relocation arch (x # xs) rels st =
     run_then (if op_type x \<noteq> op_addr \<and> op_type x \<noteq> op_exp then Ret (x, rels, st) else relocate_operand arch x rels st)
       (\<lambda>(x, rels, st). run_then (process_instruction_relocation arch xs rels st)
         (\<lambda>(xs, rels, st). Ret (x # xs, rels, st)))"

fun create_relocation_list ::
  "string option \<Rightarrow> ac_asm_insn list \<Rightarrow> ac_relocation_type list \<Rightarrow> opcodes_state
     \<Rightarrow> (ac_asm_insn list \<times> ac_relocation_type list \<times> opcodes_state) run" where
  "create_relocation_list arch [] rels st = Ret ([], rels, st)"
| "create_relocation_list arch (a # as) rels st =
     run_then (if ai_insn a = None then Ret (ai_operands a, rels, st)
               else process_instruction_relocation arch (ai_operands a) rels st)
       (\<lambda>(xs, rels, st). run_then (create_relocation_list arch as rels st)
         (\<lambda>(as, rels, st). Ret (a\<lparr>ai_operands := xs\<rparr> # as, rels, st)))"

subsection \<open>The tables\<close>

text \<open>
  The tables list the relocations with the identifiers 1, 2, 3 and so on up to the first that is
  not there. Should all identifiers be taken the loop would not end; then the result is
  \<open>None\<close>.
\<close>

partial_function (option) relocs_from :: "ac_relocation_type list \<Rightarrow> u32 \<Rightarrow> ac_relocation_type list option" where
  "relocs_from rels reloc_id =
     (case find_relocation_by_id rels reloc_id of
        None \<Rightarrow> Some []
      | Some r \<Rightarrow> Option.bind (relocs_from rels (reloc_id + 1)) (\<lambda>rs. Some (r # rs)))"

definition fixed_types :: "(string \<times> nat) list" where
  "fixed_types = zip [''NONE'', ''RELATIVE'', ''COPY'', ''JUMP_SLOT'', ''GLOB_DAT'', ''8'', ''16'', ''32'',
     ''REL8'', ''REL16'', ''REL32'', ''GOT'', ''GOTOFF'', ''PLT''] [0..<14]"

definition type_name :: "string \<Rightarrow> string \<Rightarrow> string" where
  "type_name a t = ''R_'' @ a @ ''_'' @ t"

definition reloc_number :: "ac_relocation_type \<Rightarrow> u32" where
  "reloc_number r = rt_id r + 36"

text \<open>The enumerators of the relocation types.\<close>

definition reloc_ids :: "string \<Rightarrow> ac_relocation_type list \<Rightarrow> (string \<times> u32) list" where
  "reloc_ids a rs = map (\<lambda>(t, n). (type_name a t, of_nat n)) fixed_types @ map (\<lambda>r. (rt_name r, reloc_number r)) rs"

text \<open>The lines differ in the blanks before the number.\<close>

definition id_line :: "string \<times> u32 \<Rightarrow> nat \<Rightarrow> string" where
  "id_line row blanks = IND1 @ ''RELOC_NUMBER ('' @ fst row @ '','' @ replicate blanks CHR '' '' @
     dec_str_int (sint (snd row)) @ '')'' @ newline"

definition id_blanks :: "nat list" where
  "id_blanks = [1, 2, 1, 1, 1, 2, 1, 1, 2, 1, 1, 2, 1, 1]"

definition CreateRelocIds :: "bool \<Rightarrow> string option \<Rightarrow> ac_relocation_type list \<Rightarrow> (int \<times> string) run" where
  "CreateRelocIds opened arch rels =
     (if \<not> opened then Ret (0, [])
      else case (get_arch_name arch, relocs_from rels 1) of
        (Some a, Some rs) \<Rightarrow>
          Ret (1, concat (map2 id_line (reloc_ids a rs) (id_blanks @ replicate (length rs) 1)))
      | _ \<Rightarrow> Undef)"

datatype special_function = Bfd_elf_archc_reloc | Generic_data_reloc
datatype complain = complain_overflow_dont | complain_overflow_bitfield

record howto_row =
  ht_type :: string
  ht_rightshift :: u32
  ht_size :: nat
  ht_bitsize :: nat
  ht_pc_relative :: bool
  ht_bitpos :: nat
  ht_complain :: complain
  ht_function :: special_function
  ht_name :: string
  ht_partial_inplace :: bool
  ht_src_mask :: u32
  ht_dst_mask :: u32
  ht_pcrel_offset :: bool

definition no_howto :: "string \<Rightarrow> howto_row" where
  "no_howto t = \<lparr>ht_type = t, ht_rightshift = 0, ht_size = 0, ht_bitsize = 0, ht_pc_relative = False, ht_bitpos = 0,
     ht_complain = complain_overflow_dont, ht_function = Bfd_elf_archc_reloc, ht_name = t,
     ht_partial_inplace = False, ht_src_mask = 0, ht_dst_mask = 0, ht_pcrel_offset = False\<rparr>"

definition data_howto :: "string \<Rightarrow> nat \<Rightarrow> nat \<Rightarrow> bool \<Rightarrow> howto_row" where
  "data_howto t sz bits pcrel = \<lparr>ht_type = t, ht_rightshift = 0, ht_size = sz, ht_bitsize = bits, ht_pc_relative = pcrel,
     ht_bitpos = 0, ht_complain = complain_overflow_bitfield, ht_function = Generic_data_reloc, ht_name = t,
     ht_partial_inplace = False, ht_src_mask = 0, ht_dst_mask = mask bits, ht_pcrel_offset = True\<rparr>"

definition reloc_howto :: "ac_relocation_type \<Rightarrow> howto_row" where
  "reloc_howto r = \<lparr>ht_type = rt_name r, ht_rightshift = rt_operand_id r, ht_size = 0, ht_bitsize = 0,
     ht_pc_relative = False, ht_bitpos = 0, ht_complain = complain_overflow_dont, ht_function = Bfd_elf_archc_reloc,
     ht_name = rt_name r, ht_partial_inplace = True, ht_src_mask = 0, ht_dst_mask = 0, ht_pcrel_offset = True\<rparr>"

definition none_rows :: "string \<Rightarrow> howto_row list" where
  "none_rows a = map (\<lambda>t. no_howto (type_name a t)) [''NONE'', ''RELATIVE'', ''COPY'', ''JUMP_SLOT'', ''GLOB_DAT'']"

definition data_rows :: "string \<Rightarrow> howto_row list" where
  "data_rows a = map (\<lambda>(t, sz, bits, pcrel). data_howto (type_name a t) sz bits pcrel)
     [(''8'', 0, 8, False), (''16'', 1, 16, False), (''32'', 2, 32, False),
      (''REL8'', 0, 8, True), (''REL16'', 1, 16, True), (''REL32'', 2, 32, True),
      (''GOT'', 2, 32, True), (''GOTOFF'', 2, 32, True), (''PLT'', 2, 32, True)]"

definition howto_table :: "string \<Rightarrow> ac_relocation_type list \<Rightarrow> howto_row list" where
  "howto_table a rs = none_rows a @ data_rows a @ map reloc_howto rs"

definition show_bool :: "bool \<Rightarrow> string" where
  "show_bool b = (if b then ''TRUE'' else ''FALSE'')"

definition show_complain :: "complain \<Rightarrow> string" where
  "show_complain c = (case c of complain_overflow_dont \<Rightarrow> ''complain_overflow_dont''
     | complain_overflow_bitfield \<Rightarrow> ''complain_overflow_bitfield'')"

definition show_function :: "special_function \<Rightarrow> string" where
  "show_function f = (case f of Bfd_elf_archc_reloc \<Rightarrow> ''bfd_elf_archc_reloc'' | Generic_data_reloc \<Rightarrow> ''generic_data_reloc'')"

text \<open>The data rows are lined up in columns: \<open>pad\<close> blanks come behind the commas.\<close>

definition howto_line :: "nat \<Rightarrow> nat \<Rightarrow> string \<Rightarrow> howto_row \<Rightarrow> string" where
  "howto_line pad fn_pad masks h =
     (let sp = replicate (pad + 1) CHR '' '' in
      IND1 @ ''HOWTO ('' @ ht_type h @ '','' @ sp @ dec_str_int (sint (ht_rightshift h)) @ '', '' @ dec_str (ht_size h) @
      '','' @ sp @ dec_str (ht_bitsize h) @ '', '' @ show_bool (ht_pc_relative h) @ '', '' @ dec_str (ht_bitpos h) @ '', '' @
      show_complain (ht_complain h) @ '', '' @ show_function (ht_function h) @ '','' @ replicate (fn_pad + 1) CHR '' '' @
      quoted (ht_name h) @ '','' @ replicate (2 * fn_pad) CHR '' '' @ sp @ show_bool (ht_partial_inplace h) @ '', '' @ masks @
      '', '' @ show_bool (ht_pcrel_offset h) @ ''),'' @ newline)"

definition none_line :: "howto_row \<Rightarrow> string" where
  "none_line h = howto_line 0 0 ''0, 0'' h"

definition data_line :: "howto_row \<Rightarrow> string" where
  "data_line h = howto_line (if ht_bitsize h = 8 then 1 else 0) 1 (''0, 0x'' @ hex8 False (unat (ht_dst_mask h))) h"

definition reloc_line :: "howto_row \<Rightarrow> string" where
  "reloc_line h = howto_line 0 0 (''0x'' @ hex_str False (unat (ht_src_mask h)) @ '', 0x'' @ hex_str False (unat (ht_dst_mask h))) h"

definition CreateRelocHowto :: "bool \<Rightarrow> string option \<Rightarrow> ac_relocation_type list \<Rightarrow> (int \<times> string) run" where
  "CreateRelocHowto opened arch rels =
     (if \<not> opened then Ret (0, [])
      else case (get_arch_name arch, relocs_from rels 1) of
        (Some a, Some rs) \<Rightarrow> Ret (1, concat (map none_line (none_rows a) @ map data_line (data_rows a) @ map reloc_line (map reloc_howto rs)))
      | _ \<Rightarrow> Undef)"

text \<open>The first row is that of \<open>BFD_RELOC_NONE\<close>, an enumerator of BFD.\<close>

definition reloc_map :: "string \<Rightarrow> ac_relocation_type list \<Rightarrow> (u32 option \<times> string) list" where
  "reloc_map a rs = map (\<lambda>(t, n). (if n = 0 then None else Some (of_nat n), type_name a t)) fixed_types @
     map (\<lambda>r. (Some (reloc_number r), rt_name r)) rs"

definition map_line :: "u32 option \<times> string \<Rightarrow> nat \<Rightarrow> string" where
  "map_line row blanks = IND1 @ ''{ '' @ (case fst row of None \<Rightarrow> ''BFD_RELOC_NONE'' | Some n \<Rightarrow> dec_str_int (sint n)) @
     '', '' @ snd row @ replicate blanks CHR '' '' @ ''},'' @ newline"

definition map_blanks :: "nat list" where
  "map_blanks = [1, 2, 2, 2, 2, 2, 1, 1, 2, 1, 1, 2, 1, 1]"

definition CreateRelocMap :: "bool \<Rightarrow> string option \<Rightarrow> ac_relocation_type list \<Rightarrow> (int \<times> string) run" where
  "CreateRelocMap opened arch rels =
     (if \<not> opened then Ret (0, [])
      else case (get_arch_name arch, relocs_from rels 1) of
        (Some a, Some rs) \<Rightarrow>
          Ret (1, concat (map2 map_line (reloc_map a rs) (map_blanks @ replicate (length rs) 1)))
      | _ \<Rightarrow> Undef)"

end
