(* ===== verification/RelocCorrect.thy ===== *)
theory RelocCorrect
  imports Relocations
begin

text \<open>
  The relocations and the table of operands fit together: one relocation for each operand of an
  address or expression, numbered without gaps, and entered into the operands.
\<close>

subsection \<open>Entering a relocation\<close>

lemma put_reloc_position:
  assumes "\<forall>i < length ops. ol_id (ops ! i) = of_nat (k + i)" "j < length ops" "k + length ops < 2 ^ 32"
  shows "put_reloc (of_nat (k + j)) r ops = Some (ops[j := (ops ! j)\<lparr>ol_reloc_id := r\<rparr>])"
  using assms
proof (induction ops arbitrary: k j)
  case (Cons x ops)
  have x: "ol_id x = of_nat k" using Cons.prems(1) by (metis add_0_right length_greater_0_conv list.distinct(1) nth_Cons_0)
  show ?case
  proof (cases j)
    case 0
    with x show ?thesis by simp
  next
    case (Suc m)
    have "(of_nat k :: u32) \<noteq> of_nat (k + j)"
    proof -
      have "k < 2 ^ 32" "k + j < 2 ^ 32" using Cons.prems(2,3) by simp_all
      from of_nat_eq_iff_u32 [OF this] Suc show ?thesis by (simp del: of_nat_add of_nat_Suc)
    qed
    moreover have "\<forall>i < length ops. ol_id (ops ! i) = of_nat (Suc k + i)"
      using Cons.prems(1) by (metis Suc_less_eq add_Suc_shift length_Cons nth_Cons_Suc)
    moreover have "m < length ops" "Suc k + length ops < 2 ^ 32" using Cons.prems(2,3) Suc by auto
    ultimately show ?thesis using Cons.IH [of "Suc k" m] x Suc by simp
  qed
qed simp

text \<open>The relocation of the operand with a position, and the table with the relocations entered.\<close>

definition reloc_of :: "ac_relocation_type list \<Rightarrow> nat \<Rightarrow> ac_relocation_type option" where
  "reloc_of rels j = find_first (\<lambda>r. rt_operand_id r = of_nat j) rels"

definition marked :: "ac_relocation_type list \<Rightarrow> nat \<Rightarrow> oper_list \<Rightarrow> oper_list" where
  "marked rels j x = (case reloc_of rels j of None \<Rightarrow> x | Some r \<Rightarrow> x\<lparr>ol_reloc_id := rt_id r\<rparr>)"

definition reloc_inv :: "string \<Rightarrow> oper_list list \<Rightarrow> ac_relocation_type list \<Rightarrow> oper_list list \<Rightarrow> bool" where
  "reloc_inv a ops0 rels ops \<longleftrightarrow> ops = map2 (marked rels) [0..<length ops0] ops0 \<and>
     (\<forall>i < length rels. rt_id (rev rels ! i) = of_nat (Suc i)) \<and> distinct (map rt_operand_id rels) \<and>
     (\<forall>r \<in> set rels. unat (rt_operand_id r) < length ops0 \<and> reloc_name (Some a) (rt_id r) (rt_operand_id r) = Ret (rt_name r))"

lemma marked_id [simp]: "ol_id (marked rels j x) = ol_id x"
  by (simp add: marked_def split: option.split)

lemma reloc_inv_length: "reloc_inv a ops0 rels ops \<Longrightarrow> length rels \<le> length ops0"
proof -
  assume I: "reloc_inv a ops0 rels ops"
  have "distinct (map (\<lambda>r. unat (rt_operand_id r)) rels)"
    using I unfolding reloc_inv_def distinct_map by (auto simp: inj_on_def dest: unsigned_word_eqI)
  moreover have "set (map (\<lambda>r. unat (rt_operand_id r)) rels) \<subseteq> {..<length ops0}"
    using I by (auto simp: reloc_inv_def)
  ultimately show ?thesis
    by (metis card_lessThan card_mono distinct_card finite_lessThan length_map)
qed

lemma reloc_inv_nth:
  assumes "reloc_inv a ops0 rels ops" "j < length ops0"
  shows "length ops = length ops0" "ops ! j = marked rels j (ops0 ! j)"
  using assms by (simp_all add: reloc_inv_def)

lemma find_relocation_of:
  "find_relocation rels \<lparr>rt_name = [], rt_id = 0, rt_operand_id = of_nat j\<rparr> = reloc_of rels j"
proof -
  have "compare_relocs \<lparr>rt_name = [], rt_id = 0, rt_operand_id = of_nat j\<rparr> = (\<lambda>r. rt_operand_id r = of_nat j)"
    by (auto simp: compare_relocs_def)
  then show ?thesis by (simp add: find_relocation_def reloc_of_def)
qed

lemma reloc_name_fits: "length a \<le> 90 \<Longrightarrow> \<exists>s. reloc_name (Some a) i oper = Ret s"
proof -
  assume a: "length a \<le> 90"
  have "length (dec_str_int (sint i)) \<le> 11" by (rule dec_str_int_length) simp
  moreover have "length (dec_str (unat oper)) \<le> 10"
  proof -
    have "unat oper < 2 ^ LENGTH(32)" by (rule unsigned_less)
    with dec_str_length [of "unat oper" 9] show ?thesis by simp
  qed
  ultimately show ?thesis using a by (simp add: reloc_name_def get_arch_name_def)
qed

lemma new_id:
  assumes "\<forall>i < length rels. rt_id (rev rels ! i) = of_nat (Suc i)"
  shows "(case rels of [] \<Rightarrow> 1 | r # _ \<Rightarrow> rt_id r + 1) = (of_nat (Suc (length rels)) :: u32)"
proof (cases rels)
  case (Cons r rs)
  then have "rt_id r = of_nat (Suc (length rs))" using assms by (metis length_Cons lessI nth_append_length length_rev rev.simps(2))
  with Cons show ?thesis by simp
qed simp

lemma update_at:
  assumes "length ops0 < 2 ^ 31" "\<forall>i < length ops0. ol_id (ops0 ! i) = of_nat i"
    "reloc_inv a ops0 rels (operand_list st)" "j < length ops0"
  shows "update_oper_list (int j) r st =
    Ret (st\<lparr>operand_list := (operand_list st)[j := (operand_list st ! j)\<lparr>ol_reloc_id := r\<rparr>]\<rparr>)"
proof -
  have "length (operand_list st) = length ops0" using reloc_inv_nth(1) [OF assms(3,4)] .
  moreover have "\<forall>i < length (operand_list st). ol_id (operand_list st ! i) = of_nat (0 + i)"
    using assms(2,3) calculation by (simp add: reloc_inv_nth(2))
  ultimately have "put_reloc (of_nat (0 + j)) r (operand_list st) =
      Some ((operand_list st)[j := (operand_list st ! j)\<lparr>ol_reloc_id := r\<rparr>])"
    using assms(1,4) by (intro put_reloc_position) simp_all
  then show ?thesis by (simp add: update_oper_list_def)
qed

text \<open>What the operand of an address or expression gets.\<close>

definition relocated :: "ac_relocation_type list \<Rightarrow> ac_operand_list \<Rightarrow> bool" where
  "relocated rels x \<longleftrightarrow> op_type x \<noteq> op_addr \<and> op_type x \<noteq> op_exp \<or>
     (\<exists>r \<in> set rels. rt_operand_id r = of_int (op_oper_id x) \<and> rt_id r = op_reloc_id x)"

lemma relocated_more: "relocated rels x \<Longrightarrow> set rels \<subseteq> set rels' \<Longrightarrow> relocated rels' x"
  by (auto simp: relocated_def)

lemma relocate_operand_ok:
  assumes "length ops0 < 2 ^ 31" "\<forall>i < length ops0. ol_id (ops0 ! i) = of_nat i" "length a \<le> 90"
    and I: "reloc_inv a ops0 rels (operand_list st)" and x: "op_oper_id x = int j" "j < length ops0"
  shows "\<exists>i rels' st'. relocate_operand (Some a) x rels st = Ret (x\<lparr>op_reloc_id := i\<rparr>, rels', st') \<and>
    reloc_inv a ops0 rels' (operand_list st') \<and> modifier_list st' = modifier_list st \<and> set rels \<subseteq> set rels' \<and>
    (\<exists>r \<in> set rels'. rt_operand_id r = of_nat j \<and> rt_id r = i)"
proof (cases "reloc_of rels j")
  case (Some r)
  then have r: "r \<in> set rels" "rt_operand_id r = of_nat j"
    using find_first_SomeD [of _ rels r] by (auto simp: reloc_of_def)
  have "(operand_list st ! j)\<lparr>ol_reloc_id := rt_id r\<rparr> = operand_list st ! j"
    using reloc_inv_nth(2) [OF I x(2)] Some by (simp add: marked_def)
  then have "update_oper_list (int j) (rt_id r) st = Ret st"
    by (simp add: update_at [OF assms(1,2) I x(2)])
  then have "relocate_operand (Some a) x rels st = Ret (x\<lparr>op_reloc_id := rt_id r\<rparr>, rels, st)"
    using x(1) Some by (simp add: relocate_operand_def find_relocation_of Let_def)
  with I r show ?thesis by blast
next
  case None
  let ?i = "of_nat (Suc (length rels)) :: u32"
  obtain s where s: "reloc_name (Some a) ?i (of_nat j) = Ret s" using reloc_name_fits [OF assms(3)] by blast
  define r where "r = \<lparr>rt_name = s, rt_id = ?i, rt_operand_id = of_nat j\<rparr>"
  define st' where "st' = st\<lparr>operand_list := (operand_list st)[j := (operand_list st ! j)\<lparr>ol_reloc_id := ?i\<rparr>]\<rparr>"
  have ids: "\<forall>i < length rels. rt_id (rev rels ! i) = of_nat (Suc i)" using I by (simp add: reloc_inv_def)
  have step: "relocate_operand (Some a) x rels st = Ret (x\<lparr>op_reloc_id := ?i\<rparr>, r # rels, st')"
    using x(1) None s update_at [OF assms(1,2) I x(2)] new_id [OF ids]
    by (simp only: relocate_operand_def find_relocation_of Let_def of_int_of_nat_eq option.simps run_then.simps
        ac_relocation_type.simps r_def st'_def)
  have new: "\<forall>q \<in> set rels. rt_operand_id q \<noteq> of_nat j" using None by (simp add: reloc_of_def)
  have small: "unat (of_nat j :: u32) = j" using x(2) assms(1) by (simp add: unat_of_nat)
  have "operand_list st' = map2 (marked (r # rels)) [0..<length ops0] ops0"
  proof (rule nth_equalityI)
    have len: "length (operand_list st) = length ops0" using reloc_inv_nth(1) [OF I x(2)] .
    then show "length (operand_list st') = length (map2 (marked (r # rels)) [0..<length ops0] ops0)" by (simp add: st'_def)
    fix m assume "m < length (operand_list st')"
    then have m: "m < length ops0" using len by (simp add: st'_def)
    have inj: "(of_nat j :: u32) = of_nat m \<longleftrightarrow> j = m" using m x(2) assms(1) by (simp add: of_nat_eq_iff_u32)
    have "marked (r # rels) m (ops0 ! m) =
        (if j = m then (ops0 ! m)\<lparr>ol_reloc_id := ?i\<rparr> else marked rels m (ops0 ! m))"
      by (simp add: marked_def reloc_of_def r_def inj)
    moreover have "operand_list st ! j = ops0 ! j"
      using reloc_inv_nth(2) [OF I x(2)] None by (simp add: marked_def)
    ultimately show "operand_list st' ! m = map2 (marked (r # rels)) [0..<length ops0] ops0 ! m"
      using m len x(2) reloc_inv_nth(2) [OF I m] by (simp add: st'_def nth_list_update)
  qed
  moreover have "\<forall>i < length (r # rels). rt_id (rev (r # rels) ! i) = of_nat (Suc i)"
    using ids by (auto simp: nth_append r_def less_Suc_eq)
  moreover have "distinct (map rt_operand_id (r # rels))" using I new by (auto simp: reloc_inv_def r_def)
  moreover have "\<forall>q \<in> set (r # rels). unat (rt_operand_id q) < length ops0 \<and>
      reloc_name (Some a) (rt_id q) (rt_operand_id q) = Ret (rt_name q)"
    using I small x(2) s by (simp add: reloc_inv_def r_def)
  ultimately have "reloc_inv a ops0 (r # rels) (operand_list st')" by (simp only: reloc_inv_def simp_thms)
  moreover have "rt_operand_id r = of_nat j \<and> rt_id r = ?i" "modifier_list st' = modifier_list st"
    by (simp_all add: r_def st'_def)
  ultimately show ?thesis using step by (meson list.set_intros(1) set_subset_Cons)
qed


subsection \<open>All operands\<close>

definition native_in_table :: "nat \<Rightarrow> ac_asm_insn \<Rightarrow> bool" where
  "native_in_table n a \<longleftrightarrow> ai_insn a \<noteq> None \<longrightarrow> (\<forall>x \<in> set (ai_operands a). \<exists>j < n. op_oper_id x = int j)"

definition reloc_free :: "ac_operand_list \<Rightarrow> ac_operand_list" where
  "reloc_free x = x\<lparr>op_reloc_id := 0\<rparr>"

lemma process_instruction_ok:
  assumes "length ops0 < 2 ^ 31" "\<forall>i < length ops0. ol_id (ops0 ! i) = of_nat i" "length a \<le> 90"
    and "reloc_inv a ops0 rels (operand_list st)" "\<forall>x \<in> set xs. \<exists>j < length ops0. op_oper_id x = int j"
  shows "\<exists>xs' rels' st'. process_instruction_relocation (Some a) xs rels st = Ret (xs', rels', st') \<and>
    reloc_inv a ops0 rels' (operand_list st') \<and> modifier_list st' = modifier_list st \<and> set rels \<subseteq> set rels' \<and>
    (\<forall>x \<in> set xs'. relocated rels' x) \<and> map reloc_free xs' = map reloc_free xs"
  using assms(4,5)
proof (induction xs arbitrary: rels st)
  case (Cons x xs)
  obtain x' rels1 st1 where 1: "(if op_type x \<noteq> op_addr \<and> op_type x \<noteq> op_exp then Ret (x, rels, st) else relocate_operand (Some a) x rels st)
      = Ret (x', rels1, st1)" "reloc_inv a ops0 rels1 (operand_list st1)" "modifier_list st1 = modifier_list st"
      "set rels \<subseteq> set rels1" "relocated rels1 x'" "reloc_free x' = reloc_free x"
  proof (cases "op_type x \<noteq> op_addr \<and> op_type x \<noteq> op_exp")
    case True
    with Cons.prems(1) show ?thesis by (intro that [of x rels st]) (simp_all add: relocated_def)
  next
    case False
    obtain j where j: "op_oper_id x = int j" "j < length ops0" using Cons.prems(2) by auto
    obtain i rels' st' where "relocate_operand (Some a) x rels st = Ret (x\<lparr>op_reloc_id := i\<rparr>, rels', st')"
      "reloc_inv a ops0 rels' (operand_list st')" "modifier_list st' = modifier_list st" "set rels \<subseteq> set rels'"
      "\<exists>r \<in> set rels'. rt_operand_id r = of_nat j \<and> rt_id r = i"
      using relocate_operand_ok [OF assms(1-3) Cons.prems(1) j] by blast
    with False j(1) show ?thesis
      by (intro that [of "x\<lparr>op_reloc_id := i\<rparr>" rels' st']) (auto simp: relocated_def reloc_free_def)
  qed
  obtain xs' rels2 st2 where 2: "process_instruction_relocation (Some a) xs rels1 st1 = Ret (xs', rels2, st2)"
    "reloc_inv a ops0 rels2 (operand_list st2)" "modifier_list st2 = modifier_list st1" "set rels1 \<subseteq> set rels2"
    "\<forall>x \<in> set xs'. relocated rels2 x" "map reloc_free xs' = map reloc_free xs"
    using Cons.IH [OF 1(2)] Cons.prems(2) by auto
  have "process_instruction_relocation (Some a) (x # xs) rels st = Ret (x' # xs', rels2, st2)"
    using 1(1) 2(1) by simp
  moreover have "relocated rels2 x'" using 1(5) 2(4) by (rule relocated_more)
  ultimately show ?case using 1(3,4,6) 2 by (intro exI [of _ "x' # xs'"] exI [of _ rels2] exI [of _ st2]) auto
qed simp

definition insn_relocated :: "ac_relocation_type list \<Rightarrow> ac_asm_insn \<Rightarrow> bool" where
  "insn_relocated rels a \<longleftrightarrow> ai_insn a \<noteq> None \<longrightarrow> (\<forall>x \<in> set (ai_operands a). relocated rels x)"

definition insn_reloc_free :: "ac_asm_insn \<Rightarrow> ac_asm_insn" where
  "insn_reloc_free a = a\<lparr>ai_operands := map reloc_free (ai_operands a)\<rparr>"

lemma create_relocation_list_ok:
  assumes "length ops0 < 2 ^ 31" "\<forall>i < length ops0. ol_id (ops0 ! i) = of_nat i" "length arch \<le> 90"
    and "reloc_inv arch ops0 rels (operand_list st)" "\<forall>a \<in> set as. native_in_table (length ops0) a"
  shows "\<exists>as' rels' st'. create_relocation_list (Some arch) as rels st = Ret (as', rels', st') \<and>
    reloc_inv arch ops0 rels' (operand_list st') \<and> modifier_list st' = modifier_list st \<and> set rels \<subseteq> set rels' \<and>
    (\<forall>a \<in> set as'. insn_relocated rels' a) \<and> map insn_reloc_free as' = map insn_reloc_free as"
  using assms(4,5)
proof (induction as arbitrary: rels st)
  case (Cons a as)
  obtain xs' rels1 st1 where 1: "(if ai_insn a = None then Ret (ai_operands a, rels, st)
       else process_instruction_relocation (Some arch) (ai_operands a) rels st) = Ret (xs', rels1, st1)"
      "reloc_inv arch ops0 rels1 (operand_list st1)" "modifier_list st1 = modifier_list st"
      "set rels \<subseteq> set rels1" "ai_insn a \<noteq> None \<longrightarrow> (\<forall>x \<in> set xs'. relocated rels1 x)"
      "map reloc_free xs' = map reloc_free (ai_operands a)"
  proof (cases "ai_insn a = None")
    case True
    with Cons.prems(1) show ?thesis by (intro that [of "ai_operands a" rels st]) simp_all
  next
    case False
    then have "\<forall>x \<in> set (ai_operands a). \<exists>j < length ops0. op_oper_id x = int j"
      using Cons.prems(2) by (simp add: native_in_table_def)
    from process_instruction_ok [OF assms(1-3) Cons.prems(1) this] False show ?thesis by (auto intro: that)
  qed
  obtain as' rels2 st2 where 2: "create_relocation_list (Some arch) as rels1 st1 = Ret (as', rels2, st2)"
    "reloc_inv arch ops0 rels2 (operand_list st2)" "modifier_list st2 = modifier_list st1" "set rels1 \<subseteq> set rels2"
    "\<forall>a \<in> set as'. insn_relocated rels2 a" "map insn_reloc_free as' = map insn_reloc_free as"
    using Cons.IH [OF 1(2)] Cons.prems(2) by auto
  have "create_relocation_list (Some arch) (a # as) rels st = Ret (a\<lparr>ai_operands := xs'\<rparr> # as', rels2, st2)"
    using 1(1) 2(1) by simp
  moreover have "insn_relocated rels2 (a\<lparr>ai_operands := xs'\<rparr>)"
    using 1(5) 2(4) relocated_more by (auto simp: insn_relocated_def)
  moreover have "insn_reloc_free (a\<lparr>ai_operands := xs'\<rparr>) = insn_reloc_free a"
    using 1(6) by (simp add: insn_reloc_free_def)
  ultimately show ?case using 1(3,4) 2
    by (intro exI [of _ "a\<lparr>ai_operands := xs'\<rparr> # as'"] exI [of _ rels2] exI [of _ st2]) auto
qed simp

subsection \<open>The tables\<close>

lemma find_first_unique: "x \<in> set xs \<Longrightarrow> P x \<Longrightarrow> (\<And>y. y \<in> set xs \<Longrightarrow> P y \<Longrightarrow> y = x) \<Longrightarrow> find_first P xs = Some x"
proof (induction xs)
  case (Cons a xs)
  show ?case
  proof (cases "P a")
    case True
    with Cons.prems(3) [of a] show ?thesis by simp
  next
    case False
    with Cons.prems(1,2) have "x \<in> set xs" by auto
    with False Cons.IH Cons.prems(2,3) show ?thesis by (metis find_first.simps(2) list.set_intros(2))
  qed
qed simp

lemma numbered:
  assumes "\<forall>i < length rels. rt_id (rev rels ! i) = of_nat (Suc i)" "length rels < 2 ^ 31" "i < length rels" "k \<le> length rels"
  shows "rt_id (rev rels ! i) = of_nat (Suc k) \<longleftrightarrow> i = k"
proof -
  have "Suc i < 2 ^ 32" "Suc k < 2 ^ 32" using assms(2-4) by simp_all
  then have "(of_nat (Suc i) :: u32) = of_nat (Suc k) \<longleftrightarrow> i = k"
    using of_nat_eq_iff_u32 by blast
  with assms(1,3) show ?thesis by metis
qed

lemma rev_nth_ex: "r \<in> set rels \<Longrightarrow> \<exists>i < length rels. r = rev rels ! i"
  by (metis in_set_conv_nth length_rev set_rev)

lemma relocs_from_rest:
  assumes "\<forall>i < length rels. rt_id (rev rels ! i) = of_nat (Suc i)" "length rels < 2 ^ 31"
  shows "k \<le> length rels \<Longrightarrow> relocs_from rels (of_nat (Suc k)) = Some (drop k (rev rels))"
proof (induction "length rels - k" arbitrary: k)
  case 0
  then have k: "k = length rels" by simp
  have "rt_id r \<noteq> of_nat (Suc k)" if "r \<in> set rels" for r
    using rev_nth_ex [OF that] numbered [OF assms, of _ k] k by blast
  then have "find_relocation_by_id rels (of_nat (Suc k)) = None"
    unfolding find_relocation_by_id_def find_first_None by blast
  then show ?case using k by (subst relocs_from.simps) simp
next
  case (Suc d)
  then have k: "k < length rels" by simp
  have "find_relocation_by_id rels (of_nat (Suc k)) = Some (rev rels ! k)"
    unfolding find_relocation_by_id_def
  proof (rule find_first_unique)
    show "rev rels ! k \<in> set rels" using k by (metis length_rev nth_mem set_rev)
    show "rt_id (rev rels ! k) = of_nat (Suc k)" using assms(1) k by blast
    fix r assume "r \<in> set rels" "rt_id r = of_nat (Suc k)"
    then show "r = rev rels ! k"
      using rev_nth_ex numbered [OF assms, of _ k] k by (metis less_imp_le)
  qed
  moreover have "relocs_from rels (of_nat (Suc k) + 1) = Some (drop (Suc k) (rev rels))"
    using Suc(1) [of "Suc k"] Suc(2) k by (simp add: add.commute)
  ultimately show ?case
    using k by (subst relocs_from.simps) (simp add: Cons_nth_drop_Suc del: of_nat_Suc)
qed


subsection \<open>Properties\<close>

lemma create_relocation_list_inv:
  assumes "create_operand_list fmts instrs init_opcodes asml = Ret (st, asml1)" "length (operand_list st) < 2 ^ 31" "length a \<le> 90"
  shows "\<exists>asml2 rels st2. create_relocation_list (Some a) asml1 [] st = Ret (asml2, rels, st2) \<and>
    reloc_inv a (operand_list st) rels (operand_list st2) \<and> (\<forall>b \<in> set asml2. insn_relocated rels b) \<and>
    map insn_reloc_free asml2 = map insn_reloc_free asml1"
proof -
  let ?ops = "operand_list st"
  have ok: "\<forall>i < length ?ops. ol_id (?ops ! i) = of_nat i"
    using create_operand_list_ok(1) [OF assms(1)] by (simp add: operands_ok_def)
  have "map2 (marked []) [0..<length ?ops] ?ops = ?ops"
    by (intro nth_equalityI) (simp_all add: marked_def reloc_of_def)
  then have "reloc_inv a ?ops [] ?ops" by (simp add: reloc_inv_def)
  moreover have "native_in_table (length ?ops) b" if b: "b \<in> set asml1" for b
    unfolding native_in_table_def
  proof (intro impI ballI)
    fix x assume "ai_insn b \<noteq> None" "x \<in> set (ai_operands b)"
    then obtain k where k: "ai_insn b = Some k" by auto
    obtain j where "j < length ?ops" "op_oper_id x = sint (of_nat j :: u32)"
      using create_operand_list_ok(3) [OF assms(1) b k \<open>x \<in> set (ai_operands b)\<close>] by (auto simp: stands_for_def)
    with assms(2) sint_of_nat_small show "\<exists>j < length ?ops. op_oper_id x = int j" by (metis less_trans)
  qed
  ultimately show ?thesis using create_relocation_list_ok [OF assms(2) ok assms(3), of "[]" st asml1] by blast
qed


definition demo_jump :: asm_insn_state where
  "demo_jump = fst (the (asmdec_action demo_maps demo_names (Some demo_format) 0 ''b %exp'' [Field_arg ''rd''] init_asm_insn))"

definition demo_jump_tables :: "opcodes_state \<times> ac_asm_insn list" where
  "demo_jump_tables = (case create_operand_list [demo_format] demo_names init_opcodes (asm_insn_list demo_jump) of Ret r \<Rightarrow> r)"

definition demo_relocs :: "ac_relocation_type list" where
  "demo_relocs = [\<lparr>rt_name = ''R_armv7_ID1_Opr0'', rt_id = 1, rt_operand_id = 0\<rparr>]"

lemma demo_jump:
  "create_operand_list [demo_format] demo_names init_opcodes (asm_insn_list demo_jump) = Ret (fst demo_jump_tables, snd demo_jump_tables)"
  "length (operand_list (fst demo_jump_tables)) = 1"
  "run_then (create_relocation_list (Some ''armv7'') (snd demo_jump_tables) [] (fst demo_jump_tables)) (\<lambda>(asml, rels, st). Ret rels) = Ret demo_relocs"
  by code_simp+


end
