(* ===== verification/ShareBits.thy ===== *)
theory ShareBits
  imports BinUtils
begin

text \<open>
  The bit routines of \<open>archc/src/acbinutils/binutils/bfd/share-xxxxx.c\<close>, which the generated
  assembler, linker and disassembler share: reading and writing a field of bits in memory, and
  the sets of fields of an operand. \<open>long long\<close> is a 64-bit word, shifted right with its sign.
\<close>

subsection \<open>Fields of bits in memory\<close>

definition load_bytes :: "u8 list \<Rightarrow> u64" where
  "load_bytes bs = foldl (\<lambda>data b. push_bit 8 data OR ucast b) 0 bs"

definition ones :: "nat \<Rightarrow> u64" where
  "ones n = ((\<lambda>mask. push_bit 1 mask OR 1) ^^ n) 0"

text \<open>With a rest of bits, the big endian bytes are packed: the last one holds the low bits.\<close>

definition unpack :: "nat \<Rightarrow> u64 \<Rightarrow> u64 \<Rightarrow> u64" where
  "unpack bits_remain msk data =
     (let temp = signed_drop_bit (8 - bits_remain) data AND push_bit bits_remain msk
      in temp OR (data AND NOT (push_bit bits_remain msk)))"

definition getbits :: "nat \<Rightarrow> u8 list \<Rightarrow> int \<Rightarrow> u64 run" where
  "getbits bitsize location endian =
     (let bits_remain = bitsize mod 8;
          number_bytes = bitsize div 8 + (if bits_remain \<noteq> 0 then 1 else 0) in
      if length location < number_bytes then Undef
      else
        let bs = take number_bytes location;
            data = load_bytes (if endian = 1 then bs else rev bs);
            mask = ones bitsize;
            data = (if bits_remain \<noteq> 0 \<and> endian = 1 then unpack bits_remain mask data else data)
        in Ret (data AND mask))"

text \<open>
  \<open>0xFF << (i * 8)\<close> is a shift of an \<open>int\<close>. From byte 4 on C leaves its result undefined;
  \<open>wide\<close> is what the machine makes of it, for each count.
\<close>

definition byte_mask :: "(nat \<Rightarrow> u32) \<Rightarrow> nat \<Rightarrow> u64" where
  "byte_mask wide i = scast (if i < 4 then push_bit (i * 8) 0xFF else wide (i * 8))"

definition value_bytes :: "(nat \<Rightarrow> u32) \<Rightarrow> u64 \<Rightarrow> u8 list" where
  "value_bytes wide v = map (\<lambda>i. ucast (signed_drop_bit (8 * i) (v AND byte_mask wide i))) [0..<8]"

definition low_mask :: "nat \<Rightarrow> u8" where
  "low_mask n = ((\<lambda>mask. push_bit 1 mask OR 1) ^^ n) 0"

definition put_little :: "nat \<Rightarrow> nat \<Rightarrow> u8 list \<Rightarrow> u8 list \<Rightarrow> u8 list" where
  "put_little number_bytes bits_remain bytes location =
     (let loc = take number_bytes bytes @ drop number_bytes location; mask = low_mask bits_remain in
      if bits_remain \<noteq> 0
      then loc[number_bytes := (loc ! number_bytes AND NOT mask) OR (bytes ! number_bytes AND mask)]
      else loc)"

definition put_big :: "nat \<Rightarrow> nat \<Rightarrow> u8 list \<Rightarrow> u8 list \<Rightarrow> u8 list" where
  "put_big number_bytes bits_remain bytes location =
     (let mask = low_mask bits_remain;
          head = map (\<lambda>i. let index = number_bytes - 1 - i in
                   if bits_remain \<noteq> 0
                   then push_bit (8 - bits_remain) (bytes ! (index + 1) AND mask) OR drop_bit bits_remain (bytes ! index)
                   else bytes ! index) [0..<number_bytes];
          loc = head @ drop number_bytes location in
      if bits_remain \<noteq> 0
      then loc[number_bytes := (bytes ! 0 AND mask) OR (loc ! number_bytes AND NOT mask)]
      else loc)"

definition putbits :: "(nat \<Rightarrow> u32) \<Rightarrow> nat \<Rightarrow> u8 list \<Rightarrow> u64 \<Rightarrow> int \<Rightarrow> u8 list run" where
  "putbits wide bitsize location v endian =
     (let number_bytes = bitsize div 8; bits_remain = bitsize mod 8;
          touched = number_bytes + (if bits_remain \<noteq> 0 then 1 else 0) in
      if length location < touched \<or> 8 < touched then Undef
      else Ret ((if endian = 0 then put_little else put_big) number_bytes bits_remain (value_bytes wide v) location))"

subsection \<open>Reading back what was written\<close>

lemma bit_load_bytes:
  "bit (load_bytes bs) b \<longleftrightarrow> b < 64 \<and> b < 8 * length bs \<and> bit (bs ! (length bs - 1 - b div 8)) (b mod 8)"
proof (induction bs arbitrary: b rule: rev_induct)
  case Nil
  then show ?case by (simp add: load_bytes_def)
next
  case (snoc x xs)
  have step: "load_bytes (xs @ [x]) = push_bit 8 (load_bytes xs) OR ucast x" by (simp add: load_bytes_def)
  show ?case
  proof (cases "b < 8")
    case True
    then show ?thesis by (simp add: step bit_simps nth_append)
  next
    case False
    then have d: "(b - 8) div 8 = b div 8 - 1" "(b - 8) mod 8 = b mod 8" "1 \<le> b div 8"
      using le_div_geq [of 8 b] le_mod_geq [of 8 b] by simp_all
    have u: "\<not> bit (ucast x :: u64) b" using False by (auto simp: bit_simps dest: bit_imp_le_length)
    have i: "length xs - 1 - (b div 8 - 1) = length xs - b div 8" if "b - 8 < 8 * length xs"
      using d(3) by simp
    have lt: "length xs - b div 8 < length xs" if "b - 8 < 8 * length xs" using that d(3) by (cases xs) auto
    have r: "b < 8 * length (xs @ [x]) \<longleftrightarrow> b - 8 < 8 * length xs" "b < 64 \<Longrightarrow> b - 8 < 64" using False by auto
    show ?thesis
      using False d u i lt unfolding step r(1) by (auto simp: bit_simps snoc nth_append dest: r(2))
  qed
qed

lemma ones_mask: "ones n = mask n"
proof (induction n)
  case (Suc n)
  then show ?case by (simp add: ones_def mask_Suc_double or.commute mult.commute)
qed (simp add: ones_def)

lemma low_mask_mask: "low_mask n = mask n"
proof (induction n)
  case (Suc n)
  then show ?case by (simp add: low_mask_def mask_Suc_double or.commute mult.commute)
qed (simp add: low_mask_def)

lemma bit_byte_mask:
  assumes "i < 4" "b div 8 = i"
  shows "bit (byte_mask wide i) b"
proof -
  have "b < 32" "i * 8 \<le> b" "b - i * 8 < 8" using assms by auto
  moreover have "(255 :: u32) = mask 8" by (simp add: mask_numeral)
  then have "byte_mask wide i = scast (push_bit (i * 8) (mask 8 :: u32))"
    using assms(1) by (simp only: byte_mask_def if_True)
  ultimately show ?thesis by (simp add: bit_simps)
qed

lemma value_bytes_bit:
  assumes "i < 4" "j < 8"
  shows "bit (value_bytes wide v ! i) j = bit v (8 * i + j)"
proof -
  have "(8 * i + j) div 8 = i" "8 * i + j < 64" "\<not> 64 - 8 * i \<le> j" using assms by auto
  with bit_byte_mask [OF assms(1)] show ?thesis
    using assms by (simp add: value_bytes_def bit_simps)
qed

lemma length_value_bytes [simp]: "length (value_bytes wide v) = 8"
  by (simp add: value_bytes_def)

lemma length_put_little [simp]:
  "n \<le> 8 \<Longrightarrow> n \<le> length l \<Longrightarrow> length (put_little n r (value_bytes wide v) l) = length l"
  by (simp add: put_little_def Let_def)

lemma length_put_big [simp]: "n \<le> length l \<Longrightarrow> length (put_big n r bs l) = length l"
  by (simp add: put_big_def Let_def)

lemma put_little_read:
  assumes "n \<le> 8" "n + (if r \<noteq> 0 then 1 else 0) \<le> length l" "n + (if r \<noteq> 0 then 1 else 0) \<le> 8" "r < 8"
    "b < 8 * n + r" "b < 32"
  shows "bit (put_little n r (value_bytes wide v) l ! (b div 8)) (b mod 8) = bit v b"
proof -
  have B: "bit (value_bytes wide v ! (b div 8)) (b mod 8) = bit v b"
    using value_bytes_bit [of "b div 8" "b mod 8" wide v] assms(6) by simp
  have "b div 8 < n \<or> b div 8 = n \<and> b mod 8 < r"
  proof (cases "b div 8 < n")
    case False
    moreover have "8 * (b div 8) + b mod 8 = b" by simp
    ultimately have "b div 8 = n" using assms(4,5) by linarith
    with \<open>8 * (b div 8) + b mod 8 = b\<close> assms(5) show ?thesis by linarith
  qed simp
  then consider "b div 8 < n" | "b div 8 = n" "b mod 8 < r" by blast
  then show ?thesis
  proof cases
    case 1
    with B assms(1) show ?thesis by (simp add: put_little_def Let_def nth_append)
  next
    case 2
    with B assms show ?thesis by (simp add: put_little_def Let_def nth_append low_mask_mask bit_simps)
  qed
qed

lemma getbits_bit:
  assumes "getbits bs loc e = Ret w" "bs mod 8 = 0 \<or> e \<noteq> 1" "n = bs div 8 + (if bs mod 8 \<noteq> 0 then 1 else 0)"
  shows "bit w b \<longleftrightarrow> b < 64 \<and> b < bs \<and> bit (loc ! (if e = 1 then n - 1 - b div 8 else b div 8)) (b mod 8)"
proof -
  have n: "n \<le> length loc" "w = load_bytes (if e = 1 then take n loc else rev (take n loc)) AND mask bs"
    using assms by (auto simp: getbits_def Let_def ones_mask split: if_splits)
  have lt: "b < bs \<Longrightarrow> b div 8 < n" using assms(3) by (auto split: if_splits)
  have b: "b < bs \<Longrightarrow> b < 8 * n" using lt by linarith
  show ?thesis
    using n(1) lt b unfolding n(2) bit_and_iff bit_mask_iff bit_load_bytes
    by (auto simp: rev_nth min_absorb2 possible_bit_def)
qed

text \<open>The big endian bytes: the last one has the low bits, the others are shifted by the rest.\<close>

lemma put_big_nth:
  assumes "n \<le> length l" "i < n"
  shows "put_big n r bytes l ! i =
    (if r \<noteq> 0 then push_bit (8 - r) (bytes ! (n - i) AND low_mask r) OR drop_bit r (bytes ! (n - 1 - i))
     else bytes ! (n - 1 - i))"
proof -
  have "n - Suc i + 1 = n - i" using assms(2) by simp
  then show ?thesis using assms by (simp add: put_big_def Let_def nth_append nth_list_update)
qed

lemma put_big_last:
  assumes "n < length l" "r \<noteq> 0"
  shows "put_big n r bytes l ! n = (bytes ! 0 AND low_mask r) OR (l ! n AND NOT (low_mask r))"
  using assms by (simp add: put_big_def Let_def nth_append)

lemma put_big_whole:
  assumes "n \<le> length l" "b < 8 * n" "b < 32"
  shows "bit (put_big n 0 (value_bytes wide v) l ! (n - 1 - b div 8)) (b mod 8) = bit v b"
proof -
  have "n - 1 - b div 8 < n" "n - 1 - (n - 1 - b div 8) = b div 8" using assms(2) by auto
  then show ?thesis
    using value_bytes_bit [of "b div 8" "b mod 8" wide v] assms by (simp add: put_big_nth)
qed

lemma put_big_rest:
  assumes "n < length l" "0 < r" "r < 8" "8 \<le> b" "b < 8 * (n + 1)" "b - 8 + r < 32" "b div 8 < 4"
  shows "bit (put_big n r (value_bytes wide v) l ! (n - b div 8)) (b mod 8) = bit v (b - 8 + r)"
proof -
  let ?B = "value_bytes wide v" and ?q = "b div 8" and ?m = "b mod 8"
  have q: "1 \<le> ?q" "?q \<le> n" "n - ?q < n" "n - (n - ?q) = ?q" "n - 1 - (n - ?q) = ?q - 1"
    using assms(4,5) by auto
  have m: "?m < 8" "8 * ?q + ?m = b" by simp_all
  have e: "bit (put_big n r ?B l ! (n - ?q)) ?m \<longleftrightarrow>
      8 - r \<le> ?m \<and> bit (?B ! ?q) (?m - (8 - r)) \<and> ?m - (8 - r) < r \<or> bit (?B ! (?q - 1)) (r + ?m)"
  proof -
    have "?m - (8 - r) < 8" by (rule le_less_trans [OF diff_le_self]) simp
    then show ?thesis using assms(1,2) q by (auto simp: put_big_nth low_mask_mask bit_simps)
  qed
  show ?thesis
  proof (cases "8 - r \<le> ?m")
    case True
    have "\<not> bit (?B ! (?q - 1)) (r + ?m)" using True assms(3) by (auto dest: bit_imp_le_length)
    moreover have k: "8 * ?q + (?m - (8 - r)) = b - 8 + r" "?m - (8 - r) < 8" "?m - (8 - r) < r"
      using True assms(2,3) m q(1) by auto
    have "bit (?B ! ?q) (?m - (8 - r)) = bit v (b - 8 + r)"
      using value_bytes_bit [OF assms(7) k(2), of wide v] by (simp only: k(1))
    ultimately show ?thesis using e True k(3) by blast
  next
    case False
    have k: "8 * (?q - 1) + (r + ?m) = b - 8 + r" "r + ?m < 8" "?q - 1 < 4"
      using False assms m q(1) by (auto simp: algebra_simps)
    have "bit (?B ! (?q - 1)) (r + ?m) = bit v (b - 8 + r)"
      using value_bytes_bit [OF k(3,2), of wide v] by (simp only: k(1))
    then show ?thesis using e False by blast
  qed
qed

lemma putbits_returns:
  assumes "bs div 8 + (if bs mod 8 \<noteq> 0 then 1 else 0) \<le> length loc" "bs \<le> 32"
  shows "putbits wide bs loc v e =
    Ret ((if e = 0 then put_little else put_big) (bs div 8) (bs mod 8) (value_bytes wide v) loc)"
proof -
  have "bs div 8 + (if bs mod 8 \<noteq> 0 then 1 else 0) \<le> 8" using assms(2) by (auto split: if_splits)
  with assms(1) show ?thesis by (simp add: putbits_def Let_def)
qed

lemma getbits_little:
  assumes "bs div 8 + (if bs mod 8 \<noteq> 0 then 1 else 0) \<le> length loc" "bs \<le> 32"
  shows "getbits bs (put_little (bs div 8) (bs mod 8) (value_bytes wide v) loc) 0 = Ret (take_bit bs v)"
proof -
  let ?l = "put_little (bs div 8) (bs mod 8) (value_bytes wide v) loc"
  have len: "length ?l = length loc" using assms by (intro length_put_little) (auto split: if_splits)
  obtain w where w: "getbits bs ?l 0 = Ret w" using assms(1) by (simp add: getbits_def Let_def len)
  have "w = take_bit bs v"
  proof (rule bit_word_eqI)
    fix b
    assume "b < LENGTH(64)"
    have "bit (?l ! (b div 8)) (b mod 8) = bit v b" if "b < bs"
      using assms that by (intro put_little_read) (auto split: if_splits)
    then show "bit w b = bit (take_bit bs v) b"
      using getbits_bit [OF w _ refl, of b] \<open>b < LENGTH(64)\<close> by (auto simp: bit_simps)
  qed
  with w show ?thesis by simp
qed

lemma getbits_big_whole:
  assumes "bs div 8 \<le> length loc" "bs \<le> 32" "bs mod 8 = 0"
  shows "getbits bs (put_big (bs div 8) 0 (value_bytes wide v) loc) 1 = Ret (take_bit bs v)"
proof -
  let ?l = "put_big (bs div 8) 0 (value_bytes wide v) loc"
  obtain w where w: "getbits bs ?l 1 = Ret w" using assms by (simp add: getbits_def Let_def)
  have "w = take_bit bs v"
  proof (rule bit_word_eqI)
    fix b
    assume "b < LENGTH(64)"
    have "bit (?l ! (bs div 8 - 1 - b div 8)) (b mod 8) = bit v b" if "b < bs"
      using assms that by (intro put_big_whole) auto
    then show "bit w b = bit (take_bit bs v) b"
      using getbits_bit [OF w _ refl, of b] assms(3) \<open>b < LENGTH(64)\<close> by (auto simp: bit_simps)
  qed
  with w show ?thesis by simp
qed

text \<open>Unpacking the big endian bytes of a field with a rest.\<close>

lemma bit_unpack:
  assumes "0 < r" "r < 8" "bs \<le> 32" "b < bs" "\<not> bit data 63"
  shows "bit (unpack r (mask bs) data) b \<longleftrightarrow> (if r \<le> b then bit data (b + (8 - r)) else bit data b)"
proof -
  have "b + (8 - r) < 64" "b - r < bs" using assms by auto
  then show ?thesis using assms by (auto simp: unpack_def Let_def bit_simps add.commute)
qed

lemma getbits_big_rest:
  assumes "bs div 8 < length loc" "bs \<le> 32" "bs mod 8 = r" "0 < r"
  shows "getbits bs (put_big (bs div 8) r (value_bytes wide v) loc) 1 = Ret (take_bit bs v)"
proof -
  let ?n = "bs div 8"
  let ?l = "put_big ?n r (value_bytes wide v) loc"
  define data where "data = load_bytes (take (?n + 1) ?l)"
  have r1: "r < 8" and r2: "8 * ?n + r = bs" unfolding assms(3) [symmetric] by simp_all
  have r3: "bs \<noteq> 32" using assms(3,4) by auto
  with assms(2) r2 have r: "r < 8" "8 * ?n + r = bs" "bs < 32" "?n < 4" using r1 by linarith+
  have len: "length (take (?n + 1) ?l) = ?n + 1" using assms(1) by simp
  have get: "getbits bs ?l 1 = Ret (unpack r (mask bs) data AND mask bs)"
    using assms by (simp add: getbits_def Let_def data_def ones_mask)
  have data: "bit data b \<longleftrightarrow> b < 8 * (?n + 1) \<and> bit (?l ! (?n - b div 8)) (b mod 8)" for b
    using r(4) unfolding data_def bit_load_bytes len by auto
  have low: "bit data b = bit v b" if "b < r" for b
  proof -
    have "bit (value_bytes wide v ! 0) b = bit v b" using value_bytes_bit [of 0 b wide v] that r(1) by simp
    with that r(1) assms(1,4) show ?thesis by (simp add: data put_big_last low_mask_mask bit_simps)
  qed
  have high: "bit data b = bit v (b - 8 + r)" if "8 \<le> b" "b < 8 * (?n + 1)" for b
  proof -
    have "b - 8 + r < 32" "b div 8 < 4" using that r by auto
    with put_big_rest [OF assms(1,4) r(1) that] that show ?thesis by (simp add: data)
  qed
  have top: "\<not> bit data 63" using r(4) by (simp add: data)
  have "unpack r (mask bs) data AND mask bs = take_bit bs v"
  proof (rule bit_word_eqI)
    fix b
    assume "b < LENGTH(64)"
    have "bit (unpack r (mask bs) data) b = bit v b" if "b < bs"
    proof (cases "r \<le> b")
      case True
      have "8 \<le> b + (8 - r)" "b + (8 - r) < 8 * (?n + 1)" "b + (8 - r) - 8 + r = b" using True that r by auto
      with high [of "b + (8 - r)"] bit_unpack [OF assms(4) r(1) assms(2) that top] True show ?thesis by simp
    next
      case False
      with low bit_unpack [OF assms(4) r(1) assms(2) that top] show ?thesis by simp
    qed
    then show "bit (unpack r (mask bs) data AND mask bs) b = bit (take_bit bs v) b"
      using \<open>b < LENGTH(64)\<close> by (auto simp: bit_simps)
  qed
  with get show ?thesis by simp
qed

text \<open>The bytes of a field.\<close>

definition touched :: "nat \<Rightarrow> nat" where
  "touched bs = bs div 8 + (if bs mod 8 \<noteq> 0 then 1 else 0)"

lemma drop_touched:
  assumes "touched bs \<le> length loc" "touched bs \<le> 8"
  shows "drop (touched bs) (put_little (bs div 8) (bs mod 8) (value_bytes wide v) loc) = drop (touched bs) loc"
    "drop (touched bs) (put_big (bs div 8) (bs mod 8) bytes loc) = drop (touched bs) loc"
  using assms
  by (auto simp: touched_def put_little_def put_big_def Let_def drop_update_cancel split: if_splits)

lemma put_get:
  assumes "bs \<le> 32" "touched bs \<le> length loc" "e = 0 \<or> e = 1"
  shows "\<exists>loc'. putbits wide bs loc v e = Ret loc' \<and> getbits bs loc' e = Ret (take_bit bs v) \<and>
    length loc' = length loc \<and> drop (touched bs) loc' = drop (touched bs) loc"
proof -
  have le: "bs div 8 \<le> length loc" "bs div 8 \<le> 8" "touched bs \<le> 8"
    using assms(1,2) by (auto simp: touched_def split: if_splits)
  note put = putbits_returns [OF assms(2) [unfolded touched_def] assms(1)]
  note same = drop_touched [OF assms(2) le(3)]
  show ?thesis
  proof (cases "e = 0")
    case True
    with getbits_little [OF assms(2) [unfolded touched_def] assms(1)] same(1) le show ?thesis by (simp add: put)
  next
    case False
    have "getbits bs (put_big (bs div 8) (bs mod 8) (value_bytes wide v) loc) 1 = Ret (take_bit bs v)"
    proof (cases "bs mod 8 = 0")
      case True
      with getbits_big_whole [OF le(1) assms(1)] show ?thesis by simp
    next
      case False
      with assms(2) getbits_big_rest [OF _ assms(1) refl] show ?thesis by (simp add: touched_def)
    qed
    with False assms(3) same(2) le show ?thesis by (simp add: put)
  qed
qed

text \<open>Writing and reading bits. For at most 32 bits in memory that is long enough, in both byte
  orders and whatever the undefined shifts of the upper bytes give, \<open>putbits\<close> changes no byte
  behind those of the field, and \<open>getbits\<close> reads back the low bits of the value.\<close>
theorem getbits_putbits:
  assumes "bs \<le> 32" "touched bs \<le> length loc" "e = 0 \<or> e = 1"
  shows "\<exists>loc'. putbits wide bs loc v e = Ret loc' \<and> getbits bs loc' e = Ret (take_bit bs v) \<and>
    length loc' = length loc \<and> drop (touched bs) loc' = drop (touched bs) loc"
  using assms by (rule put_get)

theorem getbits_putbits_witness:
  "\<exists>loc. putbits (\<lambda>_. 0) 12 [1, 2, 3] 0xABC 1 = Ret loc \<and> getbits 12 loc 1 = Ret 0xABC \<and> drop 2 loc = [3]"
proof -
  have 1: "take_bit 12 (0xABC :: u64) = 0xABC" "touched 12 = 2" by code_simp+
  have 2: "(12 :: nat) \<le> 32" "touched 12 \<le> length [1 :: u8, 2, 3]" using 1(2) by simp_all
  show ?thesis using getbits_putbits [OF 2, of 1 "\<lambda>_. 0" "0xABC"] 1 by auto
qed

text \<open>On a machine that takes the count modulo 32, a field of more than 32 bits loses its upper
  half.\<close>

lemma putbits_upper_half_lost:
  "run_then (putbits (\<lambda>s. push_bit (s mod 32) 0xFF) 64 (replicate 8 0) 0x100000000 0) (\<lambda>loc. getbits 64 loc 0) = Ret 0"
  by code_simp

end
