(* ===== verification/GasGen.thy ===== *)
theory GasGen
  imports Opcodes
begin

text \<open>
  The generators of the field access functions: \<open>archc/src/acbinutils/gas.c\<close> and
  \<open>CreateGetFieldValueFunc\<close> of \<open>bfd.c\<close>. Each writes the body of a C function as a \<open>switch\<close>
  over the formats and their fields. For each case the constants that are computed are
  definitions of their own; the generated functions, which \<open>share-xxxxx.c\<close> wraps, are what C
  makes of the text. A format or field without a case makes them return 0.
\<close>

subsection \<open>The constants of a case\<close>

definition shl_int :: "u32 \<Rightarrow> int \<Rightarrow> u32 run" where
  "shl_int x k = (if 0 \<le> k \<and> k < 32 then Ret (push_bit (nat k) x) else Undef)"

definition shr_int :: "u32 \<Rightarrow> int \<Rightarrow> u32 run" where
  "shr_int x k = (if 0 \<le> k \<and> k < 32 then Ret (drop_bit (nat k) x) else Undef)"

definition case_shift :: "ac_dec_format \<Rightarrow> ac_dec_field \<Rightarrow> int" where
  "case_shift p f = format_size p - (first_bit f + 1)"

definition encoding_mask :: "ac_dec_format \<Rightarrow> ac_dec_field \<Rightarrow> u64 run" where
  "encoding_mask p f =
     run_then (shr_int 0xFFFFFFFF (32 - format_size p + first_bit f + 1 - field_size f)) (\<lambda>a.
     run_then (shl_int 0xFFFFFFFF (case_shift p f)) (\<lambda>b. Ret (ucast (a AND b))))"

fun value_mask :: "nat \<Rightarrow> u32 run" where
  "value_mask 0 = Ret 0"
| "value_mask (Suc k) = run_then (value_mask k) (\<lambda>m. run_then (shl_int 1 (int k)) (\<lambda>b. Ret (m OR b)))"

subsection \<open>The generated text\<close>

text \<open>A field of a format with its index is a case; the cases of all fields, in order.\<close>

fun cases_text :: "(nat \<Rightarrow> 'a \<Rightarrow> string run) \<Rightarrow> nat \<Rightarrow> 'a list \<Rightarrow> string run" where
  "cases_text f i [] = Ret []"
| "cases_text f i (x # xs) = run_then (f i x) (\<lambda>s. run_then (cases_text f (i + 1) xs) (\<lambda>t. Ret (s @ t)))"

abbreviation IND4 :: string where "IND4 \<equiv> ''        ''"
abbreviation IND5 :: string where "IND5 \<equiv> ''          ''"

definition hex_text :: "bool \<Rightarrow> nat \<Rightarrow> string" where
  "hex_text upper n = ''0x'' @ hex_str upper n"

definition case_label :: "string \<Rightarrow> nat \<Rightarrow> string" where
  "case_label ind i = ind @ ''case '' @ dec_str i @ '':'' @ newline"

definition field_switch :: "(nat \<Rightarrow> ac_dec_field \<Rightarrow> string run) \<Rightarrow> nat \<Rightarrow> ac_dec_format \<Rightarrow> string run" where
  "field_switch f i p =
     run_then (cases_text f 0 (format_fields p)) (\<lambda>s.
       Ret (case_label IND2 i @ IND3 @ ''switch (field_id) {'' @ newline @ s @ IND3 @ ''}'' @ newline @
            newline @ IND3 @ ''break;'' @ newline))"

definition switch_text :: "string \<Rightarrow> string \<Rightarrow> string" where
  "switch_text var s = IND1 @ ''switch('' @ var @ '') {'' @ newline @ s @ newline @ IND1 @ ''}'' @ newline @
     IND1 @ ''return 0;''"

definition encoding_case :: "ac_dec_format \<Rightarrow> nat \<Rightarrow> ac_dec_field \<Rightarrow> string run" where
  "encoding_case p j f =
     run_then (encoding_mask p f) (\<lambda>m.
       Ret (case_label IND4 j @ IND5 @ ''*image &= '' @ hex_text False (unat (NOT m)) @ '';'' @ newline @
            IND5 @ ''*image |= ((value << '' @ dec_str_int (case_shift p f) @ '') & '' @ hex_text False (unat m) @ '');'' @ newline @
            IND5 @ ''break;'' @ newline))"

definition CreateEncodingFunc :: "bool \<Rightarrow> ac_dec_format list \<Rightarrow> (int \<times> string) run" where
  "CreateEncodingFunc opened fmts =
     (if \<not> opened then Ret (0, [])
      else run_then (cases_text (\<lambda>i p. field_switch (encoding_case p) i p) 0 fmts) (\<lambda>s.
        Ret (1, switch_text ''insn_type'' s)))"

definition size_case :: "nat \<Rightarrow> ac_dec_field \<Rightarrow> string run" where
  "size_case j f = Ret (case_label IND4 j @ IND4 @ ''return '' @ dec_str_int (field_size f) @ '';'' @ newline @ newline)"

definition CreateGetFieldSizeFunc :: "bool \<Rightarrow> ac_dec_format list \<Rightarrow> (int \<times> string) run" where
  "CreateGetFieldSizeFunc opened fmts =
     (if \<not> opened then Ret (0, [])
      else run_then (cases_text (field_switch size_case) 0 fmts) (\<lambda>s. Ret (1, switch_text ''insn_fmt'' s)))"

definition insn_size_case :: "nat \<Rightarrow> ac_dec_format \<Rightarrow> string run" where
  "insn_size_case i p = Ret (case_label IND2 i @ IND3 @ ''return '' @ dec_str_int (format_size p) @ '';'' @ newline)"

definition CreateGetInsnSizeFunc :: "bool \<Rightarrow> ac_dec_format list \<Rightarrow> (int \<times> string) run" where
  "CreateGetInsnSizeFunc opened fmts =
     (if \<not> opened then Ret (0, [])
      else run_then (cases_text insn_size_case 0 fmts) (\<lambda>s. Ret (1, switch_text ''insn_fmt'' s)))"

definition value_case :: "ac_dec_format \<Rightarrow> nat \<Rightarrow> ac_dec_field \<Rightarrow> string run" where
  "value_case p j f =
     run_then (value_mask (nat (field_size f))) (\<lambda>m.
       Ret (case_label IND4 j @ IND5 @ ''return (value >> '' @ dec_str_int (case_shift p f) @ '') & '' @
            hex_text True (unat m) @ '';'' @ newline))"

definition CreateGetFieldValueFunc :: "bool \<Rightarrow> ac_dec_format list \<Rightarrow> (int \<times> string) run" where
  "CreateGetFieldValueFunc opened fmts =
     (if \<not> opened then Ret (0, [])
      else run_then (cases_text (\<lambda>i p. field_switch (value_case p) i p) 0 fmts) (\<lambda>s.
        Ret (1, switch_text ''insn_type'' s)))"

subsection \<open>The generated functions\<close>

definition field_at :: "ac_dec_format list \<Rightarrow> nat \<Rightarrow> nat \<Rightarrow> (ac_dec_format \<times> ac_dec_field) option" where
  "field_at fmts i j =
     (if i < length fmts \<and> j < length (format_fields (fmts ! i))
      then Some (fmts ! i, format_fields (fmts ! i) ! j) else None)"

text \<open>\<open>value << n\<close> and \<open>value >> n\<close> are shifts of an \<open>unsigned long\<close> and of an \<open>unsigned\<close>.\<close>

definition ac_encode_insn :: "ac_dec_format list \<Rightarrow> nat \<Rightarrow> nat \<Rightarrow> u64 \<Rightarrow> u32 \<Rightarrow> u32 run" where
  "ac_encode_insn fmts i j v img =
     (case field_at fmts i j of
        None \<Rightarrow> Ret img
      | Some (p, f) \<Rightarrow>
          run_then (encoding_mask p f) (\<lambda>m.
            if 0 \<le> case_shift p f \<and> case_shift p f < 64
            then Ret ((img AND ucast (NOT m)) OR ucast (push_bit (nat (case_shift p f)) v AND m))
            else Undef))"

definition ac_get_field_value :: "ac_dec_format list \<Rightarrow> nat \<Rightarrow> nat \<Rightarrow> u32 \<Rightarrow> u32 run" where
  "ac_get_field_value fmts i j v =
     (case field_at fmts i j of
        None \<Rightarrow> Ret 0
      | Some (p, f) \<Rightarrow>
          run_then (value_mask (nat (field_size f))) (\<lambda>m.
          run_then (shr_int v (case_shift p f)) (\<lambda>x. Ret (x AND m))))"

definition get_field_size :: "ac_dec_format list \<Rightarrow> nat \<Rightarrow> nat \<Rightarrow> u64" where
  "get_field_size fmts i j = (case field_at fmts i j of None \<Rightarrow> 0 | Some (p, f) \<Rightarrow> of_int (field_size f))"

definition insn_size_of :: "ac_dec_format list \<Rightarrow> nat \<Rightarrow> u64" where
  "insn_size_of fmts i = (if i < length fmts then of_int (format_size (fmts ! i)) else 0)"

subsection \<open>What the generated functions do\<close>

definition inside :: "ac_dec_format \<Rightarrow> ac_dec_field \<Rightarrow> bool" where
  "inside p f \<longleftrightarrow> 0 < field_size f \<and> field_size f \<le> first_bit f + 1 \<and> first_bit f < format_size p \<and> format_size p \<le> 32"

definition low_of :: "ac_dec_format \<Rightarrow> ac_dec_field \<Rightarrow> nat" where
  "low_of p f = nat (format_size p - 1 - first_bit f)"

lemma inside_low:
  assumes "inside p f"
  shows "case_shift p f = int (low_of p f)" "low_of p f + nat (field_size f) \<le> 32" "0 < nat (field_size f)"
    "nat (32 - format_size p + first_bit f + 1 - field_size f) = 32 - (low_of p f + nat (field_size f))"
    "0 \<le> 32 - format_size p + first_bit f + 1 - field_size f" "32 - format_size p + first_bit f + 1 - field_size f < 32"
  using assms by (auto simp: inside_def case_shift_def low_of_def)

lemma ones32: "(4294967295 :: u32) = mask 32"
  by (simp add: mask_numeral)

text \<open>The mask has exactly the bits of the field, whatever the size of the format.\<close>

lemma encoding_mask_field:
  assumes "inside p f"
  shows "encoding_mask p f = Ret (push_bit (low_of p f) (mask (nat (field_size f))))"
proof -
  note L = inside_low [OF assms]
  let ?k = "32 - (low_of p f + nat (field_size f))"
  have "encoding_mask p f = Ret (ucast (drop_bit ?k (mask 32 :: u32) AND push_bit (low_of p f) (mask 32)))"
    using L by (simp add: encoding_mask_def shr_int_def shl_int_def ones32 L(1,4) nat_less_iff)
  moreover have "ucast (drop_bit ?k (mask 32 :: u32) AND push_bit (low_of p f) (mask 32)) =
      push_bit (low_of p f) (mask (nat (field_size f)) :: u64)"
    using L(2,3) by (intro bit_word_eqI) (auto simp: bit_simps)
  ultimately show ?thesis by simp
qed

lemma value_mask_mask: "k \<le> 32 \<Longrightarrow> value_mask k = Ret (mask k)"
proof (induction k)
  case (Suc k)
  then have "value_mask (Suc k) = Ret (mask k OR push_bit k 1)" by (simp add: shl_int_def)
  also have "mask k OR push_bit k 1 = (mask (Suc k) :: u32)"
    by (intro bit_word_eqI) (auto simp: bit_simps less_Suc_eq)
  finally show ?case .
qed simp

lemma ac_encode_insn_bits:
  assumes "field_at fmts i j = Some (p, f)" "inside p f"
  shows "\<exists>img'. ac_encode_insn fmts i j v img = Ret img' \<and>
    (\<forall>b. bit img' b \<longleftrightarrow> (if low_of p f \<le> b \<and> b < low_of p f + nat (field_size f) then bit v (b - low_of p f) else bit img b))"
  using assms(1) inside_low [OF assms(2)]
  by (auto simp: ac_encode_insn_def encoding_mask_field [OF assms(2)] bit_simps dest: bit_imp_le_length)

lemma ac_get_field_value_eq:
  assumes "field_at fmts i j = Some (p, f)" "inside p f"
  shows "ac_get_field_value fmts i j v = Ret (take_bit (nat (field_size f)) (drop_bit (low_of p f) v))"
  using assms(1) inside_low [OF assms(2)]
  by (simp add: ac_get_field_value_def value_mask_mask shr_int_def take_bit_eq_mask)

end
