(* ===== verification/OperandCodec.thy ===== *)
theory OperandCodec
  imports ShareBits GasGen
begin

text \<open>
  Operands in an instruction word: \<open>encode_cons_field\<close> of \<open>share-xxxxx.c\<close>, by which the
  assembler and the linker store the value of an operand in its fields, and
  \<open>get_value_from_fields\<close> and \<open>sign_extend_to_long\<close> of \<open>xxxxx-dis.c\<close>, by which the
  disassembler reads it. Both are driven by the entry of the operand in the generated table.
  The modifier functions, which the model of the processor provides, are arguments.
\<close>

subsection \<open>Sets of fields\<close>

lemma shift_out: "\<exists>k. push_bit k (w :: u32) = 0"
  by (rule exI [of _ 32]) (auto intro!: bit_word_eqI simp: bit_simps)

definition shifts_left :: "u32 \<Rightarrow> nat" where
  "shifts_left w = (LEAST k. push_bit k w = 0)"

lemma shifts_left_less: "w \<noteq> 0 \<Longrightarrow> shifts_left (push_bit 1 w) < shifts_left w"
proof -
  assume "w \<noteq> 0"
  obtain k where "push_bit k w = 0" using shift_out by blast
  have "shifts_left w = Suc (LEAST k. push_bit (Suc k) w = 0)"
    unfolding shifts_left_def by (rule Least_Suc [where P = "\<lambda>k. push_bit k w = 0", OF \<open>push_bit k w = 0\<close>]) (simp add: \<open>w \<noteq> 0\<close>)
  then show ?thesis by (simp add: shifts_left_def del: push_bit_Suc)
qed

function count_ones :: "u32 \<Rightarrow> u32 \<Rightarrow> u32 \<Rightarrow> u32" where
  "count_ones e shift numf =
     (if shift = 0 then numf
      else count_ones e (push_bit 1 shift) (if e AND shift \<noteq> 0 then numf + 1 else numf))"
  by pat_completeness auto
termination by (relation "measure (\<lambda>(e, shift, numf). shifts_left shift)") (use shifts_left_less in auto)

declare count_ones.simps [simp del]

definition get_num_fields :: "u32 \<Rightarrow> u32" where
  "get_num_fields encoded_field = count_ones encoded_field 1 0"

function nth_one :: "u32 \<Rightarrow> u32 \<Rightarrow> u32 \<Rightarrow> u32 \<Rightarrow> u32" where
  "nth_one e pos counter shift =
     (if shift = 0 then 999
      else if e AND shift \<noteq> 0 \<and> pos = 0 then counter
      else nth_one e (if e AND shift \<noteq> 0 then pos - 1 else pos) (counter + 1) (push_bit 1 shift))"
  by pat_completeness auto
termination by (relation "measure (\<lambda>(e, pos, counter, shift). shifts_left shift)") (use shifts_left_less in auto)

declare nth_one.simps [simp del]

definition get_field_id :: "u32 \<Rightarrow> u32 \<Rightarrow> u32" where
  "get_field_id encoded_field pos = nth_one encoded_field pos 0 1"

subsection \<open>Storing an operand\<close>

text \<open>The results of a list operator, which modifiers take from the head and the assembler adds at
  the end.\<close>

record list_op_result =
  lr_result :: u32
  lr_separator :: char

definition list_results_has_data :: "list_op_result list \<Rightarrow> bool" where
  "list_results_has_data lr \<longleftrightarrow> lr \<noteq> []"

definition list_results_get_separator :: "list_op_result list \<Rightarrow> char run" where
  "list_results_get_separator lr = (case lr of [] \<Rightarrow> Undef | x # _ \<Rightarrow> Ret (lr_separator x))"

definition list_results_next :: "list_op_result list \<Rightarrow> (u32 \<times> list_op_result list) run" where
  "list_results_next lr = (case lr of [] \<Rightarrow> Undef | x # lr \<Rightarrow> Ret (lr_result x, lr))"

definition list_results_store :: "list_op_result list \<Rightarrow> u32 \<Rightarrow> list_op_result list" where
  "list_results_store lr result = lr @ [\<lparr>lr_result = result, lr_separator = CHR 0x00\<rparr>]"

definition free_list_results :: "list_op_result list \<Rightarrow> list_op_result list" where
  "free_list_results lr = []"

record mod_parms =
  mp_addend :: u32
  mp_list_results :: "list_op_result list"
  mp_input :: u32
  mp_address :: u32
  mp_output :: u32
  mp_section :: "string option"
  mp_error :: u32
  mp_field :: "u32 list"

type_synonym modifier = "mod_parms \<Rightarrow> mod_parms"

definition put_field_value :: "u32 \<Rightarrow> u32 \<Rightarrow> mod_parms \<Rightarrow> mod_parms run" where
  "put_field_value fid v mp =
     (if unat fid < length (mp_field mp) then Ret (mp\<lparr>mp_field := (mp_field mp)[unat fid := v]\<rparr>) else Undef)"

definition shift_input :: "u64 \<Rightarrow> mod_parms \<Rightarrow> mod_parms run" where
  "shift_input n mp = (if n < 32 then Ret (mp\<lparr>mp_input := drop_bit (unat n) (mp_input mp)\<rparr>) else Undef)"

text \<open>The loop goes down from the last field, which takes the low bits.\<close>

fun split_input :: "ac_dec_format list \<Rightarrow> oper_list \<Rightarrow> nat \<Rightarrow> mod_parms \<Rightarrow> mod_parms run" where
  "split_input fmts opr 0 mp = Ret mp"
| "split_input fmts opr (Suc i) mp =
     (let fid = get_field_id (ol_fields opr) (of_nat i) in
      run_then (put_field_value fid (mp_input mp) mp) (\<lambda>mp.
      run_then (shift_input (get_field_size fmts (unat (ol_format_id opr)) (unat fid)) mp) (\<lambda>mp.
        split_input fmts opr i mp)))"

definition modify_fields :: "modifier list \<Rightarrow> nat \<Rightarrow> oper_list \<Rightarrow> mod_parms \<Rightarrow> mod_parms run" where
  "modify_fields modfn max_fields opr mp =
     (let mp = mp\<lparr>mp_field := replicate max_fields 0, mp_output := 0\<rparr> in
      if unat (of_int (ol_mod_type opr) :: u32) < length modfn
      then (let mp = (modfn ! unat (of_int (ol_mod_type opr) :: u32)) mp in
            if mp_output mp \<noteq> 0 then put_field_value (get_field_id (ol_fields opr) 0) (mp_output mp) mp else Ret mp)
      else Undef)"

fun store_fields :: "ac_dec_format list \<Rightarrow> oper_list \<Rightarrow> mod_parms \<Rightarrow> nat list \<Rightarrow> u32 \<Rightarrow> u32 run" where
  "store_fields fmts opr mp [] img = Ret img"
| "store_fields fmts opr mp (lt # lts) img =
     (let fid = unat (get_field_id (ol_fields opr) (of_nat lt)) in
      if fid < length (mp_field mp)
      then run_then (ac_encode_insn fmts (unat (ol_format_id opr)) fid (ucast (mp_field mp ! fid)) img)
             (\<lambda>img. store_fields fmts opr mp lts img)
      else Undef)"

text \<open>A failed assertion ends the program; one that accepts the index behind the last is kept.\<close>

definition encode_cons_field ::
  "ac_dec_format list \<Rightarrow> oper_list list \<Rightarrow> modifier list \<Rightarrow> nat \<Rightarrow> u32 \<Rightarrow> mod_parms \<Rightarrow> nat
     \<Rightarrow> (u32 \<times> mod_parms) run" where
  "encode_cons_field fmts operands modfn max_fields img mp oper_id =
     (if length operands \<le> oper_id then Undef
      else
        let opr = operands ! oper_id; nf = unat (get_num_fields (ol_fields opr)) in
        if length modfn < unat (of_int (ol_mod_type opr) :: u32) then Exit
        else
          let mp = mp\<lparr>mp_addend := of_int (ol_mod_addend opr), mp_error := 0\<rparr> in
          run_then (if ol_mod_type opr = 0 then split_input fmts opr nf mp else modify_fields modfn max_fields opr mp)
            (\<lambda>mp. run_then (store_fields fmts opr mp [0..<nf] img) (\<lambda>img. Ret (img, mp))))"

subsection \<open>Reading an operand\<close>

text \<open>The loop has no end but its \<open>return\<close>: behind the last bit the shift is undefined.\<close>

function bit_pos_from :: "u32 \<Rightarrow> u32 \<Rightarrow> nat \<Rightarrow> u32 run" where
  "bit_pos_from bitvector pos curr_bit =
     (if 32 \<le> curr_bit then Undef
      else if bitvector AND push_bit curr_bit 1 \<noteq> 0 \<and> pos - 1 = 0 then Ret (of_nat curr_bit)
      else bit_pos_from bitvector (if bitvector AND push_bit curr_bit 1 \<noteq> 0 then pos - 1 else pos) (curr_bit + 1))"
  by pat_completeness auto
termination by (relation "measure (\<lambda>(v, pos, curr_bit). 32 - curr_bit)") auto

declare bit_pos_from.simps [simp del]

definition get_bit_pos :: "u32 \<Rightarrow> u32 \<Rightarrow> u32 run" where
  "get_bit_pos bitvector pos = bit_pos_from bitvector (pos + 1) 0"

fun field_mask :: "u32 \<Rightarrow> nat \<Rightarrow> u32 run" where
  "field_mask start 0 = Ret 0"
| "field_mask start (Suc j) =
     run_then (field_mask start j) (\<lambda>m. run_then (c_shl 1 (start + of_nat j)) (\<lambda>b. Ret (m OR b)))"

fun join_fields :: "oper_list \<Rightarrow> u64 \<Rightarrow> nat list \<Rightarrow> u32 \<Rightarrow> u32 \<Rightarrow> (u32 \<times> u32) run" where
  "join_fields opr insn [] sz final_value = Ret (final_value, sz)"
| "join_fields opr insn (i # is) sz final_value =
     run_then (get_bit_pos (ol_fields_positions opr) (of_nat i * 2)) (\<lambda>field_start.
     run_then (get_bit_pos (ol_fields_positions opr) (of_nat i * 2 + 1)) (\<lambda>field_end.
       let field_size = field_end - field_start + 1 in
       run_then (field_mask field_start (unat field_size)) (\<lambda>m.
         let v = ucast (drop_bit (unat field_start) (insn AND ucast m)) in
         run_then (c_shl v sz) (\<lambda>x.
           join_fields opr insn is (sz + field_size) (final_value OR x)))))"

definition get_value_from_fields :: "oper_list list \<Rightarrow> nat \<Rightarrow> u64 \<Rightarrow> (u32 \<times> u32) run" where
  "get_value_from_fields operands oper_id insn =
     (if length operands \<le> oper_id then Undef
      else (let opr = operands ! oper_id in
            join_fields opr insn [0..<unat (get_num_fields (ol_fields opr))] 0 0))"

definition sign_extend_to_long :: "u64 \<Rightarrow> nat \<Rightarrow> u64 run" where
  "sign_extend_to_long v bit_size =
     (if bit_size = 0 \<or> 64 \<le> bit_size then Undef
      else (let m = push_bit (bit_size - 1) 1; v = v AND (push_bit bit_size 1 - 1) in Ret ((v XOR m) - m)))"

definition decode_modifier :: "modifier list \<Rightarrow> oper_list list \<Rightarrow> mod_parms \<Rightarrow> nat \<Rightarrow> mod_parms run" where
  "decode_modifier modfndec operands mp oper_id =
     (if length operands \<le> oper_id then Undef
      else
        let mp = mp\<lparr>mp_output := 0\<rparr>; k = unat (of_int (ol_mod_type (operands ! oper_id)) :: u32) in
        if ol_mod_type (operands ! oper_id) = 0 then Ret mp
        else if k < length modfndec then Ret ((modfndec ! k) mp) else Undef)"

end
