(* ===== verification/OperandRoundtrip.thy ===== *)
theory OperandRoundtrip
  imports OperandCodec OpcodeTables
begin

text \<open>
  The assembler and the disassembler agree on operands: what \<open>encode_cons_field\<close> stores in the
  fields of an operand \<open>get_value_from_fields\<close> reads back.
\<close>

subsection \<open>Bits of a set\<close>

definition set_bits :: "u32 \<Rightarrow> nat list" where
  "set_bits e = filter (bit e) [0..<32]"

lemma and_shift [simp]: "k < 32 \<Longrightarrow> (e :: u32) AND push_bit k 1 \<noteq> 0 \<longleftrightarrow> bit e k"
  by (simp add: and_exp_eq_0_iff_not_bit)

lemma shift_zero: "push_bit k 1 = (0 :: u32) \<longleftrightarrow> 32 \<le> k"
  by (simp add: push_bit_of_1 exp_eq_zero_iff)

lemma upt_step: "k < 32 \<Longrightarrow> [k..<32] = k # [Suc k..<32]"
  by (simp add: upt_conv_Cons)

lemma count_ones_from:
  "k \<le> 32 \<Longrightarrow> count_ones e (push_bit k 1) n = n + of_nat (length (filter (bit e) [k..<32]))"
proof (induction "32 - k" arbitrary: k n)
  case 0
  then have "k = 32" by simp
  then show ?case by (subst count_ones.simps) (simp add: shift_zero)
next
  case (Suc d)
  then have k: "k < 32" by simp
  have nz: "push_bit k 1 \<noteq> (0 :: u32)" using k by (simp add: shift_zero)
  have sh: "push_bit 1 (push_bit k 1) = (push_bit (Suc k) 1 :: u32)" by (simp add: push_bit_push_bit)
  have "count_ones e (push_bit k 1) n = count_ones e (push_bit (Suc k) 1) (if bit e k then n + 1 else n)"
    by (subst count_ones.simps) (simp only: nz sh if_False and_shift [OF k])
  also have "\<dots> = (if bit e k then n + 1 else n) + of_nat (length (filter (bit e) [Suc k..<32]))"
    using Suc(2) by (intro Suc(1)) auto
  finally show ?case by (simp add: upt_step [OF k])
qed

lemma get_num_fields_bits: "get_num_fields e = of_nat (length (set_bits e))"
  using count_ones_from [of 0 e 0] by (simp add: get_num_fields_def set_bits_def)

lemma nth_one_from:
  "k \<le> 32 \<Longrightarrow> nth_one e pos (of_nat k) (push_bit k 1) =
     (if unat pos < length (filter (bit e) [k..<32]) then of_nat (filter (bit e) [k..<32] ! unat pos) else 999)"
proof (induction "32 - k" arbitrary: k pos)
  case 0
  then have "k = 32" by simp
  then show ?case by (subst nth_one.simps) (simp add: shift_zero)
next
  case (Suc d)
  then have k: "k < 32" by simp
  have nz: "push_bit k 1 \<noteq> (0 :: u32)" using k by (simp add: shift_zero)
  have sh: "push_bit 1 (push_bit k 1) = (push_bit (Suc k) 1 :: u32)" by (simp add: push_bit_push_bit)
  have one: "nth_one e pos (of_nat k) (push_bit k 1) =
      (if bit e k \<and> pos = 0 then of_nat k
       else nth_one e (if bit e k then pos - 1 else pos) (of_nat (Suc k)) (push_bit (Suc k) 1))"
    by (subst nth_one.simps) (simp only: nz sh if_False and_shift [OF k] of_nat_Suc add.commute)
  have IH: "nth_one e q (of_nat (Suc k)) (push_bit (Suc k) 1) =
      (if unat q < length (filter (bit e) [Suc k..<32]) then of_nat (filter (bit e) [Suc k..<32] ! unat q) else 999)" for q
    using Suc(2) by (intro Suc(1)) auto
  have dec: "unat (pos - 1) = unat pos - 1" "0 < unat pos" if "pos \<noteq> 0"
    using that by (simp_all add: unat_minus_one unat_gt_0)
  show ?case
    unfolding one IH upt_step [OF k] using dec by (auto simp: nth_Cons')
qed

lemma get_field_id_bits:
  "get_field_id e pos = (if unat pos < length (set_bits e) then of_nat (set_bits e ! unat pos) else 999)"
  using nth_one_from [of 0 e pos] by (simp add: get_field_id_def set_bits_def)

lemma bit_pos_from_bits:
  "pos \<noteq> 0 \<Longrightarrow> k \<le> 32 \<Longrightarrow> bit_pos_from v pos k =
     (if unat pos - 1 < length (filter (bit v) [k..<32]) then Ret (of_nat (filter (bit v) [k..<32] ! (unat pos - 1))) else Undef)"
proof (induction "32 - k" arbitrary: k pos)
  case 0
  then have "k = 32" by simp
  then show ?case by (subst bit_pos_from.simps) simp
next
  case (Suc d)
  then have k: "k < 32" by simp
  have one: "bit_pos_from v pos k = (if bit v k \<and> pos - 1 = 0 then Ret (of_nat k)
      else bit_pos_from v (if bit v k then pos - 1 else pos) (Suc k))"
  proof -
    have "\<not> 32 \<le> k" using k by simp
    then show ?thesis by (subst bit_pos_from.simps) (simp only: and_shift [OF k] Suc_eq_plus1 if_False)
  qed
  have IH: "bit_pos_from v q (Suc k) =
      (if unat q - 1 < length (filter (bit v) [Suc k..<32]) then Ret (of_nat (filter (bit v) [Suc k..<32] ! (unat q - 1))) else Undef)"
    if "q \<noteq> 0" for q
    using Suc(2) that by (intro Suc(1)) auto
  have dec: "unat (pos - 1) = unat pos - 1" "0 < unat pos"
    using Suc.prems(1) by (simp_all add: unat_minus_one unat_gt_0)
  have z: "pos - 1 = 0 \<longleftrightarrow> unat pos = 1" using dec by (metis One_nat_def Suc_pred diff_Suc_1 unat_eq_0)
  show ?case
    unfolding one upt_step [OF k] using dec z IH Suc.prems(1) by (auto simp: nth_Cons')
qed

lemma get_bit_pos_bits:
  assumes "unat pos < length (set_bits v)"
  shows "get_bit_pos v pos = Ret (of_nat (set_bits v ! unat pos))"
proof -
  have "length (set_bits v) \<le> 32"
    using length_filter_le [of "bit v" "[0..<32]"] by (simp add: set_bits_def)
  with assms have "unat pos + 1 < 2 ^ LENGTH(32)" by simp
  then have u: "unat (pos + 1) = unat pos + 1" by (simp add: unat_word_ariths)
  then have "pos + 1 \<noteq> 0" by (metis add_is_0 one_neq_zero unat_0)
  from bit_pos_from_bits [OF this, of 0 v] assms u show ?thesis
    by (simp add: get_bit_pos_def set_bits_def)
qed

subsection \<open>The fields of an operand\<close>

text \<open>
  The format of an operand, the numbers \<open>js\<close> of its fields, and for each of them its size and
  lowest bit. The layout: the fields are in the format, and their lowest and highest bits, from
  the last field to the first, are the bits of \<open>fields_positions\<close>.
\<close>

abbreviation (input) fmt_of :: "ac_dec_format list \<Rightarrow> oper_list \<Rightarrow> ac_dec_format" where
  "fmt_of fmts opr \<equiv> fmts ! unat (ol_format_id opr)"

definition fld :: "ac_dec_format list \<Rightarrow> oper_list \<Rightarrow> nat \<Rightarrow> ac_dec_field" where
  "fld fmts opr j = format_fields (fmt_of fmts opr) ! j"

definition sz :: "ac_dec_format list \<Rightarrow> oper_list \<Rightarrow> nat \<Rightarrow> nat" where
  "sz fmts opr j = nat (field_size (fld fmts opr j))"

definition lo :: "ac_dec_format list \<Rightarrow> oper_list \<Rightarrow> nat \<Rightarrow> nat" where
  "lo fmts opr j = low_of (fmt_of fmts opr) (fld fmts opr j)"

definition layout :: "ac_dec_format list \<Rightarrow> oper_list \<Rightarrow> nat list \<Rightarrow> bool" where
  "layout fmts opr js \<longleftrightarrow> set_bits (ol_fields opr) = js \<and>
     (\<forall>j \<in> set js. field_at fmts (unat (ol_format_id opr)) j = Some (fmt_of fmts opr, fld fmts opr j) \<and>
        inside (fmt_of fmts opr) (fld fmts opr j) \<and> 2 \<le> sz fmts opr j \<and> sz fmts opr j < 32) \<and>
     sorted_wrt (\<lambda>j k. lo fmts opr k + sz fmts opr k \<le> lo fmts opr j) js \<and>
     set_bits (ol_fields_positions opr) =
       concat (map (\<lambda>j. [lo fmts opr j, lo fmts opr j + sz fmts opr j - 1]) (rev js))"

text \<open>How far the field \<open>js ! i\<close> is from the low end of the value.\<close>

definition offset :: "(nat \<Rightarrow> nat) \<Rightarrow> nat list \<Rightarrow> nat \<Rightarrow> nat" where
  "offset s js i = sum_list (map s (drop (Suc i) js))"

lemma offset_last: "i < length js \<Longrightarrow> offset s js i + s (js ! i) = sum_list (map s (drop i js))"
  by (simp add: offset_def Cons_nth_drop_Suc [symmetric])

lemma set_bits_less: "j \<in> set (set_bits e) \<Longrightarrow> j < 32"
  by (simp add: set_bits_def)

lemma set_bits_length: "length (set_bits e) \<le> 32"
  using length_filter_le [of "bit e" "[0..<32]"] by (simp add: set_bits_def)

lemma set_bits_distinct: "distinct (set_bits e)"
  by (simp add: set_bits_def)

lemma layout_field:
  assumes "layout fmts opr js" "i < length js"
  shows "get_field_id (ol_fields opr) (of_nat i) = of_nat (js ! i)" "unat (of_nat (js ! i) :: u32) = js ! i"
    "get_field_size fmts (unat (ol_format_id opr)) (js ! i) = of_nat (sz fmts opr (js ! i))"
    "unat (of_nat (sz fmts opr (js ! i)) :: u64) = sz fmts opr (js ! i)" "sz fmts opr (js ! i) < 32"
proof -
  have js: "js = set_bits (ol_fields opr)" using assms(1) by (simp add: layout_def)
  then have len: "length js \<le> 32" using set_bits_length by simp
  have j: "js ! i \<in> set js" using assms(2) by simp
  then have "js ! i < 32" using js set_bits_less by blast
  then show "unat (of_nat (js ! i) :: u32) = js ! i" by (simp add: unat_of_nat)
  have "unat (of_nat i :: u32) = i" using assms(2) len by (simp add: unat_of_nat)
  then show "get_field_id (ol_fields opr) (of_nat i) = of_nat (js ! i)"
    using assms(2) js by (simp add: get_field_id_bits)
  have f: "field_at fmts (unat (ol_format_id opr)) (js ! i) = Some (fmt_of fmts opr, fld fmts opr (js ! i))"
    "inside (fmt_of fmts opr) (fld fmts opr (js ! i))" "sz fmts opr (js ! i) < 32"
    using assms(1) j by (auto simp: layout_def)
  then show s: "sz fmts opr (js ! i) < 32" by simp
  have "(of_int (field_size (fld fmts opr (js ! i))) :: u64) = of_nat (sz fmts opr (js ! i))"
    using f(2) by (simp add: sz_def inside_def of_nat_nat)
  with f(1) show "get_field_size fmts (unat (ol_format_id opr)) (js ! i) = of_nat (sz fmts opr (js ! i))"
    by (simp add: get_field_size_def)
  show "unat (of_nat (sz fmts opr (js ! i)) :: u64) = sz fmts opr (js ! i)"
    using s by (simp add: unat_of_nat)
qed

text \<open>Splitting the input gives each field the input from its offset on.\<close>

lemma split_input_fields:
  assumes "layout fmts opr js" "\<forall>j \<in> set js. j < length (mp_field mp)" "n \<le> length js"
  shows "\<exists>mp'. split_input fmts opr n mp = Ret mp' \<and> length (mp_field mp') = length (mp_field mp) \<and>
    (\<forall>i < n. mp_field mp' ! (js ! i) = drop_bit (sum_list (map (sz fmts opr) (drop (Suc i) (take n js)))) (mp_input mp)) \<and>
    (\<forall>j. j \<notin> set (take n js) \<longrightarrow> mp_field mp' ! j = mp_field mp ! j)"
  using assms(2,3)
proof (induction n arbitrary: mp)
  case (Suc n)
  then have n: "n < length js" by simp
  note F = layout_field [OF assms(1) n]
  define k where "k = sz fmts opr (js ! n)"
  define mp1 where "mp1 = mp\<lparr>mp_field := (mp_field mp)[js ! n := mp_input mp], mp_input := drop_bit k (mp_input mp)\<rparr>"
  have lt: "js ! n < length (mp_field mp)" using Suc.prems(1) n by simp
  have "(of_nat k :: u64) < 32" using F(4,5) by (simp add: word_less_nat_alt k_def)
  then have step: "split_input fmts opr (Suc n) mp = split_input fmts opr n mp1"
    using F lt by (simp add: Let_def put_field_value_def shift_input_def mp1_def k_def)
  have len: "length (mp_field mp1) = length (mp_field mp)" by (simp add: mp1_def)
  obtain mp' where mp': "split_input fmts opr n mp1 = Ret mp'" "length (mp_field mp') = length (mp_field mp)"
    "\<forall>i < n. mp_field mp' ! (js ! i) = drop_bit (sum_list (map (sz fmts opr) (drop (Suc i) (take n js)))) (mp_input mp1)"
    "\<forall>j. j \<notin> set (take n js) \<longrightarrow> mp_field mp' ! j = mp_field mp1 ! j"
    using Suc.IH [of mp1] Suc.prems len by auto
  have dist: "distinct js" using assms(1) set_bits_distinct by (metis layout_def)
  have take: "take (Suc n) js = take n js @ [js ! n]" using n by (rule take_Suc_conv_app_nth)
  have new: "js ! n \<notin> set (take n js)" using dist n by (metis distinct_take take distinct_append disjoint_iff list.set_intros(1))
  have "mp_field mp' ! (js ! i) = drop_bit (sum_list (map (sz fmts opr) (drop (Suc i) (take (Suc n) js)))) (mp_input mp)"
    if "i < Suc n" for i
  proof (cases "i = n")
    case True
    then show ?thesis using mp'(4) new lt n by (simp add: mp1_def take)
  next
    case False
    with that have i: "i < n" by simp
    with n have "drop (Suc i) (take (Suc n) js) = drop (Suc i) (take n js) @ [js ! n]" by (simp add: take)
    with mp'(3) i show ?thesis by (simp add: mp1_def k_def drop_bit_drop_bit add.commute)
  qed
  moreover have "mp_field mp' ! j = mp_field mp ! j" if "j \<notin> set (take (Suc n) js)" for j
    using that mp'(4) by (simp add: take mp1_def)
  ultimately show ?case using step mp'(1,2) by auto
qed simp

text \<open>Storing the fields.\<close>

definition in_field :: "ac_dec_format list \<Rightarrow> oper_list \<Rightarrow> nat \<Rightarrow> nat \<Rightarrow> bool" where
  "in_field fmts opr j b \<longleftrightarrow> lo fmts opr j \<le> b \<and> b < lo fmts opr j + sz fmts opr j"

lemma layout_disjoint:
  assumes "layout fmts opr js" "i < length js" "k < length js" "in_field fmts opr (js ! i) b" "in_field fmts opr (js ! k) b"
  shows "i = k"
proof -
  have s: "lo fmts opr (js ! k) + sz fmts opr (js ! k) \<le> lo fmts opr (js ! i)" if "i < k" "k < length js" for i k
    using assms(1) that by (auto simp: layout_def sorted_wrt_iff_nth_less)
  show ?thesis
    using s [of i k] s [of k i] assms(2-5) by (cases i k rule: linorder_cases) (auto simp: in_field_def)
qed

lemma store_fields_bits:
  assumes "layout fmts opr js" "\<forall>j \<in> set js. j < length (mp_field mp)" "distinct lts" "\<forall>i \<in> set lts. i < length js"
  shows "\<exists>img'. store_fields fmts opr mp lts img = Ret img' \<and>
    (\<forall>i \<in> set lts. \<forall>b. in_field fmts opr (js ! i) b \<longrightarrow> bit img' b = bit (mp_field mp ! (js ! i)) (b - lo fmts opr (js ! i))) \<and>
    (\<forall>b. (\<forall>i \<in> set lts. \<not> in_field fmts opr (js ! i) b) \<longrightarrow> bit img' b = bit img b)"
  using assms(3,4)
proof (induction lts arbitrary: img)
  case (Cons x xs)
  let ?j = "js ! x"
  have x: "x < length js" using Cons.prems by simp
  then have j: "?j \<in> set js" by simp
  note F = layout_field [OF assms(1) x]
  have f: "field_at fmts (unat (ol_format_id opr)) ?j = Some (fmt_of fmts opr, fld fmts opr ?j)"
    "inside (fmt_of fmts opr) (fld fmts opr ?j)" using assms(1) j by (auto simp: layout_def)
  obtain img1 where 1: "ac_encode_insn fmts (unat (ol_format_id opr)) ?j (ucast (mp_field mp ! ?j)) img = Ret img1"
    "\<And>b. bit img1 b \<longleftrightarrow> (if in_field fmts opr ?j b then bit (ucast (mp_field mp ! ?j) :: u64) (b - lo fmts opr ?j) else bit img b)"
    using ac_encode_insn_bits [OF f, of "ucast (mp_field mp ! ?j)" img]
    unfolding in_field_def lo_def sz_def by blast
  have xs: "distinct xs" "\<forall>i \<in> set xs. i < length js" using Cons.prems by simp_all
  from Cons.IH [OF xs, of img1] obtain img' where img': "store_fields fmts opr mp xs img1 = Ret img'"
    "\<forall>i \<in> set xs. \<forall>b. in_field fmts opr (js ! i) b \<longrightarrow> bit img' b = bit (mp_field mp ! (js ! i)) (b - lo fmts opr (js ! i))"
    "\<forall>b. (\<forall>i \<in> set xs. \<not> in_field fmts opr (js ! i) b) \<longrightarrow> bit img' b = bit img1 b"
    by (elim exE conjE)
  have "store_fields fmts opr mp (x # xs) img = Ret img'"
    using assms(2) j 1(1) img'(1) by (simp add: F(1,2) Let_def)
  moreover have "bit img' b = bit (mp_field mp ! ?j) (b - lo fmts opr ?j)" if "in_field fmts opr ?j b" for b
  proof -
    have "\<not> in_field fmts opr (js ! i) b" if i: "i \<in> set xs" for i
    proof
      assume "in_field fmts opr (js ! i) b"
      moreover have "i < length js" using xs(2) i by blast
      ultimately have "x = i" using layout_disjoint [OF assms(1) x _ \<open>in_field fmts opr ?j b\<close>] by blast
      with i Cons.prems(1) show False by simp
    qed
    with img'(3) have "bit img' b = bit img1 b" by blast
    then show ?thesis using that by (simp add: 1(2) bit_ucast_iff) (auto dest: bit_imp_le_length)
  qed
  moreover have "bit img' b = bit img b" if "\<forall>i \<in> set (x # xs). \<not> in_field fmts opr (js ! i) b" for b
  proof -
    have "\<forall>i \<in> set xs. \<not> in_field fmts opr (js ! i) b" "\<not> in_field fmts opr ?j b" using that by simp_all
    with img'(3) 1(2) show ?thesis by presburger
  qed
  ultimately show ?case using img'(2) unfolding list.set ball_simps by blast
qed simp

text \<open>Joining the fields.\<close>

lemma concat_pairs_nth:
  "i < length R \<Longrightarrow> concat (map (\<lambda>j. [f j, g j]) R) ! (2 * i) = f (R ! i) \<and>
     concat (map (\<lambda>j. [f j, g j]) R) ! Suc (2 * i) = g (R ! i)"
proof (induction R arbitrary: i)
  case (Cons x R)
  then show ?case by (cases i) auto
qed simp

lemma length_concat_pairs: "length (concat (map (\<lambda>j. [f j, g j]) R)) = 2 * length R"
  by (induction R) auto

lemma field_mask_bits:
  "unat start + k \<le> 32 \<Longrightarrow> field_mask start k = Ret (push_bit (unat start) (mask k))"
proof (induction k)
  case (Suc k)
  then have "unat (of_nat k :: u32) = k" "unat (start + of_nat k) = unat start + k"
    by (simp_all add: unat_of_nat unat_word_ariths)
  with Suc have "field_mask start (Suc k) =
      Ret (push_bit (unat start) (mask k) OR push_bit (unat start + k) 1)"
    by (simp add: c_shl_def)
  also have "push_bit (unat start) (mask k) OR push_bit (unat start + k) 1 = (push_bit (unat start) (mask (Suc k)) :: u32)"
    by (intro bit_word_eqI) (auto simp: bit_simps bit_1_iff less_Suc_eq)
  finally show ?case .
qed simp

lemma layout_sum:
  assumes "layout fmts opr js"
  shows "sum_list (map (sz fmts opr) js) \<le> 32"
proof -
  have "sorted_wrt (\<lambda>j k. lo fmts opr k + sz fmts opr k \<le> lo fmts opr j) ks \<Longrightarrow>
      \<forall>j \<in> set ks. lo fmts opr j + sz fmts opr j \<le> B \<Longrightarrow> sum_list (map (sz fmts opr) ks) \<le> B" for ks B
  proof (induction ks arbitrary: B)
    case (Cons j ks)
    have "sum_list (map (sz fmts opr) ks) \<le> lo fmts opr j" using Cons.IH [of "lo fmts opr j"] Cons.prems(1) by simp
    with Cons.prems(2) show ?case by simp
  qed simp
  moreover have "lo fmts opr j + sz fmts opr j \<le> 32" if "j \<in> set js" for j
    using assms that inside_low(2) by (auto simp: layout_def lo_def sz_def)
  ultimately show ?thesis using assms by (simp add: layout_def)
qed


definition below :: "(nat \<Rightarrow> nat) \<Rightarrow> nat list \<Rightarrow> nat \<Rightarrow> nat" where
  "below s R i = sum_list (map s (take i R))"

lemma below_Suc: "i < length R \<Longrightarrow> below s R (Suc i) = below s R i + s (R ! i)"
  by (simp add: below_def take_Suc_conv_app_nth)

lemma below_0 [simp]: "below s R 0 = 0"
  by (simp add: below_def)

lemma below_le: "below s R i \<le> sum_list (map s R)"
proof -
  have "sum_list (map s R) = sum_list (map s (take i R @ drop i R))" by simp
  then show ?thesis unfolding map_append sum_list_append below_def by linarith
qed

lemma below_cover: "n \<le> length R \<Longrightarrow> b < below s R n \<Longrightarrow> \<exists>i < n. below s R i \<le> b \<and> b < below s R i + s (R ! i)"
proof (induction n)
  case (Suc n)
  then have e: "below s R (Suc n) = below s R n + s (R ! n)" by (simp add: below_Suc)
  show ?case
  proof (cases "b < below s R n")
    case True
    with Suc show ?thesis by (meson Suc_leD less_Suc_eq)
  next
    case False
    with Suc.prems(2) e show ?thesis by (intro exI [of _ n]) simp
  qed
qed simp

lemma below_rev:
  assumes "i < length js"
  shows "below s (rev js) i = sum_list (map s (drop (length js - i) js))"
  using assms by (simp add: below_def take_rev rev_map [symmetric])

lemma layout_positions:
  assumes "layout fmts opr js" "i < length js"
  shows "get_bit_pos (ol_fields_positions opr) (of_nat i * 2) = Ret (of_nat (lo fmts opr (rev js ! i)))"
    "get_bit_pos (ol_fields_positions opr) (of_nat i * 2 + 1) =
       Ret (of_nat (lo fmts opr (rev js ! i) + sz fmts opr (rev js ! i) - 1))"
    "lo fmts opr (rev js ! i) + sz fmts opr (rev js ! i) \<le> 32" "2 \<le> sz fmts opr (rev js ! i)" "sz fmts opr (rev js ! i) < 32"
proof -
  let ?P = "set_bits (ol_fields_positions opr)" and ?f = "lo fmts opr"
    and ?g = "\<lambda>j. lo fmts opr j + sz fmts opr j - 1"
  have P: "?P = concat (map (\<lambda>j. [?f j, ?g j]) (rev js))" using assms(1) by (simp add: layout_def)
  have len: "length ?P = 2 * length js" unfolding P length_concat_pairs by simp
  have "length js \<le> 32" using assms(1) set_bits_length by (metis layout_def)
  then have u: "unat (of_nat i * 2 :: u32) = 2 * i" "unat (of_nat i * 2 + 1 :: u32) = Suc (2 * i)"
    using assms(2) by (simp_all add: unat_of_nat unat_word_ariths)
  have i: "i < length (rev js)" using assms(2) by simp
  note N = concat_pairs_nth [OF i, of ?f ?g]
  show "get_bit_pos (ol_fields_positions opr) (of_nat i * 2) = Ret (of_nat (lo fmts opr (rev js ! i)))"
    using get_bit_pos_bits [of "of_nat i * 2" "ol_fields_positions opr"] assms(2) len u(1) N P by simp
  show "get_bit_pos (ol_fields_positions opr) (of_nat i * 2 + 1) = Ret (of_nat (?g (rev js ! i)))"
    using get_bit_pos_bits [of "of_nat i * 2 + 1" "ol_fields_positions opr"] assms(2) len u(2) N P by simp
  have "rev js ! i \<in> set js" using i by (metis nth_mem set_rev)
  then show "lo fmts opr (rev js ! i) + sz fmts opr (rev js ! i) \<le> 32" "2 \<le> sz fmts opr (rev js ! i)" "sz fmts opr (rev js ! i) < 32"
    using assms(1) inside_low(2) by (auto simp: layout_def lo_def sz_def)
qed

lemma join_step_value:
  assumes "l + s \<le> 32"
  shows "ucast (drop_bit l (insn AND ucast (push_bit l (mask s) :: u32)) :: u64) = (take_bit s (ucast (drop_bit l insn)) :: u32)"
  using assms by (intro bit_word_eqI) (auto simp: bit_simps)

lemma ex_from_split: "(\<exists>i. k \<le> i \<and> Q i) \<longleftrightarrow> Q k \<or> (\<exists>i. Suc k \<le> i \<and> Q i)"
  using Suc_le_eq le_eq_less_or_eq by auto

lemma join_fields_bits:
  assumes L: "layout fmts opr js" and k: "k \<le> length js"
  shows "\<exists>fv'. join_fields opr insn [k..<length js] (of_nat (below (sz fmts opr) (rev js) k)) fv =
      Ret (fv', of_nat (sum_list (map (sz fmts opr) js))) \<and>
    (\<forall>b. bit fv' b \<longleftrightarrow> bit fv b \<or> (\<exists>i. k \<le> i \<and> i < length js \<and> below (sz fmts opr) (rev js) i \<le> b \<and>
       b < below (sz fmts opr) (rev js) i + sz fmts opr (rev js ! i) \<and>
       bit insn (lo fmts opr (rev js ! i) + (b - below (sz fmts opr) (rev js) i))))"
  using k
proof (induction "length js - k" arbitrary: k fv)
  case 0
  then have "k = length js" by simp
  moreover have "below (sz fmts opr) (rev js) (length js) = sum_list (map (sz fmts opr) js)"
    by (simp add: below_def rev_map [symmetric])
  ultimately show ?case by auto
next
  case (Suc d)
  then have k: "k < length js" by simp
  note P = layout_positions [OF L k]
  define l where "l = lo fmts opr (rev js ! k)"
  define s where "s = sz fmts opr (rev js ! k)"
  define o1 where "o1 = below (sz fmts opr) (rev js) k"
  have o2: "below (sz fmts opr) (rev js) (Suc k) = o1 + s" using k by (simp add: below_Suc o1_def s_def)
  have "below (sz fmts opr) (rev js) (Suc k) \<le> 32"
    using below_le [of "sz fmts opr" "rev js"] layout_sum [OF L] by (simp add: rev_map [symmetric]) (meson le_trans)
  with o2 P(4) have o: "o1 + s \<le> 32" "o1 < 32" by (auto simp: s_def)
  have ls: "l + s \<le> 32" "2 \<le> s" "s < 32" using P(3-5) by (simp_all add: l_def s_def)
  have u: "unat (of_nat l :: u32) = l" "unat (of_nat s :: u32) = s" "unat (of_nat o1 :: u32) = o1"
    using ls o by (simp_all add: unat_of_nat)
  have fs: "of_nat (l + s - 1) - of_nat l + 1 = (of_nat s :: u32)"
    using ls by (simp add: of_nat_diff)
  have fm: "field_mask (of_nat l) s = Ret (push_bit l (mask s))"
    using field_mask_bits [of "of_nat l" s] u ls by simp
  define x where "x = push_bit o1 (take_bit s (ucast (drop_bit l insn)) :: u32)"
  have sh: "c_shl (take_bit s (ucast (drop_bit l insn)) :: u32) (of_nat o1) = Ret x"
    using u(3) o(2) by (simp add: c_shl_def x_def)
  have step: "join_fields opr insn [k..<length js] (of_nat o1) fv =
      join_fields opr insn [Suc k..<length js] (of_nat (o1 + s)) (fv OR x)"
    using P(1,2) k fm sh join_step_value [OF ls(1), of insn] u(1,2) fs
    by (simp only: upt_conv_Cons join_fields.simps run_then.simps Let_def l_def [symmetric] s_def [symmetric] of_nat_add)
  have b: "bit (fv OR x) b \<longleftrightarrow> bit fv b \<or> (o1 \<le> b \<and> b < o1 + s \<and> bit insn (l + (b - o1)))" for b
    using o ls unfolding x_def by (auto simp: bit_simps dest: bit_imp_le_length)
  have d: "d = length js - Suc k" "Suc k \<le> length js" using Suc.hyps(2) k by simp_all
  from Suc.hyps(1) [OF d, of "fv OR x"] obtain fv' where fv':
    "join_fields opr insn [Suc k..<length js] (of_nat (below (sz fmts opr) (rev js) (Suc k))) (fv OR x) =
      Ret (fv', of_nat (sum_list (map (sz fmts opr) js)))"
    "\<forall>b. bit fv' b \<longleftrightarrow> bit (fv OR x) b \<or> (\<exists>i. Suc k \<le> i \<and> i < length js \<and> below (sz fmts opr) (rev js) i \<le> b \<and>
       b < below (sz fmts opr) (rev js) i + sz fmts opr (rev js ! i) \<and>
       bit insn (lo fmts opr (rev js ! i) + (b - below (sz fmts opr) (rev js) i)))"
    by (elim exE conjE)
  show ?case
  proof (intro exI conjI allI)
    show "join_fields opr insn [k..<length js] (of_nat (below (sz fmts opr) (rev js) k)) fv =
      Ret (fv', of_nat (sum_list (map (sz fmts opr) js)))"
      using step fv'(1) unfolding o2 o1_def [symmetric] by simp
    show "bit fv' b \<longleftrightarrow> bit fv b \<or> (\<exists>i. k \<le> i \<and> i < length js \<and> below (sz fmts opr) (rev js) i \<le> b \<and>
       b < below (sz fmts opr) (rev js) i + sz fmts opr (rev js ! i) \<and>
       bit insn (lo fmts opr (rev js ! i) + (b - below (sz fmts opr) (rev js) i)))" for b
      unfolding fv'(2) [rule_format] b o1_def s_def l_def ex_from_split [of k] using k by simp
  qed
qed


text \<open>Storing and reading together.\<close>

lemma encode_decode:
  assumes L: "layout fmts opr js" and n: "n < length ops" "ops ! n = opr"
    and m: "ol_mod_type opr = 0" and mp: "\<forall>j \<in> set js. j < length (mp_field mp)"
  shows "\<exists>img' mp'. encode_cons_field fmts ops modfn max_fields img mp n = Ret (img', mp') \<and>
    get_value_from_fields ops n (ucast img') =
      Ret (take_bit (sum_list (map (sz fmts opr) js)) (mp_input mp), of_nat (sum_list (map (sz fmts opr) js))) \<and>
    (\<forall>b. (\<forall>j \<in> set js. \<not> in_field fmts opr j b) \<longrightarrow> bit img' b = bit img b)"
proof -
  let ?T = "sum_list (map (sz fmts opr) js)" and ?s = "sz fmts opr" and ?N = "length js"
  define mp0 where "mp0 = mp\<lparr>mp_addend := of_int (ol_mod_addend opr), mp_error := 0\<rparr>"
  have mp0: "mp_input mp0 = mp_input mp" "\<forall>j \<in> set js. j < length (mp_field mp0)" using mp by (simp_all add: mp0_def)
  have nf: "unat (get_num_fields (ol_fields opr)) = ?N"
  proof -
    have "?N \<le> 32" using L set_bits_length by (metis layout_def)
    with L show ?thesis by (simp add: get_num_fields_bits layout_def unat_of_nat)
  qed
  obtain mp1 where 1: "split_input fmts opr ?N mp0 = Ret mp1" "length (mp_field mp1) = length (mp_field mp0)"
    "\<forall>i < ?N. mp_field mp1 ! (js ! i) = drop_bit (sum_list (map ?s (drop (Suc i) js))) (mp_input mp)"
    using split_input_fields [OF L mp0(2) order_refl] mp0(1) by auto
  have "\<forall>j \<in> set js. j < length (mp_field mp1)" using 1(2) mp0(2) by simp
  from store_fields_bits [OF L this, of "[0..<?N]" img] obtain img' where 2:
    "store_fields fmts opr mp1 [0..<?N] img = Ret img'"
    "\<forall>i < ?N. \<forall>b. in_field fmts opr (js ! i) b \<longrightarrow> bit img' b = bit (mp_field mp1 ! (js ! i)) (b - lo fmts opr (js ! i))"
    "\<forall>b. (\<forall>i < ?N. \<not> in_field fmts opr (js ! i) b) \<longrightarrow> bit img' b = bit img b"
    by auto
  have enc: "encode_cons_field fmts ops modfn max_fields img mp n = Ret (img', mp1)"
    using n m nf 1(1) 2(1) by (simp add: encode_cons_field_def Let_def mp0_def)
  obtain v where v: "get_value_from_fields ops n (ucast img') = Ret (v, of_nat ?T)"
    "\<forall>b. bit v b \<longleftrightarrow> (\<exists>i. i < ?N \<and> below ?s (rev js) i \<le> b \<and> b < below ?s (rev js) i + ?s (rev js ! i) \<and>
       bit (ucast img' :: u64) (lo fmts opr (rev js ! i) + (b - below ?s (rev js) i)))"
    using join_fields_bits [OF L, of 0 "ucast img'" 0] n nf by (auto simp: get_value_from_fields_def Let_def)
  have field: "bit (ucast img' :: u64) (lo fmts opr (rev js ! i) + (b - below ?s (rev js) i)) \<longleftrightarrow> bit (mp_input mp) b"
    if i: "i < ?N" "below ?s (rev js) i \<le> b" "b < below ?s (rev js) i + ?s (rev js ! i)" for i b
  proof -
    define k where "k = ?N - Suc i"
    have k: "k < ?N" "rev js ! i = js ! k" using i(1) by (simp_all add: k_def rev_nth)
    define c where "c = b - below ?s (rev js) i"
    have dk: "drop (Suc k) js = drop (?N - i) js" using i(1) by (simp add: k_def Suc_diff_Suc)
    have bel: "below ?s (rev js) i = sum_list (map ?s (drop (Suc k) js))" unfolding dk using i(1) by (rule below_rev)
    have c: "c < ?s (js ! k)" using i k(2) by (simp add: c_def)
    then have "in_field fmts opr (js ! k) (lo fmts opr (js ! k) + c)" by (simp add: in_field_def)
    with 2(2) k(1) have "bit img' (lo fmts opr (js ! k) + c) = bit (mp_field mp1 ! (js ! k)) c" by fastforce
    also have "\<dots> = bit (mp_input mp) (below ?s (rev js) i + c)"
      using 1(3) k(1) by (simp add: bel bit_simps)
    also have "below ?s (rev js) i + c = b" using i by (simp add: c_def)
    finally have "bit img' (lo fmts opr (js ! k) + c) = bit (mp_input mp) b" .
    moreover have "lo fmts opr (js ! k) + c < 32" using layout_positions(3) [OF L i(1)] c k(2) by simp
    ultimately show ?thesis by (simp add: bit_ucast_iff k(2) c_def)
  qed
  have all: "below ?s (rev js) ?N = ?T" by (simp add: below_def rev_map [symmetric])
  have "v = take_bit ?T (mp_input mp)"
  proof (rule bit_word_eqI)
    fix b
    have "bit v b \<longleftrightarrow> (\<exists>i < ?N. below ?s (rev js) i \<le> b \<and> b < below ?s (rev js) i + ?s (rev js ! i)) \<and> bit (mp_input mp) b"
      unfolding v(2) [rule_format] using field by blast
    also have "(\<exists>i < ?N. below ?s (rev js) i \<le> b \<and> b < below ?s (rev js) i + ?s (rev js ! i)) \<longleftrightarrow> b < ?T"
    proof
      assume "\<exists>i < ?N. below ?s (rev js) i \<le> b \<and> b < below ?s (rev js) i + ?s (rev js ! i)"
      then obtain i where i: "i < ?N" "b < below ?s (rev js) (Suc i)" by (auto simp: below_Suc)
      then show "b < ?T" using below_le [of ?s "rev js" "Suc i"] by (simp add: rev_map [symmetric])
    next
      assume "b < ?T"
      then show "\<exists>i < ?N. below ?s (rev js) i \<le> b \<and> b < below ?s (rev js) i + ?s (rev js ! i)"
        using below_cover [of ?N "rev js" b ?s] all by simp
    qed
    finally show "bit v b \<longleftrightarrow> bit (take_bit ?T (mp_input mp)) b" by (simp add: bit_take_bit_iff)
  qed
  moreover have "\<forall>b. (\<forall>j \<in> set js. \<not> in_field fmts opr j b) \<longrightarrow> bit img' b = bit img b"
    using 2(3) nth_mem by blast
  ultimately show ?thesis using enc v(1) by blast
qed


subsection \<open>The layout of a generated operand\<close>

text \<open>An operand whose fields \<open>js\<close> are fields of its format, in order and apart from each other.\<close>

definition well_placed :: "ac_dec_format \<Rightarrow> ac_operand_list \<Rightarrow> nat list \<Rightarrow> bool" where
  "well_placed p x js \<longleftrightarrow> op_fields x = map (\<lambda>j. asm_field j (format_fields p ! j)) js \<and>
     sorted_wrt (<) js \<and>
     (\<forall>j \<in> set js. j < 32 \<and> j < length (format_fields p) \<and> inside p (format_fields p ! j) \<and>
        2 \<le> field_size (format_fields p ! j) \<and> field_size (format_fields p ! j) < 32) \<and>
     sorted_wrt (\<lambda>f g. first_bit f + field_size g \<le> first_bit g) (map (\<lambda>j. format_fields p ! j) js)"

lemma set_bits_unique:
  assumes "sorted_wrt (<) ks" "\<And>b. bit e b \<longleftrightarrow> b \<in> set ks"
  shows "set_bits e = ks"
proof -
  have "sorted_wrt (<) (set_bits e)" unfolding set_bits_def by (intro sorted_wrt_filter) (rule sorted_wrt_upt)
  moreover have "set (set_bits e) = set ks"
    using assms(2) bit_imp_le_length [of e] by (auto simp: set_bits_def)
  ultimately show ?thesis using assms(1) by (metis strict_sorted_equal)
qed

lemma encode_fields_ids: "encode_fields_from e fs = Ret r \<Longrightarrow> f \<in> set fs \<Longrightarrow> unat (aif_id f) < 32"
  by (induction fs arbitrary: e) (auto simp: c_shl_def split: if_splits)

lemma encode_positions_from_bits:
  "encode_positions_from n e fs = Ret r \<Longrightarrow>
   bit r b \<longleftrightarrow> bit e b \<or> (\<exists>f \<in> set fs. b = unat (n - aif_first_bit f - 1) \<or> b = unat (n - aif_first_bit f - 1 + aif_size f - 1))"
proof (induction fs arbitrary: e)
  case (Cons f fs)
  let ?a = "n - aif_first_bit f - 1" and ?b = "n - aif_first_bit f - 1 + aif_size f - 1"
  from Cons.prems have f: "unat ?a < 32" "unat ?b < 32"
    "encode_positions_from n (e OR (push_bit (unat ?a) 1 OR push_bit (unat ?b) 1)) fs = Ret r"
    by (auto simp: c_shl_def Let_def split: if_splits)
  have "bit (push_bit (unat ?a) (1 :: u32)) b \<longleftrightarrow> b = unat ?a" "bit (push_bit (unat ?b) (1 :: u32)) b \<longleftrightarrow> b = unat ?b"
    using f(1,2) by (auto simp: bit_simps)
  with Cons.IH [OF f(3)] show ?case by (auto simp: bit_or_iff)
qed simp

lemma field_word_ends:
  assumes "inside p f" "2 \<le> field_size f"
  shows "unat (of_int (format_size p) - aif_first_bit (asm_field j f) - 1) = low_of p f"
    "unat (of_int (format_size p) - aif_first_bit (asm_field j f) - 1 + aif_size (asm_field j f) - 1) =
       low_of p f + nat (field_size f) - 1"
proof -
  have "of_int (format_size p) - aif_first_bit (asm_field j f) - 1 = (of_int (int (low_of p f)) :: u32)"
    using assms by (simp add: asm_field_def low_of_def inside_def)
  moreover have "aif_size (asm_field j f) = of_int (int (nat (field_size f)))"
    using assms by (simp add: asm_field_def)
  ultimately have a: "of_int (format_size p) - aif_first_bit (asm_field j f) - 1 = (of_nat (low_of p f) :: u32)"
    "of_int (format_size p) - aif_first_bit (asm_field j f) - 1 + aif_size (asm_field j f) - 1 =
       (of_nat (low_of p f + nat (field_size f) - 1) :: u32)"
    using assms(2) by (simp_all add: of_nat_diff)
  have le: "low_of p f + nat (field_size f) \<le> 32" using inside_low(2) [OF assms(1)] .
  have "0 < nat (field_size f)" using assms(2) by simp
  with le have "low_of p f < 2 ^ 32" "low_of p f + nat (field_size f) - 1 < 2 ^ 32" by simp_all
  note u = this [THEN unat_small]
  show "unat (of_int (format_size p) - aif_first_bit (asm_field j f) - 1) = low_of p f"
    using arg_cong [OF a(1), of unat] u(1) by (rule trans)
  show "unat (of_int (format_size p) - aif_first_bit (asm_field j f) - 1 + aif_size (asm_field j f) - 1) =
      low_of p f + nat (field_size f) - 1"
    using arg_cong [OF a(2), of unat] u(2) by (rule trans)
qed

lemma sorted_pairs:
  "sorted_wrt (\<lambda>j k. g j < f k) R \<Longrightarrow> \<forall>j \<in> set R. (f j :: nat) < g j \<Longrightarrow>
   sorted_wrt (<) (concat (map (\<lambda>j. [f j, g j]) R))"
proof (induction R)
  case (Cons a R)
  have "f a < f j" "f a < g j" "g a < f j" "g a < g j" if "j \<in> set R" for j
    using Cons.prems that by (force intro: order.strict_trans)+
  with Cons show ?case by auto
qed simp

lemma format_index_first:
  "find_first (\<lambda>p. strcmp name (format_name p) = 0) fmts = Some p \<Longrightarrow>
   \<exists>i < length fmts. fmts ! i = p \<and> format_index name n fmts = Some (n + of_nat i)"
proof (induction fmts arbitrary: n)
  case (Cons q fmts)
  show ?case
  proof (cases "strcmp name (format_name q) = 0")
    case False
    with Cons obtain i where "i < length fmts" "fmts ! i = p" "format_index name (n + 1) fmts = Some (n + 1 + of_nat i)"
      by force
    with False show ?thesis by (intro exI [of _ "Suc i"]) simp
  qed (use Cons.prems in auto)
qed simp

lemma new_oper_layout:
  assumes "new_oper fmts instrs a k x = Ret y" "ai_insn a = Some k" "length fmts < 2 ^ 31"
    and p: "find_first (\<lambda>p. strcmp (instr_format (instrs ! k)) (format_name p) = 0) fmts = Some p" and w: "well_placed p x js"
  shows "layout fmts y js" "fmt_of fmts y = p"
proof -
  let ?f = "\<lambda>j. format_fields p ! j"
  from assms(1) obtain e pos n where r: "encode_fields (op_fields x) = Ret e" "get_insn_size fmts instrs a = Ret n"
    "encode_fields_positions (op_fields x) n = Ret pos"
    "ol_fields y = e" "ol_fields_positions y = pos" "ol_format_id y = of_int (get_format_id fmts (instr_format (instrs ! k)))"
    by (auto simp: new_oper_def)
  have n: "n = of_int (format_size p)" using r(2) assms(2) p by (simp add: get_insn_size_def)
  obtain i where i: "i < length fmts" "fmts ! i = p" "format_index (instr_format (instrs ! k)) (0 :: u32) fmts = Some (of_nat i)"
    using format_index_first [OF p, of 0] by auto
  have "ol_format_id y = of_nat i" using r(6) i(3) by (simp add: get_format_id_def)
  then have id: "unat (ol_format_id y) = i" using i(1) assms(3) by (simp add: unat_of_nat)
  then show fmt: "fmt_of fmts y = p" using i(2) by simp
  have js: "op_fields x = map (\<lambda>j. asm_field j (?f j)) js" "sorted_wrt (<) js"
    "sorted_wrt (\<lambda>f g. first_bit f + field_size g \<le> first_bit g) (map ?f js)"
    "\<And>j. j \<in> set js \<Longrightarrow> j < 32 \<and> j < length (format_fields p) \<and> inside p (?f j) \<and> 2 \<le> field_size (?f j) \<and> field_size (?f j) < 32"
    using w by (auto simp: well_placed_def)
  have fl: "fld fmts y j = ?f j" "sz fmts y j = nat (field_size (?f j))" "lo fmts y j = low_of p (?f j)" for j
    by (simp_all add: sz_def lo_def fld_def fmt)
  have fields: "set_bits (ol_fields y) = js"
  proof (rule set_bits_unique [OF js(2)])
    fix b
    have "unat (aif_id (asm_field j (?f j))) = j" if "j \<in> set js" for j
      using js(4) [OF that] by (simp add: asm_field_def unat_of_nat)
    then show "bit (ol_fields y) b \<longleftrightarrow> b \<in> set js"
      using encode_fields_from_bits [OF r(1) [unfolded encode_fields_def], of b] js(4) r(4) by (auto simp: js(1))
  qed
  have apart: "sorted_wrt (\<lambda>j k. lo fmts y k + sz fmts y k \<le> lo fmts y j) js"
    using js(3) unfolding sorted_wrt_map
  proof (rule sorted_wrt_mono_rel [rotated])
    fix j k assume "j \<in> set js" "k \<in> set js" "first_bit (?f j) + field_size (?f k) \<le> first_bit (?f k)"
    with js(4) [of j] js(4) [of k] show "lo fmts y k + sz fmts y k \<le> lo fmts y j"
      unfolding fl by (auto simp: inside_def low_of_def)
  qed
  have "set_bits (ol_fields_positions y) = concat (map (\<lambda>j. [lo fmts y j, lo fmts y j + sz fmts y j - 1]) (rev js))"
  proof (rule set_bits_unique)
    have "sorted_wrt (\<lambda>j k. lo fmts y j + sz fmts y j - 1 < lo fmts y k) (rev js)"
      unfolding sorted_wrt_rev using apart
    proof (rule sorted_wrt_mono_rel [rotated])
      fix j k assume "j \<in> set js" "k \<in> set js" "lo fmts y k + sz fmts y k \<le> lo fmts y j"
      with js(4) [of k] show "lo fmts y k + sz fmts y k - 1 < lo fmts y j" unfolding fl by linarith
    qed
    moreover have "\<forall>j \<in> set (rev js). lo fmts y j < lo fmts y j + sz fmts y j - 1"
      using js(4) unfolding fl by fastforce
    ultimately show "sorted_wrt (<) (concat (map (\<lambda>j. [lo fmts y j, lo fmts y j + sz fmts y j - 1]) (rev js)))"
      by (rule sorted_pairs)
    fix b
    have "unat (n - aif_first_bit (asm_field j (?f j)) - 1) = lo fmts y j"
      "unat (n - aif_first_bit (asm_field j (?f j)) - 1 + aif_size (asm_field j (?f j)) - 1) = lo fmts y j + sz fmts y j - 1"
      if "j \<in> set js" for j
      using field_word_ends [of p "?f j" j] js(4) [OF that] unfolding n fl by simp_all
    then show "bit (ol_fields_positions y) b \<longleftrightarrow> b \<in> set (concat (map (\<lambda>j. [lo fmts y j, lo fmts y j + sz fmts y j - 1]) (rev js)))"
      using encode_positions_from_bits [OF r(3) [unfolded encode_fields_positions_def], of b]
      unfolding r(5) js(1) by auto
  qed
  moreover have "field_at fmts (unat (ol_format_id y)) j = Some (fmt_of fmts y, fld fmts y j) \<and>
      inside (fmt_of fmts y) (fld fmts y j) \<and> 2 \<le> sz fmts y j \<and> sz fmts y j < 32" if "j \<in> set js" for j
  proof -
    have "2 \<le> nat (field_size (?f j))" "nat (field_size (?f j)) < 32" using js(4) [OF that] by linarith+
    with js(4) [OF that] i(1) show ?thesis unfolding fl fmt by (simp add: field_at_def id i(2))
  qed
  ultimately show "layout fmts y js" using fields apart by (simp add: layout_def)
qed


lemma operand_id [simp]: "fld fmts (y\<lparr>ol_id := i\<rparr>) = fld fmts y" "sz fmts (y\<lparr>ol_id := i\<rparr>) = sz fmts y"
  "lo fmts (y\<lparr>ol_id := i\<rparr>) = lo fmts y" "in_field fmts (y\<lparr>ol_id := i\<rparr>) = in_field fmts y"
  "layout fmts (y\<lparr>ol_id := i\<rparr>) js = layout fmts y js"
proof -
  show f: "fld fmts (y\<lparr>ol_id := i\<rparr>) = fld fmts y" by (rule ext) (simp add: fld_def)
  show s: "sz fmts (y\<lparr>ol_id := i\<rparr>) = sz fmts y" by (rule ext) (simp add: sz_def f)
  show l: "lo fmts (y\<lparr>ol_id := i\<rparr>) = lo fmts y" by (rule ext) (simp add: lo_def f)
  show "in_field fmts (y\<lparr>ol_id := i\<rparr>) = in_field fmts y" by (intro ext) (simp add: in_field_def s l)
  show "layout fmts (y\<lparr>ol_id := i\<rparr>) js = layout fmts y js" by (simp add: layout_def f s l)
qed

subsection \<open>Properties\<close>

text \<open>C16: the assembler and the disassembler agree on operands. For an operand of the generated table
  without modifier, whose fields have two bits or more and lie apart in their order in the format,
  \<open>encode_cons_field\<close> stores the value and leaves the bits outside the fields; from the word
  \<open>get_value_from_fields\<close> reads back as many bits of the value as the fields have, and that width.\<close>
theorem operand_value_roundtrip:
  assumes "new_oper fmts instrs a k x = Ret y" "ai_insn a = Some k" "length fmts < 2 ^ 31"
    and "find_first (\<lambda>p. strcmp (instr_format (instrs ! k)) (format_name p) = 0) fmts = Some p" "well_placed p x js"
    and "n < length ops" "ops ! n = y\<lparr>ol_id := i\<rparr>" "mod_type (op_modifier x) = 0" "\<forall>j \<in> set js. j < length (mp_field mp)"
  shows "\<exists>img' mp'. encode_cons_field fmts ops modfn max_fields img mp n = Ret (img', mp') \<and>
    get_value_from_fields ops n (ucast img') =
      (let T = sum_list (map (\<lambda>j. nat (field_size (format_fields p ! j))) js) in
       Ret (take_bit T (mp_input mp), of_nat T)) \<and>
    (\<forall>b. (\<forall>j \<in> set js. b < low_of p (format_fields p ! j) \<or>
        low_of p (format_fields p ! j) + nat (field_size (format_fields p ! j)) \<le> b) \<longrightarrow> bit img' b = bit img b)"
proof -
  note L = new_oper_layout [OF assms(1-5)]
  let ?o = "y\<lparr>ol_id := i\<rparr>"
  have "layout fmts ?o js" using L(1) by simp
  moreover have "ol_mod_type ?o = 0" using assms(1,8) by (auto simp: new_oper_def)
  moreover have "n < length ops" "ops ! n = ?o" by fact+
  ultimately obtain img' mp' where "encode_cons_field fmts ops modfn max_fields img mp n = Ret (img', mp')"
    "get_value_from_fields ops n (ucast img') =
       Ret (take_bit (sum_list (map (sz fmts ?o) js)) (mp_input mp), of_nat (sum_list (map (sz fmts ?o) js)))"
    "\<forall>b. (\<forall>j \<in> set js. \<not> in_field fmts ?o j b) \<longrightarrow> bit img' b = bit img b"
    using encode_decode [of fmts ?o js n ops mp modfn max_fields img] assms(9) by blast
  moreover have "sz fmts ?o = (\<lambda>j. nat (field_size (format_fields p ! j)))"
    using L(2) by (intro ext) (simp add: sz_def fld_def)
  moreover have "\<not> in_field fmts ?o j b \<longleftrightarrow>
      b < low_of p (format_fields p ! j) \<or> low_of p (format_fields p ! j) + nat (field_size (format_fields p ! j)) \<le> b" for j b
    using L(2) by (auto simp: in_field_def sz_def lo_def fld_def)
  ultimately show ?thesis unfolding Let_def by metis
qed

definition demo_typed :: ac_operand_list where
  "demo_typed = set_mod_type 0 demo_two_fields"

definition demo_oper :: oper_list where
  "demo_oper = (case new_oper [demo_op_format] [demo_op_instr] demo_op_insn 0 demo_typed of Ret y \<Rightarrow> y)"

definition demo_parms :: mod_parms where
  "demo_parms = \<lparr>mp_addend = 0, mp_list_results = [], mp_input = 0xCAFE1234, mp_address = 0, mp_output = 0, mp_section = None,
     mp_error = 0, mp_field = [0, 0]\<rparr>"

theorem operand_value_roundtrip_witness:
  "\<exists>img' mp'. encode_cons_field [demo_op_format] [demo_oper] [] 2 0 demo_parms 0 = Ret (img', mp') \<and>
     get_value_from_fields [demo_oper] 0 (ucast img') = Ret (0xCAFE1234, 32)"
proof -
  have 1: "new_oper [demo_op_format] [demo_op_instr] demo_op_insn 0 demo_typed = Ret demo_oper" by code_simp
  have 2: "ai_insn demo_op_insn = Some 0" "length [demo_op_format] < 2 ^ 31" by (simp_all add: demo_op_insn_def)
  have 3: "find_first (\<lambda>p. strcmp (instr_format ([demo_op_instr] ! 0)) (format_name p) = 0) [demo_op_format] = Some demo_op_format"
    by code_simp
  have 4: "well_placed demo_op_format demo_typed [0, 1]" by code_simp
  have 5: "0 < length [demo_oper]" "[demo_oper] ! 0 = demo_oper\<lparr>ol_id := ol_id demo_oper\<rparr>"
    "mod_type (op_modifier demo_typed) = 0" "\<forall>j \<in> set [0, 1]. j < length (mp_field demo_parms)"
    by (simp_all add: demo_typed_def set_mod_type_def demo_parms_def)
  have "nat (field_size (format_fields demo_op_format ! 0)) = 4" "nat (field_size (format_fields demo_op_format ! Suc 0)) = 28"
    by (simp_all add: demo_op_format_def)
  with operand_value_roundtrip [OF 1 2 3 4 5, of "[]" 2 0] show ?thesis
    by (auto simp: Let_def demo_parms_def)
qed

lemma get_bit_pos_runs_off:
  assumes "length (set_bits v) \<le> unat pos" "unat pos < 2 ^ 31"
  shows "get_bit_pos v pos = Undef"
proof -
  have u: "unat (pos + 1) = unat pos + 1" using assms(2) by (simp add: unat_word_ariths)
  then have "pos + 1 \<noteq> 0" by (metis add_is_0 one_neq_zero unat_0)
  from bit_pos_from_bits [OF this, of 0 v] assms(1) u show ?thesis by (simp add: get_bit_pos_def set_bits_def)
qed

lemma no_Exit: "c_shl v s \<noteq> Exit" "field_mask start k \<noteq> Exit" "bit_pos_from v pos b \<noteq> Exit" "get_bit_pos v pos \<noteq> Exit"
  "join_fields opr insn is s fv \<noteq> Exit"
proof -
  show c: "c_shl v s \<noteq> Exit" for v s by (simp add: c_shl_def)
  show m: "field_mask start k \<noteq> Exit" for start k by (induction k) (auto simp: c)
  have b: "bit_pos_from v pos b \<noteq> Exit" for v pos b
    by (induction v pos b rule: bit_pos_from.induct) (subst bit_pos_from.simps, auto)
  then show "bit_pos_from v pos b \<noteq> Exit" .
  from b have g: "get_bit_pos v pos \<noteq> Exit" for v pos by (simp add: get_bit_pos_def)
  then show "get_bit_pos v pos \<noteq> Exit" .
  show "join_fields opr insn is s fv \<noteq> Exit"
    by (induction "is" arbitrary: s fv) (auto simp: Let_def g m c)
qed

lemma join_fields_needs:
  "join_fields opr insn is s v = Ret r \<Longrightarrow> i \<in> set is \<Longrightarrow> \<exists>b. get_bit_pos (ol_fields_positions opr) (of_nat i * 2 + 1) = Ret b"
  by (induction "is" arbitrary: s v) (auto simp: Let_def)

lemma set_bits_card: "(\<And>b. bit e b \<longleftrightarrow> b \<in> set ks) \<Longrightarrow> length (set_bits e) \<le> length ks"
proof -
  assume "\<And>b. bit e b \<longleftrightarrow> b \<in> set ks"
  then have "set (set_bits e) \<subseteq> set ks" by (auto simp: set_bits_def)
  then show ?thesis
    by (metis List.finite_set card_length card_mono distinct_card set_bits_distinct le_trans)
qed

text \<open>The ends of a field, once when they are the same bit.\<close>

definition ends :: "u32 \<Rightarrow> ac_asm_insn_field \<Rightarrow> nat list" where
  "ends n f = unat (n - aif_first_bit f - 1) # (if aif_size f = 1 then [] else [unat (n - aif_first_bit f - 1 + aif_size f - 1)])"

lemma set_ends: "set (ends n f) = {unat (n - aif_first_bit f - 1), unat (n - aif_first_bit f - 1 + aif_size f - 1)}"
  by (simp add: ends_def)

lemma ends_len: "length (ends n f) \<le> 2" "aif_size f = 1 \<Longrightarrow> length (ends n f) = 1"
  by (simp_all add: ends_def)

lemma ends_length: "length (concat (map (ends n) fs)) \<le> 2 * length fs"
proof (induction fs)
  case (Cons g fs)
  with ends_len(1) [of n g] show ?case by simp
qed simp

lemma ends_length_less: "f \<in> set fs \<Longrightarrow> aif_size f = 1 \<Longrightarrow> length (concat (map (ends n) fs)) < 2 * length fs"
proof (induction fs)
  case (Cons g fs)
  show ?case
  proof (cases "g = f")
    case True
    with ends_length [of n fs] ends_len(2) [OF Cons.prems(2), of n] show ?thesis by simp
  next
    case False
    with Cons ends_len(1) [of n g] show ?thesis by simp
  qed
qed simp

text \<open>An operand with a field of one bit cannot be disassembled. The two ends of such a field
  are one bit of \<open>fields_positions\<close>, so that the last call of \<open>get_bit_pos\<close> asks for a bit that is
  not there, and its loop goes past the last bit.\<close>
theorem one_bit_field_undefined:
  assumes "new_oper fmts instrs a k x = Ret y" "distinct (map aif_id (op_fields x))"
    and "f \<in> set (op_fields x)" "aif_size f = 1" "n < length ops" "ops ! n = y\<lparr>ol_id := i\<rparr>"
  shows "get_value_from_fields ops n insn = Undef"
proof -
  let ?fs = "op_fields x"
  from assms(1) obtain e pos m where r: "encode_fields_from 0 ?fs = Ret e" "encode_positions_from m 0 ?fs = Ret pos"
    "ol_fields y = e" "ol_fields_positions y = pos"
    by (auto simp: new_oper_def encode_fields_def encode_fields_positions_def)
  have "set (set_bits e) = set (map (\<lambda>f. unat (aif_id f)) ?fs)"
    using encode_fields_from_bits [OF r(1)] encode_fields_ids [OF r(1)] by (auto simp: set_bits_def)
  moreover have "distinct (map (\<lambda>f. unat (aif_id f)) ?fs)"
    using assms(2) unsigned_word_eqI by (fastforce simp: distinct_map inj_on_def)
  ultimately have len: "length (set_bits e) = length ?fs"
    by (metis distinct_card length_map set_bits_distinct)
  have "bit pos b \<longleftrightarrow> b \<in> set (concat (map (ends m) ?fs))" for b
    using encode_positions_from_bits [OF r(2), of b] unfolding set_concat set_map UN_iff image_iff by (simp add: set_ends)
  then have "length (set_bits pos) < 2 * length ?fs"
    using set_bits_card ends_length_less [OF assms(3,4)] le_less_trans by blast
  moreover have small: "length ?fs \<le> 32" "0 < length ?fs" using len set_bits_length assms(3) by (metis, auto)
  then have "unat (of_nat (length ?fs - 1) * 2 + 1 :: u32) = 2 * (length ?fs - 1) + 1"
    by (simp add: unat_word_ariths unat_of_nat of_nat_diff)
  ultimately have "get_bit_pos pos (of_nat (length ?fs - 1) * 2 + 1) = Undef"
    using small by (intro get_bit_pos_runs_off) simp_all
  moreover have "length ?fs - 1 \<in> set [0..<unat (get_num_fields e)]"
    using small len by (simp add: get_num_fields_bits unat_of_nat)
  ultimately have "join_fields (ops ! n) insn [0..<unat (get_num_fields e)] 0 0 \<noteq> Ret r" for r
    using join_fields_needs assms(6) r(4) by fastforce
  moreover have "join_fields (ops ! n) insn [0..<unat (get_num_fields e)] 0 0 \<noteq> Exit" by (rule no_Exit)
  ultimately show ?thesis
    using assms(5,6) r(3) by (simp add: get_value_from_fields_def Let_def) (metis run.exhaust)
qed


definition demo_flag_format :: ac_dec_format where
  "demo_flag_format = \<lparr>format_id = 0, format_name = ''R'', format_size = 32, format_fields =
     [\<lparr>field_name = ''op'', field_size = 31, first_bit = 30, field_id = 0, field_val = 0, field_sign = 0\<rparr>,
      \<lparr>field_name = ''s'', field_size = 1, first_bit = 31, field_id = 0, field_val = 0, field_sign = 0\<rparr>]\<rparr>"

definition demo_flag :: ac_operand_list where
  "demo_flag = (new_operand ''imm'' op_imm False None 0)\<lparr>op_fields := [asm_field 1 (format_fields demo_flag_format ! 1)]\<rparr>"

theorem one_bit_field_undefined_witness:
  "\<exists>y. new_oper [demo_flag_format] [demo_op_instr] demo_op_insn 0 demo_flag = Ret y \<and>
     get_value_from_fields [y] 0 1 = Undef"
proof -
  let ?r = "new_oper [demo_flag_format] [demo_op_instr] demo_op_insn 0 demo_flag"
  let ?y = "case ?r of Ret y \<Rightarrow> (y :: oper_list)"
  have 1: "?r = Ret ?y" by code_simp
  have 2: "distinct (map aif_id (op_fields demo_flag))" "hd (op_fields demo_flag) \<in> set (op_fields demo_flag)"
    "aif_size (hd (op_fields demo_flag)) = 1" by (simp_all add: demo_flag_def demo_flag_format_def asm_field_def)
  from one_bit_field_undefined [OF 1 2, of 0 "[?y]" "ol_id ?y" 1] 1 show ?thesis by auto
qed

end
