(* ===== verification/ElfReloc.thy ===== *)
theory ElfReloc
  imports RelocCorrect OperandRoundtrip
begin

text \<open>
  The relocations in the linker: \<open>archc/src/acbinutils/binutils/bfd/elf32-xxxxx.c\<close>. The lookups of
  \<open>HOWTO\<close> rows in the generated tables, and the functions that store the value of a symbol in
  the data of a section. Of BFD, which is not in the repository, the fields that the functions
  read are records; \<open>bfd_vma\<close> has 64 bits.
\<close>

subsection \<open>Looking up a row\<close>

text \<open>The enumerators of the header of relocation types give the names their numbers.\<close>

definition reloc_val :: "string \<Rightarrow> ac_relocation_type list \<Rightarrow> string \<Rightarrow> u32 option" where
  "reloc_val a rs name = map_option snd (find_first (\<lambda>row. fst row = name) (reloc_ids a rs))"

definition howto_at :: "string \<Rightarrow> ac_relocation_type list \<Rightarrow> nat \<Rightarrow> howto_row run" where
  "howto_at a rs i = (if i < length (howto_table a rs) then Ret (howto_table a rs ! i) else Undef)"

text \<open>The loop goes down from the last row of the map and leaves out the first.\<close>

definition reloc_type_lookup :: "string \<Rightarrow> ac_relocation_type list \<Rightarrow> u32 \<Rightarrow> howto_row option run" where
  "reloc_type_lookup a rs code =
     (case find_first (\<lambda>row. fst row = Some code) (rev (tl (reloc_map a rs))) of
        None \<Rightarrow> Ret None
      | Some row \<Rightarrow>
          (case reloc_val a rs (snd row) of
             None \<Rightarrow> Undef
           | Some v \<Rightarrow> run_then (howto_at a rs (unat v)) (\<lambda>h. Ret (Some h))))"

definition elf_info_to_howto :: "string \<Rightarrow> ac_relocation_type list \<Rightarrow> u32 \<Rightarrow> howto_row run" where
  "elf_info_to_howto a rs r_info = howto_at a rs (unat (r_info AND 0xFF))"

datatype elf_reloc_type_class = reloc_class_relative | reloc_class_plt | reloc_class_copy | reloc_class_normal

definition elf_archc_reloc_type_class :: "string \<Rightarrow> ac_relocation_type list \<Rightarrow> u32 \<Rightarrow> elf_reloc_type_class" where
  "elf_archc_reloc_type_class a rs r_info =
     (let t = Some (r_info AND 0xFF) in
      if t = reloc_val a rs (type_name a ''RELATIVE'') then reloc_class_relative
      else if t = reloc_val a rs (type_name a ''JUMP_SLOT'') then reloc_class_plt
      else if t = reloc_val a rs (type_name a ''COPY'') then reloc_class_copy
      else reloc_class_normal)"

subsection \<open>Patching an instruction\<close>

record asection =
  sec_name :: string
  sec_is_com :: bool
  sec_output_vma :: "u64 option"
  sec_output_offset :: u64
  sec_limit :: u64

record asymbol =
  symbol_value :: u64
  symbol_section :: asection
  symbol_is_section :: bool

record arelent =
  rel_address :: u64
  rel_addend :: u64
  rel_howto :: howto_row

datatype reloc_status = bfd_reloc_ok | bfd_reloc_outofrange

text \<open>
  What the code is compiled with: the generated formats and operands, the modifier functions,
  the byte order and the result of the undefined shifts of \<open>putbits\<close>.
\<close>

record target =
  tg_formats :: "ac_dec_format list"
  tg_operands :: "oper_list list"
  tg_modfn :: "modifier list"
  tg_max_fields :: nat
  tg_endian :: int
  tg_wide :: "nat \<Rightarrow> u32"

text \<open>
  The part the two functions share: read the instruction, encode the operand, write it back. The
  parameters start with what is on the stack (\<open>mp\<close>); the flag says that a modifier reported an
  error.
\<close>

definition patch_operand ::
  "target \<Rightarrow> mod_parms \<Rightarrow> u32 \<Rightarrow> u8 list \<Rightarrow> u32 \<Rightarrow> u32 \<Rightarrow> string \<Rightarrow> (u8 list \<times> bool) run" where
  "patch_operand T mp operand_id location relocation address name =
     (let k = unat operand_id in
      if length (tg_operands T) \<le> k then Undef
      else
        let bitsize = unat (ucast (insn_size_of (tg_formats T) (unat (ol_format_id (tg_operands T ! k)))) :: u32);
            mp = mp\<lparr>mp_input := relocation, mp_address := address, mp_section := Some name, mp_list_results := []\<rparr> in
        run_then (getbits bitsize location (tg_endian T)) (\<lambda>w.
        run_then (encode_cons_field (tg_formats T) (tg_operands T) (tg_modfn T) (tg_max_fields T) (ucast w) mp k) (\<lambda>(insn_image, mp).
        run_then (putbits (tg_wide T) bitsize location (ucast insn_image) (tg_endian T)) (\<lambda>location.
          Ret (location, mp_error mp \<noteq> 0)))))"

definition elf_archc_apply_modifier ::
  "target \<Rightarrow> mod_parms \<Rightarrow> u32 \<Rightarrow> u8 list \<Rightarrow> u64 \<Rightarrow> u64 \<Rightarrow> string \<Rightarrow> (reloc_status \<times> u8 list \<times> bool) run" where
  "elf_archc_apply_modifier T mp operand_id location relocation address name =
     run_then (patch_operand T mp operand_id location (ucast relocation) (ucast address) name)
       (\<lambda>(location, err). Ret (bfd_reloc_ok, location, err))"

text \<open>\<open>data + octets\<close>: the functions work on the rest of the data.\<close>

definition at_octets :: "u64 \<Rightarrow> u8 list \<Rightarrow> (u8 list \<Rightarrow> (u8 list \<times> 'a) run) \<Rightarrow> (u8 list \<times> 'a) run" where
  "at_octets octets data f =
     (if length data < unat octets then Undef
      else run_then (f (drop (unat octets) data)) (\<lambda>(location, r). Ret (take (unat octets) data @ location, r)))"

definition generic_data_reloc :: "target \<Rightarrow> u64 \<Rightarrow> arelent \<Rightarrow> asymbol \<Rightarrow> u8 list \<Rightarrow> asection \<Rightarrow> (reloc_status \<times> u8 list) run" where
  "generic_data_reloc T octets_per_byte rel symb data input_section =
     (case sec_output_vma (symbol_section symb) of
        None \<Rightarrow> Undef
      | Some vma \<Rightarrow>
          (let howto = rel_howto rel;
               relocation = (ucast (symbol_value symb) :: u32);
               relocation = relocation + ucast (vma + sec_output_offset (symbol_section symb));
               relocation = relocation + ucast (rel_addend rel) in
           run_then
             (if \<not> ht_pc_relative howto then Ret relocation
              else case sec_output_vma input_section of
                None \<Rightarrow> Undef
              | Some v \<Rightarrow> Ret (relocation - ucast (v + sec_output_offset input_section)))
             (\<lambda>relocation.
           run_then (at_octets (rel_address rel * octets_per_byte) data
               (\<lambda>loc. run_then (putbits (tg_wide T) (ht_bitsize howto) loc (ucast relocation) (tg_endian T)) (\<lambda>loc. Ret (loc, ()))))
             (\<lambda>(data, _). Ret (bfd_reloc_ok, data)))))"

text \<open>\<open>relocatable\<close> says that there is an output BFD.\<close>

definition bfd_elf_archc_reloc ::
  "target \<Rightarrow> mod_parms \<Rightarrow> u64 \<Rightarrow> arelent \<Rightarrow> asymbol \<Rightarrow> u8 list \<Rightarrow> asection \<Rightarrow> bool
     \<Rightarrow> (reloc_status \<times> arelent \<times> u8 list \<times> bool) run" where
  "bfd_elf_archc_reloc T mp octets_per_byte rel symb data input_section relocatable =
     (let howto = rel_howto rel; octets = rel_address rel * octets_per_byte in
      if relocatable \<and> \<not> symbol_is_section symb \<and> (\<not> ht_partial_inplace howto \<or> rel_addend rel = 0)
      then Ret (bfd_reloc_ok, rel\<lparr>rel_address := rel_address rel + sec_output_offset input_section\<rparr>, data, False)
      else if sec_limit input_section < rel_address rel then Ret (bfd_reloc_outofrange, rel, data, False)
      else
        let sec = symbol_section symb;
            relocation = (if sec_is_com sec then 0 else ucast (symbol_value symb) :: u32);
            output_base = (if relocatable \<and> \<not> ht_partial_inplace howto then 0
                           else case sec_output_vma sec of None \<Rightarrow> 0 | Some vma \<Rightarrow> vma);
            relocation = relocation + ucast (output_base + sec_output_offset sec);
            relocation = relocation + ucast (rel_addend rel) in
        case sec_output_vma input_section of
          None \<Rightarrow> Undef
        | Some vma \<Rightarrow>
            (let address = ucast (vma + sec_output_offset input_section + rel_address rel);
                 rel = (if relocatable then rel else rel\<lparr>rel_addend := 0\<rparr>) in
             run_then (at_octets octets data (\<lambda>loc. patch_operand T mp (ht_rightshift howto) loc relocation address (sec_name sec)))
               (\<lambda>(data, err). Ret (bfd_reloc_ok, rel, data, err))))"


subsection \<open>The rows the lookup finds\<close>

definition numbered_relocs :: "string \<Rightarrow> ac_relocation_type list \<Rightarrow> bool" where
  "numbered_relocs a rs \<longleftrightarrow> length rs < 2 ^ 31 \<and>
     (\<forall>i < length rs. rt_id (rs ! i) = of_nat (Suc i) \<and>
        reloc_name (Some a) (rt_id (rs ! i)) (rt_operand_id (rs ! i)) = Ret (rt_name (rs ! i)))"

lemma dec_str_split:
  assumes "dec_str m @ ''_'' @ s = dec_str n @ ''_'' @ t"
  shows "m = n"
proof -
  have "takeWhile (\<lambda>c. digit_of 10 c \<noteq> None) (dec_str k @ ''_'' @ u) = dec_str k" for k u
    by (rule takeWhile_dec_str) (auto simp: isdigit_def)
  with assms have "dec_str m = dec_str n" by metis
  then show ?thesis by simp
qed

lemma type_name_eq [simp]: "type_name a s = type_name a t \<longleftrightarrow> s = t"
  by (simp add: type_name_def)

definition id_suffix :: "nat \<Rightarrow> string \<Rightarrow> string" where
  "id_suffix n s = ''ID'' @ dec_str n @ ''_'' @ s"

lemma id_suffix_eq: "id_suffix m s = id_suffix n t \<Longrightarrow> m = n"
  unfolding id_suffix_def append_same_eq same_append_eq by (rule dec_str_split)

lemma numbered_name:
  assumes "numbered_relocs a rs" "i < length rs"
  shows "\<exists>s. rt_name (rs ! i) = type_name a (id_suffix (Suc i) s)"
proof -
  let ?z = "dec_str (unat (rt_operand_id (rs ! i)))"
  have "Suc i < 2 ^ 31" using assms by (simp add: numbered_relocs_def)
  then have "sint (of_nat (Suc i) :: u32) = int (Suc i)" by (rule sint_of_nat_small)
  moreover have "dec_str_int (int (Suc i)) = dec_str (Suc i)" by (simp add: dec_str_int_def)
  moreover have "rt_id (rs ! i) = of_nat (Suc i)" "reloc_name (Some a) (rt_id (rs ! i)) (rt_operand_id (rs ! i)) = Ret (rt_name (rs ! i))"
    using assms by (auto simp: numbered_relocs_def)
  ultimately have "rt_name (rs ! i) = ''R_'' @ a @ ''_ID'' @ dec_str (Suc i) @ ''_Opr'' @ ?z"
    unfolding reloc_name_def get_arch_name_def Let_def option.case by (metis run.distinct(3) run.inject)
  then show ?thesis by (intro exI [of _ "''Opr'' @ ?z"]) (simp add: type_name_def id_suffix_def)
qed

lemma numbered_name_eq:
  assumes "numbered_relocs a rs" "i < length rs" "k < length rs" "rt_name (rs ! i) = rt_name (rs ! k)"
  shows "i = k"
  using numbered_name [OF assms(1,2)] numbered_name [OF assms(1,3)] assms(4) id_suffix_eq by fastforce

lemma fixed_types_facts: "length fixed_types = 14" "distinct (map fst fixed_types)" "map snd fixed_types = [0..<14]"
  "\<forall>t \<in> set (map fst fixed_types). \<forall>s. t \<noteq> CHR ''I'' # s"
  by (simp_all add: fixed_types_def upt_rec)

lemma fixed_rows:
  "length (none_rows a @ data_rows a) = 14" "map ht_type (none_rows a @ data_rows a) = map (\<lambda>row. type_name a (fst row)) fixed_types"
  by (simp_all add: fixed_types_def none_rows_def data_rows_def no_howto_def data_howto_def upt_rec)


lemma fixed_nth: "n < 14 \<Longrightarrow> fixed_types ! n = (fst (fixed_types ! n), n)"
proof -
  assume "n < 14"
  then have "map snd fixed_types ! n = n" unfolding fixed_types_facts(3) by simp
  with \<open>n < 14\<close> fixed_types_facts(1) show ?thesis by (simp add: prod_eq_iff)
qed

lemma fixed_in: "n < 14 \<Longrightarrow> (fst (fixed_types ! n), n) \<in> set fixed_types"
  using fixed_nth fixed_types_facts(1) by (metis nth_mem)

lemma fixed_unique: "(t, m) \<in> set fixed_types \<Longrightarrow> (t, n) \<in> set fixed_types \<Longrightarrow> m = n"
  using fixed_types_facts(2) by (metis eq_key_imp_eq_value)

lemma fixed_less: "(t, m) \<in> set fixed_types \<Longrightarrow> m < 14"
  using fixed_types_facts(3) by (metis atLeastLessThan_iff image_eqI set_map set_upt snd_conv)

lemma fixed_entry: "(t, n) \<in> set fixed_types \<Longrightarrow> (t, n) = fixed_types ! n"
  using fixed_nth fixed_less fixed_types_facts(1,3) by (metis in_set_conv_nth snd_conv)

lemma fixed_not_new:
  assumes "numbered_relocs a rs" "i < length rs" "(t, m) \<in> set fixed_types"
  shows "type_name a t \<noteq> rt_name (rs ! i)"
proof -
  have "t \<in> set (map fst fixed_types)" using assms(3) by force
  with fixed_types_facts(4) have "\<forall>s. t \<noteq> CHR ''I'' # s" by blast
  then have "\<And>s. t \<noteq> id_suffix (Suc i) s" by (simp add: id_suffix_def)
  with numbered_name [OF assms(1,2)] show ?thesis by auto
qed

lemma ex_nth: "(\<exists>i < length xs. P (xs ! i)) \<longleftrightarrow> (\<exists>x \<in> set xs. P x)"
  by (metis in_set_conv_nth)

lemma reloc_ids_iff:
  "(nm, v) \<in> set (reloc_ids a rs) \<longleftrightarrow> (\<exists>(t, n) \<in> set fixed_types. nm = type_name a t \<and> v = of_nat n) \<or>
     (\<exists>i < length rs. nm = rt_name (rs ! i) \<and> v = reloc_number (rs ! i))"
  unfolding ex_nth [of rs "\<lambda>r. nm = rt_name r \<and> v = reloc_number r"] by (auto simp: reloc_ids_def)

lemma reloc_val_fixed:
  assumes "numbered_relocs a rs" "n < 14"
  shows "reloc_val a rs (type_name a (fst (fixed_types ! n))) = Some (of_nat n)"
proof -
  let ?t = "fst (fixed_types ! n)"
  have "find_first (\<lambda>row. fst row = type_name a ?t) (reloc_ids a rs) = Some (type_name a ?t, of_nat n)"
  proof (rule find_first_unique)
    show "(type_name a ?t, of_nat n) \<in> set (reloc_ids a rs)"
      unfolding reloc_ids_iff using fixed_in [OF assms(2)] by blast
    fix y assume y: "y \<in> set (reloc_ids a rs)" "fst y = type_name a ?t"
    obtain v where v: "y = (type_name a ?t, v)" using y(2) by (cases y) simp
    with y(1) have "(\<exists>(t, m) \<in> set fixed_types. type_name a ?t = type_name a t \<and> v = of_nat m) \<or>
        (\<exists>i < length rs. type_name a ?t = rt_name (rs ! i) \<and> v = reloc_number (rs ! i))"
      by (simp only: reloc_ids_iff)
    with fixed_not_new [OF assms(1) _ fixed_in [OF assms(2)]] obtain m where "(?t, m) \<in> set fixed_types" "v = of_nat m"
      by auto
    with fixed_unique fixed_in [OF assms(2)] v show "y = (type_name a ?t, of_nat n)" by blast
  qed simp
  then show ?thesis by (simp add: reloc_val_def)
qed

lemma reloc_val_new:
  assumes "numbered_relocs a rs" "i < length rs"
  shows "reloc_val a rs (rt_name (rs ! i)) = Some (reloc_number (rs ! i))"
proof -
  have "find_first (\<lambda>row. fst row = rt_name (rs ! i)) (reloc_ids a rs) = Some (rt_name (rs ! i), reloc_number (rs ! i))"
  proof (rule find_first_unique)
    show "(rt_name (rs ! i), reloc_number (rs ! i)) \<in> set (reloc_ids a rs)"
      unfolding reloc_ids_iff using assms(2) by blast
    fix y assume y: "y \<in> set (reloc_ids a rs)" "fst y = rt_name (rs ! i)"
    obtain v where v: "y = (rt_name (rs ! i), v)" using y(2) by (cases y) simp
    with y(1) have "(\<exists>(t, m) \<in> set fixed_types. rt_name (rs ! i) = type_name a t \<and> v = of_nat m) \<or>
        (\<exists>k < length rs. rt_name (rs ! i) = rt_name (rs ! k) \<and> v = reloc_number (rs ! k))"
      by (simp only: reloc_ids_iff)
    then obtain k where "k < length rs" "rt_name (rs ! i) = rt_name (rs ! k)" "v = reloc_number (rs ! k)"
      using fixed_not_new [OF assms] by (metis (mono_tags, lifting) case_prodE)
    with numbered_name_eq [OF assms] v show "y = (rt_name (rs ! i), reloc_number (rs ! i))" by blast
  qed simp
  then show ?thesis by (simp add: reloc_val_def)
qed

lemma reloc_number_unat:
  assumes "numbered_relocs a rs" "i < length rs"
  shows "unat (reloc_number (rs ! i)) = i + 37"
proof -
  have "i + 37 < 2 ^ 32" using assms by (simp add: numbered_relocs_def)
  moreover have "reloc_number (rs ! i) = of_nat (i + 37)"
    using assms by (simp add: reloc_number_def numbered_relocs_def)
  ultimately show ?thesis by (simp only: unat_small)
qed

text \<open>The rows of the map behind the first.\<close>

lemma map_rows_iff:
  "row \<in> set (rev (tl (reloc_map a rs))) \<longleftrightarrow> (\<exists>(t, n) \<in> set fixed_types. 0 < n \<and> row = (Some (of_nat n), type_name a t)) \<or>
     (\<exists>i < length rs. row = (Some (reloc_number (rs ! i)), rt_name (rs ! i)))"
proof -
  have "tl (reloc_map a rs) = map (\<lambda>(t, n). (Some (of_nat n), type_name a t)) (filter (\<lambda>(t, n). 0 < n) fixed_types) @
      map (\<lambda>r. (Some (reloc_number r), rt_name r)) rs"
    by (simp add: reloc_map_def fixed_types_def upt_rec)
  then show ?thesis unfolding ex_nth [of rs "\<lambda>r. row = (Some (reloc_number r), rt_name r)"] by auto
qed

lemma lookup_row:
  assumes "numbered_relocs a rs" "row \<in> set (rev (tl (reloc_map a rs)))" "fst row = Some code"
  shows "find_first (\<lambda>row. fst row = Some code) (rev (tl (reloc_map a rs))) = Some row"
proof (rule find_first_unique [where P = "\<lambda>row. fst row = Some code"])
  fix y assume y: "y \<in> set (rev (tl (reloc_map a rs)))" "fst y = Some code"
  have low: "unat (of_nat n :: u32) = n" "n < 14" if "(t, n) \<in> set fixed_types" for t n
    using fixed_less [OF that] by (simp_all add: unat_of_nat)
  have num: "code = reloc_number (rs ! i) \<longleftrightarrow> unat code = i + 37" if "i < length rs" for i
    using reloc_number_unat [OF assms(1) that] by (metis unsigned_word_eqI)
  from y(1) assms(2) show "y = row"
  proof (unfold map_rows_iff, elim disjE)
    assume "\<exists>(t, n) \<in> set fixed_types. 0 < n \<and> y = (Some (of_nat n), type_name a t)"
      "\<exists>(t, n) \<in> set fixed_types. 0 < n \<and> row = (Some (of_nat n), type_name a t)"
    then obtain t n u m where n: "(t, n) \<in> set fixed_types" "y = (Some (of_nat n), type_name a t)"
      "(u, m) \<in> set fixed_types" "row = (Some (of_nat m), type_name a u)" by blast
    with y(2) assms(3) have "(of_nat n :: u32) = of_nat m" by simp
    with low n(1,3) have "n = m" by metis
    moreover have "(t, n) = fixed_types ! n" "(u, m) = fixed_types ! m"
      using fixed_entry n(1,3) by blast+
    ultimately show "y = row" using n(2,4) by (metis fst_conv)
  next
    assume "\<exists>i < length rs. y = (Some (reloc_number (rs ! i)), rt_name (rs ! i))"
      "\<exists>i < length rs. row = (Some (reloc_number (rs ! i)), rt_name (rs ! i))"
    then obtain i k where ik: "i < length rs" "y = (Some (reloc_number (rs ! i)), rt_name (rs ! i))"
      "k < length rs" "row = (Some (reloc_number (rs ! k)), rt_name (rs ! k))" by blast
    with y(2) assms(3) have "code = reloc_number (rs ! i)" "code = reloc_number (rs ! k)" by simp_all
    then have "unat code = i + 37" "unat code = k + 37" using num ik(1,3) by blast+
    with ik show "y = row" by simp
  next
    assume "\<exists>(t, n) \<in> set fixed_types. 0 < n \<and> y = (Some (of_nat n), type_name a t)"
      "\<exists>i < length rs. row = (Some (reloc_number (rs ! i)), rt_name (rs ! i))"
    with y(2) assms(3) num low show "y = row" by fastforce
  next
    assume "\<exists>i < length rs. y = (Some (reloc_number (rs ! i)), rt_name (rs ! i))"
      "\<exists>(t, n) \<in> set fixed_types. 0 < n \<and> row = (Some (of_nat n), type_name a t)"
    with y(2) assms(3) num low show "y = row" by fastforce
  qed
qed (use assms in simp_all)


lemma howto_table_length: "length (howto_table a rs) = 14 + length rs"
  using fixed_rows(1) [of a] by (simp add: howto_table_def)

lemma howto_table_nth:
  "howto_table a rs ! m = (if m < 14 then (none_rows a @ data_rows a) ! m else map reloc_howto rs ! (m - 14))"
  unfolding howto_table_def append_assoc [symmetric] nth_append [of "none_rows a @ data_rows a"] fixed_rows(1) by (rule refl)

lemma howto_table_new: "i < length rs \<Longrightarrow> howto_table a rs ! (14 + i) = reloc_howto (rs ! i)"
  by (simp add: howto_table_nth)

lemma howto_table_fixed: "n < 14 \<Longrightarrow> ht_type (howto_table a rs ! n) = type_name a (fst (fixed_types ! n))"
proof -
  assume n: "n < 14"
  have "map ht_type (none_rows a @ data_rows a) ! n = type_name a (fst (fixed_types ! n))"
    unfolding fixed_rows(2) using n fixed_types_facts(1) by simp
  moreover have "n < length (none_rows a @ data_rows a)" using n fixed_rows(1) by simp
  ultimately show ?thesis using n unfolding howto_table_nth by (simp only: nth_map if_True)
qed

lemma lookup_fixed:
  assumes "numbered_relocs a rs" "0 < n" "n < 14"
  shows "reloc_type_lookup a rs (of_nat n) = Ret (Some (howto_table a rs ! n))"
proof -
  let ?row = "(Some (of_nat n :: u32), type_name a (fst (fixed_types ! n)))"
  have "?row \<in> set (rev (tl (reloc_map a rs)))" unfolding map_rows_iff using fixed_in [OF assms(3)] assms(2) by blast
  from lookup_row [OF assms(1) this] have "find_first (\<lambda>row. fst row = Some (of_nat n)) (rev (tl (reloc_map a rs))) = Some ?row" by simp
  moreover have "unat (of_nat n :: u32) = n" using assms(3) by (simp add: unat_of_nat)
  ultimately show ?thesis
    using reloc_val_fixed [OF assms(1,3)] assms(3) by (simp add: reloc_type_lookup_def howto_at_def howto_table_length)
qed

lemma lookup_new:
  assumes "numbered_relocs a rs" "i < length rs"
  shows "reloc_type_lookup a rs (reloc_number (rs ! i)) =
    (if i + 23 < length rs then Ret (Some (reloc_howto (rs ! (i + 23)))) else Undef)"
proof -
  let ?row = "(Some (reloc_number (rs ! i)), rt_name (rs ! i))"
  have "?row \<in> set (rev (tl (reloc_map a rs)))" unfolding map_rows_iff using assms(2) by blast
  from lookup_row [OF assms(1) this]
  have "find_first (\<lambda>row. fst row = Some (reloc_number (rs ! i))) (rev (tl (reloc_map a rs))) = Some ?row" by simp
  then have "reloc_type_lookup a rs (reloc_number (rs ! i)) = run_then (howto_at a rs (i + 37)) (\<lambda>h. Ret (Some h))"
    using reloc_val_new [OF assms] reloc_number_unat [OF assms] by (simp add: reloc_type_lookup_def)
  moreover have "i + 37 = 14 + (i + 23)" by simp
  ultimately show ?thesis
    using howto_table_new [of "i + 23" rs a] by (simp add: howto_at_def howto_table_length)
qed

lemma numbered_inv:
  assumes "reloc_inv a ops rels ops'" "length ops < 2 ^ 31"
  shows "numbered_relocs a (rev rels)"
proof -
  have "rev rels ! i \<in> set rels" if "i < length rels" for i using that by (metis length_rev nth_mem set_rev)
  moreover have "\<forall>i < length rels. rt_id (rev rels ! i) = of_nat (Suc i)"
    "\<forall>r \<in> set rels. reloc_name (Some a) (rt_id r) (rt_operand_id r) = Ret (rt_name r)"
    using assms(1) by (simp_all add: reloc_inv_def)
  moreover have "length rels < 2 ^ 31" using reloc_inv_length [OF assms(1)] assms(2) by simp
  ultimately show ?thesis unfolding numbered_relocs_def length_rev by blast
qed

text \<open>C37: the \<open>HOWTO\<close> rows of the operands are not where the linker looks for them. The types of the
  relocations of operands start at 37, the rows lie behind the 14 fixed ones without a gap, and
  the linker takes the type as index. So the lookups find the rows of the fixed types, but for
  the relocation of an operand the row of the relocation 23 places further on; if there is none,
  they read behind the table.\<close>
theorem howto_rows_displaced:
  assumes "create_operand_list fmts instrs init_opcodes asml = Ret (st, asml1)" "length (operand_list st) < 2 ^ 31"
    "length a \<le> 90" "create_relocation_list (Some a) asml1 [] st = Ret (asml2, rels, st2)"
  shows "(\<forall>n. 0 < n \<and> n < 14 \<longrightarrow> reloc_type_lookup a (rev rels) (of_nat n) = Ret (Some (howto_table a (rev rels) ! n)) \<and>
      ht_type (howto_table a (rev rels) ! n) = type_name a (fst (fixed_types ! n))) \<and>
    (\<forall>i < length rels. reloc_type_lookup a (rev rels) (reloc_number (rev rels ! i)) =
      (if i + 23 < length rels then Ret (Some (reloc_howto (rev rels ! (i + 23)))) else Undef))"
proof -
  have "reloc_inv a (operand_list st) rels (operand_list st2)"
    using create_relocation_list_inv [OF assms(1-3)] assms(4) by auto
  then have "numbered_relocs a (rev rels)" using assms(2) by (rule numbered_inv)
  with lookup_fixed [OF this] lookup_new [OF this] howto_table_fixed show ?thesis by simp
qed

theorem howto_rows_displaced_witness:
  "reloc_type_lookup ''armv7'' demo_relocs 7 = Ret (Some (data_howto ''R_armv7_32'' 2 32 False)) \<and>
   reloc_type_lookup ''armv7'' demo_relocs 37 = Undef"
proof -
  obtain asml2 rels st2 where "create_relocation_list (Some ''armv7'') (snd demo_jump_tables) [] (fst demo_jump_tables) = Ret (asml2, rels, st2)"
    "rels = demo_relocs"
    using demo_jump(3) by (auto split: prod.splits)
  with howto_rows_displaced [OF demo_jump(1), of "''armv7''" asml2 rels st2] demo_jump(2)
  have D: "\<forall>n. 0 < n \<and> n < 14 \<longrightarrow> reloc_type_lookup ''armv7'' demo_relocs (of_nat n) = Ret (Some (howto_table ''armv7'' demo_relocs ! n))"
    "reloc_type_lookup ''armv7'' demo_relocs (reloc_number (hd demo_relocs)) = Undef"
    by (simp_all add: demo_relocs_def)
  have "howto_table ''armv7'' demo_relocs ! 7 = data_howto ''R_armv7_32'' 2 32 False" "reloc_number (hd demo_relocs) = 37"
    by code_simp+
  with D(2) D(1) [rule_format, of 7] show ?thesis by simp
qed


subsection \<open>Storing a value\<close>

lemma getbits_below:
  assumes "getbits n loc e = Ret w"
  shows "bit w b \<Longrightarrow> b < n"
  using assms by (auto simp: getbits_def Let_def ones_mask bit_simps split: if_splits)

lemma getbits_returns: "touched n \<le> length loc \<Longrightarrow> \<exists>w. getbits n loc e = Ret w"
  by (simp add: getbits_def touched_def Let_def not_less)

lemma split_input_error: "split_input fmts opr n mp = Ret mp' \<Longrightarrow> mp_error mp' = mp_error mp"
  by (induction n arbitrary: mp) (auto simp: Let_def put_field_value_def shift_input_def split: if_splits)

lemma encode_cons_field_error:
  "encode_cons_field fmts ops modfn max_fields img mp n = Ret (img', mp') \<Longrightarrow> ol_mod_type (ops ! n) = 0 \<Longrightarrow> mp_error mp' = 0"
  using split_input_error by (fastforce simp: encode_cons_field_def Let_def split: if_splits)

lemma layout_below:
  assumes "layout fmts opr js" "fmts ! unat (ol_format_id opr) = p" "j \<in> set js" "in_field fmts opr j b"
  shows "b < nat (format_size p)"
  using assms by (auto simp: layout_def in_field_def lo_def sz_def low_of_def inside_def)

lemma patch_operand_stores:
  fixes T :: target
  assumes L: "layout (tg_formats T) opr js" "tg_formats T ! unat (ol_format_id opr) = p" "js \<noteq> []" "ol_mod_type opr = 0"
    and k: "unat opid < length (tg_operands T)" "tg_operands T ! unat opid = opr" "\<forall>j \<in> set js. j < length (mp_field mp)"
    and n: "format_size p = int n" "n \<le> 32" "touched n \<le> length loc" "tg_endian T = 0 \<or> tg_endian T = 1"
  shows "\<exists>loc' w0 w. patch_operand T mp opid loc v address name = Ret (loc', False) \<and>
    getbits n loc (tg_endian T) = Ret w0 \<and> getbits n loc' (tg_endian T) = Ret w \<and>
    length loc' = length loc \<and> drop (touched n) loc' = drop (touched n) loc \<and>
    get_value_from_fields (tg_operands T) (unat opid) w =
      Ret (take_bit (sum_list (map (sz (tg_formats T) opr) js)) v, of_nat (sum_list (map (sz (tg_formats T) opr) js))) \<and>
    (\<forall>b. (\<forall>j \<in> set js. \<not> in_field (tg_formats T) opr j b) \<longrightarrow> bit w b = bit w0 b)"
proof -
  let ?F = "tg_formats T" and ?e = "tg_endian T" and ?k = "unat opid"
  define mp1 where "mp1 = mp\<lparr>mp_input := v, mp_address := address, mp_section := Some name, mp_list_results := []\<rparr>"
  have mp1: "mp_input mp1 = v" "\<forall>j \<in> set js. j < length (mp_field mp1)" using k(3) by (simp_all add: mp1_def)
  obtain w0 where w0: "getbits n loc ?e = Ret w0" using getbits_returns [OF n(3)] by blast
  from encode_decode [OF L(1) k(1,2) L(4) mp1(2), of "tg_modfn T" "tg_max_fields T" "ucast w0"] mp1(1)
  obtain img mp2 where E: "encode_cons_field ?F (tg_operands T) (tg_modfn T) (tg_max_fields T) (ucast w0) mp1 ?k = Ret (img, mp2)"
    "get_value_from_fields (tg_operands T) ?k (ucast img) =
       Ret (take_bit (sum_list (map (sz ?F opr) js)) v, of_nat (sum_list (map (sz ?F opr) js)))"
    "\<forall>b. (\<forall>j \<in> set js. \<not> in_field ?F opr j b) \<longrightarrow> bit img b = bit (ucast w0 :: u32) b" by blast
  have "mp_error mp2 = 0" using encode_cons_field_error [OF E(1)] k(2) L(4) by simp
  moreover obtain loc' where P: "putbits (tg_wide T) n loc (ucast img) ?e = Ret loc'"
    "getbits n loc' ?e = Ret (take_bit n (ucast img))" "length loc' = length loc" "drop (touched n) loc' = drop (touched n) loc"
    using put_get [OF n(2,3,4)] by blast
  moreover have "unat (ucast (insn_size_of ?F (unat (ol_format_id opr))) :: u32) = n"
  proof -
    obtain j where "j \<in> set js" using L(3) by (cases js) auto
    then have "unat (ol_format_id opr) < length ?F" using L(1) by (auto simp: layout_def field_at_def split: if_splits)
    then have "insn_size_of ?F (unat (ol_format_id opr)) = of_nat n" using L(2) n(1) by (simp add: insn_size_of_def)
    then show ?thesis using n(2) by (simp add: unsigned_ucast_eq unat_of_nat take_bit_nat_eq_self)
  qed
  ultimately have patch: "patch_operand T mp opid loc v address name = Ret (loc', False)"
    using k(1,2) w0 E(1) by (simp add: patch_operand_def Let_def mp1_def [symmetric])
  have below: "b < n" if "bit img b" for b
  proof (cases "\<forall>j \<in> set js. \<not> in_field ?F opr j b")
    case True
    with E(3) that have "bit w0 b" by (simp add: bit_ucast_iff)
    then show ?thesis by (rule getbits_below [OF w0])
  next
    case False
    then show ?thesis using layout_below [OF L(1,2)] n(1) by auto
  qed
  then have w: "take_bit n (ucast img) = (ucast img :: u64)"
    by (intro bit_word_eqI) (auto simp: bit_simps)
  have "bit (ucast img :: u64) b = bit w0 b" if "\<forall>j \<in> set js. \<not> in_field ?F opr j b" for b
  proof -
    have "bit img b = bit (ucast w0 :: u32) b" using E(3) that by blast
    then show ?thesis using getbits_below [OF w0, of b] n(2) below [of b] by (auto simp: bit_ucast_iff)
  qed
  with patch w0 P w E(2) show ?thesis by auto
qed


text \<open>C15: the linker stores the value of a symbol in an instruction. For a generated operand without
  modifier, with fields of two bits or more in order, \<open>elf_archc_apply_modifier\<close> reads the
  instruction from the section, in either byte order, and writes it back so that the
  disassembler reads as many bits of the value as the operand has; the other bits of the instruction
  and the bytes behind it stay.\<close>
theorem linker_patches_operand:
  fixes T :: target
  assumes "new_oper (tg_formats T) instrs a k x = Ret y" "ai_insn a = Some k" "length (tg_formats T) < 2 ^ 31"
    and "find_first (\<lambda>p. strcmp (instr_format (instrs ! k)) (format_name p) = 0) (tg_formats T) = Some p"
    and "well_placed p x js" "js \<noteq> []" "mod_type (op_modifier x) = 0" "\<forall>j \<in> set js. j < length (mp_field mp)"
    and "unat opid < length (tg_operands T)" "tg_operands T ! unat opid = y\<lparr>ol_id := i\<rparr>"
    and "format_size p = int n" "n \<le> 32" "touched n \<le> length loc" "tg_endian T = 0 \<or> tg_endian T = 1"
  shows "\<exists>loc' w0 w. elf_archc_apply_modifier T mp opid loc v address name = Ret (bfd_reloc_ok, loc', False) \<and>
    getbits n loc (tg_endian T) = Ret w0 \<and> getbits n loc' (tg_endian T) = Ret w \<and>
    length loc' = length loc \<and> drop (touched n) loc' = drop (touched n) loc \<and>
    get_value_from_fields (tg_operands T) (unat opid) w =
      (let W = sum_list (map (\<lambda>j. nat (field_size (format_fields p ! j))) js) in Ret (take_bit W (ucast v), of_nat W)) \<and>
    (\<forall>b. (\<forall>j \<in> set js. b < low_of p (format_fields p ! j) \<or>
        low_of p (format_fields p ! j) + nat (field_size (format_fields p ! j)) \<le> b) \<longrightarrow> bit w b = bit w0 b)"
proof -
  let ?o = "y\<lparr>ol_id := i\<rparr>" and ?F = "tg_formats T"
  note L = new_oper_layout [OF assms(1-5)]
  have "layout ?F ?o js" "?F ! unat (ol_format_id ?o) = p" "ol_mod_type ?o = 0"
    using L assms(1,7) by (auto simp: new_oper_def)
  from patch_operand_stores [OF this(1,2) assms(6) this(3) assms(9,10,8,11-14), of "ucast v" "ucast address" name]
  obtain loc' w0 w where "patch_operand T mp opid loc (ucast v) (ucast address) name = Ret (loc', False)"
    "getbits n loc (tg_endian T) = Ret w0" "getbits n loc' (tg_endian T) = Ret w"
    "length loc' = length loc" "drop (touched n) loc' = drop (touched n) loc"
    "get_value_from_fields (tg_operands T) (unat opid) w =
       Ret (take_bit (sum_list (map (sz ?F ?o) js)) (ucast v), of_nat (sum_list (map (sz ?F ?o) js)))"
    "\<forall>b. (\<forall>j \<in> set js. \<not> in_field ?F ?o j b) \<longrightarrow> bit w b = bit w0 b" by blast
  moreover have "sz ?F ?o = (\<lambda>j. nat (field_size (format_fields p ! j)))"
    using L(2) by (intro ext) (simp add: sz_def fld_def)
  moreover have "\<not> in_field ?F ?o j b \<longleftrightarrow>
      b < low_of p (format_fields p ! j) \<or> low_of p (format_fields p ! j) + nat (field_size (format_fields p ! j)) \<le> b" for j b
    using L(2) by (auto simp: in_field_def sz_def lo_def fld_def)
  ultimately show ?thesis unfolding elf_archc_apply_modifier_def Let_def by auto
qed

definition demo_target :: target where
  "demo_target = \<lparr>tg_formats = [demo_op_format], tg_operands = [demo_oper], tg_modfn = [], tg_max_fields = 2,
     tg_endian = 1, tg_wide = (\<lambda>_. 0)\<rparr>"

theorem linker_patches_operand_witness:
  "\<exists>loc w. elf_archc_apply_modifier demo_target demo_parms 0 [0xEA, 0, 0, 0, 7] 0xCAFE1234 0x8000 ''.text'' = Ret (bfd_reloc_ok, loc, False) \<and>
     drop 4 loc = [7] \<and> getbits 32 loc 1 = Ret w \<and> get_value_from_fields [demo_oper] 0 w = Ret (0xCAFE1234, 32)"
proof -
  have 1: "new_oper (tg_formats demo_target) [demo_op_instr] demo_op_insn 0 demo_typed = Ret demo_oper" by code_simp
  have 2: "ai_insn demo_op_insn = Some 0" "length (tg_formats demo_target) < 2 ^ 31"
    by (simp_all add: demo_op_insn_def demo_target_def)
  have 3: "find_first (\<lambda>p. strcmp (instr_format ([demo_op_instr] ! 0)) (format_name p) = 0) (tg_formats demo_target) = Some demo_op_format"
    by code_simp
  have 4: "well_placed demo_op_format demo_typed [0, 1]" by code_simp
  have 5: "[0, 1] \<noteq> ([] :: nat list)" "mod_type (op_modifier demo_typed) = 0" "\<forall>j \<in> set [0, 1]. j < length (mp_field demo_parms)"
    "unat (0 :: u32) < length (tg_operands demo_target)" "tg_operands demo_target ! unat (0 :: u32) = demo_oper\<lparr>ol_id := ol_id demo_oper\<rparr>"
    "format_size demo_op_format = int 32" "(32 :: nat) \<le> 32" "touched 32 \<le> length [0xEA, 0, 0, 0, 7 :: u8]"
    "tg_endian demo_target = 0 \<or> tg_endian demo_target = 1"
    by (simp_all add: demo_typed_def set_mod_type_def demo_parms_def demo_target_def demo_op_format_def touched_def)
  have "nat (field_size (format_fields demo_op_format ! 0)) = 4" "nat (field_size (format_fields demo_op_format ! Suc 0)) = 28"
    by (simp_all add: demo_op_format_def)
  with linker_patches_operand [OF 1 2 3 4 5, of "0xCAFE1234" "0x8000" "''.text''"] show ?thesis
    by (auto simp: Let_def demo_target_def touched_def)
qed


text \<open>The relocation of data. \<open>generic_data_reloc\<close> writes the value of the symbol in its output
  section plus the addend, less the start of the input section if the row is relative, with the
  width of the row, in either byte order, and changes no byte outside.\<close>
theorem data_reloc_exact:
  fixes T :: target
  assumes "sec_output_vma (symbol_section symb) = Some vma" "sec_output_vma input_section = Some base"
    and "ht_bitsize (rel_howto rel) = n" "n \<le> 32" "k = unat (rel_address rel * octets_per_byte)"
    and "k + touched n \<le> length data" "tg_endian T = 0 \<or> tg_endian T = 1"
  shows "\<exists>data'. generic_data_reloc T octets_per_byte rel symb data input_section = Ret (bfd_reloc_ok, data') \<and>
    take k data' = take k data \<and> drop (k + touched n) data' = drop (k + touched n) data \<and>
    getbits n (drop k data') (tg_endian T) = Ret (take_bit n (ucast (ucast (symbol_value symb) +
      ucast (vma + sec_output_offset (symbol_section symb)) + ucast (rel_addend rel) -
      (if ht_pc_relative (rel_howto rel) then ucast (base + sec_output_offset input_section) else 0) :: u32)))"
proof -
  define v :: u32 where "v = ucast (symbol_value symb) + ucast (vma + sec_output_offset (symbol_section symb)) + ucast (rel_addend rel) -
    (if ht_pc_relative (rel_howto rel) then ucast (base + sec_output_offset input_section) else 0)"
  have "touched n \<le> length (drop k data)" using assms(6) by simp
  from put_get [OF assms(4) this assms(7), of "tg_wide T" "ucast v"] obtain loc' where P:
    "putbits (tg_wide T) n (drop k data) (ucast v) (tg_endian T) = Ret loc'"
    "getbits n loc' (tg_endian T) = Ret (take_bit n (ucast v))"
    "length loc' = length (drop k data)" "drop (touched n) loc' = drop (touched n) (drop k data)" by blast
  have k: "k \<le> length data" using assms(6) by simp
  have "generic_data_reloc T octets_per_byte rel symb data input_section = Ret (bfd_reloc_ok, take k data @ loc')"
    using assms(1,2,3,5) k P(1)
    by (cases "ht_pc_relative (rel_howto rel)") (simp_all add: generic_data_reloc_def at_octets_def Let_def v_def)
  moreover have "drop (k + touched n) (take k data @ loc') = drop (k + touched n) data"
    using k P(4) by (simp add: add.commute)
  moreover have "take k (take k data @ loc') = take k data" "drop k (take k data @ loc') = loc'"
    using k by simp_all
  ultimately show ?thesis using P(2) unfolding v_def [symmetric] by metis
qed

definition demo_section :: asection where
  "demo_section = \<lparr>sec_name = ''.data'', sec_is_com = False, sec_output_vma = Some 0x8000, sec_output_offset = 0x10, sec_limit = 8\<rparr>"

theorem data_reloc_exact_witness:
  "\<exists>data. generic_data_reloc demo_target 1 \<lparr>rel_address = 2, rel_addend = 1, rel_howto = data_howto ''R_x_16'' 1 16 False\<rparr>
       \<lparr>symbol_value = 3, symbol_section = demo_section, symbol_is_section = False\<rparr> [1, 2, 3, 4, 5] demo_section = Ret (bfd_reloc_ok, data) \<and>
     take 2 data = [1, 2] \<and> drop 4 data = [5] \<and> getbits 16 (drop 2 data) 1 = Ret 0x8014"
proof -
  let ?rel = "\<lparr>rel_address = 2, rel_addend = 1, rel_howto = data_howto ''R_x_16'' 1 16 False\<rparr>"
  let ?sym = "\<lparr>symbol_value = 3, symbol_section = demo_section, symbol_is_section = False\<rparr>"
  have 1: "sec_output_vma (symbol_section ?sym) = Some 0x8000" "sec_output_vma demo_section = Some 0x8000"
    "ht_bitsize (rel_howto ?rel) = 16" "(16 :: nat) \<le> 32" "(2 :: nat) = unat (rel_address ?rel * 1)"
    "2 + touched 16 \<le> length [1 :: u8, 2, 3, 4, 5]" "tg_endian demo_target = 0 \<or> tg_endian demo_target = 1"
    by (simp_all add: demo_section_def data_howto_def touched_def demo_target_def)
  have "take_bit 16 (0x8014 :: u64) = 0x8014" by code_simp
  with data_reloc_exact [OF 1] show ?thesis
    by (simp add: demo_section_def data_howto_def touched_def demo_target_def)
qed

end
