(* ===== verification/RelConvert.thy ===== *)
theory RelConvert
  imports CLib BinUtils "HOL-Library.Multiset"
begin

text \<open>
  The converter of relocation codes, \<open>archc/src/acbinutils/acrelconvert.c\<close>: its hash table, the
  parser of the map file, and the walk over an ELF file that rewrites the code of every relocation
  in place. Files are lists of bytes with a position; a \<open>read\<close> is short only at the end of the
  file, writes and allocations succeed, and \<open>off_t\<close> has 64 bits. The layouts are those of
  \<open>elf.h\<close>, which \<open>archc/src/aclib/ac_utils/elf32-tiny.h\<close> repeats.
\<close>

subsection \<open>The hash table\<close>

record hash_node =
  node_index :: u32
  node_value :: u32

type_synonym hash_table = "hash_node list list"

definition ACRELCONVERT_HASHTABLE_SIZE :: nat where
  "ACRELCONVERT_HASHTABLE_SIZE = 20"

definition hash_initialize :: hash_table where
  "hash_initialize = replicate ACRELCONVERT_HASHTABLE_SIZE []"

definition bucket :: "u32 \<Rightarrow> nat" where
  "bucket k = unat (k mod of_nat ACRELCONVERT_HASHTABLE_SIZE)"

definition hash_add_value :: "hash_table \<Rightarrow> u32 \<Rightarrow> u32 \<Rightarrow> hash_table" where
  "hash_add_value ht k v =
     ht[bucket k := \<lparr>node_index = k, node_value = v\<rparr> # ht ! bucket k]"

definition hash_get_value :: "hash_table \<Rightarrow> u32 \<Rightarrow> u32 option" where
  "hash_get_value ht k = map_option node_value (find_first (\<lambda>n. node_index n = k) (ht ! bucket k))"

text \<open>The nodes in the order in which they are freed; the table itself goes last.\<close>

fun free_chain :: "hash_node list \<Rightarrow> hash_node list" where
  "free_chain [] = []"
| "free_chain (n # ns) = ns @ [n]"

definition hash_delete :: "hash_table \<Rightarrow> hash_node list \<times> hash_table option" where
  "hash_delete ht = (concat (map free_chain ht), None)"

subsection \<open>The parser of the map file\<close>

text \<open>At the end of the file the character read is NUL.\<close>

definition nul :: char where "nul = CHR 0x00"
definition eol :: char where "eol = CHR 0x0A"

definition request_read :: "string \<Rightarrow> char \<times> string" where
  "request_read s = (case s of [] \<Rightarrow> (nul, []) | c # t \<Rightarrow> (c, t))"

text \<open>What is left to read, the character in \<open>buffer[0]\<close> included: the measure of the loops.\<close>

definition unread :: "char \<Rightarrow> string \<Rightarrow> nat" where
  "unread c s = length s + (if c = nul then 0 else 1)"

lemma unread_less: "request_read s = (d, t) \<Longrightarrow> c \<noteq> nul \<Longrightarrow> unread d t < unread c s"
  by (auto simp: request_read_def unread_def split: list.splits)

lemma unread_read: "request_read s = (d, t) \<Longrightarrow> unread d t \<le> length s"
  by (auto simp: request_read_def unread_def split: list.splits)

function skip_line :: "char \<Rightarrow> string \<Rightarrow> char \<times> string" where
  "skip_line c s =
     (if c \<noteq> eol \<and> c \<noteq> nul then (case request_read s of (d, t) \<Rightarrow> skip_line d t) else (c, s))"
  by auto
termination by (relation "measure (\<lambda>(c, s). unread c s)") (auto simp: request_read_def unread_def split: list.splits)

function skip_blanks :: "char \<Rightarrow> string \<Rightarrow> char \<times> string" where
  "skip_blanks c s =
     (if c = CHR '' '' \<or> c = CHR 0x09 then (case request_read s of (d, t) \<Rightarrow> skip_blanks d t) else (c, s))"
  by auto
termination
  by (relation "measure (\<lambda>(c, s). unread c s)")
    (auto simp: request_read_def unread_def nul_def split: list.splits)

text \<open>
  The digits before \<open>buffer[i]\<close> are \<open>ds\<close>. The next character is stored in \<open>buffer[i + 1]\<close> before
  the index is compared with the size 20 of the buffer.
\<close>

function scan_number :: "nat \<Rightarrow> string \<Rightarrow> char \<Rightarrow> string \<Rightarrow> (string \<times> char \<times> string) run" where
  "scan_number i ds c s =
     (if isdigit c
      then if 20 \<le> i + 1 then Undef
           else (case request_read s of (d, t) \<Rightarrow> scan_number (i + 1) (ds @ [c]) d t)
      else Ret (ds, c, s))"
  by auto
termination by (relation "measure (\<lambda>(i, ds, c, s). 20 - i)") auto

datatype map_error =
    Expecting_statement u32
  | Unexpected_end_of_line u32
  | Bad_first_number u32
  | Expected_equals u32
  | Bad_second_number u32
  | Junk_at_end_of_line u32

text \<open>The statement \<open>num = num\<close> whose first digit is \<open>c\<close>.\<close>

definition map_statement :: "u32 \<Rightarrow> char \<Rightarrow> string \<Rightarrow> (map_error + (u32 \<times> u32 \<times> char \<times> string)) run" where
  "map_statement line c s =
     run_then (scan_number 0 [] c s) (\<lambda>(ds, c, s).
       if c = eol \<or> c = nul then Ret (Inl (Unexpected_end_of_line line))
       else let num1 = word_of_int (fst (strtol 10 (ds @ [c]))); endptr = snd (strtol 10 (ds @ [c])) in
         if endptr \<noteq> [c] then Ret (Inl (Bad_first_number line))
         else case skip_blanks c s of (c, s) \<Rightarrow>
           if c \<noteq> CHR ''='' then Ret (Inl (Expected_equals line))
           else case request_read s of (c, s) \<Rightarrow> case skip_blanks c s of (c, s) \<Rightarrow>
             if c = eol \<or> c = nul then Ret (Inl (Unexpected_end_of_line line))
             else if \<not> isdigit c then Ret (Inl (Expecting_statement line))
             else run_then (scan_number 0 [] c s) (\<lambda>(ds, c, s).
               let num2 = word_of_int (fst (strtol 10 (ds @ [c]))); endptr = snd (strtol 10 (ds @ [c])) in
                 if endptr \<noteq> [c] then Ret (Inl (Bad_second_number line))
                 else if c \<noteq> eol \<and> c \<noteq> nul then Ret (Inl (Junk_at_end_of_line line))
                 else Ret (Inr (num1, num2, c, s))))"

text \<open>One turn of the loop: the table, \<open>buffer[0]\<close> and the rest of the file after it.\<close>

definition map_file_line ::
  "bool \<Rightarrow> hash_table \<Rightarrow> u32 \<Rightarrow> string \<Rightarrow> (map_error + (hash_table \<times> char \<times> string)) run" where
  "map_file_line reverse_mode ht line s =
     (case request_read s of (c, s) \<Rightarrow>
        if c = CHR ''#'' then (case skip_line c s of (c, s) \<Rightarrow> Ret (Inr (ht, c, s)))
        else case skip_blanks c s of (c, s) \<Rightarrow>
          if c = eol \<or> c = nul then Ret (Inr (ht, c, s))
          else if \<not> isdigit c then Ret (Inl (Expecting_statement line))
          else run_then (map_statement line c s) (\<lambda>r. case r of
              Inl e \<Rightarrow> Ret (Inl e)
            | Inr (num1, num2, c, s) \<Rightarrow>
                Ret (Inr (if \<not> reverse_mode then hash_add_value ht num1 num2
                          else hash_add_value ht num2 num1, c, s))))"

lemma skip_line_unread: "skip_line c s = (d, t) \<Longrightarrow> unread d t \<le> unread c s"
proof (induction c s rule: skip_line.induct)
  case (1 c s)
  show ?case
  proof (cases "c \<noteq> eol \<and> c \<noteq> nul")
    case True
    obtain e u where eu: "request_read s = (e, u)" by fastforce
    from True 1 eu have "unread d t \<le> unread e u" by (simp add: skip_line.simps [of c s])
    with unread_less [OF eu, of c] True show ?thesis by simp
  next
    case False
    with 1(2) show ?thesis by (simp only: skip_line.simps [of c s] if_False) simp
  qed
qed

lemma skip_blanks_unread: "skip_blanks c s = (d, t) \<Longrightarrow> unread d t \<le> unread c s"
proof (induction c s rule: skip_blanks.induct)
  case (1 c s)
  show ?case
  proof (cases "c = CHR '' '' \<or> c = CHR 0x09")
    case True
    obtain e u where eu: "request_read s = (e, u)" by fastforce
    from True 1 eu have "unread d t \<le> unread e u" by (simp add: skip_blanks.simps [of c s])
    with unread_less [OF eu, of c] True show ?thesis by (auto simp: nul_def)
  next
    case False
    with 1(2) show ?thesis by (simp only: skip_blanks.simps [of c s] if_False) simp
  qed
qed

lemma isdigit_not_nul: "isdigit c \<Longrightarrow> c \<noteq> nul"
  by (auto simp: isdigit_def nul_def less_eq_char_def)

lemma scan_number_unread: "scan_number i ds c s = Ret (ds', d, t) \<Longrightarrow> unread d t \<le> unread c s"
proof (induction i ds c s rule: scan_number.induct)
  case (1 i ds c s)
  show ?case
  proof (cases "isdigit c")
    case True
    obtain e u where eu: "request_read s = (e, u)" by fastforce
    from True 1(2) eu have "\<not> 20 \<le> i + 1" "scan_number (i + 1) (ds @ [c]) e u = Ret (ds', d, t)"
      by (auto simp: scan_number.simps [of i ds c s] split: if_splits)
    with 1(1) True eu have "unread d t \<le> unread e u" by simp
    with unread_less [OF eu, of c] isdigit_not_nul [OF True] show ?thesis by simp
  next
    case False
    with 1(2) show ?thesis by (simp only: scan_number.simps [of i ds c s] if_False) simp
  qed
qed

declare skip_line.simps [simp del] skip_blanks.simps [simp del] scan_number.simps [simp del]

text \<open>A parsed statement is two numbers around an equals sign.\<close>

lemma map_statement_steps:
  assumes "map_statement line c s = Ret (Inr (a, b, d, t))"
  obtains ds1 c1 s1 s2 c3 s3 c4 s4 ds2
  where "scan_number 0 [] c s = Ret (ds1, c1, s1)" "skip_blanks c1 s1 = (CHR ''='', s2)"
    "request_read s2 = (c3, s3)" "skip_blanks c3 s3 = (c4, s4)" "scan_number 0 [] c4 s4 = Ret (ds2, d, t)"
  using assms
  unfolding map_statement_def
  by (auto simp: Let_def split: if_split_asm prod.split_asm)

lemma map_statement_unread:
  assumes "map_statement line c s = Ret (Inr (a, b, d, t))"
  shows "unread d t \<le> unread c s"
proof (rule map_statement_steps [OF assms])
  fix ds1 c1 s1 s2 c3 s3 c4 s4 ds2
  assume 1: "scan_number 0 [] c s = Ret (ds1, c1, s1)" and 2: "skip_blanks c1 s1 = (CHR ''='', s2)"
    and 3: "request_read s2 = (c3, s3)" and 4: "skip_blanks c3 s3 = (c4, s4)"
    and 5: "scan_number 0 [] c4 s4 = Ret (ds2, d, t)"
  have "unread c3 s3 \<le> unread (CHR ''='') s2"
    using unread_less [OF 3, of "CHR ''=''"] by (simp add: nul_def)
  with scan_number_unread [OF 1] skip_blanks_unread [OF 2] skip_blanks_unread [OF 4]
    scan_number_unread [OF 5] show ?thesis by simp
qed

lemma map_file_line_steps:
  assumes "map_file_line rv ht line s = Ret (Inr (ht', c, t))" "request_read s = (c1, s1)"
    "skip_blanks c1 s1 = (c2, s2)"
  shows "skip_line c1 s1 = (c, t) \<or> (c, t) = (c2, s2) \<or>
     (\<exists>a b. map_statement line c2 s2 = Ret (Inr (a, b, c, t)))"
proof (cases "map_statement line c2 s2")
  case (Ret r)
  show ?thesis
  proof (cases r)
    case Inl
    with Ret assms show ?thesis by (auto simp: map_file_line_def split: if_split_asm prod.split_asm)
  next
    case (Inr q)
    with Ret assms show ?thesis
      by (cases q) (auto simp: map_file_line_def split: if_split_asm prod.split_asm)
  qed
qed (use assms in \<open>auto simp: map_file_line_def split: if_split_asm prod.split_asm\<close>)

lemma map_file_line_unread:
  assumes "map_file_line rv ht line s = Ret (Inr (ht', c, t))"
  shows "unread c t \<le> length s"
proof -
  obtain c1 s1 where 1: "request_read s = (c1, s1)" by fastforce
  obtain c2 s2 where 2: "skip_blanks c1 s1 = (c2, s2)" by fastforce
  have "unread c t \<le> unread c1 s1"
    using map_file_line_steps [OF assms 1 2] skip_line_unread [of c1 s1 c t]
      skip_blanks_unread [OF 2] map_statement_unread [of line c2 s2 _ _ c t]
    by (elim disjE exE) (auto intro: order_trans)
  with unread_read [OF 1] show ?thesis by simp
qed

text \<open>The loop runs until \<open>buffer[0]\<close>, here \<open>c\<close>, is NUL.\<close>

function process_map_loop :: "bool \<Rightarrow> hash_table \<Rightarrow> u32 \<Rightarrow> char \<Rightarrow> string \<Rightarrow> (map_error + hash_table) run" where
  "process_map_loop reverse_mode ht line c s =
     (if c = nul then Ret (Inr ht)
      else case map_file_line reverse_mode ht (line + 1) s of
        Undef \<Rightarrow> Undef
      | Exit \<Rightarrow> Exit
      | Ret (Inl e) \<Rightarrow> Ret (Inl e)
      | Ret (Inr (ht, c, s)) \<Rightarrow> process_map_loop reverse_mode ht (line + 1) c s)"
  by auto
termination
  by (relation "measure (\<lambda>(rv, ht, line, c, s). unread c s)")
    (auto dest!: map_file_line_unread simp: unread_def)

declare process_map_loop.simps [simp del]

definition process_map_file :: "string \<Rightarrow> hash_table \<Rightarrow> bool \<Rightarrow> (map_error + hash_table) run" where
  "process_map_file s ht reverse_mode = process_map_loop reverse_mode ht 0 (CHR ''a'') s"

subsection \<open>The table is a map\<close>

locale code_table =
  fixes ok :: "'t \<Rightarrow> bool"
    and new :: 't
    and add :: "'t \<Rightarrow> 'k \<Rightarrow> 'v \<Rightarrow> 't"
    and get :: "'t \<Rightarrow> 'k \<Rightarrow> 'v option"
  assumes ok_new: "ok new"
    and ok_add: "ok t \<Longrightarrow> ok (add t k v)"
    and get_new: "get new k = None"
    and get_add: "ok t \<Longrightarrow> get (add t k v) k' = (if k' = k then Some v else get t k')"
begin

definition add_all :: "'t \<Rightarrow> ('k \<times> 'v) list \<Rightarrow> 't" where
  "add_all t kvs = fold (\<lambda>(k, v) t. add t k v) kvs t"

lemma ok_add_all: "ok t \<Longrightarrow> ok (add_all t kvs)"
  unfolding add_all_def by (induction kvs arbitrary: t) (auto intro: ok_add)

lemma get_add_all:
  "ok t \<Longrightarrow> get (add_all t kvs) k = (case map_of (rev kvs) k of None \<Rightarrow> get t k | Some v \<Rightarrow> Some v)"
  unfolding add_all_def
proof (induction kvs arbitrary: t)
  case (Cons p kvs)
  obtain a v where p: "p = (a, v)" by fastforce
  show ?case
    using Cons.IH [OF ok_add [OF Cons.prems], of a v] get_add [OF Cons.prems, of a v k]
    by (auto simp: p map_add_def split: option.splits)
qed simp

lemma get_add_all_new: "get (add_all new kvs) k = map_of (rev kvs) k"
  by (simp add: get_add_all ok_new get_new split: option.splits)

end

definition hash_ok :: "hash_table \<Rightarrow> bool" where
  "hash_ok ht \<longleftrightarrow> length ht = ACRELCONVERT_HASHTABLE_SIZE"

lemma bucket_less: "bucket k < ACRELCONVERT_HASHTABLE_SIZE"
  by (simp add: bucket_def ACRELCONVERT_HASHTABLE_SIZE_def unat_mod_distrib)

interpretation codes: code_table hash_ok hash_initialize hash_add_value hash_get_value
proof
  fix ht k v k' assume "hash_ok ht"
  then show "hash_get_value (hash_add_value ht k v) k' = (if k' = k then Some v else hash_get_value ht k')"
    using bucket_less [of k] by (auto simp: hash_get_value_def hash_add_value_def hash_ok_def nth_list_update)
qed (simp_all add: hash_ok_def hash_initialize_def hash_get_value_def hash_add_value_def bucket_less)

text \<open>\<open>hash_delete\<close> frees every node once.\<close>

lemma mset_free_chain [simp]: "mset (free_chain ns) = mset ns"
  by (cases ns) auto

lemma hash_delete_frees: "mset (fst (hash_delete ht)) = mset (concat ht)"
proof -
  have "mset (concat (map free_chain ht)) = mset (concat ht)" by (induction ht) auto
  then show ?thesis by (simp add: hash_delete_def)
qed

end
