(* ===== verification/ElfConvert.thy ===== *)
theory ElfConvert
  imports RelConvert
begin

text \<open>
  The walk of \<open>archc/src/acbinutils/acrelconvert.c\<close> over an ELF file. \<open>le\<close> says that the host is
  little endian, \<open>m\<close> is the flag \<open>match_endian\<close>. The structs of \<open>elf.h\<close> are the bytes at their
  offsets; only the fields that the code reads are named.
\<close>

subsection \<open>Words and structs in the memory of the host\<close>

fun bytes_value :: "u8 list \<Rightarrow> u32" where
  "bytes_value [] = 0"
| "bytes_value (b # bs) = push_bit 8 (bytes_value bs) OR ucast b"

definition host_word :: "bool \<Rightarrow> u8 list \<Rightarrow> u32" where
  "host_word le bs = bytes_value (if le then bs else rev bs)"

definition word_bytes :: "bool \<Rightarrow> u32 \<Rightarrow> u8 list" where
  "word_bytes le w =
     (let bs = [ucast w, ucast (drop_bit 8 w), ucast (drop_bit 16 w), ucast (drop_bit 24 w)]
      in if le then bs else rev bs)"

definition struct_field :: "bool \<Rightarrow> u8 list \<Rightarrow> nat \<Rightarrow> nat \<Rightarrow> u32" where
  "struct_field le bs off n = host_word le (take n (drop off bs))"

text \<open>The loop over the bytes of \<open>num\<close>; every call has \<open>size\<close> 2 or 4.\<close>

fun convert_loop :: "nat \<Rightarrow> u32 \<Rightarrow> u8 list \<Rightarrow> u32" where
  "convert_loop (Suc n) out (b # bs) = convert_loop n (push_bit 8 out OR ucast b) bs"
| "convert_loop _ out _ = out"

definition convert_endian :: "bool \<Rightarrow> nat \<Rightarrow> u32 \<Rightarrow> bool \<Rightarrow> u32" where
  "convert_endian le n num m = (if \<not> m then convert_loop n 0 (word_bytes le num) else num)"

text \<open>\<open>short\<close> variables: the value cut to 16 bits, and its sign extension where it is used.\<close>

definition to_short :: "u32 \<Rightarrow> u16" where "to_short w = ucast w"
definition of_short :: "u16 \<Rightarrow> u32" where "of_short h = scast h"

definition ELF32_R_SYM :: "u32 \<Rightarrow> u32" where "ELF32_R_SYM v = drop_bit 8 v"
definition ELF32_R_TYPE :: "u32 \<Rightarrow> u32" where "ELF32_R_TYPE v = v AND 0xFF"
definition ELF32_R_INFO :: "u32 \<Rightarrow> u32 \<Rightarrow> u32" where "ELF32_R_INFO s t = push_bit 8 s + (t AND 0xFF)"

definition ET_REL :: u16 where "ET_REL = 1"
definition ET_EXEC :: u16 where "ET_EXEC = 2"
definition ET_DYN :: u16 where "ET_DYN = 3"
definition SHT_RELA :: u32 where "SHT_RELA = 4"
definition SHT_REL :: u32 where "SHT_REL = 9"
definition PT_LOAD :: u32 where "PT_LOAD = 1"
definition PT_DYNAMIC :: u32 where "PT_DYNAMIC = 2"
definition DT_RELA :: u32 where "DT_RELA = 7"
definition DT_RELASZ :: u32 where "DT_RELASZ = 8"
definition DT_REL :: u32 where "DT_REL = 17"
definition DT_RELSZ :: u32 where "DT_RELSZ = 18"

record Elf32_Ehdr =
  e_ident :: "u8 list"
  e_type :: u32
  e_phoff :: u32
  e_shoff :: u32
  e_phentsize :: u32
  e_phnum :: u32
  e_shentsize :: u32
  e_shnum :: u32

definition Ehdr_of :: "bool \<Rightarrow> u8 list \<Rightarrow> Elf32_Ehdr" where
  "Ehdr_of le bs =
     \<lparr>e_ident = take 16 bs, e_type = struct_field le bs 16 2, e_phoff = struct_field le bs 28 4,
      e_shoff = struct_field le bs 32 4, e_phentsize = struct_field le bs 42 2,
      e_phnum = struct_field le bs 44 2, e_shentsize = struct_field le bs 46 2,
      e_shnum = struct_field le bs 48 2\<rparr>"

record Elf32_Shdr =
  sh_type :: u32
  sh_offset :: u32
  sh_size :: u32

definition Shdr_of :: "bool \<Rightarrow> u8 list \<Rightarrow> Elf32_Shdr" where
  "Shdr_of le bs =
     \<lparr>sh_type = struct_field le bs 4 4, sh_offset = struct_field le bs 16 4, sh_size = struct_field le bs 20 4\<rparr>"

record Elf32_Phdr =
  p_type :: u32
  p_offset :: u32
  p_vaddr :: u32
  p_filesz :: u32

definition Phdr_of :: "bool \<Rightarrow> u8 list \<Rightarrow> Elf32_Phdr" where
  "Phdr_of le bs =
     \<lparr>p_type = struct_field le bs 0 4, p_offset = struct_field le bs 4 4, p_vaddr = struct_field le bs 8 4,
      p_filesz = struct_field le bs 16 4\<rparr>"

subsection \<open>The file\<close>

record elf_file =
  file_bytes :: "u8 list"
  file_pos :: nat

definition lseek :: "nat \<Rightarrow> elf_file \<Rightarrow> elf_file" where
  "lseek p fd = fd\<lparr>file_pos := p\<rparr>"

definition read_file :: "nat \<Rightarrow> elf_file \<Rightarrow> u8 list \<times> elf_file" where
  "read_file n fd =
     (let bs = take n (drop (file_pos fd) (file_bytes fd)) in (bs, fd\<lparr>file_pos := file_pos fd + length bs\<rparr>))"

definition write_file :: "u8 list \<Rightarrow> elf_file \<Rightarrow> elf_file" where
  "write_file bs fd =
     fd\<lparr>file_bytes := take (file_pos fd) (file_bytes fd) @ bs @ drop (file_pos fd + length bs) (file_bytes fd),
        file_pos := file_pos fd + length bs\<rparr>"

subsection \<open>Rewriting the relocations of a section\<close>

datatype patch_error = Cannot_read_relocation nat | Unrecognized_code u32 nat

text \<open>
  A \<open>Rel\<close> has 8 bytes and a \<open>Rela\<close> 12; in both, \<open>r_info\<close> is the word at 4. The entry is read into
  the struct, the new \<open>r_info\<close> stored there, and the struct written back.
\<close>

fun patch_entries ::
  "bool \<Rightarrow> bool \<Rightarrow> hash_table \<Rightarrow> nat \<Rightarrow> nat \<Rightarrow> nat \<Rightarrow> elf_file \<Rightarrow> patch_error option \<times> elf_file" where
  "patch_entries le m ht entry_size 0 i fd = (None, fd)"
| "patch_entries le m ht entry_size (Suc n) i fd =
     (case read_file entry_size fd of (rel, fd) \<Rightarrow>
        if length rel \<noteq> entry_size then (Some (Cannot_read_relocation i), fd)
        else
          let r_info = struct_field le rel 4 4;
              old_code = ELF32_R_TYPE (convert_endian le 4 r_info m);
              s = ELF32_R_SYM (convert_endian le 4 r_info m) in
          case hash_get_value ht old_code of
            None \<Rightarrow> (Some (Unrecognized_code old_code i), fd)
          | Some new_code \<Rightarrow>
              (let r_info = convert_endian le 4 (ELF32_R_INFO s new_code) m;
                   rel = take 4 rel @ word_bytes le r_info @ drop 8 rel;
                   fd = lseek (file_pos fd - entry_size) fd in
               patch_entries le m ht entry_size n (i + 1) (write_file rel fd)))"

definition rel_entry_size :: "u32 \<Rightarrow> nat" where
  "rel_entry_size rel_type = (if rel_type = DT_REL then 8 else 12)"

definition patch_relocation_section ::
  "bool \<Rightarrow> bool \<Rightarrow> hash_table \<Rightarrow> u32 \<Rightarrow> u32 \<Rightarrow> elf_file \<Rightarrow> patch_error option \<times> elf_file" where
  "patch_relocation_section le m ht n_bytes rel_type fd =
     (let entry_size = rel_entry_size rel_type; total = unat n_bytes div entry_size
      in patch_entries le m ht entry_size total 0 fd)"

datatype elf_error =
    Cannot_open
  | Not_an_object_file
  | Not_dynamic
  | No_program_headers
  | Cannot_read_program_header
  | Cannot_read_dynamic_segment
  | No_dynamic_relocations
  | Dynamic_relocations_not_found
  | Dynamic_relocations_failed patch_error
  | No_dynamic_segment
  | Cannot_read_section_header
  | Section_failed nat patch_error

subsection \<open>Files with section headers\<close>

text \<open>\<open>n\<close> headers are left and \<open>i\<close> is the next; \<open>sections_patched\<close> is a \<open>char\<close>.\<close>

fun patch_sections ::
  "bool \<Rightarrow> bool \<Rightarrow> hash_table \<Rightarrow> u32 \<Rightarrow> u16 \<Rightarrow> nat \<Rightarrow> nat \<Rightarrow> u8 \<Rightarrow> elf_file \<Rightarrow> (elf_error + u8) \<times> elf_file" where
  "patch_sections le m ht shoff shsize 0 i sections_patched fd = (Inr sections_patched, fd)"
| "patch_sections le m ht shoff shsize (Suc n) i sections_patched fd =
     (case read_file 40 (lseek (unat (shoff + of_short shsize * of_nat i)) fd) of (bs, fd) \<Rightarrow>
        if length bs \<noteq> 40 then (Inl Cannot_read_section_header, fd)
        else
          let shdr = Shdr_of le bs; shtype = convert_endian le 4 (sh_type shdr) m in
          if shtype = SHT_REL \<or> shtype = SHT_RELA
          then
            let rel_type = (if shtype = SHT_REL then DT_REL else DT_RELA);
                rel_size = convert_endian le 4 (sh_size shdr) m;
                fd = lseek (unat (convert_endian le 4 (sh_offset shdr) m)) fd in
            case patch_relocation_section le m ht rel_size rel_type fd of
              (Some e, fd) \<Rightarrow> (Inl (Section_failed i e), fd)
            | (None, fd) \<Rightarrow> patch_sections le m ht shoff shsize n (i + 1) (sections_patched + 1) fd
          else patch_sections le m ht shoff shsize n (i + 1) sections_patched fd)"

subsection \<open>Files without section headers\<close>

text \<open>One entry of the dynamic segment: the switch on \<open>d_tag\<close>.\<close>

definition dynamic_entry :: "bool \<Rightarrow> bool \<Rightarrow> u8 list \<Rightarrow> nat \<Rightarrow> u32 \<times> u32 \<times> u32 \<Rightarrow> u32 \<times> u32 \<times> u32" where
  "dynamic_entry le m buffer j = (\<lambda>(rel_type, rel_addr, rel_size).
     let d_tag = convert_endian le 4 (struct_field le buffer (8 * j) 4) m;
         d_un = convert_endian le 4 (struct_field le buffer (8 * j + 4) 4) m in
     if d_tag = DT_REL \<or> d_tag = DT_RELA then (d_tag, d_un, rel_size)
     else if d_tag = DT_RELSZ \<or> d_tag = DT_RELASZ then (rel_type, rel_addr, d_un)
     else (rel_type, rel_addr, rel_size))"

definition scan_dynamic :: "bool \<Rightarrow> bool \<Rightarrow> u8 list \<Rightarrow> u32 \<times> u32 \<times> u32" where
  "scan_dynamic le m buffer = fold (dynamic_entry le m buffer) [0..<length buffer div 8] (0, 0, 0)"

text \<open>
  The loop over \<open>j\<close> that looks for the segment with the relocations. The header it reads is at
  \<open>phoff + phentsize * i\<close>, with the index of the outer loop: \<open>at\<close> does not change.
\<close>

fun find_rel_offset ::
  "bool \<Rightarrow> bool \<Rightarrow> nat \<Rightarrow> u32 \<Rightarrow> u32 \<Rightarrow> nat \<Rightarrow> u32 \<Rightarrow> elf_file \<Rightarrow> (elf_error + u32) \<times> elf_file" where
  "find_rel_offset le m at rel_addr rel_size 0 rel_offset fd = (Inr rel_offset, fd)"
| "find_rel_offset le m at rel_addr rel_size (Suc n) rel_offset fd =
     (case read_file 32 (lseek at fd) of (bs, fd) \<Rightarrow>
        if length bs \<noteq> 32 then (Inl Cannot_read_program_header, fd)
        else
          let phdr = Phdr_of le bs;
              rel_offset =
                (if convert_endian le 4 (p_type phdr) m = PT_LOAD
                 then let vaddr = convert_endian le 4 (p_vaddr phdr) m;
                          filesz = convert_endian le 4 (p_filesz phdr) m;
                          offset = convert_endian le 4 (p_offset phdr) m in
                      if vaddr \<le> rel_addr \<and> rel_addr + rel_size \<le> vaddr + filesz
                      then offset + (rel_addr - vaddr) else rel_offset
                 else rel_offset) in
          find_rel_offset le m at rel_addr rel_size n rel_offset fd)"

text \<open>The body of the outer loop for a header of type \<open>PT_DYNAMIC\<close>.\<close>

definition patch_dynamic ::
  "bool \<Rightarrow> bool \<Rightarrow> hash_table \<Rightarrow> nat \<Rightarrow> nat \<Rightarrow> Elf32_Phdr \<Rightarrow> elf_file \<Rightarrow> (elf_error + bool) \<times> elf_file" where
  "patch_dynamic le m ht phnum at phdr fd =
     (let filesz = unat (convert_endian le 4 (p_filesz phdr) m);
          offset = unat (convert_endian le 4 (p_offset phdr) m) in
      case read_file filesz (lseek offset fd) of (buffer, fd) \<Rightarrow>
        if length buffer \<noteq> filesz then (Inl Cannot_read_dynamic_segment, fd)
        else case scan_dynamic le m buffer of (rel_type, rel_addr, rel_size) \<Rightarrow>
          if rel_type = 0 \<or> rel_addr = 0 \<or> rel_size = 0 then (Inl No_dynamic_relocations, fd)
          else case find_rel_offset le m at rel_addr rel_size phnum 0 fd of
            (Inl e, fd) \<Rightarrow> (Inl e, fd)
          | (Inr rel_offset, fd) \<Rightarrow>
              if rel_offset = 0 then (Inl Dynamic_relocations_not_found, fd)
              else case patch_relocation_section le m ht rel_size rel_type (lseek (unat rel_offset) fd) of
                (Some e, fd) \<Rightarrow> (Inl (Dynamic_relocations_failed e), fd)
              | (None, fd) \<Rightarrow> (Inr True, fd))"

fun scan_segments ::
  "bool \<Rightarrow> bool \<Rightarrow> hash_table \<Rightarrow> u32 \<Rightarrow> u16 \<Rightarrow> nat \<Rightarrow> nat \<Rightarrow> nat \<Rightarrow> bool \<Rightarrow> elf_file \<Rightarrow> (elf_error + bool) \<times> elf_file" where
  "scan_segments le m ht phoff phentsize phnum 0 i dynamic_found fd = (Inr dynamic_found, fd)"
| "scan_segments le m ht phoff phentsize phnum (Suc n) i dynamic_found fd =
     (if dynamic_found then (Inr dynamic_found, fd)
      else
        let at = unat (phoff + of_short phentsize * of_nat i) in
        case read_file 32 (lseek at fd) of (bs, fd) \<Rightarrow>
          if length bs \<noteq> 32 then (Inl Cannot_read_program_header, fd)
          else
            let phdr = Phdr_of le bs in
            if convert_endian le 4 (p_type phdr) m = PT_DYNAMIC
            then case patch_dynamic le m ht phnum at phdr fd of
                (Inl e, fd) \<Rightarrow> (Inl e, fd)
              | (Inr found, fd) \<Rightarrow> scan_segments le m ht phoff phentsize phnum n (i + 1) found fd
            else scan_segments le m ht phoff phentsize phnum n (i + 1) dynamic_found fd)"

subsection \<open>The whole file\<close>

definition ELFMAG :: "u8 list" where "ELFMAG = [0x7F, 0x45, 0x4C, 0x46]"

datatype elf_report = Not_changed | Patched_dynamic | Patched_sections u8

datatype elf_outcome = Exits | Fails elf_error | Succeeds elf_report

text \<open>
  The byte order of the file and of the host. A file of unknown order leaves the flag as the test
  of the host set it: true on a big-endian host.
\<close>

definition match_endian :: "bool \<Rightarrow> Elf32_Ehdr \<Rightarrow> bool" where
  "match_endian le ehdr =
     (let host = \<not> le; data = e_ident ehdr ! 5 in
      if data = 2 then \<not> (host \<noteq> True) else if data = 1 then \<not> (host \<noteq> False) else host)"

definition process_elf :: "bool \<Rightarrow> hash_table \<Rightarrow> u8 list option \<Rightarrow> elf_outcome \<times> u8 list option" where
  "process_elf le ht file =
     (case file of
        None \<Rightarrow> (Fails Cannot_open, None)
      | Some bytes \<Rightarrow>
          (case read_file 52 \<lparr>file_bytes = bytes, file_pos = 0\<rparr> of (bs, fd) \<Rightarrow>
             let ehdr = Ehdr_of le bs in
             if length bs \<noteq> 52 \<or> take 4 (e_ident ehdr) \<noteq> ELFMAG then (Exits, Some (file_bytes fd))
             else
               let m = match_endian le ehdr;
                   type = to_short (convert_endian le 2 (e_type ehdr) m);
                   shoff = convert_endian le 4 (e_shoff ehdr) m;
                   shsize = to_short (convert_endian le 2 (e_shentsize ehdr) m) in
               if type \<noteq> ET_EXEC \<and> type \<noteq> ET_REL \<and> type \<noteq> ET_DYN
               then (Fails Not_an_object_file, Some (file_bytes fd))
               else if shoff = 0 \<or> shsize = 0
               then
                 let phnum = to_short (convert_endian le 2 (e_phnum ehdr) m);
                     phentsize = to_short (convert_endian le 2 (e_phentsize ehdr) m);
                     phoff = convert_endian le 4 (e_phoff ehdr) m;
                     n = unat (of_short phnum) in
                 if type \<noteq> ET_DYN then (Fails Not_dynamic, Some (file_bytes fd))
                 else if phnum = 0 \<or> phoff = 0 then (Fails No_program_headers, Some (file_bytes fd))
                 else case scan_segments le m ht phoff phentsize n n 0 False fd of
                     (Inl e, fd) \<Rightarrow> (Fails e, Some (file_bytes fd))
                   | (Inr dynamic_found, fd) \<Rightarrow>
                       (if dynamic_found then Succeeds Patched_dynamic else Fails No_dynamic_segment,
                        Some (file_bytes fd))
               else
                 case patch_sections le m ht shoff shsize
                        (unat (convert_endian le 2 (e_shnum ehdr) m)) 0 0 fd of
                   (Inl e, fd) \<Rightarrow> (Fails e, Some (file_bytes fd))
                 | (Inr sections_patched, fd) \<Rightarrow>
                     (Succeeds (if sections_patched = 0 then Not_changed else Patched_sections sections_patched),
                      Some (file_bytes fd))))"

subsection \<open>The program\<close>

text \<open>Whether the map is read in reverse; \<open>None\<close> is the error return after the usage message.\<close>

definition process_parameters :: "string list \<Rightarrow> bool option" where
  "process_parameters argv =
     (if length argv \<noteq> 4 then None
      else if strcmp (argv ! 1) ''--map-file'' \<noteq> 0 \<and> strcmp (argv ! 1) ''-m'' \<noteq> 0
      then if strcmp (argv ! 1) ''-r'' = 0 then Some True else None
      else Some False)"

text \<open>Whether the program ends with \<open>EXIT_SUCCESS\<close>, and the ELF file after it.\<close>

definition acrelconvert_main ::
  "bool \<Rightarrow> string list \<Rightarrow> string option \<Rightarrow> u8 list option \<Rightarrow> (bool \<times> u8 list option) run" where
  "acrelconvert_main le argv map_file elf =
     (case process_parameters argv of
        None \<Rightarrow> Ret (False, elf)
      | Some reverse_mode \<Rightarrow>
          (case map_file of
             None \<Rightarrow> Ret (False, elf)
           | Some text \<Rightarrow>
               run_then (process_map_file text hash_initialize reverse_mode) (\<lambda>r.
                 case r of
                   Inl e \<Rightarrow> Ret (False, elf)
                 | Inr ht \<Rightarrow>
                     (case process_elf le ht elf of
                        (Succeeds _, elf) \<Rightarrow> Ret (True, elf)
                      | (_, elf) \<Rightarrow> Ret (False, elf)))))"

end
