(* ===== verification/RelMapCorrect.thy ===== *)
theory RelMapCorrect
  imports RelConvert
begin

text \<open>
  The map file of the relocation converter is read back as it is written: comments, blanks and the
  statements \<open>num = num\<close>, in either direction; and what happens on a number of twenty digits.
\<close>

subsection \<open>Writing a map file\<close>

datatype map_item =
    Remark string
  | Blank_line string
  | Entry string u32 string string u32

definition blank :: "char \<Rightarrow> bool" where
  "blank c \<longleftrightarrow> c = CHR '' '' \<or> c = CHR 0x09"

fun item_ok :: "map_item \<Rightarrow> bool" where
  "item_ok (Remark s) \<longleftrightarrow> list_all (\<lambda>c. c \<noteq> eol \<and> c \<noteq> nul) s"
| "item_ok (Blank_line b) \<longleftrightarrow> list_all blank b"
| "item_ok (Entry b1 k b2 b3 v) \<longleftrightarrow> list_all blank b1 \<and> list_all blank b2 \<and> list_all blank b3"

fun item_text :: "map_item \<Rightarrow> string" where
  "item_text (Remark s) = CHR ''#'' # s @ [eol]"
| "item_text (Blank_line b) = b @ [eol]"
| "item_text (Entry b1 k b2 b3 v) =
     b1 @ dec_str (unat k) @ b2 @ ''='' @ b3 @ dec_str (unat v) @ [eol]"

fun item_codes :: "bool \<Rightarrow> map_item \<Rightarrow> (u32 \<times> u32) list" where
  "item_codes reverse_mode (Entry b1 k b2 b3 v) = [if reverse_mode then (v, k) else (k, v)]"
| "item_codes reverse_mode _ = []"

definition map_codes :: "bool \<Rightarrow> map_item list \<Rightarrow> (u32 \<times> u32) list" where
  "map_codes reverse_mode items = concat (map (item_codes reverse_mode) items)"

definition map_text :: "map_item list \<Rightarrow> string" where
  "map_text items = concat (map item_text items)"

subsection \<open>Reading it\<close>

lemma request_read_Cons [simp]: "request_read (c # s) = (c, s)"
  by (simp add: request_read_def)

lemma skip_line_run:
  "list_all (\<lambda>c. c \<noteq> eol \<and> c \<noteq> nul) p \<Longrightarrow> c # s = p @ eol # t \<Longrightarrow> skip_line c s = (eol, t)"
proof (induction p arbitrary: c s)
  case Nil
  then show ?case by (subst skip_line.simps) simp
next
  case (Cons d p)
  obtain e u where eu: "p @ eol # t = e # u" by (cases "p @ eol # t") auto
  have "skip_line e u = (eol, t)" using Cons eu by simp
  with Cons.prems eu show ?case by (subst skip_line.simps) simp
qed

lemma skip_blanks_run:
  "list_all blank p \<Longrightarrow> \<not> blank d \<Longrightarrow> c # s = p @ d # t \<Longrightarrow> skip_blanks c s = (d, t)"
proof (induction p arbitrary: c s)
  case Nil
  then show ?case by (subst skip_blanks.simps) (simp add: blank_def)
next
  case (Cons b p)
  obtain e u where eu: "p @ d # t = e # u" by (cases "p @ d # t") auto
  have "skip_blanks e u = (d, t)" using Cons eu by simp
  with Cons.prems eu show ?case by (subst skip_blanks.simps) (simp add: blank_def)
qed

lemma scan_number_run:
  "list_all isdigit p \<Longrightarrow> \<not> isdigit d \<Longrightarrow> c # s = p @ d # t \<Longrightarrow> i + length p < 20 \<Longrightarrow>
   scan_number i ds c s = Ret (ds @ p, d, t)"
proof (induction p arbitrary: i ds c s)
  case Nil
  then show ?case by (subst scan_number.simps) simp
next
  case (Cons b p)
  obtain e u where eu: "p @ d # t = e # u" by (cases "p @ d # t") auto
  have "scan_number (i + 1) (ds @ [b]) e u = Ret ((ds @ [b]) @ p, d, t)"
    using Cons eu by (intro Cons.IH) auto
  with Cons.prems eu show ?case by (subst scan_number.simps) simp
qed

text \<open>The digit that does not fit is stored behind the buffer.\<close>

lemma scan_number_overrun:
  "list_all isdigit p \<Longrightarrow> c # s = p @ t \<Longrightarrow> 20 \<le> i + length p \<Longrightarrow> i < 20 \<Longrightarrow> scan_number i ds c s = Undef"
proof (induction p arbitrary: i ds c s)
  case (Cons b p)
  show ?case
  proof (cases "20 \<le> i + 1")
    case False
    obtain e u where eu: "p @ t = e # u"
      using Cons.prems False by (cases p) auto
    have "scan_number (i + 1) (ds @ [b]) e u = Undef"
      using Cons False eu by (intro Cons.IH) auto
    with Cons.prems eu show ?thesis by (subst scan_number.simps) simp
  next
    case True
    with Cons.prems show ?thesis by (subst scan_number.simps) simp
  qed
qed simp

lemma length_dec_u32: "length (dec_str (unat (k :: u32))) < 20"
proof -
  have "unat k < 10 ^ Suc 18" using unsigned_less [of k, where 'a = nat] by (rule less_trans) simp
  then show ?thesis using dec_str_length [of "unat k" 18] by simp
qed

lemma dec_digits [simp]: "list_all isdigit (dec_str n)"
  by (simp add: list_all_iff dec_str_isdigit)

lemma strtol_u32:
  assumes "\<not> isdigit d" "d \<noteq> CHR ''x''" "d \<noteq> CHR ''X''"
  shows "strtol 10 (dec_str (unat (k :: u32)) @ [d]) = (int (unat k), [d])"
proof (rule strtol_dec_str)
  show "unat k < 2 ^ 63" using unsigned_less [of k, where 'a = nat] by (rule less_trans) simp
qed (use assms in auto)

lemma char_facts [simp]:
  "\<not> isdigit eol" "\<not> isdigit (CHR ''='')" "\<not> blank eol" "\<not> blank (CHR ''='')"
  "eol \<noteq> nul" "eol \<noteq> CHR ''x''" "eol \<noteq> CHR ''X''" "eol \<noteq> CHR ''=''" "eol \<noteq> CHR ''#''"
  "CHR ''='' \<noteq> eol" "CHR ''='' \<noteq> nul" "CHR ''#'' \<noteq> nul" "CHR ''#'' \<noteq> eol"
  by (auto simp: isdigit_def eol_def nul_def blank_def less_eq_char_def)

lemma digit_facts:
  "isdigit c \<Longrightarrow> \<not> blank c \<and> c \<noteq> eol \<and> c \<noteq> nul \<and> c \<noteq> CHR ''#'' \<and> c \<noteq> CHR ''=''"
  by (auto simp: isdigit_def eol_def nul_def blank_def less_eq_char_def)

lemma blank_facts:
  "blank c \<Longrightarrow> \<not> isdigit c \<and> c \<noteq> eol \<and> c \<noteq> nul \<and> c \<noteq> CHR ''#'' \<and> c \<noteq> CHR ''x'' \<and> c \<noteq> CHR ''X''"
  by (auto simp: isdigit_def eol_def nul_def blank_def less_eq_char_def)

lemma map_statement_text:
  assumes b: "list_all blank b2" "list_all blank b3"
    and cs: "c # s = dec_str (unat k) @ b2 @ ''='' @ b3 @ dec_str (unat v) @ eol # t"
  shows "map_statement line c s = Ret (Inr (k, v, eol, t))"
proof -
  let ?r3 = "dec_str (unat v) @ eol # t"
  obtain d u where du: "b2 @ CHR ''='' # b3 @ ?r3 = d # u" by (cases "b2 @ CHR ''='' # b3 @ ?r3") auto
  have d: "\<not> isdigit d" "d \<noteq> eol" "d \<noteq> nul" "d \<noteq> CHR ''x''" "d \<noteq> CHR ''X''"
    using du b(1) blank_facts by (cases b2; force)+
  obtain e w where ew: "b3 @ ?r3 = e # w" by (cases "b3 @ ?r3") auto
  obtain g x where gx: "?r3 = g # x" "isdigit g" using dec_str_Cons [of "unat v"] by auto
  have 1: "scan_number 0 [] c s = Ret ([] @ dec_str (unat k), d, u)"
    using d cs du length_dec_u32 by (intro scan_number_run) auto
  have 2: "skip_blanks d u = (CHR ''='', b3 @ ?r3)"
    using b(1) du [symmetric] by (intro skip_blanks_run) auto
  have 3: "skip_blanks e w = (g, x)"
    using b(2) ew gx digit_facts by (intro skip_blanks_run [of b3]) auto
  have 4: "scan_number 0 [] g x = Ret ([] @ dec_str (unat v), eol, t)"
    using gx length_dec_u32 by (intro scan_number_run) auto
  have "request_read (b3 @ ?r3) = (e, w)" by (simp add: ew)
  with 1 2 3 4 d digit_facts [OF gx(2)] gx(2) strtol_u32 [OF d(1,4,5), of k] strtol_u32 [of eol v]
  show ?thesis by (simp add: map_statement_def Let_def)
qed

lemma map_file_line_text:
  assumes "item_ok it"
  shows "map_file_line rv ht line (item_text it @ rest) =
     Ret (Inr (codes.add_all ht (item_codes rv it), eol, rest))"
proof (cases it)
  case (Remark s)
  have "skip_line (CHR ''#'') (s @ eol # rest) = (eol, rest)"
    using assms Remark by (intro skip_line_run [of "CHR ''#'' # s"]) auto
  with Remark show ?thesis by (simp add: map_file_line_def codes.add_all_def)
next
  case (Blank_line b)
  obtain c s where cs: "b @ eol # rest = c # s" by (cases "b @ eol # rest") auto
  have "skip_blanks c s = (eol, rest)"
    using assms Blank_line cs [symmetric] by (intro skip_blanks_run) auto
  moreover have "c \<noteq> CHR ''#''" using assms Blank_line cs blank_facts by (cases b) auto
  ultimately show ?thesis by (simp add: map_file_line_def codes.add_all_def Blank_line cs)
next
  case (Entry b1 k b2 b3 v)
  let ?r = "b2 @ ''='' @ b3 @ dec_str (unat v) @ eol # rest"
  obtain d t where dt: "dec_str (unat k) @ ?r = d # t" "isdigit d" using dec_str_Cons [of "unat k"] by auto
  obtain c s where cs: "b1 @ d # t = c # s" by (cases "b1 @ d # t") auto
  have sk: "skip_blanks c s = (d, t)"
    using assms Entry cs [symmetric] digit_facts [OF dt(2)] by (intro skip_blanks_run) auto
  have "c \<noteq> CHR ''#''"
    using assms Entry cs blank_facts digit_facts [OF dt(2)] by (cases b1) auto
  moreover have "map_statement line d t = Ret (Inr (k, v, eol, rest))"
    using assms Entry dt(1) by (intro map_statement_text [of b2 b3]) auto
  moreover have "item_text it @ rest = c # s" using Entry cs dt(1) by simp
  ultimately show ?thesis
    using digit_facts [OF dt(2)] dt(2) by (simp add: map_file_line_def codes.add_all_def Entry sk)
qed

lemma skip_blanks_nul: "skip_blanks nul s = (nul, s)"
  by (subst skip_blanks.simps) (simp add: nul_def)

lemma process_map_loop_text:
  "list_all item_ok items \<Longrightarrow> c \<noteq> nul \<Longrightarrow>
   process_map_loop rv ht line c (map_text items) = Ret (Inr (codes.add_all ht (map_codes rv items)))"
proof (induction items arbitrary: ht line c)
  case Nil
  have 1: "process_map_loop rv ht l nul [] = Ret (Inr ht)" for l
    by (subst process_map_loop.simps) simp
  have "map_file_line rv ht l [] = Ret (Inr (ht, nul, []))" for l
    by (simp add: map_file_line_def request_read_def skip_blanks_nul) (simp add: nul_def)
  with Nil.prems 1 show ?case
    by (subst process_map_loop.simps) (simp add: map_text_def map_codes_def codes.add_all_def)
next
  case (Cons it items)
  have 1: "map_file_line rv ht (line + 1) (map_text (it # items)) =
      Ret (Inr (codes.add_all ht (item_codes rv it), eol, map_text items))"
    using Cons.prems map_file_line_text [of it rv ht "line + 1" "map_text items"] by (simp add: map_text_def)
  have "process_map_loop rv (codes.add_all ht (item_codes rv it)) (line + 1) eol (map_text items) =
      Ret (Inr (codes.add_all (codes.add_all ht (item_codes rv it)) (map_codes rv items)))"
    using Cons.prems by (intro Cons.IH) auto
  moreover have "codes.add_all (codes.add_all ht (item_codes rv it)) (map_codes rv items) =
      codes.add_all ht (map_codes rv (it # items))"
    by (simp add: map_codes_def codes.add_all_def)
  ultimately show ?case
    using Cons.prems(2) by (subst process_map_loop.simps) (simp add: 1)
qed

lemma process_map_file_text:
  "list_all item_ok items \<Longrightarrow>
   process_map_file (map_text items) ht rv = Ret (Inr (codes.add_all ht (map_codes rv items)))"
  by (simp add: process_map_file_def process_map_loop_text nul_def)

text \<open>A map file gives the map it was written from. With any comments, blank lines and blanks
  between the tokens, \<open>process_map_file\<close> on the empty table succeeds, and a lookup gives the code
  of the last statement for the key: the first number's second, or in reverse mode the second
  number's first.\<close>

theorem map_file_roundtrip:
  assumes "list_all item_ok items"
  shows "\<exists>ht. process_map_file (map_text items) hash_initialize rv = Ret (Inr ht) \<and>
     (\<forall>k. hash_get_value ht k = map_of (rev (map_codes rv items)) k)"
  using assms by (simp add: process_map_file_text codes.get_add_all_new)

theorem map_file_roundtrip_witness:
  "map_text [Remark ''a'', Entry '' '' 1 '' '' [] 20] = ''#a'' @ [eol] @ '' 1 =20'' @ [eol] \<and>
   (\<exists>ht. process_map_file (map_text [Remark ''a'', Entry '' '' 1 '' '' [] 20]) hash_initialize True = Ret (Inr ht) \<and>
     (\<forall>k. hash_get_value ht k = map_of (rev (map_codes True [Remark ''a'', Entry '' '' 1 '' '' [] 20])) k)) \<and>
   map_codes True [Remark ''a'', Entry '' '' 1 '' '' [] 20] = [(20, 1)]"
proof (intro conjI)
  show "\<exists>ht. process_map_file (map_text [Remark ''a'', Entry '' '' 1 '' '' [] 20]) hash_initialize True = Ret (Inr ht) \<and>
     (\<forall>k. hash_get_value ht k = map_of (rev (map_codes True [Remark ''a'', Entry '' '' 1 '' '' [] 20])) k)"
    by (rule map_file_roundtrip) (simp add: blank_def eol_def nul_def)
  show "map_text [Remark ''a'', Entry '' '' 1 '' '' [] 20] = ''#a'' @ [eol] @ '' 1 =20'' @ [eol]"
    by (simp add: map_text_def dec_str.simps digit_chr_def) code_simp
qed (simp add: map_codes_def)

text \<open>
  The guard against long numbers comes too late: twenty digits and more are not reported as
  \<open>number too large\<close>, the byte behind the buffer is written first.
\<close>

theorem long_code_undefined:
  assumes "list_all isdigit ds" "20 \<le> length ds"
  shows "process_map_file (ds @ s) ht rv = Undef"
proof -
  obtain c t where ct: "ds = c # t" "isdigit c" using assms by (cases ds) auto
  have "scan_number 0 [] c (t @ s) = Undef"
    using assms ct by (intro scan_number_overrun [of ds]) auto
  moreover have "skip_blanks c (t @ s) = (c, t @ s)"
    using digit_facts [OF ct(2)] by (intro skip_blanks_run [of "[]"]) auto
  ultimately have "map_file_line rv ht 1 (ds @ s) = Undef"
    using ct digit_facts [OF ct(2)] by (simp add: map_file_line_def map_statement_def)
  then show ?thesis
    unfolding process_map_file_def by (subst process_map_loop.simps) (simp add: nul_def)
qed

end
