(* ===== verification/ElfConvertCorrect.thy ===== *)
theory ElfConvertCorrect
  imports ElfConvert RelMapCorrect
begin

text \<open>
  What the relocation converter does to a file, stated over the bytes of the file in its own byte
  order: the code of each relocation is one byte, and the converter replaces these bytes and no
  others. With the round trip of the map file this gives the whole program: reading the map in
  reverse restores the file. On a big-endian host and without section headers it always fails.
\<close>

subsection \<open>Words of the file\<close>

definition file_word :: "bool \<Rightarrow> nat \<Rightarrow> u8 list \<Rightarrow> nat \<Rightarrow> u32" where
  "file_word msb n c off = bytes_value ((if msb then rev else id) (take n (drop off c)))"

lemma list_of_4:
  assumes "length bs = 4"
  obtains a b c d where "bs = [a, b, c, d]"
  using assms by (auto simp: numeral_eq_Suc length_Suc_conv)

lemma list_of_2:
  assumes "length bs = 2"
  obtains a b where "bs = [a, b]"
  using assms by (auto simp: numeral_eq_Suc length_Suc_conv)

lemma no_bit_u8 [simp]: "8 \<le> n \<Longrightarrow> \<not> bit (b :: u8) n"
  by (auto dest: bit_imp_le_length)

lemma word_bytes_value [simp]: "word_bytes True (bytes_value [a, b, c, d]) = [a, b, c, d]"
proof -
  let ?w = "bytes_value [a, b, c, d]"
  have "ucast ?w = a" "ucast (drop_bit 8 ?w) = b" "ucast (drop_bit 16 ?w) = c" "ucast (drop_bit 24 ?w) = d"
    by (auto intro!: bit_word_eqI simp: bit_simps)
  then show ?thesis by (simp add: word_bytes_def Let_def)
qed

lemma word_bytes_half: "word_bytes True (bytes_value [a, b]) = [a, b, 0, 0]"
proof -
  have "bytes_value [a, b] = bytes_value [a, b, 0, 0]" by simp
  then show ?thesis by (metis word_bytes_value)
qed

lemma convert_word:
  assumes "length bs = 4"
  shows "convert_endian True 4 (bytes_value bs) m = bytes_value (if m then bs else rev bs)"
  using assms
proof (rule list_of_4)
  fix a b c d assume "bs = [a, b, c, d]"
  moreover have "convert_loop 4 0 [a, b, c, d] = bytes_value [d, c, b, a]" by (simp add: numeral_eq_Suc)
  ultimately show ?thesis by (simp only: convert_endian_def word_bytes_value rev.simps append.simps) simp
qed

lemma convert_half:
  assumes "length bs = 2"
  shows "convert_endian True 2 (bytes_value bs) m = bytes_value (if m then bs else rev bs)"
  using assms
proof (rule list_of_2)
  fix a b assume "bs = [a, b]"
  moreover have "convert_loop 2 0 [a, b, 0, 0] = bytes_value [b, a]" by (simp add: numeral_eq_Suc)
  ultimately show ?thesis by (simp only: convert_endian_def word_bytes_half rev.simps append.simps) simp
qed

lemma convert_field:
  assumes "off + 4 \<le> length bs"
  shows "convert_endian True 4 (struct_field True bs off 4) m = file_word (\<not> m) 4 bs off"
  using assms convert_word [of "take 4 (drop off bs)" m]
  by (simp add: struct_field_def host_word_def file_word_def)

lemma convert_half_field:
  assumes "off + 2 \<le> length bs"
  shows "convert_endian True 2 (struct_field True bs off 2) m = file_word (\<not> m) 2 bs off"
  using assms convert_half [of "take 2 (drop off bs)" m]
  by (simp add: struct_field_def host_word_def file_word_def)

lemma file_word_window:
  "off + n \<le> k \<Longrightarrow> file_word msb n (take k (drop p c)) off = file_word msb n c (p + off)"
  by (simp add: file_word_def take_drop drop_drop min_def add.commute add.left_commute take_take)

subsection \<open>One relocation\<close>

definition recode :: "hash_table \<Rightarrow> u8 \<Rightarrow> u8" where
  "recode ht b = ucast (the (hash_get_value ht (ucast b)))"

definition recode_at :: "hash_table \<Rightarrow> nat \<Rightarrow> u8 list \<Rightarrow> u8 list" where
  "recode_at ht p c = c[p := recode ht (c ! p)]"

definition known :: "hash_table \<Rightarrow> u8 \<Rightarrow> bool" where
  "known ht b \<longleftrightarrow> hash_get_value ht (ucast b) \<noteq> None"

lemma length_recode_at [simp]: "length (recode_at ht p c) = length c"
  by (simp add: recode_at_def)

lemma low_byte: "(0xFF :: u32) = mask 8"
  by (simp add: mask_eq_exp_minus_1)

lemma type_of_bytes: "ELF32_R_TYPE (bytes_value (a # r)) = ucast a"
  unfolding ELF32_R_TYPE_def low_byte by (rule bit_word_eqI) (auto simp: bit_simps not_less dest: bit_imp_le_length)

lemma info_of_bytes:
  "ELF32_R_INFO (ELF32_R_SYM (bytes_value [a, b, c, d])) v = bytes_value [ucast v, b, c, d]"
proof -
  have "push_bit 8 s + (v AND 0xFF) = push_bit 8 s OR (v AND 0xFF)" for s :: u32
    unfolding low_byte by (rule disjunctive_add) (auto simp: bit_simps)
  then have "ELF32_R_INFO (ELF32_R_SYM (bytes_value [a, b, c, d])) v =
      push_bit 8 (drop_bit 8 (bytes_value [a, b, c, d])) OR (v AND 0xFF)"
    by (simp only: ELF32_R_INFO_def ELF32_R_SYM_def)
  also have "\<dots> = bytes_value [ucast v, b, c, d]"
    unfolding low_byte by (rule bit_word_eqI) (auto simp: bit_simps not_less)
  finally show ?thesis .
qed

text \<open>Where the code of the relocation at \<open>off\<close> is.\<close>

definition type_byte :: "bool \<Rightarrow> nat \<Rightarrow> nat" where
  "type_byte msb off = off + (if msb then 7 else 4)"

lemma recode_entry:
  assumes rel: "8 \<le> length rel" and m: "m = (\<not> msb)"
    and v: "hash_get_value ht (ucast (rel ! type_byte msb 0)) = Some v"
  defines "r_info \<equiv> struct_field True rel 4 4"
  shows "ELF32_R_TYPE (convert_endian True 4 r_info m) = ucast (rel ! type_byte msb 0)"
    and "take 4 rel @ word_bytes True (convert_endian True 4 (ELF32_R_INFO (ELF32_R_SYM (convert_endian True 4 r_info m)) v) m) @ drop 8 rel
      = recode_at ht (type_byte msb 0) rel"
proof -
  obtain a b c d where q: "take 4 (drop 4 rel) = [a, b, c, d]"
    using rel by (auto intro: list_of_4 [of "take 4 (drop 4 rel)"])
  have split: "rel = take 4 rel @ [a, b, c, d] @ drop 8 rel"
    by (metis append_take_drop_id drop_drop numeral_Bit0 q)
  have nth: "rel ! 4 = a" "rel ! 7 = d"
    using rel by (subst split, simp add: nth_append)+
  have upd: "rel[4 := x] = take 4 rel @ [x, b, c, d] @ drop 8 rel" "rel[7 := x] = take 4 rel @ [a, b, c, x] @ drop 8 rel" for x
    using rel by (subst split, simp add: list_update_append)+
  have 1: "convert_endian True 4 r_info m = bytes_value (if msb then [d, c, b, a] else [a, b, c, d])"
    using convert_word [of "[a, b, c, d]" m] by (simp only: r_info_def struct_field_def host_word_def q m) simp
  then show "ELF32_R_TYPE (convert_endian True 4 r_info m) = ucast (rel ! type_byte msb 0)"
    by (simp only: nth type_of_bytes type_byte_def split: if_split) (simp add: nth type_of_bytes del: bytes_value.simps)
  have "ELF32_R_INFO (ELF32_R_SYM (convert_endian True 4 r_info m)) v =
      bytes_value (if msb then [ucast v, c, b, a] else [ucast v, b, c, d])"
    using 1 by (simp add: info_of_bytes del: bytes_value.simps)
  then have "convert_endian True 4 (ELF32_R_INFO (ELF32_R_SYM (convert_endian True 4 r_info m)) v) m =
      bytes_value (if msb then [a, b, c, ucast v] else [ucast v, b, c, d])"
    using convert_word [of "[ucast v, c, b, a]" False] convert_word [of "[ucast v, b, c, d]" True] m
    by (simp del: bytes_value.simps)
  then show "take 4 rel @ word_bytes True (convert_endian True 4 (ELF32_R_INFO (ELF32_R_SYM (convert_endian True 4 r_info m)) v) m) @ drop 8 rel
      = recode_at ht (type_byte msb 0) rel"
    using v by (simp add: recode_at_def recode_def type_byte_def upd nth del: bytes_value.simps)
qed

text \<open>The relocations of a section, one after the other.\<close>

lemma patch_entries_recodes:
  assumes "8 \<le> es" "m = (\<not> msb)" "pos + es * n \<le> length c"
    and "\<forall>k < n. known ht (c ! type_byte msb (pos + es * k))"
  shows "patch_entries True m ht es n i \<lparr>file_bytes = c, file_pos = pos\<rparr> =
    (None, \<lparr>file_bytes = fold (recode_at ht) (map (\<lambda>k. type_byte msb (pos + es * k)) [0..<n]) c, file_pos = pos + es * n\<rparr>)"
  using assms(3,4)
proof (induction n arbitrary: pos c i)
  case (Suc n)
  define rel where "rel = take es (drop pos c)"
  have rel: "length rel = es" using Suc.prems(1) by (simp add: rel_def)
  have tb: "type_byte msb 0 < es" "type_byte msb (p + q) = p + type_byte msb q" for p q
    using assms(1) by (auto simp: type_byte_def)
  have at: "rel ! type_byte msb 0 = c ! type_byte msb pos"
    using tb(1) tb(2) [of pos 0] Suc.prems(1) by (simp add: rel_def)
  obtain v where v: "hash_get_value ht (ucast (rel ! type_byte msb 0)) = Some v"
    using Suc.prems(2) at by (fastforce simp: known_def)
  note entry = recode_entry [of rel m msb ht v, unfolded rel, OF assms(1,2) v]
  define c' where "c' = recode_at ht (type_byte msb pos) c"
  have new: "take pos c @ recode_at ht (type_byte msb 0) rel @ drop (pos + es) c = c'"
  proof -
    have "c = take pos c @ rel @ drop (pos + es) c"
      by (metis append_take_drop_id drop_drop rel_def add.commute)
    moreover have "length (take pos c) = pos" using Suc.prems(1) by simp
    ultimately have "c[type_byte msb pos := x] = take pos c @ rel[type_byte msb 0 := x] @ drop (pos + es) c" for x
      using tb(1) tb(2) [of pos 0] rel
      by (metis add.right_neutral add_diff_cancel_left' le_add1 linorder_not_le list_update_append)
    then show ?thesis by (simp add: c'_def recode_at_def at)
  qed
  have "c' ! type_byte msb (pos + es + es * k) = c ! type_byte msb (pos + es + es * k)" for k
    using assms(1) by (simp add: c'_def recode_at_def type_byte_def)
  then have "\<forall>k < n. known ht (c' ! type_byte msb (pos + es + es * k))"
    using Suc.prems(2) by (auto simp: algebra_simps dest: spec [of _ "Suc _"])
  moreover have "pos + es + es * n \<le> length c'" using Suc.prems(1) by (simp add: c'_def)
  ultimately have IH: "patch_entries True m ht es n (i + 1) \<lparr>file_bytes = c', file_pos = pos + es\<rparr> =
    (None, \<lparr>file_bytes = fold (recode_at ht) (map (\<lambda>k. type_byte msb (pos + es + es * k)) [0..<n]) c', file_pos = pos + es + es * n\<rparr>)"
    by (rule Suc.IH [rotated])
  have slots: "map (\<lambda>k. type_byte msb (pos + es * k)) [0..<Suc n] =
      type_byte msb pos # map (\<lambda>k. type_byte msb (pos + es + es * k)) [0..<n]"
    by (simp add: map_upt_Suc del: upt_Suc) (simp add: add.assoc)
  have "write_file (recode_at ht (type_byte msb 0) rel) \<lparr>file_bytes = c, file_pos = pos\<rparr> =
      \<lparr>file_bytes = c', file_pos = pos + es\<rparr>"
    by (simp add: write_file_def rel new)
  then have "patch_entries True m ht es (Suc n) i \<lparr>file_bytes = c, file_pos = pos\<rparr> =
      patch_entries True m ht es n (i + 1) \<lparr>file_bytes = c', file_pos = pos + es\<rparr>"
    using entry v by (simp add: read_file_def rel_def [symmetric] rel lseek_def Let_def)
  then show ?case unfolding slots IH by (simp add: c'_def)
qed simp

subsection \<open>The sections of a file\<close>

text \<open>The headers and the code bytes, read in the byte order of the file.\<close>

definition is_msb :: "u8 list \<Rightarrow> bool" where
  "is_msb c \<longleftrightarrow> c ! 5 = 2"

definition elf_word :: "u8 list \<Rightarrow> nat \<Rightarrow> u32" where
  "elf_word c off = file_word (is_msb c) 4 c off"

definition elf_half :: "u8 list \<Rightarrow> nat \<Rightarrow> u32" where
  "elf_half c off = file_word (is_msb c) 2 c off"

definition section_count :: "u8 list \<Rightarrow> nat" where
  "section_count c = unat (elf_half c 48)"

definition header_at :: "u8 list \<Rightarrow> nat \<Rightarrow> nat" where
  "header_at c i = unat (elf_word c 32 + of_short (to_short (elf_half c 46)) * of_nat i)"

definition has_relocations :: "u8 list \<Rightarrow> nat \<Rightarrow> bool" where
  "has_relocations c i \<longleftrightarrow> elf_word c (header_at c i + 4) \<in> {SHT_REL, SHT_RELA}"

definition section_entries :: "u8 list \<Rightarrow> nat \<Rightarrow> nat \<times> nat \<times> nat" where
  "section_entries c i =
     (let h = header_at c i; es = (if elf_word c (h + 4) = SHT_REL then 8 else 12)
      in (unat (elf_word c (h + 16)), es, unat (elf_word c (h + 20)) div es))"

definition section_codes :: "u8 list \<Rightarrow> nat \<Rightarrow> nat list" where
  "section_codes c i =
     (if has_relocations c i
      then case section_entries c i of (off, es, n) \<Rightarrow> map (\<lambda>k. type_byte (is_msb c) (off + es * k)) [0..<n]
      else [])"

definition codes_from :: "u8 list \<Rightarrow> nat list \<Rightarrow> nat list" where
  "codes_from c is = concat (map (section_codes c) is)"

definition code_bytes :: "u8 list \<Rightarrow> nat list" where
  "code_bytes c = codes_from c [0..<section_count c]"

definition elf_ok :: "u8 list \<Rightarrow> bool" where
  "elf_ok c \<longleftrightarrow> 52 \<le> length c \<and> take 4 c = ELFMAG \<and> c ! 5 \<in> {1, 2} \<and>
     to_short (elf_half c 16) \<in> {ET_REL, ET_EXEC, ET_DYN} \<and>
     elf_word c 32 \<noteq> 0 \<and> to_short (elf_half c 46) \<noteq> 0 \<and>
     list_all (\<lambda>i. header_at c i + 40 \<le> length c \<and>
       (has_relocations c i \<longrightarrow> (case section_entries c i of (off, es, n) \<Rightarrow> off + es * n \<le> length c))) [0..<section_count c] \<and>
     distinct (code_bytes c) \<and>
     list_all (\<lambda>p. 52 \<le> p \<and> list_all (\<lambda>i. p < header_at c i \<or> header_at c i + 40 \<le> p) [0..<section_count c]) (code_bytes c)"

definition converted :: "hash_table \<Rightarrow> u8 list \<Rightarrow> u8 list" where
  "converted ht c = map (\<lambda>p. if p \<in> set (code_bytes c) then recode ht (c ! p) else c ! p) [0..<length c]"

definition sections_report :: "u8 list \<Rightarrow> elf_report" where
  "sections_report c =
     (let n = of_nat (length (filter (has_relocations c) [0..<section_count c])) :: u8
      in if n = 0 then Not_changed else Patched_sections n)"

lemma length_fold_recode [simp]: "length (fold (recode_at ht) ps c) = length c"
  by (induction ps arbitrary: c) auto

lemma recode_at_nth: "p < length c \<Longrightarrow> recode_at ht p c ! q = (if q = p then recode ht (c ! q) else c ! q)"
  by (auto simp: recode_at_def)

lemma fold_recode_nth:
  "distinct ps \<Longrightarrow> \<forall>p \<in> set ps. p < length c \<Longrightarrow>
   fold (recode_at ht) ps c ! q = (if q \<in> set ps then recode ht (c ! q) else c ! q)"
proof (induction ps arbitrary: c)
  case (Cons p ps)
  then have "fold (recode_at ht) ps (recode_at ht p c) ! q =
      (if q \<in> set ps then recode ht (recode_at ht p c ! q) else recode_at ht p c ! q)" by simp
  with Cons.prems show ?case by (auto simp: recode_at_nth)
qed simp

lemma section_codes_less:
  assumes "elf_ok c" "i < section_count c" "p \<in> set (section_codes c i)"
  shows "p < length c"
proof -
  obtain off es n where e: "section_entries c i = (off, es, n)" using prod_cases3 by blast
  have r: "has_relocations c i" using assms(3) by (cases "has_relocations c i") (simp_all add: section_codes_def)
  with assms(3) e have "p \<in> (\<lambda>k. type_byte (is_msb c) (off + es * k)) ` {0..<n}"
    by (simp add: section_codes_def)
  then obtain k where k: "k < n" "p = type_byte (is_msb c) (off + es * k)" by auto
  have "off + es * n \<le> length c" using assms(1,2) e r by (auto simp: elf_ok_def list_all_iff)
  moreover have "es * k + es \<le> es * n"
    using mult_le_mono2 [of "Suc k" n es] k(1) by (simp add: add.commute)
  moreover have "8 \<le> es" using e by (auto simp: section_entries_def Let_def split: if_splits)
  ultimately show ?thesis unfolding k(2) type_byte_def by (split if_split) linarith
qed

lemma code_bytes_less: "elf_ok c \<Longrightarrow> p \<in> set (code_bytes c) \<Longrightarrow> p < length c"
  by (auto simp: code_bytes_def codes_from_def dest: section_codes_less)

lemma fold_converted:
  assumes "elf_ok c"
  shows "fold (recode_at ht) (code_bytes c) c = converted ht c"
  using assms code_bytes_less [OF assms]
  by (intro nth_equalityI) (auto simp: converted_def fold_recode_nth elf_ok_def)

text \<open>A file that differs from \<open>c\<close> at code bytes only has the same headers.\<close>

definition same_headers :: "u8 list \<Rightarrow> u8 list \<Rightarrow> bool" where
  "same_headers c c' \<longleftrightarrow> length c' = length c \<and> (\<forall>p < length c. p \<notin> set (code_bytes c) \<longrightarrow> c' ! p = c ! p)"

lemma same_window:
  assumes "same_headers c c'" "q + n \<le> length c" "\<forall>p \<in> set (code_bytes c). p < q \<or> q + n \<le> p"
  shows "take n (drop q c') = take n (drop q c)"
proof (intro nth_equalityI)
  fix i assume "i < length (take n (drop q c'))"
  then have i: "i < n" by simp
  then have "q + i \<notin> set (code_bytes c)" using assms(3) by auto
  with i assms(1,2) show "take n (drop q c') ! i = take n (drop q c) ! i"
    by (simp add: same_headers_def)
next
  show "length (take n (drop q c')) = length (take n (drop q c))"
    using assms(1) by (simp add: same_headers_def)
qed

lemma same_section_header:
  assumes "elf_ok c" "same_headers c c'" "i < section_count c"
  shows "take 40 (drop (header_at c i) c') = take 40 (drop (header_at c i) c)"
  using assms by (intro same_window) (auto simp: elf_ok_def list_all_iff)

lemma same_file_header:
  assumes "elf_ok c" "same_headers c c'"
  shows "take 52 c' = take 52 c"
  using same_window [of c c' 0 52] assms by (auto simp: elf_ok_def list_all_iff)

lemma short_value [simp]: "file_word msb 4 (take 40 (drop h c)) off = file_word msb 4 c (h + off)" if "off \<le> 36"
  using that by (intro file_word_window) simp

lemma header_field:
  assumes "h + 40 \<le> length c" "off \<le> 36" "m = (\<not> is_msb c)"
  shows "convert_endian True 4 (struct_field True (take 40 (drop h c)) off 4) m = elf_word c (h + off)"
  using assms convert_field [of off "take 40 (drop h c)" m] by (simp add: elf_word_def)

lemma codes_from_Cons: "codes_from c (i # is) = section_codes c i @ codes_from c is"
  by (simp add: codes_from_def)

lemma patch_sections_recodes:
  assumes ok: "elf_ok c" and m: "m = (\<not> is_msb c)" and "i + n = section_count c" "same_headers c c'"
    and "distinct (codes_from c [i..<section_count c])"
    and "\<forall>p \<in> set (codes_from c [i..<section_count c]). known ht (c' ! p)"
  shows "\<exists>pos'. patch_sections True m ht (elf_word c 32) (to_short (elf_half c 46)) n i sp \<lparr>file_bytes = c', file_pos = pos\<rparr> =
    (Inr (sp + of_nat (length (filter (has_relocations c) [i..<section_count c]))),
     \<lparr>file_bytes = fold (recode_at ht) (codes_from c [i..<section_count c]) c', file_pos = pos'\<rparr>)"
  using assms(3-)
proof (induction n arbitrary: i sp c' pos)
  case 0
  then show ?case by (auto simp: codes_from_def)
next
  case (Suc n)
  let ?h = "header_at c i"
  have i: "i < section_count c" "[i..<section_count c] = i # [i + 1..<section_count c]"
    using Suc.prems(1) by (auto simp: upt_conv_Cons)
  have h: "?h + 40 \<le> length c" using ok i(1) by (auto simp: elf_ok_def list_all_iff)
  have len: "length c' = length c" using Suc.prems(2) by (simp add: same_headers_def)
  have bs: "take 40 (drop ?h c') = take 40 (drop ?h c)" using same_section_header [OF ok Suc.prems(2) i(1)] .
  have blen: "length (take 40 (drop ?h c)) = 40" using h by simp
  define shdr where "shdr = Shdr_of True (take 40 (drop ?h c))"
  have f: "convert_endian True 4 (sh_type shdr) m = elf_word c (?h + 4)"
    "convert_endian True 4 (sh_offset shdr) m = elf_word c (?h + 16)"
    "convert_endian True 4 (sh_size shdr) m = elf_word c (?h + 20)"
    using header_field [OF h _ m] by (simp_all add: shdr_def Shdr_of_def)
  have rd: "read_file 40 (lseek (unat (elf_word c 32 + of_short (to_short (elf_half c 46)) * of_nat i)) \<lparr>file_bytes = c', file_pos = pos\<rparr>)
      = (take 40 (drop ?h c), \<lparr>file_bytes = c', file_pos = ?h + 40\<rparr>)"
    using blen by (simp only: header_at_def [symmetric] lseek_def read_file_def Let_def) (simp add: bs)
  show ?case
  proof (cases "has_relocations c i")
    case False
    have codes: "codes_from c [i..<section_count c] = codes_from c [i + 1..<section_count c]"
      using False by (simp add: i(2) codes_from_Cons section_codes_def)
    with Suc.prems have "\<exists>pos'. patch_sections True m ht (elf_word c 32) (to_short (elf_half c 46)) n (i + 1) sp
        \<lparr>file_bytes = c', file_pos = ?h + 40\<rparr> =
      (Inr (sp + of_nat (length (filter (has_relocations c) [i + 1..<section_count c]))),
       \<lparr>file_bytes = fold (recode_at ht) (codes_from c [i + 1..<section_count c]) c', file_pos = pos'\<rparr>)"
      by (intro Suc.IH) auto
    moreover have "patch_sections True m ht (elf_word c 32) (to_short (elf_half c 46)) (Suc n) i sp \<lparr>file_bytes = c', file_pos = pos\<rparr> =
        patch_sections True m ht (elf_word c 32) (to_short (elf_half c 46)) n (i + 1) sp \<lparr>file_bytes = c', file_pos = ?h + 40\<rparr>"
      using False rd blen f(1) by (simp add: shdr_def [symmetric] has_relocations_def Let_def)
    moreover have "filter (has_relocations c) [i..<section_count c] = filter (has_relocations c) [i + 1..<section_count c]"
      using False by (simp add: i(2) del: upt_Suc)
    ultimately show ?thesis by (simp only: codes)
  next
    case True
    obtain off es k where e: "section_entries c i = (off, es, k)" using prod_cases3 by blast
    have es: "8 \<le> es" "es = rel_entry_size (if elf_word c (?h + 4) = SHT_REL then DT_REL else DT_RELA)"
      "off = unat (elf_word c (?h + 16))" "k = unat (elf_word c (?h + 20)) div es"
      using e by (auto simp: section_entries_def Let_def rel_entry_size_def DT_REL_def DT_RELA_def split: if_splits)
    have codes: "codes_from c [i..<section_count c] = section_codes c i @ codes_from c [i + 1..<section_count c]"
      by (simp add: i(2) codes_from_Cons)
    have sc: "section_codes c i = map (\<lambda>j. type_byte (is_msb c) (off + es * j)) [0..<k]"
      using True e by (simp add: section_codes_def)
    define c2 where "c2 = fold (recode_at ht) (section_codes c i) c'"
    have inb: "off + es * k \<le> length c'"
      using ok i(1) True e len by (auto simp: elf_ok_def list_all_iff)
    have "patch_entries True m ht es k 0 \<lparr>file_bytes = c', file_pos = off\<rparr> =
        (None, \<lparr>file_bytes = c2, file_pos = off + es * k\<rparr>)"
      unfolding c2_def sc using es(1) m inb Suc.prems(4) by (intro patch_entries_recodes) (auto simp: codes sc)
    then have pr: "patch_relocation_section True m ht (elf_word c (?h + 20)) (if elf_word c (?h + 4) = SHT_REL then DT_REL else DT_RELA)
        (lseek (unat (elf_word c (?h + 16))) \<lparr>file_bytes = c', file_pos = ?h + 40\<rparr>) = (None, \<lparr>file_bytes = c2, file_pos = off + es * k\<rparr>)"
      by (simp add: patch_relocation_section_def es(2) [symmetric] es(4) [symmetric] lseek_def es(3) [symmetric] Let_def)
    have ds: "distinct (section_codes c i)" "distinct (codes_from c [i + 1..<section_count c])"
      "set (section_codes c i) \<inter> set (codes_from c [i + 1..<section_count c]) = {}"
      using Suc.prems(3) by (auto simp: codes)
    have less: "\<forall>p \<in> set (section_codes c i). p < length c'"
      using section_codes_less [OF ok i(1)] len by auto
    have c2: "c2 ! p = (if p \<in> set (section_codes c i) then recode ht (c' ! p) else c' ! p)" for p
      unfolding c2_def by (rule fold_recode_nth [OF ds(1) less])
    have sub: "set (section_codes c i) \<subseteq> set (code_bytes c)"
      using i(1) by (auto simp: code_bytes_def codes_from_def)
    have "same_headers c c2"
      using Suc.prems(2) sub unfolding same_headers_def c2 by (auto simp: c2_def)
    moreover have "\<forall>p \<in> set (codes_from c [i + 1..<section_count c]). known ht (c2 ! p)"
      using Suc.prems(4) ds(3) by (auto simp: codes c2)
    ultimately have "\<exists>pos'. patch_sections True m ht (elf_word c 32) (to_short (elf_half c 46)) n (i + 1) (sp + 1)
        \<lparr>file_bytes = c2, file_pos = off + es * k\<rparr> =
      (Inr (sp + 1 + of_nat (length (filter (has_relocations c) [i + 1..<section_count c]))),
       \<lparr>file_bytes = fold (recode_at ht) (codes_from c [i + 1..<section_count c]) c2, file_pos = pos'\<rparr>)"
      using Suc.prems(1) ds(2) by (intro Suc.IH) auto
    moreover have "patch_sections True m ht (elf_word c 32) (to_short (elf_half c 46)) (Suc n) i sp \<lparr>file_bytes = c', file_pos = pos\<rparr> =
        patch_sections True m ht (elf_word c 32) (to_short (elf_half c 46)) n (i + 1) (sp + 1) \<lparr>file_bytes = c2, file_pos = off + es * k\<rparr>"
      using True rd blen f pr by (simp add: shdr_def [symmetric] has_relocations_def Let_def)
    moreover have "fold (recode_at ht) (codes_from c [i..<section_count c]) c' =
        fold (recode_at ht) (codes_from c [i + 1..<section_count c]) c2"
      by (simp add: codes c2_def)
    ultimately show ?thesis using True by (simp add: i(2) add_ac del: upt_Suc)
  qed
qed

subsection \<open>The whole file on a little-endian host\<close>

lemma file_header_fields:
  assumes "52 \<le> length c" "c ! 5 \<in> {1, 2}"
  defines "h \<equiv> Ehdr_of True (take 52 c)"
  shows "match_endian True h = (\<not> is_msb c)" "take 4 (e_ident h) = take 4 c"
    and "m = (\<not> is_msb c) \<Longrightarrow> convert_endian True 2 (e_type h) m = elf_half c 16"
    and "m = (\<not> is_msb c) \<Longrightarrow> convert_endian True 4 (e_shoff h) m = elf_word c 32"
    and "m = (\<not> is_msb c) \<Longrightarrow> convert_endian True 2 (e_shentsize h) m = elf_half c 46"
    and "m = (\<not> is_msb c) \<Longrightarrow> convert_endian True 2 (e_shnum h) m = elf_half c 48"
proof -
  have 5: "e_ident h ! 5 = c ! 5" using assms(1) by (simp add: h_def Ehdr_of_def)
  show "match_endian True h = (\<not> is_msb c)"
    using assms(2) by (auto simp: match_endian_def 5 is_msb_def Let_def)
  show "take 4 (e_ident h) = take 4 c" by (simp add: h_def Ehdr_of_def)
  have len: "length (take 52 c) = 52" using assms(1) by simp
  have w: "convert_endian True 4 (struct_field True (take 52 c) off 4) (\<not> is_msb c) = elf_word c off"
    if "off \<le> 48" for off
    using that assms(1) convert_field [of off "take 52 c" "\<not> is_msb c"] file_word_window [of off 4 52 _ 0 c]
    by (simp add: len elf_word_def)
  have hw: "convert_endian True 2 (struct_field True (take 52 c) off 2) (\<not> is_msb c) = elf_half c off"
    if "off \<le> 50" for off
    using that assms(1) convert_half_field [of off "take 52 c" "\<not> is_msb c"] file_word_window [of off 2 52 _ 0 c]
    by (simp add: len elf_half_def)
  assume "m = (\<not> is_msb c)"
  then show "convert_endian True 2 (e_type h) m = elf_half c 16" "convert_endian True 4 (e_shoff h) m = elf_word c 32"
    "convert_endian True 2 (e_shentsize h) m = elf_half c 46" "convert_endian True 2 (e_shnum h) m = elf_half c 48"
    by (simp_all add: h_def Ehdr_of_def w hw)
qed

lemma process_elf_converts:
  assumes ok: "elf_ok c" and known: "\<forall>p \<in> set (code_bytes c). known ht (c ! p)"
  shows "process_elf True ht (Some c) = (Succeeds (sections_report c), Some (converted ht c))"
proof -
  have c: "52 \<le> length c" "c ! 5 \<in> {1, 2}" using ok by (simp_all add: elf_ok_def)
  define m where "m = (\<not> is_msb c)"
  note f = file_header_fields [OF c, folded m_def]
  have rd: "read_file 52 \<lparr>file_bytes = c, file_pos = 0\<rparr> = (take 52 c, \<lparr>file_bytes = c, file_pos = 52\<rparr>)"
    using c by (simp add: read_file_def)
  have "\<exists>pos'. patch_sections True m ht (elf_word c 32) (to_short (elf_half c 46)) (section_count c) 0 0 \<lparr>file_bytes = c, file_pos = 52\<rparr> =
      (Inr (0 + of_nat (length (filter (has_relocations c) [0..<section_count c]))),
       \<lparr>file_bytes = fold (recode_at ht) (codes_from c [0..<section_count c]) c, file_pos = pos'\<rparr>)"
    using ok known by (intro patch_sections_recodes)
      (auto simp: m_def same_headers_def elf_ok_def code_bytes_def)
  then obtain pos' where ps:
    "patch_sections True m ht (elf_word c 32) (to_short (elf_half c 46)) (section_count c) 0 0 \<lparr>file_bytes = c, file_pos = 52\<rparr> =
      (Inr (of_nat (length (filter (has_relocations c) [0..<section_count c]))),
       \<lparr>file_bytes = converted ht c, file_pos = pos'\<rparr>)"
    using fold_converted [OF ok] by (auto simp: code_bytes_def)
  have len: "length (take 52 c) = 52" using c by simp
  have ty: "take 4 c = ELFMAG" "elf_word c 32 \<noteq> 0" "to_short (elf_half c 46) \<noteq> 0"
    "\<not> (to_short (elf_half c 16) \<noteq> ET_EXEC \<and> to_short (elf_half c 16) \<noteq> ET_REL \<and> to_short (elf_half c 16) \<noteq> ET_DYN)"
    using ok by (auto simp: elf_ok_def)
  show ?thesis
    unfolding process_elf_def option.case rd prod.case Let_def
    by (simp only: len f simp_thms ty if_False refl section_count_def [symmetric] ps prod.case sum.case)
      (simp add: sections_report_def Let_def)
qed

subsection \<open>Files without section headers\<close>

text \<open>
  Every turn of the search for the segment with the relocations looks at the same header, the
  \<open>PT_DYNAMIC\<close> one.
\<close>

lemma read_file_keeps: "read_file n fd = (bs, fd') \<Longrightarrow> file_bytes fd' = file_bytes fd"
  by (auto simp: read_file_def Let_def)

lemma lseek_keeps [simp]: "file_bytes (lseek p fd) = file_bytes fd" "file_pos (lseek p fd) = p"
  by (simp_all add: lseek_def)

lemma find_rel_offset_stuck:
  assumes "convert_endian le 4 (p_type (Phdr_of le (take 32 (drop at (file_bytes fd))))) m \<noteq> PT_LOAD"
    and "find_rel_offset le m at ra rs n off fd = (r, fd')"
  shows "file_bytes fd' = file_bytes fd \<and> (r = Inr off \<or> (\<exists>e. r = Inl e))"
  using assms
proof (induction n arbitrary: fd)
  case (Suc n)
  obtain bs fd2 where rd: "read_file 32 (lseek at fd) = (bs, fd2)" by fastforce
  then have bs: "bs = take 32 (drop at (file_bytes fd))" and fd2: "file_bytes fd2 = file_bytes fd"
    by (auto simp: read_file_def Let_def lseek_def)
  show ?case
  proof (cases "length bs = 32")
    case True
    with Suc.prems rd bs fd2 have "find_rel_offset le m at ra rs n off fd2 = (r, fd')" by simp
    with Suc.IH [of fd2] Suc.prems(1) fd2 show ?thesis by simp
  next
    case False
    with Suc.prems(2) rd fd2 show ?thesis by auto
  qed
qed auto

lemma patch_dynamic_stuck:
  assumes ty: "convert_endian le 4 (p_type phdr) m = PT_DYNAMIC"
    and phdr: "phdr = Phdr_of le (take 32 (drop at (file_bytes fd)))"
    and run: "patch_dynamic le m ht n at phdr fd = (r, fd')"
  shows "file_bytes fd' = file_bytes fd \<and> (\<exists>e. r = Inl e)"
proof -
  define filesz where "filesz = unat (convert_endian le 4 (p_filesz phdr) m)"
  define offset where "offset = unat (convert_endian le 4 (p_offset phdr) m)"
  obtain buf fd2 where rd: "read_file filesz (lseek offset fd) = (buf, fd2)" by fastforce
  have fd2: "file_bytes fd2 = file_bytes fd" using read_file_keeps [OF rd] by simp
  obtain rt ra rs where sd: "scan_dynamic le m buf = (rt, ra, rs)" using prod_cases3 by blast
  obtain r3 fd3 where fr: "find_rel_offset le m at ra rs n 0 fd2 = (r3, fd3)" by fastforce
  have "convert_endian le 4 (p_type (Phdr_of le (take 32 (drop at (file_bytes fd2))))) m \<noteq> PT_LOAD"
    using ty phdr fd2 by (simp add: PT_LOAD_def PT_DYNAMIC_def)
  then have "file_bytes fd3 = file_bytes fd2 \<and> (r3 = Inr 0 \<or> (\<exists>e. r3 = Inl e))"
    using fr by (rule find_rel_offset_stuck)
  with run fd2 show ?thesis
    unfolding patch_dynamic_def Let_def filesz_def [symmetric] offset_def [symmetric] rd prod.case sd fr
    by (auto split: if_split_asm)
qed

lemma scan_segments_stuck:
  "scan_segments le m ht phoff phentsize n k i False fd = (r, fd') \<Longrightarrow>
   file_bytes fd' = file_bytes fd \<and> (r = Inr False \<or> (\<exists>e. r = Inl e))"
proof (induction k arbitrary: i fd)
  case (Suc k)
  define at where "at = unat (phoff + of_short phentsize * of_nat i)"
  obtain bs fd2 where rd: "read_file 32 (lseek at fd) = (bs, fd2)" by fastforce
  then have bs: "bs = take 32 (drop at (file_bytes fd2))" and fd2: "file_bytes fd2 = file_bytes fd"
    by (auto simp: read_file_def Let_def lseek_def)
  obtain r3 fd3 where pd: "patch_dynamic le m ht n at (Phdr_of le bs) fd2 = (r3, fd3)" by fastforce
  note run = Suc.prems [unfolded scan_segments.simps if_False Let_def at_def [symmetric] rd prod.case]
  show ?case
  proof (cases "length bs = 32 \<and> convert_endian le 4 (p_type (Phdr_of le bs)) m = PT_DYNAMIC")
    case True
    with patch_dynamic_stuck [OF _ _ pd] bs have "file_bytes fd3 = file_bytes fd2 \<and> (\<exists>e. r3 = Inl e)" by simp
    with True run fd2 pd show ?thesis by auto
  next
    case False
    with run fd2 Suc.IH [of "i + 1" fd2] show ?thesis by (auto split: if_split_asm)
  qed
qed simp

lemma process_elf_stripped:
  assumes "ehdr = Ehdr_of le (take 52 c)" "m = match_endian le ehdr"
    and "convert_endian le 4 (e_shoff ehdr) m = 0 \<or> to_short (convert_endian le 2 (e_shentsize ehdr) m) = 0"
  shows "\<exists>out. process_elf le ht (Some c) = (out, Some c) \<and> (\<forall>rep. out \<noteq> Succeeds rep)"
proof -
  obtain fd where rd: "read_file 52 \<lparr>file_bytes = c, file_pos = 0\<rparr> = (take 52 c, fd)" "file_bytes fd = c"
    by (simp add: read_file_def)
  define phoff where "phoff = convert_endian le 4 (e_phoff ehdr) m"
  define phent where "phent = to_short (convert_endian le 2 (e_phentsize ehdr) m)"
  define n where "n = unat (of_short (to_short (convert_endian le 2 (e_phnum ehdr) m)))"
  obtain r fd' where ss: "scan_segments le m ht phoff phent n n 0 False fd = (r, fd')" by fastforce
  have "file_bytes fd' = c \<and> (r = Inr False \<or> (\<exists>e. r = Inl e))"
    using scan_segments_stuck [OF ss] rd(2) by simp
  then show ?thesis
    unfolding process_elf_def option.case rd(1) prod.case Let_def assms(1) [symmetric] assms(2) [symmetric]
      phoff_def [symmetric] phent_def [symmetric] n_def [symmetric] ss
    using assms(3) rd(2) by auto
qed

subsection \<open>Converting back\<close>

lemma same_headers_msb:
  assumes "elf_ok c" "same_headers c c'"
  shows "is_msb c' = is_msb c" "c' ! 5 = c ! 5"
proof -
  show "c' ! 5 = c ! 5"
    using arg_cong [OF same_file_header [OF assms], of "\<lambda>xs. xs ! 5"] by simp
  then show "is_msb c' = is_msb c" by (simp add: is_msb_def)
qed

lemma elf_window:
  assumes "take k (drop p c') = take k (drop p c)" "is_msb c' = is_msb c"
  shows "off + 4 \<le> k \<Longrightarrow> elf_word c' (p + off) = elf_word c (p + off)"
    and "off + 2 \<le> k \<Longrightarrow> elf_half c' (p + off) = elf_half c (p + off)"
proof -
  have "file_word msb n c' (p + off) = file_word msb n c (p + off)" if "off + n \<le> k" for msb n
    using file_word_window [OF that, of msb p c] file_word_window [OF that, of msb p c'] assms(1) by simp
  then show "off + 4 \<le> k \<Longrightarrow> elf_word c' (p + off) = elf_word c (p + off)"
    "off + 2 \<le> k \<Longrightarrow> elf_half c' (p + off) = elf_half c (p + off)"
    by (simp_all add: elf_word_def elf_half_def assms(2))
qed

lemma same_file_words:
  assumes "elf_ok c" "same_headers c c'"
  shows "off \<le> 48 \<Longrightarrow> elf_word c' off = elf_word c off" "off \<le> 50 \<Longrightarrow> elf_half c' off = elf_half c off"
  using elf_window [of 52 0 c' c off] same_file_header [OF assms] same_headers_msb [OF assms] by simp_all

lemma same_sections:
  assumes "elf_ok c" "same_headers c c'"
  shows "section_count c' = section_count c" "header_at c' i = header_at c i"
    and "i < section_count c \<Longrightarrow> has_relocations c' i = has_relocations c i"
    and "i < section_count c \<Longrightarrow> section_entries c' i = section_entries c i"
    and "i < section_count c \<Longrightarrow> section_codes c' i = section_codes c i"
proof -
  show "section_count c' = section_count c" and h: "header_at c' i = header_at c i" for i
    by (simp_all add: section_count_def header_at_def same_file_words [OF assms])
  show r: "has_relocations c' i = has_relocations c i" and e: "section_entries c' i = section_entries c i"
    if "i < section_count c" for i
    using elf_window(1) [OF same_section_header [OF assms that] same_headers_msb(1) [OF assms]]
    by (simp_all add: has_relocations_def section_entries_def h)
  show "i < section_count c \<Longrightarrow> section_codes c' i = section_codes c i"
    using r e same_headers_msb [OF assms] by (simp add: section_codes_def)
qed

lemma same_code_bytes:
  assumes "elf_ok c" "same_headers c c'"
  shows "code_bytes c' = code_bytes c"
  unfolding code_bytes_def codes_from_def same_sections(1) [OF assms]
  by (rule arg_cong [of _ _ concat]) (auto intro: map_cong simp: same_sections(5) [OF assms])

lemma same_headers_ok:
  assumes "elf_ok c" "same_headers c c'"
  shows "elf_ok c'"
proof -
  have 4: "take 4 c' = take 4 c"
    using arg_cong [OF same_file_header [OF assms], of "take 4"] by simp
  have len: "length c' = length c" using assms(2) by (simp add: same_headers_def)
  show ?thesis
    using assms(1) same_sections [OF assms]
    by (simp add: elf_ok_def same_code_bytes [OF assms] 4 same_headers_msb [OF assms] same_file_words [OF assms]
        same_sections(1,2) [OF assms] len list_all_iff)
qed

lemma converted_same_headers: "same_headers c (converted ht c)"
  by (simp add: same_headers_def converted_def)

lemma converted_twice:
  assumes "elf_ok c" "\<forall>p \<in> set (code_bytes c). recode ht2 (recode ht1 (c ! p)) = c ! p"
  shows "converted ht2 (converted ht1 c) = c"
  using assms(2) same_code_bytes [OF assms(1) converted_same_headers, of ht1]
  by (intro nth_equalityI) (auto simp: converted_def)

end
