(* ===== verification/ConvertProgram.thy ===== *)
theory ConvertProgram
  imports ElfConvertCorrect
begin

text \<open>
  The properties of the relocation converter as a program: what it does to a file, that reading
  the map in reverse undoes it, what no file can make it do, and the files it never converts.
\<close>

subsection \<open>Lengths\<close>

lemma word_bytes_length [simp]: "length (word_bytes le w) = 4"
  by (simp add: word_bytes_def Let_def)

lemma patch_entries_length:
  "patch_entries le m ht es n i fd = (r, fd') \<Longrightarrow> 8 \<le> es \<Longrightarrow> length (file_bytes fd') = length (file_bytes fd)"
proof (induction n arbitrary: i fd)
  case (Suc n)
  obtain rel fd2 where rd: "read_file es fd = (rel, fd2)" by fastforce
  show ?case
  proof (cases "length rel = es")
    case True
    then have fd2: "file_bytes fd2 = file_bytes fd" "file_pos fd2 = file_pos fd + es"
      "file_pos fd + es \<le> length (file_bytes fd)"
      using rd Suc.prems(2) by (auto simp: read_file_def Let_def min_def split: if_splits)
    have "length (file_bytes (write_file (take 4 rel @ word_bytes le w @ drop 8 rel) (lseek (file_pos fd2 - es) fd2)))
        = length (file_bytes fd)" for w
      using fd2 True Suc.prems(2) by (simp add: write_file_def)
    then show ?thesis
      using Suc.prems rd True fd2 Suc.IH by (auto simp: Let_def split: option.split_asm)
  next
    case False
    then show ?thesis using Suc.prems(1) rd read_file_keeps [OF rd] by simp
  qed
qed simp

lemma patch_relocation_section_length:
  "patch_relocation_section le m ht sz rt fd = (r, fd') \<Longrightarrow> length (file_bytes fd') = length (file_bytes fd)"
  unfolding patch_relocation_section_def Let_def
  by (erule patch_entries_length) (simp add: rel_entry_size_def)

lemma patch_sections_length:
  "patch_sections le m ht shoff shsize n i sp fd = (r, fd') \<Longrightarrow> length (file_bytes fd') = length (file_bytes fd)"
proof (induction n arbitrary: i sp fd)
  case (Suc n)
  obtain bs fd2 where rd: "read_file 40 (lseek (unat (shoff + of_short shsize * of_nat i)) fd) = (bs, fd2)" by fastforce
  have fd2: "file_bytes fd2 = file_bytes fd" using read_file_keeps [OF rd] by simp
  obtain r3 fd3 where pr: "patch_relocation_section le m ht (convert_endian le 4 (sh_size (Shdr_of le bs)) m)
      (if convert_endian le 4 (sh_type (Shdr_of le bs)) m = SHT_REL then DT_REL else DT_RELA)
      (lseek (unat (convert_endian le 4 (sh_offset (Shdr_of le bs)) m)) fd2) = (r3, fd3)" by fastforce
  have fd3: "length (file_bytes fd3) = length (file_bytes fd)"
    using patch_relocation_section_length [OF pr] fd2 by simp
  note run = Suc.prems [unfolded patch_sections.simps rd prod.case Let_def pr]
  show ?case
    using run fd2 fd3 Suc.IH by (auto split: if_split_asm option.split_asm)
qed simp

lemma process_elf_length:
  assumes "process_elf le ht (Some c) = (out, Some c')"
  shows "length c' = length c"
proof -
  define ehdr where "ehdr = Ehdr_of le (take 52 c)"
  define m where "m = match_endian le ehdr"
  show ?thesis
  proof (cases "convert_endian le 4 (e_shoff ehdr) m = 0 \<or> to_short (convert_endian le 2 (e_shentsize ehdr) m) = 0")
    case True
    then show ?thesis
      using process_elf_stripped [OF ehdr_def m_def, of ht] assms by auto
  next
    case False
    obtain fd where rd: "read_file 52 \<lparr>file_bytes = c, file_pos = 0\<rparr> = (take 52 c, fd)" "file_bytes fd = c"
      by (simp add: read_file_def)
    obtain r fd' where ps: "patch_sections le m ht (convert_endian le 4 (e_shoff ehdr) m)
        (to_short (convert_endian le 2 (e_shentsize ehdr) m)) (unat (convert_endian le 2 (e_shnum ehdr) m)) 0 0 fd = (r, fd')"
      by fastforce
    note run = assms [unfolded process_elf_def option.case rd(1) prod.case Let_def ehdr_def [symmetric] m_def [symmetric] ps]
    show ?thesis
      using run False rd(2) patch_sections_length [OF ps] by (auto split: if_split_asm sum.split_asm)
  qed
qed

text \<open>C5: On a little-endian host, a file with well-placed headers and relocation sections all of
  whose codes are in the table is converted completely: the program reports the number of patched
  sections, replaces the code byte of every relocation by the table's code for it, and leaves every
  other byte as it is, in files of either byte order.\<close>

theorem conversion_exact:
  assumes "elf_ok c" "\<forall>p \<in> set (code_bytes c). known ht (c ! p)"
  shows "process_elf True ht (Some c) = (Succeeds (sections_report c), Some (converted ht c))"
  using assms by (rule process_elf_converts)

definition sample_elf :: "u8 list" where
  "sample_elf =
     ELFMAG @ [1, 2, 1] @ replicate 9 0 @ [0, 1, 0, 40] @ replicate 12 0 @ [0, 0, 0, 52] @ replicate 10 0 @
     [0, 40, 0, 1, 0, 0] @ replicate 4 0 @ [0, 0, 0, 9] @ replicate 8 0 @ [0, 0, 0, 92, 0, 0, 0, 8] @ replicate 16 0 @
     [0, 0, 0, 4, 0, 0, 7, 2]"

definition sample_table :: hash_table where
  "sample_table = hash_add_value hash_initialize 2 28"

lemma sample_code_bytes: "code_bytes sample_elf = [99]"
  by code_simp

lemma sample_elf_ok: "elf_ok sample_elf"
  by code_simp

theorem conversion_exact_witness:
  "process_elf True sample_table (Some sample_elf) =
     (Succeeds (Patched_sections 1), Some (sample_elf[99 := 28]))"
proof -
  have "known sample_table (sample_elf ! 99)" by code_simp
  then have "process_elf True sample_table (Some sample_elf) =
      (Succeeds (sections_report sample_elf), Some (converted sample_table sample_elf))"
    by (intro conversion_exact sample_elf_ok) (simp add: sample_code_bytes)
  moreover have "sections_report sample_elf = Patched_sections 1" by code_simp
  moreover have "converted sample_table sample_elf = sample_elf[99 := 28]" by code_simp
  ultimately show ?thesis by simp
qed

subsection \<open>The program and its reverse\<close>

lemma ucast_byte: "v < 256 \<Longrightarrow> ucast (ucast v :: u8) = (v :: u32)"
proof -
  assume "v < 256"
  then have "v AND 0xFF = v" using less_mask_eq [of v 8] by (simp add: low_byte)
  then show "ucast (ucast v :: u8) = v" by (auto simp: low_byte bit_eq_iff bit_simps)
qed

definition table_of :: "bool \<Rightarrow> map_item list \<Rightarrow> hash_table" where
  "table_of rv items = codes.add_all hash_initialize (map_codes rv items)"

lemma main_converts:
  assumes "list_all item_ok items" "process_parameters argv = Some rv"
    and "elf_ok c" "\<forall>p \<in> set (code_bytes c). known (table_of rv items) (c ! p)"
  shows "acrelconvert_main True argv (Some (map_text items)) (Some c) =
     Ret (True, Some (converted (table_of rv items) c))"
  using process_elf_converts [OF assms(3,4)] process_map_file_text [OF assms(1)] assms(2)
  by (simp add: acrelconvert_main_def table_of_def)

lemma map_codes_swap: "map_codes True items = map prod.swap (map_codes False items)"
proof -
  have "item_codes True it = map prod.swap (item_codes False it)" for it by (cases it) auto
  then have "item_codes True = (\<lambda>it. map prod.swap (item_codes False it))" by (rule ext)
  then show ?thesis by (simp add: map_codes_def map_concat comp_def)
qed

lemma table_of_forward:
  assumes "distinct (map fst (map_codes False items))" "(k, v) \<in> set (map_codes False items)"
  shows "hash_get_value (table_of False items) k = Some v"
  using assms by (simp add: table_of_def codes.get_add_all_new map_of_eq_Some_iff rev_map [symmetric])

lemma table_of_reverse:
  assumes "distinct (map snd (map_codes False items))" "(k, v) \<in> set (map_codes False items)"
  shows "hash_get_value (table_of True items) v = Some k"
proof -
  have "distinct (map fst (map_codes True items))"
    using assms(1) by (simp add: map_codes_swap comp_def)
  moreover have "(v, k) \<in> set (map_codes True items)"
    using assms(2) by (force simp: map_codes_swap)
  ultimately show ?thesis
    by (simp add: table_of_def codes.get_add_all_new map_of_eq_Some_iff rev_map [symmetric])
qed

text \<open>C6: Reading the map in reverse undoes a conversion. When the map file, however it is laid out,
  is one to one, its second numbers fit a byte and it knows every code of the file, then the program
  with \<open>-m\<close> succeeds, and with \<open>-r\<close> on the result, with the same map file, it succeeds again and
  gives back the original file byte for byte.\<close>

theorem reverse_restores:
  assumes items: "list_all item_ok items"
    and kvs: "kvs = map_codes False items" "distinct (map fst kvs)" "distinct (map snd kvs)" "list_all (\<lambda>v. v < 256) (map snd kvs)"
    and c: "elf_ok c" "list_all (\<lambda>p. ucast (c ! p) \<in> set (map fst kvs)) (code_bytes c)"
  shows "\<exists>c'. acrelconvert_main True [app, ''-m'', mf, f] (Some (map_text items)) (Some c) = Ret (True, Some c') \<and>
     length c' = length c \<and>
     acrelconvert_main True [app, ''-r'', mf, f] (Some (map_text items)) (Some c') = Ret (True, Some c)"
proof -
  define c' where "c' = converted (table_of False items) c"
  have same: "same_headers c c'" unfolding c'_def by (rule converted_same_headers)
  have code: "known (table_of False items) (c ! p) \<and> known (table_of True items) (recode (table_of False items) (c ! p)) \<and>
      recode (table_of True items) (recode (table_of False items) (c ! p)) = c ! p" if "p \<in> set (code_bytes c)" for p
  proof -
    from that c(2) obtain v where v: "(ucast (c ! p), v) \<in> set kvs" by (fastforce simp: list_all_iff)
    then have "v < 256" using kvs(4) by (force simp: list_all_iff)
    then have "ucast (ucast v :: u8) = v" by (rule ucast_byte)
    moreover have "ucast (ucast (c ! p) :: u32) = c ! p" by (rule ucast_up_ucast_id) (simp add: is_up)
    ultimately show ?thesis
      using table_of_forward [of items "ucast (c ! p)" v] table_of_reverse [of items "ucast (c ! p)" v] v kvs(1-3)
      by (simp add: known_def recode_def)
  qed
  have "acrelconvert_main True [app, ''-m'', mf, f] (Some (map_text items)) (Some c) = Ret (True, Some c')"
    unfolding c'_def using code by (intro main_converts items c(1)) (auto simp: process_parameters_def)
  moreover have "acrelconvert_main True [app, ''-r'', mf, f] (Some (map_text items)) (Some c') =
      Ret (True, Some (converted (table_of True items) c'))"
  proof (rule main_converts)
    show "\<forall>p \<in> set (code_bytes c'). known (table_of True items) (c' ! p)"
      using code code_bytes_less [OF c(1)] same_code_bytes [OF c(1) same] by (simp add: c'_def converted_def)
  qed (use items same_headers_ok [OF c(1) same] in \<open>simp_all add: process_parameters_def\<close>)
  moreover have "converted (table_of True items) c' = c"
    unfolding c'_def using code by (intro converted_twice [OF c(1)]) auto
  ultimately show ?thesis using same by (auto simp: same_headers_def)
qed

theorem reverse_restores_witness:
  "\<exists>c'. acrelconvert_main True [''acrelconvert'', ''-m'', ''map'', ''a.o''] (Some (map_text [Remark ''codes'', Entry [] 2 '' '' '' '' 28])) (Some sample_elf) = Ret (True, Some c') \<and>
     length c' = length sample_elf \<and>
     acrelconvert_main True [''acrelconvert'', ''-r'', ''map'', ''a.o''] (Some (map_text [Remark ''codes'', Entry [] 2 '' '' '' '' 28])) (Some c') = Ret (True, Some sample_elf)"
proof (rule reverse_restores [of _ "[(2, 28)]"])
  have "sample_elf ! 99 = 2" by code_simp
  then show "list_all (\<lambda>p. ucast (sample_elf ! p) \<in> set (map fst [(2 :: u32, 28 :: u32)])) (code_bytes sample_elf)"
    by (simp add: sample_code_bytes)
qed (simp_all add: map_codes_def sample_elf_ok blank_def eol_def nul_def)

subsection \<open>Any file\<close>

text \<open>Whatever the host, the table and the bytes of the file are, \<open>process_elf\<close> keeps the length
  of the file: also with headers that point anywhere, overlapping sections and on every error path
  it writes only over bytes it has read.\<close>

theorem file_length_kept:
  "length (the (snd (process_elf le ht (Some c)))) = length c"
proof -
  obtain out c' where "process_elf le ht (Some c) = (out, c')" by fastforce
  moreover have "c' \<noteq> None"
    using calculation by (auto simp: process_elf_def Let_def split: prod.split_asm if_split_asm sum.split_asm)
  ultimately show ?thesis using process_elf_length by fastforce
qed

text \<open>A file whose section headers are stripped is never converted, whatever the host, the table
  and its program headers are: the program fails and the file stays as it was. The loop that looks
  for the loaded segment reads the dynamic segment's header again and again, so that the part
  written for stripped shared objects cannot succeed.\<close>

theorem stripped_never_converted:
  assumes "ehdr = Ehdr_of le (take 52 c)" "m = match_endian le ehdr"
    and "convert_endian le 4 (e_shoff ehdr) m = 0 \<or> to_short (convert_endian le 2 (e_shentsize ehdr) m) = 0"
  shows "\<exists>out. process_elf le ht (Some c) = (out, Some c) \<and> (\<forall>rep. out \<noteq> Succeeds rep)"
  using assms by (rule process_elf_stripped)

definition stripped_elf :: "u8 list" where
  "stripped_elf = sample_elf[17 := 3, 35 := 0]"

theorem stripped_never_converted_witness:
  "\<exists>out. process_elf True sample_table (Some stripped_elf) = (out, Some stripped_elf) \<and> (\<forall>rep. out \<noteq> Succeeds rep)"
proof (rule stripped_never_converted [OF refl refl])
  have "convert_endian True 4 (e_shoff (Ehdr_of True (take 52 stripped_elf))) (match_endian True (Ehdr_of True (take 52 stripped_elf))) = 0"
    by code_simp
  then show "convert_endian True 4 (e_shoff (Ehdr_of True (take 52 stripped_elf))) (match_endian True (Ehdr_of True (take 52 stripped_elf))) = 0 \<or>
    to_short (convert_endian True 2 (e_shentsize (Ehdr_of True (take 52 stripped_elf))) (match_endian True (Ehdr_of True (take 52 stripped_elf)))) = 0"
    by (rule disjI1)
qed

subsection \<open>Big-endian hosts\<close>

lemma convert_half_big:
  assumes "length bs \<le> 2"
  shows "convert_endian False 2 (host_word False bs) False = 0"
proof -
  have zero: "ucast (drop_bit 16 w) = (0 :: u8)" "ucast (drop_bit 24 w) = (0 :: u8)" if "\<forall>n \<ge> 16. \<not> bit w n" for w :: u32
    using that by (auto intro!: bit_word_eqI simp: bit_simps)
  have "\<not> bit (bytes_value xs) n" if "length xs \<le> 2" "16 \<le> n" for xs n
    using that by (cases xs rule: bytes_value.cases; cases "tl xs") (auto simp: bit_simps)
  then have "\<forall>n \<ge> 16. \<not> bit (host_word False bs) n" using assms by (simp add: host_word_def)
  from zero [OF this] show ?thesis by (simp add: convert_endian_def word_bytes_def Let_def numeral_eq_Suc)
qed

text \<open>
  On a big-endian host \<open>convert_endian\<close> takes the wrong bytes of a \<open>short\<close>: no little-endian file
  is recognised as an object file.
\<close>

theorem big_endian_host_refuses:
  assumes "52 \<le> length c" "take 4 c = ELFMAG" "c ! 5 = 1"
  shows "process_elf False ht (Some c) = (Fails Not_an_object_file, Some c)"
proof -
  define ehdr where "ehdr = Ehdr_of False (take 52 c)"
  have rd: "read_file 52 \<lparr>file_bytes = c, file_pos = 0\<rparr> = (take 52 c, \<lparr>file_bytes = c, file_pos = 52\<rparr>)"
    using assms(1) by (simp add: read_file_def)
  have m: "match_endian False ehdr = False"
    using assms by (simp add: match_endian_def ehdr_def Ehdr_of_def Let_def)
  have "convert_endian False 2 (e_type ehdr) False = 0"
    unfolding ehdr_def Ehdr_of_def struct_field_def Elf32_Ehdr.simps by (rule convert_half_big) simp
  moreover have "take 4 (e_ident ehdr) = ELFMAG" using assms by (simp add: ehdr_def Ehdr_of_def)
  ultimately show ?thesis
    unfolding process_elf_def option.case rd prod.case Let_def ehdr_def [symmetric] m
    using assms(1) by (simp add: to_short_def ET_EXEC_def ET_REL_def ET_DYN_def)
qed

subsection \<open>Unknown codes\<close>

definition two_relocs_elf :: "u8 list" where
  "two_relocs_elf = sample_elf[75 := 16] @ [0, 0, 0, 8, 0, 0, 7, 3]"

text \<open>An unknown code is an error, but the relocations before it stay converted in the file.\<close>

theorem unknown_code_half_converts:
  "process_elf True sample_table (Some two_relocs_elf) =
     (Fails (Section_failed 0 (Unrecognized_code 3 1)), Some (two_relocs_elf[99 := 28]))"
  by code_simp

end
