(* ===== verification/Disassembler.thy ===== *)
theory Disassembler
  imports OperandCodec
begin

text \<open>
  The disassembler, \<open>archc/src/acbinutils/binutils/opcodes/xxxxx-dis.c\<close>: \<open>parse\<close>, which turns the
  string of arguments of an opcode into a template and a list of operands, \<open>replace\<close>, which puts
  the text of an operand into the template, \<open>disassemble\<close> and \<open>print_insn\<close>. What the functions are
  compiled with and what they call of binutils is the record \<open>dis_target\<close>.
\<close>

subsection \<open>Character arrays\<close>

abbreviation NUL :: char where "NUL \<equiv> CHR 0x00"

definition poke :: "nat \<Rightarrow> char \<Rightarrow> char list \<Rightarrow> char list run" where
  "poke p c b = (if p < length b then Ret (b[p := c]) else Undef)"

definition str_at :: "nat \<Rightarrow> char list \<Rightarrow> string run" where
  "str_at p b = (if NUL \<in> set (drop p b) then Ret (takeWhile (\<lambda>c. c \<noteq> NUL) (drop p b)) else Undef)"

definition strcpy_at :: "nat \<Rightarrow> string \<Rightarrow> char list \<Rightarrow> char list run" where
  "strcpy_at p s b =
     (if p + length s < length b then Ret (take p b @ s @ [NUL] @ drop (p + length s + 1) b) else Undef)"

definition strcat_at :: "nat \<Rightarrow> string \<Rightarrow> char list \<Rightarrow> char list run" where
  "strcat_at p s b = run_then (str_at p b) (\<lambda>t. strcpy_at (p + length t) s b)"

subsection \<open>The template of an instruction\<close>

record ac_symbol =
  sy_type :: string
  sy_is_list :: bool
  sy_oper_id :: nat

text \<open>
  The characters between the per cent sign and the colon or plus, copied to the 50 characters of
  \<open>buf\<close>; \<open>bufInitial\<close> is the array \<open>b\<close> and \<open>p\<close> the index of \<open>ptr_bufInitial\<close>. Without a colon the
  loop runs off the string.
\<close>

fun read_tag :: "nat \<Rightarrow> char list \<Rightarrow> string \<Rightarrow> string \<Rightarrow> (char list \<times> string \<times> string) run" where
  "read_tag p b buf [] = Undef"
| "read_tag p b buf (c # s) =
     (if 50 \<le> length buf then Undef
      else if c \<noteq> CHR '':'' \<and> c \<noteq> CHR ''+'' then run_then (poke p NUL b) (\<lambda>b. read_tag p b (buf @ [c]) s)
      else Ret (b, buf, s))"

lemma read_tag_length: "read_tag p b buf s = Ret (b', buf', s') \<Longrightarrow> length s' < length s"
  by (induction p b buf s rule: read_tag.induct) (fastforce split: if_split_asm)+

function parse_loop ::
  "oper_list list \<Rightarrow> char list \<Rightarrow> nat \<Rightarrow> ac_symbol list \<Rightarrow> bool \<Rightarrow> string \<Rightarrow> (char list \<times> ac_symbol list) run" where
  "parse_loop operands b p acc is_mnemonic_suffix [] = run_then (poke p NUL b) (\<lambda>b. Ret (b, acc))"
| "parse_loop operands b p acc is_mnemonic_suffix (c # args) =
     (if c = CHR ''%'' then
        (case read_tag p b [] args of
           Undef \<Rightarrow> Undef
         | Exit \<Rightarrow> Exit
         | Ret (b, buf, args) \<Rightarrow>
             (let operand_id = unat (of_int (atoi buf) :: u32) in
              if length operands \<le> operand_id then Undef
              else
                let opr = operands ! operand_id; p' = p + length (ol_name opr);
                    acc = acc @ [\<lparr>sy_type = ol_name opr, sy_is_list = ol_is_list opr, sy_oper_id = operand_id\<rparr>] in
                run_then (strcat_at p (ol_name opr) b) (\<lambda>b.
                  if starts (CHR ''+'') args
                  then run_then (strcat_at p' ''+'' b) (\<lambda>b. parse_loop operands b (p' + 1) acc is_mnemonic_suffix (tl args))
                  else parse_loop operands b p' acc is_mnemonic_suffix args)))
      else if c = CHR 0x5C then
        (case args of
           [] \<Rightarrow> Undef
         | _ # args \<Rightarrow> parse_loop operands b p acc is_mnemonic_suffix (dropWhile isalpha args))
      else if c = CHR '' '' \<and> is_mnemonic_suffix then
        run_then (poke p (CHR 0x09) b) (\<lambda>b. parse_loop operands b (p + 1) acc False args)
      else run_then (poke p c b) (\<lambda>b. parse_loop operands b (p + 1) acc is_mnemonic_suffix args))"
  by pat_completeness auto
termination
  by (relation "measure (\<lambda>(operands, b, p, acc, sfx, args). length args)")
    (auto dest: read_tag_length simp: le_imp_less_Suc length_dropWhile_le less_Suc_eq_le le_SucI)

definition parse :: "oper_list list \<Rightarrow> char list \<Rightarrow> string \<Rightarrow> (char list \<times> ac_symbol list) run" where
  "parse operands bufInitial args = parse_loop operands bufInitial 0 [] True args"

subsection \<open>Putting a text into the template\<close>

text \<open>
  The comparison of \<open>*old\<close> with \<open>*str\<close> after a match goes on behind the NUL of \<open>old\<close> when \<open>str\<close> is at
  its end. \<open>mem\<close> holds the characters of \<open>old\<close>, its NUL and what may be read behind.
\<close>

fun skip_old :: "char list \<Rightarrow> string \<Rightarrow> string run" where
  "skip_old [] s = Undef"
| "skip_old (o' # mem) s =
     (if o' = (case s of [] \<Rightarrow> NUL | c # _ \<Rightarrow> c) then skip_old mem (tl s) else Ret s)"

fun replace_loop :: "string \<Rightarrow> string \<Rightarrow> string \<Rightarrow> string \<Rightarrow> string \<Rightarrow> string run" where
  "replace_loop old behind new out [] = Ret out"
| "replace_loop old behind new out (c # s) =
     (if take (length old) (c # s) = old
      then run_then (skip_old (old @ NUL # behind) (c # s)) (\<lambda>s. Ret (out @ new @ s))
      else replace_loop old behind new (out @ [c]) s)"

text \<open>The copy has 50 characters; the result is written to the array of 100 characters.\<close>

definition replace :: "string \<Rightarrow> string \<Rightarrow> string \<Rightarrow> string \<Rightarrow> string run" where
  "replace behind ptr_ret old new =
     (if 50 \<le> length ptr_ret then Undef
      else run_then (replace_loop old behind new [] ptr_ret) (\<lambda>s. if length s < 100 then Ret s else Undef))"

subsection \<open>The operands\<close>

record acasm_symbol =
  us_symbol :: string
  us_cspec :: string
  us_value :: u64

text \<open>
  \<open>dt_behind\<close> gives what is in memory behind the name of an operand; \<open>dt_parms\<close> and \<open>dt_stack\<close> are the
  uninitialised variables \<open>mp\<close> and \<open>symbolaux\<close>. The result of \<open>read_memory_func\<close> is a status and the
  bytes it stored; \<open>dt_buffer\<close> is the uninitialised \<open>the_buffer\<close>.
\<close>

record dis_target =
  dt_formats :: "ac_dec_format list"
  dt_opcodes :: "acasm_opcode list"
  dt_operands :: "oper_list list"
  dt_symbols :: "acasm_symbol list"
  dt_modfndec :: "modifier list"
  dt_endian :: int
  dt_max_format_size :: u32
  dt_variable_format_size :: bool
  dt_behind :: "string \<Rightarrow> string"
  dt_parms :: mod_parms
  dt_stack :: "char list"
  dt_read_memory :: "u64 \<Rightarrow> nat \<Rightarrow> int \<times> u8 list"
  dt_buffer :: "u8 list"

record dis_state =
  ds_final :: string
  ds_addr_value :: u32
  ds_imm_value :: u64

definition names_symbol :: "string \<Rightarrow> u64 \<Rightarrow> acasm_symbol \<Rightarrow> bool" where
  "names_symbol type v s \<longleftrightarrow> strcmp type (us_cspec s) = 0 \<and> v = us_value s"

text \<open>The names of the results of a list operator, in \<open>symbolaux\<close>.\<close>

fun list_text :: "acasm_symbol list \<Rightarrow> string \<Rightarrow> nat \<Rightarrow> list_op_result list \<Rightarrow> char list \<Rightarrow> char list run" where
  "list_text symbols type leng [] symbolaux = Ret symbolaux"
| "list_text symbols type leng (r # rs) symbolaux =
     (case find_first (names_symbol type (ucast (lr_result r))) symbols of
        Some s \<Rightarrow>
          run_then (strcpy_at leng (us_symbol s) symbolaux) (\<lambda>symbolaux.
            let leng = leng + length (us_symbol s) in
            if rs \<noteq> [] then run_then (strcpy_at leng '','' symbolaux) (\<lambda>symbolaux. list_text symbols type (leng + 1) rs symbolaux)
            else list_text symbols type leng rs symbolaux)
      | None \<Rightarrow>
          run_then (strcpy_at 0 (hex_text False (unat (lr_result r))) symbolaux) (\<lambda>symbolaux.
            list_text symbols type leng rs symbolaux))"

text \<open>Every symbol with the value is copied to \<open>symbolaux\<close>; the last one stays.\<close>

fun symbol_text :: "acasm_symbol list \<Rightarrow> string \<Rightarrow> u64 \<Rightarrow> string option \<Rightarrow> string option run" where
  "symbol_text [] type v found = Ret found"
| "symbol_text (s # symbols) type v found =
     (if names_symbol type v s
      then if length (us_symbol s) < 100 then symbol_text symbols type v (Some (us_symbol s)) else Undef
      else symbol_text symbols type v found)"

definition put_text :: "dis_target \<Rightarrow> ac_symbol \<Rightarrow> string \<Rightarrow> dis_state \<Rightarrow> dis_state run" where
  "put_text D acs text st =
     run_then (replace (dt_behind D (sy_type acs)) (ds_final st) (sy_type acs) text) (\<lambda>s. Ret (st\<lparr>ds_final := s\<rparr>))"

definition is_value_type :: "string \<Rightarrow> bool" where
  "is_value_type type \<longleftrightarrow> type = ''exp'' \<or> type = ''imm'' \<or> type = ''addr''"

definition operand_parms :: "dis_target \<Rightarrow> u64 \<Rightarrow> u64 \<Rightarrow> nat \<Rightarrow> mod_parms" where
  "operand_parms D memaddr v oper_id =
     (dt_parms D)\<lparr>mp_input := ucast v, mp_address := ucast memaddr,
        mp_addend := of_int (ol_mod_addend (dt_operands D ! oper_id)), mp_list_results := []\<rparr>"

definition print_list :: "dis_target \<Rightarrow> u64 \<Rightarrow> u64 \<Rightarrow> ac_symbol \<Rightarrow> dis_state \<Rightarrow> dis_state run" where
  "print_list D memaddr v acs st =
     run_then (decode_modifier (dt_modfndec D) (dt_operands D) (operand_parms D memaddr v (sy_oper_id acs)) (sy_oper_id acs)) (\<lambda>mp.
       if mp_list_results mp \<noteq> []
       then run_then (list_text (dt_symbols D) (sy_type acs) 0 (mp_list_results mp) (dt_stack D)) (\<lambda>symbolaux.
              run_then (str_at 0 symbolaux) (\<lambda>text. put_text D acs text st))
       else put_text D acs (hex_text False (unat v)) st)"

definition print_symbol :: "dis_target \<Rightarrow> u64 \<Rightarrow> ac_symbol \<Rightarrow> dis_state \<Rightarrow> dis_state run" where
  "print_symbol D v acs st =
     run_then (symbol_text (dt_symbols D) (sy_type acs) v None) (\<lambda>found.
       case found of
         Some text \<Rightarrow> put_text D acs text st
       | None \<Rightarrow> put_text D acs (hex_text False (unat v)) st)"

definition print_value :: "dis_target \<Rightarrow> u64 \<Rightarrow> u64 \<Rightarrow> u64 \<Rightarrow> nat \<Rightarrow> ac_symbol \<Rightarrow> dis_state \<Rightarrow> dis_state run" where
  "print_value D memaddr insn v bit_size acs st =
     (let mp = operand_parms D memaddr v (sy_oper_id acs);
          mp = (if mp_addend mp = 0 then mp\<lparr>mp_addend := ucast insn\<rparr> else mp) in
      run_then (decode_modifier (dt_modfndec D) (dt_operands D) mp (sy_oper_id acs)) (\<lambda>mp.
        let v = (if mp_output mp \<noteq> 0 then ucast (mp_output mp) else v) in
        run_then (put_text D acs (hex_text False (unat v)) st) (\<lambda>st.
        run_then (if sy_type acs = ''imm''
                  then run_then (sign_extend_to_long v bit_size) (\<lambda>x. Ret (st\<lparr>ds_imm_value := x\<rparr>))
                  else Ret st) (\<lambda>st.
          Ret (if sy_type acs = ''exp'' \<or> sy_type acs = ''addr'' then st\<lparr>ds_addr_value := ucast v\<rparr> else st)))))"

definition print_operand :: "dis_target \<Rightarrow> u64 \<Rightarrow> u64 \<Rightarrow> ac_symbol \<Rightarrow> dis_state \<Rightarrow> dis_state run" where
  "print_operand D memaddr insn acs st =
     run_then (get_value_from_fields (dt_operands D) (sy_oper_id acs) insn) (\<lambda>(x, bit_size).
       let v = ucast x in
       if sy_is_list acs then print_list D memaddr v acs st
       else if \<not> is_value_type (sy_type acs) then print_symbol D v acs st
       else print_value D memaddr insn v (unat bit_size) acs st)"

fun print_operands :: "dis_target \<Rightarrow> u64 \<Rightarrow> u64 \<Rightarrow> ac_symbol list \<Rightarrow> dis_state \<Rightarrow> dis_state run" where
  "print_operands D memaddr insn [] st = Ret st"
| "print_operands D memaddr insn (acs # rest) st =
     run_then (print_operand D memaddr insn acs st) (\<lambda>st. print_operands D memaddr insn rest st)"

subsection \<open>The instruction\<close>

definition opcode_fits :: "dis_target \<Rightarrow> u64 \<Rightarrow> u32 \<Rightarrow> acasm_opcode \<Rightarrow> bool" where
  "opcode_fits D insn insn_size op \<longleftrightarrow>
     insn AND oc_dmask op = oc_image op \<and> oc_pseudo_idx op = 0 \<and>
     ucast insn_size = insn_size_of (dt_formats D) (unat (oc_format_id op))"

datatype dis_comment = No_comment | Address_comment u32 | Number_comment int

record dis_result =
  dr_text :: string
  dr_comment :: dis_comment
  dr_bytes :: u32

definition finish_insn :: "string \<Rightarrow> u32 \<Rightarrow> dis_state \<Rightarrow> dis_result" where
  "finish_insn mnemonic n_bits st =
     \<lparr>dr_text = mnemonic @ ds_final st,
      dr_comment = (if ds_addr_value st \<noteq> 0 then Address_comment (ds_addr_value st)
                    else if ds_imm_value st \<noteq> 0 then Number_comment (sint (ds_imm_value st)) else No_comment),
      dr_bytes = n_bits div 8\<rparr>"

text \<open>
  The array \<open>bufInitial\<close> is global; it comes with the result. The arguments are copied to 50 characters.
\<close>

definition disassemble :: "dis_target \<Rightarrow> char list \<Rightarrow> u64 \<Rightarrow> u64 \<Rightarrow> u32 \<Rightarrow> (dis_result \<times> char list) run" where
  "disassemble D bufInitial memaddr insn insn_size =
     (let no_operand = \<lparr>ds_final = hex_text False (unat insn), ds_addr_value = 0, ds_imm_value = 0\<rparr> in
      case find_first (opcode_fits D insn insn_size) (dt_opcodes D) of
        None \<Rightarrow> Ret (finish_insn [] insn_size no_operand, bufInitial)
      | Some op \<Rightarrow>
          (let n_bits = (ucast (insn_size_of (dt_formats D) (unat (oc_format_id op))) :: u32) in
           if 50 \<le> length (oc_args op) then Undef
           else
             run_then (parse (dt_operands D) bufInitial (oc_args op)) (\<lambda>(bufInitial, acs).
             run_then (str_at 0 bufInitial) (\<lambda>template.
             run_then (print_operands D memaddr insn acs \<lparr>ds_final = template, ds_addr_value = 0, ds_imm_value = 0\<rparr>) (\<lambda>st.
               Ret (if n_bits = 0 then finish_insn (oc_mnemonic op) insn_size (st\<lparr>ds_final := hex_text False (unat insn)\<rparr>)
                    else finish_insn (oc_mnemonic op) n_bits st, bufInitial))))))"

text \<open>
  \<open>fetch_data\<close>: the bytes up to \<open>n\<close> that are not yet in the buffer. A status other than 0 and 5 is
  reported, and \<open>longjmp\<close> makes \<open>print_insn\<close> return -1: \<open>Inl\<close>.
\<close>

definition fetch_data :: "dis_target \<Rightarrow> u64 \<Rightarrow> nat \<Rightarrow> nat \<Rightarrow> u8 list \<Rightarrow> int + u8 list" where
  "fetch_data D memaddr fetched n buffer =
     (case dt_read_memory D (memaddr + of_nat fetched) (n - fetched) of (status, bs) \<Rightarrow>
        if status \<noteq> 0 \<and> status \<noteq> 5 then Inl status
        else Inr (take fetched buffer @ bs @ drop (fetched + length bs) buffer))"

text \<open>
  The search over 8, 16, \<dots> bits; the last size with a row is kept. \<open>n\<close> sizes are left. The search
  for a row ends at the first one without a mask.
\<close>

fun find_size ::
  "dis_target \<Rightarrow> u64 \<Rightarrow> nat \<Rightarrow> nat \<Rightarrow> u8 list \<Rightarrow> (u64 \<times> u32) option \<Rightarrow> (int + (u64 \<times> u32) option) run" where
  "find_size D memaddr 0 localsize buffer found = Ret (Inr found)"
| "find_size D memaddr (Suc n) localsize buffer found =
     (case fetch_data D memaddr (localsize div 8 - 1) (localsize div 8) buffer of
        Inl e \<Rightarrow> Ret (Inl e)
      | Inr buffer \<Rightarrow>
          (let buffer = map (\<lambda>(i, x). if localsize div 8 \<le> i \<and> i \<le> 3 then 0 else x) (zip [0..<length buffer] buffer) in
           run_then (getbits localsize buffer (dt_endian D)) (\<lambda>insn.
             let found = (case find_first (opcode_fits D insn (of_nat localsize))
                                 (takeWhile (\<lambda>op. oc_dmask op \<noteq> 0) (dt_opcodes D)) of
                            None \<Rightarrow> found | Some _ \<Rightarrow> Some (insn, of_nat localsize)) in
             find_size D memaddr n (localsize + 8) buffer found)))"

datatype insn_read = Read_failed int | Printed dis_result

definition print_insn :: "dis_target \<Rightarrow> char list \<Rightarrow> u64 \<Rightarrow> (insn_read \<times> char list) run" where
  "print_insn D bufInitial memaddr =
     (let max_size = unat (dt_max_format_size D);
          go = (\<lambda>insn sz. run_then (disassemble D bufInitial memaddr insn sz) (\<lambda>(r, b). Ret (Printed r, b))) in
      if \<not> dt_variable_format_size D
      then case fetch_data D memaddr 0 (max_size div 8) (dt_buffer D) of
             Inl e \<Rightarrow> Ret (Read_failed e, bufInitial)
           | Inr buffer \<Rightarrow> run_then (getbits max_size buffer (dt_endian D)) (\<lambda>insn. go insn (dt_max_format_size D))
      else run_then (find_size D memaddr (max_size div 8) 8 (dt_buffer D) None) (\<lambda>r.
             case r of
               Inl e \<Rightarrow> Ret (Read_failed e, bufInitial)
             | Inr None \<Rightarrow> Undef
             | Inr (Some (insn, sz)) \<Rightarrow> go insn sz))"

end
