(* ===== verification/GasSymbols.thy ===== *)
theory GasSymbols
  imports Disassembler
begin

text \<open>
  The symbols of the assembler template, \<open>archc/src/acbinutils/binutils/gas/config/tc-xxxxx.c.in\<close>:
  the hash tables that \<open>md_begin\<close> fills, the lookup of a symbol under a map marker, and the aliases
  of \<open>.req\<close> and \<open>.unreq\<close>. The hash tables are those of gas, which is not in the repository: the
  operations are fields of \<open>gas_hash\<close>, and \<open>hash_laws\<close> says what their manual promises. A pointer into a
  table is an index.
\<close>

subsection \<open>Characters\<close>

definition isalnum :: "char \<Rightarrow> bool" where
  "isalnum c \<longleftrightarrow> isalpha c \<or> isdigit c"

definition ispunct :: "char \<Rightarrow> bool" where
  "ispunct c \<longleftrightarrow> (33 :: nat) \<le> of_char c \<and> of_char c \<le> (126 :: nat) \<and> \<not> isalnum c"

definition to_lower :: "char \<Rightarrow> char" where
  "to_lower c = (if isupper c then char_of (of_char c + 32 :: nat) else c)"

text \<open>The table \<open>charmap\<close> also maps the upper half of Latin letters.\<close>

definition charmap :: "char \<Rightarrow> char" where
  "charmap c = (let n = of_char c :: nat in
     if (65 \<le> n \<and> n \<le> 90) \<or> (193 \<le> n \<and> n \<le> 218) then char_of (n + 32) else c)"

definition strtolower :: "string \<Rightarrow> string" where
  "strtolower s = map charmap s"

subsection \<open>The hash tables\<close>

record 'h gas_hash =
  hash_new :: 'h
  hash_insert :: "'h \<Rightarrow> string \<Rightarrow> nat \<Rightarrow> 'h \<times> string option"
  hash_find :: "'h \<Rightarrow> string \<Rightarrow> nat option"

definition hash_laws :: "'h gas_hash \<Rightarrow> bool" where
  "hash_laws G \<longleftrightarrow> (\<forall>k. hash_find G (hash_new G) k = None) \<and>
     (\<forall>h k v. hash_find G h k = None \<longrightarrow> (\<exists>h'. hash_insert G h k v = (h', None) \<and>
        (\<forall>k'. hash_find G h' k' = (if k' = k then Some v else hash_find G h k')))) \<and>
     (\<forall>h k v. hash_find G h k \<noteq> None \<longrightarrow> hash_insert G h k v = (h, Some ''exists''))"

text \<open>
  One entry for each run of rows with the same mnemonic: the first. \<open>i\<close> is the index of the first row
  of the list and \<open>prev\<close> the mnemonic before it. A mnemonic that comes back later is an error: \<open>Exit\<close>.
\<close>

fun fill_op_hash :: "'h gas_hash \<Rightarrow> acasm_opcode list \<Rightarrow> nat \<Rightarrow> string option \<Rightarrow> 'h \<Rightarrow> 'h run" where
  "fill_op_hash G [] i prev h = Ret h"
| "fill_op_hash G (op # ops) i prev h =
     (if prev \<noteq> None \<and> strcmp (the prev) (oc_mnemonic op) = 0 then fill_op_hash G ops (i + 1) prev h
      else case hash_insert G h (oc_mnemonic op) i of
        (h, None) \<Rightarrow> fill_op_hash G ops (i + 1) (Some (oc_mnemonic op)) h
      | (h, Some _) \<Rightarrow> Exit)"

fun fill_sym_hash :: "'h gas_hash \<Rightarrow> bool \<Rightarrow> acasm_symbol list \<Rightarrow> nat \<Rightarrow> 'h \<Rightarrow> 'h run" where
  "fill_sym_hash G insensitive_symbols [] i h = Ret h"
| "fill_sym_hash G insensitive_symbols (s # symbols) i h =
     (case hash_insert G h (if insensitive_symbols then strtolower (us_symbol s) else us_symbol s) i of
        (h, retval) \<Rightarrow>
          if retval \<noteq> None \<and> strcmp ''exists'' (the retval) \<noteq> 0 then Exit
          else fill_sym_hash G insensitive_symbols symbols (i + 1) h)"

definition md_begin :: "'h gas_hash \<Rightarrow> bool \<Rightarrow> acasm_opcode list \<Rightarrow> acasm_symbol list \<Rightarrow> ('h \<times> 'h) run" where
  "md_begin G insensitive_symbols ops symbols =
     run_then (fill_op_hash G ops 0 None (hash_new G)) (\<lambda>op_hash.
     run_then (fill_sym_hash G insensitive_symbols symbols 0 (hash_new G)) (\<lambda>sym_hash. Ret (op_hash, sym_hash)))"

subsection \<open>Looking up a symbol\<close>

record acaliastype =
  old_name :: string
  new_name :: string

text \<open>The search goes on behind the symbol found, as long as the name stays the same.\<close>

fun marker_loop :: "string \<Rightarrow> string \<Rightarrow> acasm_symbol list \<Rightarrow> acasm_symbol option" where
  "marker_loop name marker [] = None"
| "marker_loop name marker (s # rest) =
     (if strcmp (us_cspec s) marker \<noteq> 0 \<and> rest \<noteq> [] \<and> strcmp (us_symbol (hd rest)) name = 0
      then marker_loop name marker rest else Some s)"

definition symbol_at :: "acasm_symbol list \<Rightarrow> nat \<Rightarrow> string \<Rightarrow> string \<Rightarrow> u32 option" where
  "symbol_at symbols i name marker =
     (case marker_loop name marker (drop i symbols) of
        None \<Rightarrow> None
      | Some s \<Rightarrow> if strcmp (us_cspec s) marker = 0 \<and> strcmp (us_symbol s) name = 0 then Some (ucast (us_value s)) else None)"

definition prefix_of :: "string \<Rightarrow> string \<Rightarrow> bool" where
  "prefix_of p s \<longleftrightarrow> take (length p) s = p"

text \<open>
  \<open>ac_valid_symbol\<close> calls itself for the old name of an alias and may not return: \<open>None\<close>.
\<close>

partial_function (option) lookup_symbol ::
  "'h gas_hash \<Rightarrow> 'h \<Rightarrow> acasm_symbol list \<Rightarrow> acaliastype list \<Rightarrow> string \<Rightarrow> string \<Rightarrow> u32 option option" where
  "lookup_symbol G sym_hash symbols req_alias marker name =
     (case hash_find G sym_hash name of
        None \<Rightarrow>
          (case find_first (\<lambda>p. prefix_of (new_name p) name) req_alias of
             None \<Rightarrow> Some None
           | Some p \<Rightarrow> lookup_symbol G sym_hash symbols req_alias marker (old_name p))
      | Some i \<Rightarrow>
          Some (if marker = [] then Some (ucast (us_value (symbols ! i))) else symbol_at symbols i name marker))"

definition ac_valid_symbol ::
  "'h gas_hash \<Rightarrow> 'h \<Rightarrow> acasm_symbol list \<Rightarrow> acaliastype list \<Rightarrow> string \<Rightarrow> string \<Rightarrow> u32 option run" where
  "ac_valid_symbol G sym_hash symbols req_alias marker name =
     (case lookup_symbol G sym_hash symbols req_alias marker name of None \<Rightarrow> Undef | Some r \<Rightarrow> Ret r)"

definition ac_symbol_dispensable :: "'h gas_hash \<Rightarrow> 'h \<Rightarrow> acasm_symbol list \<Rightarrow> string \<Rightarrow> u32 option run" where
  "ac_symbol_dispensable G sym_hash symbols marker =
     (if strcmp marker [] = 0 then Exit
      else case hash_find G sym_hash [] of
        None \<Rightarrow> Ret None
      | Some i \<Rightarrow> Ret (symbol_at symbols i [] marker))"

subsection \<open>Aliases\<close>

datatype req_error =
    First_too_long
  | Bad_character char
  | Malformed_req
  | Second_too_long
  | Junk_in_req
  | No_such_symbol string
  | Redefinition string

text \<open>
  The characters of the directive are stored in \<open>directive[5]\<close>; with four of them it is not
  terminated and \<open>strncmp\<close> compares four; with fewer that agree it reads what is not set. The result is the error or the two operands, then the error
  or the new list of aliases.
\<close>

definition req_operands :: "string \<Rightarrow> (req_error + (string \<times> string)) run" where
  "req_operands str =
     (let s = dropWhile isspace str in
      if s = [] then Exit
      else
        let operand1 = map to_lower (takeWhile isalnum s); s = dropWhile isalnum s in
        if 128 < length operand1 then Ret (Inl First_too_long)
        else if s = [] \<or> \<not> isspace (hd s) then Ret (Inl (Bad_character (if s = [] then NUL else hd s)))
        else
          let s = dropWhile isspace s;
              directive = map to_lower (takeWhile (\<lambda>c. isalnum c \<or> ispunct c) s);
              s = dropWhile (\<lambda>c. isalnum c \<or> ispunct c) s in
          if 5 \<le> length directive then Ret (Inl Malformed_req)
          else if directive \<noteq> ''.req'' \<and> take (length directive) ''.req'' = directive then Undef
          else if directive \<noteq> ''.req'' \<or> s = [] \<or> \<not> isspace (hd s) then Ret (Inl Malformed_req)
          else
            let s = dropWhile isspace s;
                operand2 = map to_lower (takeWhile isalnum s); s = dropWhile isspace (dropWhile isalnum s) in
            if 128 < length operand2 then Ret (Inl Second_too_long)
            else if s \<noteq> [] then Ret (Inl Junk_in_req)
            else Ret (Inr (operand1, operand2)))"

definition ac_parse_req ::
  "(string \<Rightarrow> string \<Rightarrow> u32 option run) \<Rightarrow> acaliastype list \<Rightarrow> string \<Rightarrow> (req_error + acaliastype list) run" where
  "ac_parse_req valid req_alias str =
     run_then (req_operands str) (\<lambda>r.
       case r of
         Inl e \<Rightarrow> Ret (Inl e)
       | Inr (operand1, operand2) \<Rightarrow>
           run_then (valid [] operand2) (\<lambda>v2.
             if v2 = None then Ret (Inl (No_such_symbol operand2))
             else run_then (valid [] operand1) (\<lambda>v1.
               if v1 \<noteq> None then Ret (Inl (Redefinition operand1))
               else Ret (Inr (\<lparr>old_name = operand2, new_name = operand1\<rparr> # req_alias)))))"

text \<open>\<open>s_unreq\<close>: the name is compared on its own length; the first alias found is unlinked.\<close>

fun unlink :: "string \<Rightarrow> acaliastype list \<Rightarrow> acaliastype list option" where
  "unlink name [] = None"
| "unlink name (p # ps) =
     (if take (length name) (new_name p) = name then Some ps else map_option ((#) p) (unlink name ps))"

datatype unreq_error = Unreq_too_long | Unreq_no_such string

definition s_unreq :: "acaliastype list \<Rightarrow> string \<Rightarrow> unreq_error + acaliastype list" where
  "s_unreq req_alias line =
     (let name = takeWhile isalnum (dropWhile isspace line) in
      if 128 < length name then Inl Unreq_too_long
      else case unlink name req_alias of None \<Rightarrow> Inl (Unreq_no_such name) | Some ps \<Rightarrow> Inr ps)"

end
