(* ===== verification/GasAssembler.thy ===== *)
theory GasAssembler
  imports GasSymbols
begin

text \<open>
  The assembler of the template \<open>archc/src/acbinutils/binutils/gas/config/tc-xxxxx.c.in\<close>: operands,
  mnemonic suffixes, the search of the row, pseudo instructions and the encoded instruction. A
  pointer into the text is the rest of the text behind it. The readers of expressions and numbers
  are gas's: fields of \<open>gas_env\<close>, which get the function that gas calls for every name.
\<close>

subsection \<open>State\<close>

datatype gas_expr =
    X_absent
  | X_symbol string int
  | X_constant int
  | X_compound
  | X_other

datatype gas_error =
    Invalid_syntax
  | Only_plt
  | Not_supported
  | Invalid_expression
  | Expected_address
  | Operand_missing
  | Unrecognized_symbol
  | Unrecognized_mnemonic
  | Expected_number
  | Symbol_in_expression

text \<open>What \<open>parse_name\<close> does with a name: nothing, or an error and the place to read on.\<close>

type_synonym name_hook = "string \<Rightarrow> string \<Rightarrow> (gas_error \<times> string) option run"

record 'h gas_env =
  ge_hash :: "'h gas_hash"
  ge_op_hash :: 'h
  ge_sym_hash :: 'h
  ge_opcodes :: "acasm_opcode list"
  ge_symbols :: "acasm_symbol list"
  ge_operands :: "oper_list list"
  ge_pseudo_instrs :: "string option list"
  ge_formats :: "ac_dec_format list"
  ge_modfn :: "modifier list"
  ge_max_fields :: nat
  ge_insensitive_symbols :: bool
  ge_original_case :: "string option"
  ge_expression :: "name_hook \<Rightarrow> string \<Rightarrow> (gas_expr \<times> string \<times> gas_error option) run"
  ge_single_number :: "name_hook \<Rightarrow> string \<Rightarrow> (int \<times> string \<times> gas_error option) run"
  ge_frag_now_fix :: u32
  ge_parms :: mod_parms
  ge_stack :: u32

record insn_encoding =
  oi_image :: u32
  oi_format :: u32
  oi_is_pseudo :: nat
  oi_op_pos :: "string list"
  oi_fixups :: "(gas_expr \<times> nat) list"
  oi_invalid :: "u32 list"
  oi_save_expr :: char

definition clean_out_insn :: "insn_encoding \<Rightarrow> insn_encoding" where
  "clean_out_insn o' = o'\<lparr>oi_image := 0, oi_format := 0, oi_is_pseudo := 0, oi_op_pos := [], oi_fixups := []\<rparr>"

definition push_pos :: "string \<Rightarrow> insn_encoding \<Rightarrow> insn_encoding run" where
  "push_pos s o' = (if length (oi_op_pos o') < 18 then Ret (o'\<lparr>oi_op_pos := oi_op_pos o' @ [s]\<rparr>) else Undef)"

definition create_fixup :: "gas_expr \<Rightarrow> nat \<Rightarrow> insn_encoding \<Rightarrow> insn_encoding" where
  "create_fixup e oper_id o' = (if oi_is_pseudo o' \<noteq> 0 then o' else o'\<lparr>oi_fixups := oi_fixups o' @ [(e, oper_id)]\<rparr>)"

text \<open>A modifier's error is reported and the assembly goes on; \<open>oi_invalid\<close> are the reports.\<close>

definition encode_field :: "'h gas_env \<Rightarrow> u32 \<Rightarrow> nat \<Rightarrow> list_op_result list \<Rightarrow> insn_encoding \<Rightarrow> insn_encoding run" where
  "encode_field E val_const oper_id lr o' =
     (if oi_is_pseudo o' \<noteq> 0 then Ret o'
      else
        let mp = (ge_parms E)\<lparr>mp_input := val_const, mp_address := ge_frag_now_fix E,
                    mp_section := Some ''no symbol'', mp_list_results := lr\<rparr> in
        run_then (encode_cons_field (ge_formats E) (ge_operands E) (ge_modfn E) (ge_max_fields E) (oi_image o') mp oper_id)
          (\<lambda>(img, mp). Ret (o'\<lparr>oi_image := img,
             oi_invalid := oi_invalid o' @ (if mp_error mp \<noteq> 0 then [val_const] else [])\<rparr>)))"

subsection \<open>Reading an operand\<close>

definition operand_start :: "char \<Rightarrow> bool" where
  "operand_start c \<longleftrightarrow> isalpha c \<or> isdigit c \<or> c \<in> set ''%!@#$&*-+=|:<>^~?/,_''"

definition operand_char :: "char \<Rightarrow> bool" where
  "operand_char c \<longleftrightarrow> isalpha c \<or> isdigit c \<or> c = CHR ''.'' \<or> c = CHR ''_''"

definition env_symbol :: "'h gas_env \<Rightarrow> acaliastype list \<Rightarrow> string \<Rightarrow> string \<Rightarrow> u32 option run" where
  "env_symbol E al marker name = ac_valid_symbol (ge_hash E) (ge_sym_hash E) (ge_symbols E) al marker name"

text \<open>The value of an operand left out, or the error.\<close>

definition dispensable :: "'h gas_env \<Rightarrow> string \<Rightarrow> gas_error \<Rightarrow> string \<Rightarrow> (gas_error + (u32 \<times> string)) run" where
  "dispensable E opclass e s =
     run_then (ac_symbol_dispensable (ge_hash E) (ge_sym_hash E) (ge_symbols E) opclass) (\<lambda>v.
       Ret (case v of None \<Rightarrow> Inl e | Some v \<Rightarrow> Inr (v, s)))"

definition get_userdefoper ::
  "'h gas_env \<Rightarrow> acaliastype list \<Rightarrow> string \<Rightarrow> string \<Rightarrow> (gas_error + (u32 \<times> string)) run" where
  "get_userdefoper E al opclass s =
     (case s of
        [] \<Rightarrow> dispensable E opclass Operand_missing s
      | c # t \<Rightarrow>
          if \<not> operand_start c then dispensable E opclass Unrecognized_symbol s
          else
            let name = c # takeWhile operand_char t in
            run_then (env_symbol E al opclass name) (\<lambda>v.
              case v of
                None \<Rightarrow> dispensable E opclass Unrecognized_symbol s
              | Some v \<Rightarrow> Ret (Inr (v, dropWhile operand_char t))))"

text \<open>\<open>save_expr\<close> is the first character of the expression, \<open>rest\<close> what follows the name.\<close>

definition gas_parse_name :: "'h gas_env \<Rightarrow> acaliastype list \<Rightarrow> bool \<Rightarrow> char \<Rightarrow> name_hook" where
  "gas_parse_name E al in_imm_mode save_expr name rest =
     (if in_imm_mode then Ret (Some (Expected_number, rest))
      else run_then (env_symbol E al [] name) (\<lambda>v.
        if v = None then Ret None
        else
          let close = (if save_expr = CHR ''['' then Some (CHR '']'') else if save_expr = CHR ''('' then Some (CHR '')'') else None) in
          case close of
            None \<Rightarrow> Ret (Some (Symbol_in_expression, rest))
          | Some k \<Rightarrow>
              (let r = dropWhile (\<lambda>c. c \<noteq> k) rest in
               Ret (Some (Symbol_in_expression, if r = [] then rest else r)))))"

definition first_char :: "string \<Rightarrow> char" where
  "first_char s = (case s of [] \<Rightarrow> NUL | c # _ \<Rightarrow> c)"

definition get_expression :: "'h gas_env \<Rightarrow> acaliastype list \<Rightarrow> string \<Rightarrow> (gas_expr \<times> string \<times> gas_error option) run" where
  "get_expression E al s = ge_expression E (gas_parse_name E al False (first_char s)) s"

text \<open>\<open>get_address\<close> does not set \<open>save_expr\<close>: \<open>save\<close> is what the last expression left there.\<close>

definition get_address :: "'h gas_env \<Rightarrow> acaliastype list \<Rightarrow> char \<Rightarrow> string \<Rightarrow> (gas_expr \<times> string \<times> gas_error option) run" where
  "get_address E al save s = ge_expression E (gas_parse_name E al False save) s"

definition get_immediate :: "'h gas_env \<Rightarrow> acaliastype list \<Rightarrow> string \<Rightarrow> (int \<times> string \<times> gas_error option) run" where
  "get_immediate E al s = ge_single_number E (gas_parse_name E al True NUL) s"

datatype ac_reloc = R_GOT | R_GOTOFF | R_PLT

text \<open>
  The characters copied to \<open>id[16]\<close>; a comparison that would go beyond them reads what is not set.
\<close>

fun reloc_search :: "string \<Rightarrow> (string \<times> ac_reloc) list \<Rightarrow> (string \<times> ac_reloc) option run" where
  "reloc_search w [] = Ret None"
| "reloc_search w ((str, r) # map') =
     (if length w < length str \<and> take (length w) str = w then Undef
      else if take (length str) w = str then Ret (Some (str, r))
      else reloc_search w map')"

definition ac_parse_reloc :: "string \<Rightarrow> (ac_reloc \<times> string) option run" where
  "ac_parse_reloc s =
     (let w = map to_lower (take 16 (takeWhile (\<lambda>c. isalnum c \<or> ispunct c) s)) in
      run_then (reloc_search w [(''(got)'', R_GOT), (''(gotoff)'', R_GOTOFF), (''(plt)'', R_PLT)]) (\<lambda>r.
        Ret (case r of None \<Rightarrow> None | Some (str, x) \<Rightarrow> Some (x, drop (length str) s))))"

text \<open>
  What one operand gives: a value, a relocation, or an error with the flag \<open>KEEP_GOING\<close>. \<open>s\<close> is the
  rest of the text.
\<close>

datatype operand_result =
    Op_value u32 string
  | Op_fixup gas_expr string
  | Op_error gas_error bool

definition reloc_suffix :: "gas_expr \<Rightarrow> string \<Rightarrow> operand_result run" where
  "reloc_suffix e s =
     (if first_char s = CHR ''('' then
        run_then (ac_parse_reloc s) (\<lambda>r.
          case r of
            None \<Rightarrow> Ret (Op_fixup e s)
          | Some (x, s) \<Rightarrow> Ret (if x \<noteq> R_PLT then Op_error Only_plt False else Op_fixup e s))
      else Ret (Op_fixup e s))"

definition read_operand ::
  "'h gas_env \<Rightarrow> acaliastype list \<Rightarrow> char \<Rightarrow> oper_list \<Rightarrow> string \<Rightarrow> operand_result run" where
  "read_operand E al save opr s =
     (case ol_type opr of
        op_exp \<Rightarrow>
          run_then (get_expression E al s) (\<lambda>(e, s, err).
            case err of
              Some x \<Rightarrow> Ret (Op_error x True)
            | None \<Rightarrow>
                (case e of
                   X_symbol n k \<Rightarrow> reloc_suffix e s
                 | X_constant k \<Rightarrow> Ret (Op_value (of_int k) s)
                 | X_compound \<Rightarrow> Ret (Op_error Not_supported False)
                 | _ \<Rightarrow> Ret (Op_error Invalid_expression True)))
      | op_imm \<Rightarrow>
          run_then (get_immediate E al s) (\<lambda>(k, s, err).
            Ret (case err of Some x \<Rightarrow> Op_error x True | None \<Rightarrow> Op_value (of_int k) s))
      | op_addr \<Rightarrow>
          run_then (get_address E al save s) (\<lambda>(e, s, err).
            case err of
              Some x \<Rightarrow> Ret (Op_error x True)
            | None \<Rightarrow>
                (case e of
                   X_symbol n k \<Rightarrow> if ol_is_list opr then Exit else reloc_suffix e s
                 | _ \<Rightarrow> Ret (Op_error Expected_address True)))
      | op_userdef \<Rightarrow>
          run_then (get_userdefoper E al (ol_name opr) s) (\<lambda>r.
            Ret (case r of Inl x \<Rightarrow> Op_error x True | Inr (v, s) \<Rightarrow> Op_value v s)))"

definition set_separator :: "char \<Rightarrow> list_op_result list \<Rightarrow> list_op_result list run" where
  "set_separator c lr = (if lr = [] then Undef else Ret (butlast lr @ [(last lr)\<lparr>lr_separator := c\<rparr>]))"

definition create_list_results_node :: "list_op_result list \<Rightarrow> u32 \<Rightarrow> list_op_result list" where
  "create_list_results_node lr v = lr @ [\<lparr>lr_result = v, lr_separator = NUL\<rparr>]"

text \<open>
  One turn of the switch: the list of results, the value of a user defined operand, the encoding.
\<close>

definition operand_turn ::
  "'h gas_env \<Rightarrow> acaliastype list \<Rightarrow> nat \<Rightarrow> u32 \<Rightarrow> list_op_result list \<Rightarrow> insn_encoding \<Rightarrow> string
     \<Rightarrow> ((gas_error \<times> bool \<times> insn_encoding) + (list_op_result list \<times> u32 \<times> insn_encoding \<times> string)) run" where
  "operand_turn E al oper_id symbol_value lr o' s =
     (let opr = ge_operands E ! oper_id in
      run_then (read_operand E al (oi_save_expr o') opr s) (\<lambda>r.
        let o' = (if ol_type opr = op_exp then o'\<lparr>oi_save_expr := first_char s\<rparr> else o') in
        case r of
          Op_error e keep \<Rightarrow> Ret (Inl (e, keep, o'))
        | Op_fixup e s \<Rightarrow> Ret (Inr (lr, symbol_value, create_fixup e oper_id o', s))
        | Op_value v s \<Rightarrow>
            (let symbol_value = (if ol_type opr = op_userdef then v else symbol_value) in
             if ol_is_list opr then Ret (Inr (create_list_results_node lr v, symbol_value, o', s))
             else run_then (encode_field E v oper_id [] o') (\<lambda>o'. Ret (Inr (lr, symbol_value, o', s))))))"

text \<open>
  The loop of the list operator. Every turn but the last reads a separator, so that the length of
  the text is enough fuel.
\<close>

fun list_loop ::
  "'h gas_env \<Rightarrow> acaliastype list \<Rightarrow> nat \<Rightarrow> nat \<Rightarrow> u32 \<Rightarrow> list_op_result list \<Rightarrow> insn_encoding \<Rightarrow> string
     \<Rightarrow> ((gas_error \<times> bool \<times> insn_encoding) + (insn_encoding \<times> string)) run" where
  "list_loop E al oper_id 0 symbol_value lr o' s = Undef"
| "list_loop E al oper_id (Suc n) symbol_value lr o' s =
     run_then (operand_turn E al oper_id symbol_value lr o' s) (\<lambda>r.
       case r of
         Inl e \<Rightarrow> Ret (Inl e)
       | Inr (lr, symbol_value, o', s) \<Rightarrow>
           (let s = dropWhile isspace s in
            if first_char s = CHR '','' \<or> first_char s = CHR ''-''
            then run_then (set_separator (first_char s) lr) (\<lambda>lr.
                   list_loop E al oper_id n symbol_value lr o' (dropWhile isspace (tl s)))
            else run_then (encode_field E symbol_value oper_id lr o') (\<lambda>o'. Ret (Inr (o', s)))))"

definition parse_operand ::
  "'h gas_env \<Rightarrow> acaliastype list \<Rightarrow> nat \<Rightarrow> insn_encoding \<Rightarrow> string \<Rightarrow> ((gas_error \<times> bool \<times> insn_encoding) + (insn_encoding \<times> string)) run" where
  "parse_operand E al oper_id o' s =
     (if ol_is_list (ge_operands E ! oper_id)
      then list_loop E al oper_id (Suc (length s)) (ge_stack E) [] o' s
      else run_then (operand_turn E al oper_id (ge_stack E) [] o' s) (\<lambda>r.
        Ret (case r of Inl e \<Rightarrow> Inl e | Inr (lr, v, o', s) \<Rightarrow> Inr (o', s))))"

subsection \<open>Parsing the operands of a row\<close>

text \<open>The characters up to the colon, in the 30 characters of \<open>op_buf\<close>.\<close>

fun op_tag :: "string \<Rightarrow> string \<Rightarrow> (string \<times> string) run" where
  "op_tag buf [] = Undef"
| "op_tag buf (c # s) =
     (if 30 \<le> length buf then Undef else if c = CHR '':'' then Ret (buf, s) else op_tag (buf @ [c]) s)"

lemma op_tag_length: "op_tag buf s = Ret (b, s') \<Longrightarrow> length s' < length s"
  by (induction buf s rule: op_tag.induct) (fastforce split: if_split_asm)+

definition tag_id :: "string \<Rightarrow> nat" where
  "tag_id buf = unat (of_int (atoi buf) :: u32)"

text \<open>The result: an error with the flag \<open>KEEP_GOING\<close>, or none; and the encoding.\<close>

function ac_parse_operands ::
  "'h gas_env \<Rightarrow> acaliastype list \<Rightarrow> insn_encoding \<Rightarrow> string \<Rightarrow> string \<Rightarrow> ((gas_error \<times> bool) option \<times> insn_encoding) run" where
  "ac_parse_operands E al o' s [] = Ret (if s \<noteq> [] then Some (Invalid_syntax, True) else None, o')"
| "ac_parse_operands E al o' s (a # args) =
     (if isspace a \<and> (s = [] \<or> \<not> isspace (hd s)) then Ret (Some (Invalid_syntax, True), o')
      else
        let args' = (if isspace a then args else a # args); s = dropWhile isspace (if isspace a then tl s else s) in
        if s = [] then Ret (Some (Invalid_syntax, True), o')
        else case args' of
          [] \<Rightarrow> Ret (Some (Invalid_syntax, True), o')
        | x # args'' \<Rightarrow>
            if x = CHR ''%'' then
              run_then (push_pos s o') (\<lambda>o'.
                case op_tag [] args'' of
                  Undef \<Rightarrow> Undef
                | Exit \<Rightarrow> Exit
                | Ret (buf, args) \<Rightarrow>
                    if length (ge_operands E) \<le> tag_id buf then Exit
                    else run_then (parse_operand E al (tag_id buf) o' s) (\<lambda>r.
                      case r of
                        Inl (e, keep, o') \<Rightarrow> Ret (Some (e, keep), o')
                      | Inr (o', s) \<Rightarrow> run_then (push_pos s o') (\<lambda>o'. ac_parse_operands E al o' s args)))
            else
              (case (if x = CHR 0x5C then args'' else args') of
                 [] \<Rightarrow> Ret (Some (Invalid_syntax, True), o')
               | y # args \<Rightarrow>
                   if hd s \<noteq> y then Ret (Some (Invalid_syntax, True), o')
                   else ac_parse_operands E al o' (tl s) args))"
  by pat_completeness auto
termination
  by (relation "measure (\<lambda>(E, al, o', s, args). length args)")
    (auto dest!: op_tag_length split: if_split_asm)

subsection \<open>Mnemonic suffixes\<close>

text \<open>
  The suffix is split at \<open>k\<close> characters, from its whole length down: the first \<open>k\<close> are offered to
  the operand, cut off with a NUL, the rest to a recursive call. At 0 the operand sees all of it.
\<close>

function parse_suffixes ::
  "'h gas_env \<Rightarrow> acaliastype list \<Rightarrow> insn_encoding \<Rightarrow> string \<Rightarrow> string \<Rightarrow> (gas_error option \<times> insn_encoding \<times> string \<times> string) run"
and parse_split ::
  "'h gas_env \<Rightarrow> acaliastype list \<Rightarrow> nat \<Rightarrow> nat \<Rightarrow> insn_encoding \<Rightarrow> string \<Rightarrow> string \<Rightarrow> (gas_error option \<times> insn_encoding \<times> string \<times> string) run"
where
  "parse_suffixes E al o' s [] = Ret (None, o', s, [])"
| "parse_suffixes E al o' s (a # args) =
     (if isspace a then Ret (if s \<noteq> [] \<and> isspace (hd s) then None else Some Unrecognized_mnemonic, o', s, a # args)
      else if a = CHR ''%'' then
        (case op_tag [] args of
           Undef \<Rightarrow> Undef
         | Exit \<Rightarrow> Exit
         | Ret (buf, args) \<Rightarrow>
             if length (ge_operands E) \<le> tag_id buf \<or> ol_type (ge_operands E ! tag_id buf) \<noteq> op_userdef then Exit
             else parse_split E al (tag_id buf) (length (takeWhile (\<lambda>c. \<not> isspace c) s)) o' s args)
      else
        (case (if a = CHR 0x5C then args else a # args) of
           [] \<Rightarrow> if s = [] then Undef else Ret (Some Unrecognized_mnemonic, o', s, [])
         | y # args \<Rightarrow>
             if s = [] \<or> hd s \<noteq> y then Ret (Some Unrecognized_mnemonic, o', s, y # args)
             else parse_suffixes E al o' (tl s) args))"
| "parse_split E al oper_id 0 o' s args =
     run_then (get_userdefoper E al (ol_name (ge_operands E ! oper_id)) s) (\<lambda>r.
       case r of
         Inl e \<Rightarrow> Ret (Some Unrecognized_mnemonic, o', s, args)
       | Inr (v, s) \<Rightarrow>
           run_then (parse_suffixes E al o' s args) (\<lambda>(err, o', s2, args2).
             if err \<noteq> None then Ret (err, o', s, args)
             else run_then (encode_field E v oper_id [] o') (\<lambda>o'.
               run_then (push_pos s2 o') (\<lambda>o'. Ret (None, o', s2, args2)))))"
| "parse_split E al oper_id (Suc k) o' s args =
     run_then (get_userdefoper E al (ol_name (ge_operands E ! oper_id)) (take (Suc k) s)) (\<lambda>r.
       case r of
         Inl e \<Rightarrow> parse_split E al oper_id k o' s args
       | Inr (v, rest) \<Rightarrow>
           if rest = take (Suc k) s then parse_split E al oper_id k o' s args
           else run_then (parse_suffixes E al o' (rest @ drop (Suc k) s) args) (\<lambda>(err, o', s2, args2).
             if err \<noteq> None then parse_split E al oper_id k o' s args
             else run_then (encode_field E v oper_id [] o') (\<lambda>o'.
               run_then (push_pos s2 o') (\<lambda>o'. Ret (None, o', s2, args2)))))"
  by pat_completeness auto
termination
  by (relation "measures [case_sum (\<lambda>(E, al, o', s, args). length args) (\<lambda>(E, al, oper_id, k, o', s, args). length args),
      case_sum (\<lambda>(E, al, o', s, args). 0) (\<lambda>(E, al, oper_id, k, o', s, args). Suc k)]")
    (auto dest!: op_tag_length split: if_split_asm)

subsection \<open>The instruction\<close>

text \<open>
  One row: the arguments are copied to 200 characters, and with \<open>insensitive_symbols\<close> the text behind
  the mnemonic is changed in place. The flags say that the suffixes failed and that the parser may
  go on to the next row.
\<close>

definition try_row ::
  "'h gas_env \<Rightarrow> acaliastype list \<Rightarrow> acasm_opcode \<Rightarrow> string \<Rightarrow> insn_encoding
     \<Rightarrow> (gas_error option \<times> bool \<times> bool \<times> string \<times> insn_encoding) run" where
  "try_row E al insn s o' =
     (if 200 \<le> length (oc_args insn) then Undef
      else
        let o' = (clean_out_insn o')\<lparr>oi_image := ucast (oc_image insn), oi_format := ucast (oc_format_id insn),
                    oi_is_pseudo := oc_pseudo_idx insn\<rparr>;
            operands = (\<lambda>s pos args o'. run_then (ac_parse_operands E al o' (dropWhile isspace pos) args) (\<lambda>(err, o').
              Ret (map_option fst err, False, (case err of None \<Rightarrow> True | Some (e, keep) \<Rightarrow> keep), s, o'))) in
        if oc_pseudo_idx insn \<noteq> 0
        then if s \<noteq> [] then if oc_args insn = [] then Undef else operands s s (tl (oc_args insn)) o'
             else operands s s (oc_args insn) o'
        else
          let s = (if ge_insensitive_symbols E then strtolower s else s);
              args = (if ge_insensitive_symbols E then strtolower (oc_args insn) else oc_args insn) in
          run_then (parse_suffixes E al o' s args) (\<lambda>(err, o', pos, args).
            if err \<noteq> None then Ret (err, True, True, s, o')
            else operands s pos (if args \<noteq> [] then tl args else args) o'))"

definition same_mnemonic :: "'h gas_env \<Rightarrow> nat \<Rightarrow> bool" where
  "same_mnemonic E i \<longleftrightarrow> i + 1 < length (ge_opcodes E) \<and>
     strcmp (oc_mnemonic (ge_opcodes E ! i)) (oc_mnemonic (ge_opcodes E ! (i + 1))) = 0"

text \<open>The loop over the rows with the mnemonic, from \<open>i\<close> on; the result has the row it stopped at.\<close>

function main_loop ::
  "'h gas_env \<Rightarrow> acaliastype list \<Rightarrow> nat \<Rightarrow> string \<Rightarrow> gas_error option \<Rightarrow> insn_encoding
     \<Rightarrow> (gas_error option \<times> gas_error option \<times> nat \<times> string \<times> insn_encoding) run" where
  "main_loop E al i s last_error o' =
     (if length (ge_opcodes E) \<le> i then Undef
      else case try_row E al (ge_opcodes E ! i) s o' of
        Undef \<Rightarrow> Undef
      | Exit \<Rightarrow> Exit
      | Ret (err, in_suffix, keep, s, o') \<Rightarrow>
          (let last_error = (if err \<noteq> None \<and> \<not> in_suffix then err else last_error) in
           if err \<noteq> None \<and> keep \<and> same_mnemonic E i then main_loop E al (i + 1) s last_error o'
           else Ret (err, last_error, i, s, o')))"
  by pat_completeness auto
termination by (relation "measure (\<lambda>(E, al, i, s, le, o'). length (ge_opcodes E) - i)") (auto simp: same_mnemonic_def)

declare main_loop.simps [simp del]

datatype assembled =
    Unknown_mnemonic
  | Bad_operands gas_error
  | Found nat insn_encoding

text \<open>
  The mnemonic is the first \<open>k\<close> characters of the text, from the first blank down. With
  \<open>sensitive_mno\<close> the name looked up is another string, which is not cut.
\<close>

fun outer_loop ::
  "'h gas_env \<Rightarrow> acaliastype list \<Rightarrow> string option \<Rightarrow> nat \<Rightarrow> string \<Rightarrow> gas_error option \<Rightarrow> insn_encoding
     \<Rightarrow> (assembled \<times> insn_encoding) run" where
  "outer_loop E al original 0 str last_error o' =
     Ret (case last_error of None \<Rightarrow> Unknown_mnemonic | Some e \<Rightarrow> Bad_operands e, o')"
| "outer_loop E al original (Suc k) str last_error o' =
     (case hash_find (ge_hash E) (ge_op_hash E) (case original of None \<Rightarrow> take (Suc k) str | Some m \<Rightarrow> m) of
        None \<Rightarrow> outer_loop E al original k str last_error o'
      | Some i \<Rightarrow>
          run_then (main_loop E al i (drop (Suc k) str) last_error o') (\<lambda>(err, last_error, j, s, o').
            if err = None then Ret (Found j o', o')
            else outer_loop E al original k (take (Suc k) str @ s) last_error o'))"

datatype asm_message =
    Req_message req_error
  | Unrecognized string
  | In_insn gas_error string
  | Nested_pseudo string
  | Invalid_value u32

record emitted =
  em_image :: u32
  em_bytes :: u64
  em_fixups :: "(gas_expr \<times> nat \<times> u32) list"

record asm_output =
  ao_aliases :: "acaliastype list"
  ao_insns :: "emitted list"
  ao_messages :: "asm_message list"
  ao_out_insn :: insn_encoding

text \<open>Every fixup gets the relocation of its operand; one without a symbol is an internal error.\<close>

definition emit_insn :: "'h gas_env \<Rightarrow> insn_encoding \<Rightarrow> emitted run" where
  "emit_insn E o' =
     (if \<exists>x \<in> set (oi_fixups o'). \<forall>n k. fst x \<noteq> X_symbol n k then Exit
      else Ret \<lparr>em_image = oi_image o', em_bytes = insn_size_of (ge_formats E) (unat (oi_format o')) div 8,
        em_fixups = map (\<lambda>(e, i). (e, i, ol_reloc_id (ge_operands E ! i))) (oi_fixups o')\<rparr>)"

text \<open>\<open>md_assemble\<close>, with what is done for a pseudo instruction as an argument.\<close>

definition md_assemble_with ::
  "('h gas_env \<Rightarrow> nat \<Rightarrow> string \<Rightarrow> asm_output \<Rightarrow> asm_output run) \<Rightarrow> bool \<Rightarrow> 'h gas_env \<Rightarrow> string \<Rightarrow> asm_output \<Rightarrow> asm_output run" where
  "md_assemble_with pseudo has_pseudo E str out =
     (let k = length (takeWhile (\<lambda>c. \<not> isspace c) str);
          original = (if has_pseudo then None else ge_original_case E);
          p_mnemonic = (case original of None \<Rightarrow> str | Some m \<Rightarrow> m) in
      if map to_lower (take 4 (dropWhile isspace (drop k str))) = ''.req'' then
        run_then (ac_parse_req (env_symbol E (ao_aliases out)) (ao_aliases out) str) (\<lambda>r.
          Ret (case r of
            Inl e \<Rightarrow> out\<lparr>ao_messages := ao_messages out @ [Req_message e]\<rparr>
          | Inr al \<Rightarrow> out\<lparr>ao_aliases := al\<rparr>))
      else
        run_then (outer_loop E (ao_aliases out) original k str None ((ao_out_insn out)\<lparr>oi_invalid := []\<rparr>)) (\<lambda>(res, o').
          let out = out\<lparr>ao_out_insn := o', ao_messages := ao_messages out @ map Invalid_value (oi_invalid o')\<rparr> in
          case res of
            Unknown_mnemonic \<Rightarrow> Ret (out\<lparr>ao_messages := ao_messages out @ [Unrecognized p_mnemonic]\<rparr>)
          | Bad_operands e \<Rightarrow> Ret (out\<lparr>ao_messages := ao_messages out @ [In_insn e p_mnemonic]\<rparr>)
          | Found i o' \<Rightarrow>
              if oc_pseudo_idx (ge_opcodes E ! i) \<noteq> 0 then pseudo E i p_mnemonic out
              else run_then (emit_insn E o') (\<lambda>e.
                Ret (out\<lparr>ao_insns := ao_insns out @ [e], ao_out_insn := o'\<lparr>oi_fixups := []\<rparr>\<rparr>))))"

subsection \<open>Pseudo instructions\<close>

definition nested_pseudo :: "'h gas_env \<Rightarrow> nat \<Rightarrow> string \<Rightarrow> asm_output \<Rightarrow> asm_output run" where
  "nested_pseudo E i p_mnemonic out = Ret (out\<lparr>ao_messages := ao_messages out @ [Nested_pseudo p_mnemonic]\<rparr>)"

text \<open>The texts between the pairs of positions, in nine buffers of 50 characters.\<close>

fun operand_texts :: "string list \<Rightarrow> string list run" where
  "operand_texts (a # b # ps) =
     (if 50 \<le> length a - length b then Exit
      else run_then (operand_texts ps) (\<lambda>ts. Ret (take (length a - length b) a # ts)))"
| "operand_texts _ = Ret []"

text \<open>The template of a member with the texts of the operands, in the 50 characters of \<open>new_insn\<close>.\<close>

fun expand_pseudo :: "string list \<Rightarrow> string \<Rightarrow> string \<Rightarrow> string run" where
  "expand_pseudo ts out [] = (if length out < 50 then Ret out else Undef)"
| "expand_pseudo ts out [c] =
     (if c = CHR 0x5C then Undef else if c = CHR ''%'' then Exit
      else if length out < 50 then expand_pseudo ts (out @ [c]) [] else Undef)"
| "expand_pseudo ts out (c # d # s) =
     (if c = CHR 0x5C then if length out < 50 then expand_pseudo ts (out @ [d]) s else Undef
      else if c = CHR ''%'' then
        if \<not> isdigit d \<or> length ts \<le> digit_val d then Exit
        else if length out + length (ts ! digit_val d) < 50 then expand_pseudo ts (out @ ts ! digit_val d) s else Undef
      else if length out < 50 then expand_pseudo ts (out @ [c]) (d # s) else Undef)"

fun assemble_members :: "'h gas_env \<Rightarrow> string list \<Rightarrow> string option list \<Rightarrow> asm_output \<Rightarrow> asm_output run" where
  "assemble_members E ts [] out = Undef"
| "assemble_members E ts (None # ms) out = Ret out"
| "assemble_members E ts (Some m # ms) out =
     run_then (expand_pseudo ts [] m) (\<lambda>new_insn.
     run_then (md_assemble_with nested_pseudo True E new_insn out) (\<lambda>out. assemble_members E ts ms out))"

definition pseudo_assemble :: "'h gas_env \<Rightarrow> nat \<Rightarrow> string \<Rightarrow> asm_output \<Rightarrow> asm_output run" where
  "pseudo_assemble E i p_mnemonic out =
     run_then (operand_texts (oi_op_pos (ao_out_insn out))) (\<lambda>ts.
       if length (ge_pseudo_instrs E) < oi_is_pseudo (ao_out_insn out) then Exit
       else assemble_members E ts (drop (oi_is_pseudo (ao_out_insn out)) (ge_pseudo_instrs E)) out)"

definition md_assemble :: "'h gas_env \<Rightarrow> string \<Rightarrow> asm_output \<Rightarrow> asm_output run" where
  "md_assemble E str out = md_assemble_with pseudo_assemble False E str out"

end
