(* ===== verification/GasSymbolsCorrect.thy ===== *)
theory GasSymbolsCorrect
  imports GasSymbols AsmMap
begin

text \<open>
  The symbols of the assembler: the tables of \<open>md_begin\<close> answer with the first entry of a name, a
  symbol under a marker has in the assembler the value that the description gives it, and the
  lookup through aliases returns as long as no alias is the start of another.
\<close>

subsection \<open>Positions\<close>

text \<open>The index of the first element with a property.\<close>

fun first_index :: "('a \<Rightarrow> bool) \<Rightarrow> 'a list \<Rightarrow> nat option" where
  "first_index P [] = None"
| "first_index P (x # xs) = (if P x then Some 0 else map_option Suc (first_index P xs))"

lemma first_index_None [simp]: "first_index P xs = None \<longleftrightarrow> (\<forall>x \<in> set xs. \<not> P x)"
  by (induction xs) auto

lemma first_index_SomeD:
  "first_index P xs = Some i \<Longrightarrow> i < length xs \<and> P (xs ! i) \<and> find_first P xs = Some (xs ! i) \<and> (\<forall>j < i. \<not> P (xs ! j))"
proof (induction xs arbitrary: i)
  case (Cons x xs)
  then show ?case by (cases i) (auto simp: less_Suc_eq_0_disj split: if_splits)
qed simp

lemma first_index_find: "map_option ((!) xs) (first_index P xs) = find_first P xs"
proof (cases "first_index P xs")
  case None
  then have "find_first P xs = None" by simp
  with None show ?thesis by (simp del: find_first_None first_index_None)
qed (auto dest: first_index_SomeD)

lemma shift_index [simp]:
  "map_option ((+) (Suc i)) x = map_option (\<lambda>k. Suc (i + k)) x" "map_option ((+) (0 :: nat)) x = x"
  by (cases x; simp)+

subsection \<open>The hash tables\<close>

lemma hash_empty [simp]: "hash_laws G \<Longrightarrow> hash_find G (hash_new G) k = None"
  by (simp add: hash_laws_def)

lemma hash_insert_fresh:
  assumes "hash_laws G" "hash_find G h k = None"
  obtains h' where "hash_insert G h k v = (h', None)"
    "\<And>k'. hash_find G h' k' = (if k' = k then Some v else hash_find G h k')"
  using assms unfolding hash_laws_def by blast

lemma hash_insert_exists:
  "hash_laws G \<Longrightarrow> hash_find G h k \<noteq> None \<Longrightarrow> hash_insert G h k v = (h, Some ''exists'')"
  unfolding hash_laws_def by blast

definition symbol_key :: "bool \<Rightarrow> acasm_symbol \<Rightarrow> string" where
  "symbol_key ins s = (if ins then strtolower (us_symbol s) else us_symbol s)"

lemma fill_sym_hash_first:
  assumes "hash_laws G"
  shows "\<exists>h'. fill_sym_hash G ins symbols i h = Ret h' \<and>
    (\<forall>k. hash_find G h' k =
       (case hash_find G h k of Some v \<Rightarrow> Some v | None \<Rightarrow> map_option ((+) i) (first_index (\<lambda>s. symbol_key ins s = k) symbols)))"
proof (induction symbols arbitrary: i h)
  case Nil
  show ?case by (auto split: option.splits)
next
  case (Cons s symbols)
  show ?case
  proof (cases "hash_find G h (symbol_key ins s)")
    case None
    obtain h2 where h2: "hash_insert G h (symbol_key ins s) i = (h2, None)"
      "\<And>k'. hash_find G h2 k' = (if k' = symbol_key ins s then Some i else hash_find G h k')"
      using hash_insert_fresh [OF assms None] by metis
    obtain h' where h': "fill_sym_hash G ins symbols (i + 1) h2 = Ret h'"
      "\<And>k. hash_find G h' k = (case hash_find G h2 k of Some v \<Rightarrow> Some v
         | None \<Rightarrow> map_option ((+) (i + 1)) (first_index (\<lambda>s. symbol_key ins s = k) symbols))"
      using Cons.IH [of "i + 1" h2] by blast
    have "fill_sym_hash G ins (s # symbols) i h = Ret h'" using h2(1) h'(1) by (simp add: symbol_key_def)
    moreover have "hash_find G h' k = (case hash_find G h k of Some v \<Rightarrow> Some v
         | None \<Rightarrow> map_option ((+) i) (first_index (\<lambda>s. symbol_key ins s = k) (s # symbols)))" for k
      using None by (cases "hash_find G h k"; cases "k = symbol_key ins s")
        (auto simp: h'(2) h2(2) option.map_comp comp_def)
    ultimately show ?thesis by blast
  next
    case (Some v)
    then have ins: "hash_insert G h (symbol_key ins s) i = (h, Some ''exists'')"
      using hash_insert_exists [OF assms] by simp
    obtain h' where h': "fill_sym_hash G ins symbols (i + 1) h = Ret h'"
      "\<And>k. hash_find G h' k = (case hash_find G h k of Some v \<Rightarrow> Some v
         | None \<Rightarrow> map_option ((+) (i + 1)) (first_index (\<lambda>s. symbol_key ins s = k) symbols))"
      using Cons.IH [of "i + 1" h] by blast
    have "fill_sym_hash G ins (s # symbols) i h = Ret h'" using ins h'(1) by (simp add: symbol_key_def)
    moreover have "hash_find G h' k = (case hash_find G h k of Some v \<Rightarrow> Some v
         | None \<Rightarrow> map_option ((+) i) (first_index (\<lambda>s. symbol_key ins s = k) (s # symbols)))" for k
      using Some by (cases "hash_find G h k") (auto simp: h'(2) option.map_comp comp_def)
    ultimately show ?thesis by blast
  qed
qed

lemma fill_op_hash_new:
  assumes "hash_laws G" "fill_op_hash G (op # ops) i prev h = Ret h'" "prev \<noteq> Some (oc_mnemonic op)"
  obtains h2 where "hash_find G h (oc_mnemonic op) = None" "fill_op_hash G ops (i + 1) (Some (oc_mnemonic op)) h2 = Ret h'"
    "\<And>k. hash_find G h2 k = (if k = oc_mnemonic op then Some i else hash_find G h k)"
proof -
  have f: "\<not> (prev \<noteq> None \<and> strcmp (the prev) (oc_mnemonic op) = 0)" using assms(3) by auto
  have new: "hash_find G h (oc_mnemonic op) = None"
  proof (rule ccontr)
    assume "hash_find G h (oc_mnemonic op) \<noteq> None"
    from hash_insert_exists [OF assms(1) this, of i] assms(2) f show False by (auto split: if_splits)
  qed
  obtain h2 where h2: "hash_insert G h (oc_mnemonic op) i = (h2, None)"
    "\<And>k'. hash_find G h2 k' = (if k' = oc_mnemonic op then Some i else hash_find G h k')"
    using hash_insert_fresh [OF assms(1) new] by metis
  moreover have "fill_op_hash G ops (i + 1) (Some (oc_mnemonic op)) h2 = Ret h'"
    using assms(2) f h2(1) by (auto split: if_splits)
  ultimately show thesis using new that by blast
qed

lemma fill_op_hash_first:
  assumes "hash_laws G" "fill_op_hash G ops i prev h = Ret h'" "\<forall>m. prev = Some m \<longrightarrow> hash_find G h m \<noteq> None"
  shows "hash_find G h' k =
    (case hash_find G h k of Some v \<Rightarrow> Some v | None \<Rightarrow> map_option ((+) i) (first_index (\<lambda>op. oc_mnemonic op = k) ops))"
  using assms(2,3)
proof (induction ops arbitrary: i prev h)
  case Nil
  then show ?case by (auto split: option.splits)
next
  case (Cons op ops)
  show ?case
  proof (cases "prev = Some (oc_mnemonic op)")
    case True
    with Cons.prems have "fill_op_hash G ops (i + 1) prev h = Ret h'" "hash_find G h (oc_mnemonic op) \<noteq> None" by auto
    with Cons.IH [OF this(1)] Cons.prems(2) show ?thesis
      by (cases "hash_find G h k") (auto simp: option.map_comp comp_def)
  next
    case False
    from fill_op_hash_new [OF assms(1) Cons.prems(1) False] obtain h2 where
      h2: "hash_find G h (oc_mnemonic op) = None" "fill_op_hash G ops (i + 1) (Some (oc_mnemonic op)) h2 = Ret h'"
      "\<And>k. hash_find G h2 k = (if k = oc_mnemonic op then Some i else hash_find G h k)" by metis
    from Cons.IH [OF h2(2)] h2(1,3) show ?thesis
      by (cases "hash_find G h k"; cases "k = oc_mnemonic op") (auto simp: option.map_comp comp_def)
  qed
qed

text \<open>A table that \<open>md_begin\<close> accepts has the rows of one mnemonic together.\<close>

lemma fill_op_hash_seen:
  assumes "hash_laws G" "fill_op_hash G ops i prev h = Ret h'" "hash_find G h m \<noteq> None" "prev \<noteq> Some m"
  shows "m \<notin> oc_mnemonic ` set ops"
  using assms(2-)
proof (induction ops arbitrary: i prev h)
  case (Cons op ops)
  show ?case
  proof (cases "prev = Some (oc_mnemonic op)")
    case True
    with Cons show ?thesis by auto
  next
    case False
    from fill_op_hash_new [OF assms(1) Cons.prems(1) False] obtain h2 where
      h2: "hash_find G h (oc_mnemonic op) = None" "fill_op_hash G ops (i + 1) (Some (oc_mnemonic op)) h2 = Ret h'"
      "\<And>k. hash_find G h2 k = (if k = oc_mnemonic op then Some i else hash_find G h k)" by metis
    from h2(1) Cons.prems(2) have "oc_mnemonic op \<noteq> m" by auto
    with Cons.IH [OF h2(2)] h2(3) Cons.prems(2) show ?thesis by auto
  qed
qed simp

lemma fill_op_hash_run:
  assumes "hash_laws G" "fill_op_hash G ops i (Some m) h = Ret h'" "hash_find G h m \<noteq> None"
    and "b < length ops" "oc_mnemonic (ops ! b) = m" "c \<le> b"
  shows "oc_mnemonic (ops ! c) = m"
  using assms(2-)
proof (induction ops arbitrary: i b c)
  case (Cons op ops)
  have op: "oc_mnemonic op = m"
  proof (rule ccontr)
    assume n: "oc_mnemonic op \<noteq> m"
    then have "Some m \<noteq> Some (oc_mnemonic op)" by simp
    from fill_op_hash_new [OF assms(1) Cons.prems(1) this] obtain h2 where
      h2: "fill_op_hash G ops (i + 1) (Some (oc_mnemonic op)) h2 = Ret h'"
      "\<And>k. hash_find G h2 k = (if k = oc_mnemonic op then Some i else hash_find G h k)" by metis
    have "m \<notin> oc_mnemonic ` set ops"
      by (rule fill_op_hash_seen [OF assms(1) h2(1)]) (use n h2(2) Cons.prems(2) in auto)
    with n Cons.prems(3,4) show False by (cases b) auto
  qed
  with Cons.prems have "fill_op_hash G ops (i + 1) (Some m) h = Ret h'" by simp
  from Cons.IH [OF this Cons.prems(2), of "b - 1" "c - 1"] op Cons.prems(3-5) show ?case by (cases b; cases c) auto
qed simp

lemma fill_op_hash_together:
  assumes "hash_laws G" "fill_op_hash G ops i prev h = Ret h'" "\<forall>m. prev = Some m \<longrightarrow> hash_find G h m \<noteq> None"
    and "a \<le> c" "c \<le> b" "b < length ops" "oc_mnemonic (ops ! a) = oc_mnemonic (ops ! b)"
  shows "oc_mnemonic (ops ! c) = oc_mnemonic (ops ! b)"
  using assms(2-)
proof (induction ops arbitrary: i prev h a b c)
  case (Cons op ops)
  obtain i2 h2 where h2: "fill_op_hash G ops i2 (Some (oc_mnemonic op)) h2 = Ret h'" "hash_find G h2 (oc_mnemonic op) \<noteq> None"
  proof (cases "prev = Some (oc_mnemonic op)")
    case True
    with Cons.prems that [of "i + 1" h] show ?thesis by auto
  next
    case False
    from fill_op_hash_new [OF assms(1) Cons.prems(1) False] that show ?thesis by (metis option.distinct(1))
  qed
  show ?case
  proof (cases a)
    case 0
    with fill_op_hash_run [OF assms(1) h2, of "b - 1" "c - 1"] Cons.prems show ?thesis by (cases b; cases c) auto
  next
    case (Suc a')
    with Cons.IH [OF h2(1), of a' "c - 1" "b - 1"] h2(2) Cons.prems show ?thesis by (cases b; cases c) auto
  qed
qed simp

lemma md_begin_tables:
  assumes "hash_laws G" "md_begin G ins ops symbols = Ret (oph, symh)"
  shows "hash_find G oph m = first_index (\<lambda>op. oc_mnemonic op = m) ops"
    "hash_find G symh n = first_index (\<lambda>s. symbol_key ins s = n) symbols"
    "\<lbrakk>a \<le> c; c \<le> b; b < length ops; oc_mnemonic (ops ! a) = oc_mnemonic (ops ! b)\<rbrakk> \<Longrightarrow>
      oc_mnemonic (ops ! c) = oc_mnemonic (ops ! b)"
proof -
  have p: "fill_op_hash G ops 0 None (hash_new G) = Ret oph" "fill_sym_hash G ins symbols 0 (hash_new G) = Ret symh"
    using assms(2) by (auto simp: md_begin_def)
  show "\<lbrakk>a \<le> c; c \<le> b; b < length ops; oc_mnemonic (ops ! a) = oc_mnemonic (ops ! b)\<rbrakk> \<Longrightarrow>
      oc_mnemonic (ops ! c) = oc_mnemonic (ops ! b)"
    using fill_op_hash_together [OF assms(1) p(1), of a c b] by simp
  from fill_op_hash_first [OF assms(1) p(1), of m] assms(1)
  show "hash_find G oph m = first_index (\<lambda>op. oc_mnemonic op = m) ops" by simp
  from fill_sym_hash_first [OF assms(1), of ins symbols 0 "hash_new G"] p(2) assms(1)
  show "hash_find G symh n = first_index (\<lambda>s. symbol_key ins s = n) symbols" by simp
qed

subsection \<open>A symbol under a marker\<close>

lemma marker_loop_first:
  "us_symbol s = name \<Longrightarrow>
   (case marker_loop name marker (s # rest) of None \<Rightarrow> None
    | Some x \<Rightarrow> if us_cspec x = marker \<and> us_symbol x = name then Some (ucast (us_value x)) else None) =
   map_option (\<lambda>x. ucast (us_value x) :: u32)
     (find_first (\<lambda>x. us_cspec x = marker) (takeWhile (\<lambda>x. us_symbol x = name) (s # rest)))"
proof (induction rest arbitrary: s)
  case (Cons t rest)
  then show ?case by (cases "us_cspec s = marker"; cases "us_symbol t = name") simp_all
qed simp

text \<open>In a sorted table the entries of a name stand together.\<close>

lemma sorted_run:
  assumes "sorted (map f xs)" "first_index (\<lambda>x. f x = k) xs = Some i"
  shows "takeWhile (\<lambda>x. f x = (k :: string)) (drop i xs) = filter (\<lambda>x. f x = k) xs"
  using assms
proof (induction xs arbitrary: i)
  case (Cons x xs)
  show ?case
  proof (cases "f x = k")
    case True
    have "takeWhile (\<lambda>x. f x = k) ys = filter (\<lambda>x. f x = k) ys" if "sorted (map f ys)" "\<forall>y \<in> set ys. k \<le> f y" for ys
      using that
    proof (induction ys)
      case (Cons y ys)
      show ?case
      proof (cases "f y = k")
        case False
        with Cons.prems have "k < f y" by (simp add: order.not_eq_order_implies_strict)
        moreover have "\<forall>z \<in> set ys. f y \<le> f z" using Cons.prems(1) by simp
        ultimately have "\<forall>z \<in> set ys. f z \<noteq> k" by fastforce
        with False show ?thesis by (simp add: filter_empty_conv)
      qed (use Cons in auto)
    qed simp
    with Cons.prems True show ?thesis by simp
  next
    case False
    with Cons.prems obtain j where "i = Suc j" "first_index (\<lambda>x. f x = k) xs = Some j" by auto
    with Cons False show ?thesis by simp
  qed
qed simp

lemma find_first_filtered: "find_first P (filter Q xs) = find_first (\<lambda>x. Q x \<and> P x) xs"
  by (induction xs) auto

lemma symbol_at_first:
  assumes "sorted (map us_symbol symbols)" "first_index (\<lambda>s. us_symbol s = name) symbols = Some i"
  shows "symbol_at symbols i name marker =
    map_option (\<lambda>x. ucast (us_value x)) (find_first (\<lambda>x. us_symbol x = name \<and> us_cspec x = marker) symbols)"
proof -
  note i = first_index_SomeD [OF assms(2)]
  then have d: "drop i symbols = symbols ! i # drop (Suc i) symbols" by (simp add: Cons_nth_drop_Suc)
  have s: "us_symbol (symbols ! i) = name" using i by simp
  have "symbol_at symbols i name marker =
      map_option (\<lambda>x. ucast (us_value x)) (find_first (\<lambda>x. us_cspec x = marker) (takeWhile (\<lambda>x. us_symbol x = name) (drop i symbols)))"
    unfolding d marker_loop_first [OF s, symmetric] by (simp only: symbol_at_def d strcmp_eq_0)
  then show ?thesis unfolding sorted_run [OF assms] by (simp add: find_first_filtered)
qed

text \<open>The lookup in a table filled by \<open>md_begin\<close>.\<close>

lemma ac_valid_symbol_eq:
  "ac_valid_symbol G symh symbols al marker name =
     (case hash_find G symh name of
        None \<Rightarrow>
          (case find_first (\<lambda>p. prefix_of (new_name p) name) al of
             None \<Rightarrow> Ret None
           | Some p \<Rightarrow> ac_valid_symbol G symh symbols al marker (old_name p))
      | Some i \<Rightarrow>
          Ret (if marker = [] then Some (ucast (us_value (symbols ! i))) else symbol_at symbols i name marker))"
proof (cases "hash_find G symh name")
  case None
  then show ?thesis
    unfolding ac_valid_symbol_def
    by (subst lookup_symbol.simps, cases "find_first (\<lambda>p. prefix_of (new_name p) name) al")
      (simp_all del: find_first_None)
next
  case (Some i)
  then show ?thesis unfolding ac_valid_symbol_def by (subst lookup_symbol.simps) simp
qed

lemma valid_symbol_entry:
  assumes "hash_find G symh name = first_index (\<lambda>s. us_symbol s = name) symbols" "sorted (map us_symbol symbols)"
    and "marker \<noteq> []" "name \<in> us_symbol ` set symbols"
  shows "ac_valid_symbol G symh symbols al marker name =
    Ret (map_option (\<lambda>x. ucast (us_value x)) (find_first (\<lambda>x. us_symbol x = name \<and> us_cspec x = marker) symbols))"
proof -
  obtain i where i: "first_index (\<lambda>s. us_symbol s = name) symbols = Some i"
    using assms(4) by (cases "first_index (\<lambda>s. us_symbol s = name) symbols") auto
  show ?thesis
    by (subst ac_valid_symbol_eq)
      (simp only: assms(1,3) i option.case if_False symbol_at_first [OF assms(2) i])
qed

subsection \<open>The symbols of the description\<close>

text \<open>The row of the generated table for a symbol, as \<open>CreateAsmSymbolTable\<close> prints it.\<close>

definition udsymbol :: "ac_asm_symbol \<Rightarrow> acasm_symbol" where
  "udsymbol x = \<lparr>us_symbol = as_symbol x, us_cspec = as_map_marker x, us_value = of_int (as_value x)\<rparr>"

lemma find_first_map: "find_first P (map f xs) = map_option f (find_first (P \<circ> f) xs)"
  by (induction xs) auto

lemma symbol_key_sensitive [simp]: "symbol_key False s = us_symbol s"
  by (simp add: symbol_key_def)

lemma udsymbol_simps [simp]: "us_symbol (udsymbol x) = as_symbol x" "us_cspec (udsymbol x) = as_map_marker x"
  "ucast (us_value (udsymbol x)) = (of_int (as_value x) :: u32)"
proof -
  have "ucast (of_int k :: u64) = (of_int k :: u32)" for k
    by (intro bit_word_eqI) (simp add: bit_ucast_iff bit_of_int_iff)
  then show "ucast (us_value (udsymbol x)) = (of_int (as_value x) :: u32)" by (simp add: udsymbol_def)
qed (simp_all add: udsymbol_def)

subsection \<open>Aliases\<close>

text \<open>No alias is the start of another.\<close>

definition unrelated :: "acaliastype list \<Rightarrow> bool" where
  "unrelated al \<longleftrightarrow> sorted_wrt (\<lambda>p q. \<not> prefix_of (new_name p) (new_name q) \<and> \<not> prefix_of (new_name q) (new_name p)) al"

lemma prefix_of_comparable:
  assumes "prefix_of a s" "prefix_of b s"
  shows "prefix_of a b \<or> prefix_of b a"
proof (cases "length a \<le> length b")
  case True
  then have "take (length a) b = take (length a) (take (length b) s)" using assms(2) by (simp add: prefix_of_def)
  also have "\<dots> = a" using True assms(1) by (simp add: prefix_of_def min_def)
  finally show ?thesis by (simp add: prefix_of_def)
next
  case False
  then have "take (length b) a = take (length b) (take (length a) s)" using assms(1) by (simp add: prefix_of_def)
  also have "\<dots> = b" using False assms(2) by (simp add: prefix_of_def min_def)
  finally show ?thesis by (simp add: prefix_of_def)
qed

text \<open>The lookup ends; and it ends with an entry of the table.\<close>

abbreviation alias_for :: "acaliastype list \<Rightarrow> string \<Rightarrow> acaliastype option" where
  "alias_for al name \<equiv> find_first (\<lambda>p. prefix_of (new_name p) name) al"

inductive ends :: "(string \<Rightarrow> bool) \<Rightarrow> acaliastype list \<Rightarrow> string \<Rightarrow> bool" for known al where
  end_known: "known name \<Longrightarrow> ends known al name"
| end_unknown: "alias_for al name = None \<Longrightarrow> ends known al name"
| end_alias: "alias_for al name = Some p \<Longrightarrow> ends known al (old_name p) \<Longrightarrow> ends known al name"

inductive hits :: "(string \<Rightarrow> bool) \<Rightarrow> acaliastype list \<Rightarrow> string \<Rightarrow> bool" for known al where
  hit_known: "known name \<Longrightarrow> hits known al name"
| hit_alias: "alias_for al name = Some p \<Longrightarrow> hits known al (old_name p) \<Longrightarrow> hits known al name"

lemma ends_returns:
  assumes "ends (\<lambda>n. hash_find G symh n \<noteq> None) al name"
  shows "\<exists>r. ac_valid_symbol G symh symbols al marker name = Ret r"
  using assms
proof (induction rule: ends.induct)
  case (end_unknown name)
  then show ?case by (subst ac_valid_symbol_eq) (simp del: find_first_None split: option.split)
next
  case (end_alias name p)
  then show ?case by (subst ac_valid_symbol_eq) (simp del: find_first_None split: option.split)
qed (subst ac_valid_symbol_eq, auto)

lemma found_hits:
  assumes "ends (\<lambda>n. hash_find G symh n \<noteq> None) al name"
    and "ac_valid_symbol G symh symbols al [] name = Ret (Some v)"
  shows "hits (\<lambda>n. hash_find G symh n \<noteq> None) al name"
  using assms
proof (induction rule: ends.induct)
  case (end_unknown name)
  then show ?case
    by (subst (asm) ac_valid_symbol_eq) (auto simp del: find_first_None split: option.split_asm intro: hits.hit_known)
next
  case (end_alias name p)
  show ?case
  proof (cases "hash_find G symh name")
    case None
    with end_alias.prems end_alias.hyps(1) have "ac_valid_symbol G symh symbols al [] (old_name p) = Ret (Some v)"
      by (subst (asm) ac_valid_symbol_eq) simp
    with end_alias show ?thesis by (auto intro: hits.hit_alias)
  qed (simp add: hits.hit_known)
qed (auto intro: hits.hit_known)

text \<open>An accepted directive and the removal of an alias keep the lookups finite.\<close>

lemma alias_for_Cons:
  assumes "unrelated (p # al)" "alias_for al name = Some q"
  shows "alias_for (p # al) name = Some q"
proof -
  from find_first_SomeD [OF assms(2)] have q: "q \<in> set al" "prefix_of (new_name q) name" by auto
  then have "\<not> prefix_of (new_name p) name"
    using assms(1) prefix_of_comparable [of "new_name p" name "new_name q"] by (auto simp: unrelated_def)
  with assms(2) show ?thesis by simp
qed

lemma hits_Cons: "hits known al name \<Longrightarrow> unrelated (p # al) \<Longrightarrow> ends known (p # al) name"
proof (induction rule: hits.induct)
  case (hit_alias name q)
  then show ?case using alias_for_Cons by (blast intro: ends.end_alias)
qed (rule ends.end_known)

lemma ends_Cons:
  assumes "ends known al name" "unrelated (p # al)" "hits known al (old_name p)"
  shows "ends known (p # al) name"
  using assms(1)
proof (induction rule: ends.induct)
  case (end_unknown name)
  show ?case
  proof (cases "prefix_of (new_name p) name")
    case True
    then have "alias_for (p # al) name = Some p" by simp
    then show ?thesis using hits_Cons [OF assms(3,2)] by (rule ends.end_alias)
  next
    case False
    with end_unknown have "alias_for (p # al) name = None" by simp
    then show ?thesis by (rule ends.end_unknown)
  qed
next
  case (end_alias name q)
  then show ?case using alias_for_Cons [OF assms(2)] by (blast intro: ends.end_alias)
qed (rule ends.end_known)

lemma unlink_split:
  "unlink name al = Some al' \<Longrightarrow> \<exists>xs p ys. al = xs @ p # ys \<and> al' = xs @ ys"
proof (induction al arbitrary: al')
  case (Cons q al)
  show ?case
  proof (cases "take (length name) (new_name q) = name")
    case True
    with Cons.prems show ?thesis by (intro exI [of _ "[]"]) simp
  next
    case False
    with Cons.prems obtain al2 where "unlink name al = Some al2" "al' = q # al2" by auto
    with Cons.IH [of al2] obtain xs p ys where "al = xs @ p # ys" "al2 = xs @ ys" by blast
    with \<open>al' = q # al2\<close> show ?thesis by (intro exI [of _ "q # xs"]) simp
  qed
qed simp

lemma ends_unlink:
  assumes "ends known (xs @ p # ys) name" "unrelated (xs @ p # ys)"
  shows "ends known (xs @ ys) name"
  using assms(1)
proof (induction rule: ends.induct)
  case (end_unknown name)
  then show ?case by (intro ends.end_unknown) simp
next
  case (end_alias name q)
  show ?case
  proof (cases "alias_for (xs @ ys) name")
    case None
    then show ?thesis by (rule ends.end_unknown)
  next
    case (Some r)
    from find_first_SomeD [OF this] have r: "r \<in> set xs \<or> r \<in> set ys" "prefix_of (new_name r) name" by auto
    then have "\<not> prefix_of (new_name p) name"
      using assms(2) prefix_of_comparable [of "new_name p" name "new_name r"] by (auto simp: unrelated_def sorted_wrt_append)
    with Some end_alias.hyps(1) have "q = r" by (auto simp: find_first_append simp del: find_first_None split: option.splits)
    with Some end_alias.IH show ?thesis by (blast intro: ends.end_alias)
  qed
qed (rule ends.end_known)

text \<open>The lists of aliases that directives build, as long as no alias is the start of another.\<close>

inductive alias_run :: "'h gas_hash \<Rightarrow> 'h \<Rightarrow> acasm_symbol list \<Rightarrow> acaliastype list \<Rightarrow> bool" for G symh symbols where
  run_empty: "alias_run G symh symbols []"
| run_req: "alias_run G symh symbols al \<Longrightarrow>
    ac_parse_req (ac_valid_symbol G symh symbols al) al str = Ret (Inr al') \<Longrightarrow> unrelated al' \<Longrightarrow> alias_run G symh symbols al'"
| run_unreq: "alias_run G symh symbols al \<Longrightarrow> s_unreq al line = Inr al' \<Longrightarrow> alias_run G symh symbols al'"

lemma accepted_req:
  assumes "ac_parse_req valid al str = Ret (Inr al')"
  obtains p v where "al' = p # al" "valid [] (old_name p) = Ret (Some v)" "valid [] (new_name p) = Ret None"
proof -
  obtain r where r: "req_operands str = Ret r"
    "(case r of Inl e \<Rightarrow> Ret (Inl e) | Inr (operand1, operand2) \<Rightarrow>
       run_then (valid [] operand2) (\<lambda>v2. if v2 = None then Ret (Inl (No_such_symbol operand2))
         else run_then (valid [] operand1) (\<lambda>v1. if v1 \<noteq> None then Ret (Inl (Redefinition operand1))
           else Ret (Inr (\<lparr>old_name = operand2, new_name = operand1\<rparr> # al))))) = Ret (Inr al')"
    using assms unfolding ac_parse_req_def by (simp only: run_then_Ret) blast
  show thesis
  proof (cases r)
    case (Inr q)
    obtain a b where q: "q = (a, b)" by (cases q)
    show ?thesis
      using r(2) that [of "\<lparr>old_name = b, new_name = a\<rparr>"] unfolding Inr q by (auto split: if_split_asm)
  qed (use r(2) in simp)
qed

lemma unrelated_unlink: "unrelated (xs @ p # ys) \<Longrightarrow> unrelated (xs @ ys)"
  by (auto simp: unrelated_def sorted_wrt_append)

lemma alias_run_ends:
  assumes "alias_run G symh symbols al"
  shows "unrelated al \<and> (\<forall>name. ends (\<lambda>n. hash_find G symh n \<noteq> None) al name)"
  using assms
proof (induction rule: alias_run.induct)
  case run_empty
  show ?case by (auto simp: unrelated_def intro: ends.end_unknown)
next
  case (run_req al str al')
  from accepted_req [OF run_req.hyps(2)] obtain p v where
    p: "al' = p # al" "ac_valid_symbol G symh symbols al [] (old_name p) = Ret (Some v)" by metis
  from run_req.IH have "ends (\<lambda>n. hash_find G symh n \<noteq> None) al (old_name p)" by blast
  from found_hits [OF this p(2)] have "hits (\<lambda>n. hash_find G symh n \<noteq> None) al (old_name p)" .
  with run_req.IH run_req.hyps(3) p(1) show ?case by (auto intro: ends_Cons)
next
  case (run_unreq al line al')
  then obtain name where "unlink name al = Some al'" by (auto simp: s_unreq_def Let_def split: if_splits option.splits)
  from unlink_split [OF this] obtain xs p ys where "al = xs @ p # ys" "al' = xs @ ys" by blast
  with run_unreq.IH show ?case using ends_unlink unrelated_unlink by metis
qed

subsection \<open>Properties\<close>

text \<open>C38: The assembler takes the value of a symbol from the description. In the table generated
  from the symbols of any sequence of map declarations, filled into the hash table by \<open>md_begin\<close>,
  \<open>ac_valid_symbol\<close> answers under a marker what \<open>get_symbol_value\<close> of the parser answers for the map; it
  may go to an alias only if no map has the name.\<close>

theorem symbol_lookup_exact:
  assumes "hash_laws G" "map_reachable s" "md_begin G False ops (map udsymbol (symbol_list s)) = Ret (oph, symh)" "m \<noteq> []"
    and "n \<in> as_symbol ` set (symbol_list s) \<or> list_all (\<lambda>p. \<not> prefix_of (new_name p) n) al"
  shows "ac_valid_symbol G symh (map udsymbol (symbol_list s)) al m n =
    Ret (case get_symbol_value s n (Some m) of (found, v) \<Rightarrow> if found then Some (of_int v) else None)"
proof -
  let ?l = "symbol_list s"
  have ok: "asm_ok s" using map_reachable_ok [OF assms(2)] .
  have hash: "hash_find G symh n = first_index (\<lambda>x. us_symbol x = n) (map udsymbol ?l)"
    using md_begin_tables(2) [OF assms(1,3), of n] by simp
  have sorted: "sorted (map us_symbol (map udsymbol ?l))" using ok by (simp add: asm_ok_def comp_def)
  have value_of: "(case get_symbol_value s n (Some m) of (found, v) \<Rightarrow> if found then Some (of_int v) else None) =
      map_option (\<lambda>x. of_int (as_value x) :: u32) (find_first (is_entry n (Some m)) ?l)"
    unfolding get_symbol_value_ok [OF ok] sym_value_def by (cases "find_first (is_entry n (Some m)) ?l") (simp_all add: answer_def del: find_first_None)
  show ?thesis
  proof (cases "n \<in> as_symbol ` set ?l")
    case True
    then have "n \<in> us_symbol ` set (map udsymbol ?l)" by (auto simp: image_iff)
    from valid_symbol_entry [OF hash sorted assms(4) this]
    show ?thesis unfolding value_of
      by (simp add: find_first_map comp_def option.map_comp is_entry_def [abs_def])
  next
    case False
    then have "first_index (\<lambda>x. us_symbol x = n) (map udsymbol ?l) = None" "find_first (is_entry n (Some m)) ?l = None"
      by (auto simp: is_entry_def)
    moreover have "alias_for al n = None" using assms(5) False by (simp add: list_all_iff)
    ultimately show ?thesis
      unfolding value_of by (subst ac_valid_symbol_eq) (simp add: hash del: find_first_None first_index_None)
  qed
qed

definition alist_hash :: "(string \<times> nat) list gas_hash" where
  "alist_hash = \<lparr>hash_new = [],
     hash_insert = (\<lambda>h k v. if map_of h k = None then ((k, v) # h, None) else (h, Some ''exists'')),
     hash_find = map_of\<rparr>"

lemma alist_hash_laws: "hash_laws alist_hash"
  by (simp add: hash_laws_def alist_hash_def)

definition demo_syms :: "ac_asm_symbol list" where
  "demo_syms = [\<lparr>as_symbol = ''$zero'', as_value = 0, as_map_marker = ''reg''\<rparr>]"

theorem symbol_lookup_exact_witness:
  "ac_valid_symbol alist_hash [(''$zero'', 0)] [\<lparr>us_symbol = ''$zero'', us_cspec = ''reg'', us_value = 0\<rparr>] [] ''reg'' ''$zero'' = Ret (Some 0)"
proof -
  let ?s = "init_asm_map\<lparr>mapping_list := [''reg''], symbol_list := demo_syms\<rparr>"
  have 1: "map_reachable ?s" unfolding demo_syms_def by (rule demo_map_reachable(3))
  have 2: "md_begin alist_hash False [] (map udsymbol (symbol_list ?s)) = Ret ([], [(''$zero'', 0)])" by code_simp
  have 3: "''$zero'' \<in> as_symbol ` set (symbol_list ?s) \<or> list_all (\<lambda>p. \<not> prefix_of (new_name p) ''$zero'') []" by simp
  have 4: "map udsymbol (symbol_list ?s) = [\<lparr>us_symbol = ''$zero'', us_cspec = ''reg'', us_value = 0\<rparr>]"
    "(case get_symbol_value ?s ''$zero'' (Some ''reg'') of (found, v) \<Rightarrow> if found then Some (of_int v) else None) = Some (0 :: u32)"
    by (code_simp, code_simp)
  show ?thesis
    using symbol_lookup_exact [OF alist_hash_laws 1 2 _ 3, of "''reg''"] unfolding 4 by simp
qed

text \<open>C39: The lookup through aliases returns. However \<open>.req\<close> and \<open>.unreq\<close> directives are
  mixed, as long as no alias in the list is the start of another, \<open>ac_valid_symbol\<close> gives an answer for
  every name and every marker.\<close>

theorem alias_lookup_returns:
  assumes "alias_run G symh symbols al"
  shows "\<exists>r. ac_valid_symbol G symh symbols al marker name = Ret r"
  by (rule ends_returns [OF alias_run_ends [OF assms, THEN conjunct2, THEN spec]])

lemma demo_alias_run:
  "alias_run alist_hash [(''r1'', 0)] [\<lparr>us_symbol = ''r1'', us_cspec = ''reg'', us_value = 1\<rparr>]
     [\<lparr>old_name = ''sp'', new_name = ''fp''\<rparr>, \<lparr>old_name = ''r1'', new_name = ''sp''\<rparr>]"
proof -
  let ?syms = "[\<lparr>us_symbol = ''r1'', us_cspec = ''reg'', us_value = 1\<rparr>]"
  let ?al = "[\<lparr>old_name = ''r1'', new_name = ''sp''\<rparr>]"
  have v: "ac_valid_symbol alist_hash [(''r1'', 0)] ?syms [] [] ''r1'' = Ret (Some 1)"
    "ac_valid_symbol alist_hash [(''r1'', 0)] ?syms [] [] ''sp'' = Ret None"
    "ac_valid_symbol alist_hash [(''r1'', 0)] ?syms ?al [] ''r1'' = Ret (Some 1)"
    "ac_valid_symbol alist_hash [(''r1'', 0)] ?syms ?al [] ''fp'' = Ret None"
    by (subst ac_valid_symbol_eq; simp add: alist_hash_def prefix_of_def)+
  have v2: "ac_valid_symbol alist_hash [(''r1'', 0)] ?syms ?al [] ''sp'' = Ret (Some 1)"
    by (subst ac_valid_symbol_eq) (simp add: v(3) prefix_of_def alist_hash_def [THEN arg_cong, of hash_find])
  have r: "req_operands ''sp .req r1'' = Ret (Inr (''sp'', ''r1''))" "req_operands ''fp .req sp'' = Ret (Inr (''fp'', ''sp''))"
    by (code_simp, code_simp)
  have 1: "alias_run alist_hash [(''r1'', 0)] ?syms ?al"
    by (rule run_req [OF run_empty, where str = "''sp .req r1''"]) (simp_all add: ac_parse_req_def r v unrelated_def)
  show ?thesis
    by (rule run_req [OF 1, where str = "''fp .req sp''"])
      (simp_all add: ac_parse_req_def r v v2 unrelated_def prefix_of_def)
qed

theorem alias_lookup_returns_witness:
  "\<exists>r. ac_valid_symbol alist_hash [(''r1'', 0)] [\<lparr>us_symbol = ''r1'', us_cspec = ''reg'', us_value = 1\<rparr>]
     [\<lparr>old_name = ''sp'', new_name = ''fp''\<rparr>, \<lparr>old_name = ''r1'', new_name = ''sp''\<rparr>] ''reg'' ''fpu'' = Ret r"
  by (rule alias_lookup_returns [OF demo_alias_run])

text \<open>
  Related names: after \<open>sp1 .req r1\<close> and \<open>sp .req sp1\<close>, both accepted, the lookup of \<open>sp1\<close> finds the
  alias \<open>sp\<close>, whose old name is \<open>sp1\<close>.
\<close>

lemma lookup_loops:
  assumes "hash_find G symh a = None" "alias_for al a = Some p" "old_name p = a"
  shows "ac_valid_symbol G symh symbols al marker a = Undef"
proof -
  have "\<not> (G' = G \<and> h = symh \<and> al' = al \<and> name = a)" if "lookup_symbol G' h syms al' mk name = Some y" for G' h syms al' mk name y
  proof (rule lookup_symbol.raw_induct [OF _ that, where P = "\<lambda>G' h syms al' mk name y. \<not> (G' = G \<and> h = symh \<and> al' = al \<and> name = a)"])
    fix f G' h syms al' mk name y
    assume IH: "\<And>G' h syms al' mk name y. f G' h syms al' mk name = Some y \<Longrightarrow> \<not> (G' = G \<and> h = symh \<and> al' = al \<and> name = a)"
      and body: "(case hash_find G' h name of
        None \<Rightarrow> (case alias_for al' name of None \<Rightarrow> Some None | Some p \<Rightarrow> f G' h syms al' mk (old_name p))
      | Some i \<Rightarrow> Some (if mk = [] then Some (ucast (us_value (syms ! i))) else symbol_at syms i name mk)) = Some y"
    show "\<not> (G' = G \<and> h = symh \<and> al' = al \<and> name = a)"
    proof
      assume "G' = G \<and> h = symh \<and> al' = al \<and> name = a"
      with body assms have "f G symh syms al mk a = Some y" by simp
      from IH [OF this] show False by simp
    qed
  qed
  then have "lookup_symbol G symh symbols al marker a = None" by (metis not_Some_eq)
  then show ?thesis by (simp add: ac_valid_symbol_def)
qed

text \<open>C40: Two aliases, each accepted by \<open>.req\<close>, can make the assembler run for ever. When the second
  name is the start of the first and stands for it, \<open>ac_valid_symbol\<close> calls itself with the same name
  again and again: the call has no result, under any marker.\<close>

theorem alias_prefix_loops:
  assumes "hash_find G symh r = Some i" "r \<noteq> []" "hash_find G symh a = None" "hash_find G symh b = None"
    and "prefix_of b a" "length b < length a"
    and "req_operands str1 = Ret (Inr (a, r))" "req_operands str2 = Ret (Inr (b, a))"
  shows "\<exists>al1 al2. ac_parse_req (ac_valid_symbol G symh symbols []) [] str1 = Ret (Inr al1) \<and>
     ac_parse_req (ac_valid_symbol G symh symbols al1) al1 str2 = Ret (Inr al2) \<and>
     (\<forall>marker. ac_valid_symbol G symh symbols al2 marker a = Undef)"
proof -
  let ?p = "\<lparr>old_name = r, new_name = a\<rparr>" and ?q = "\<lparr>old_name = a, new_name = b\<rparr>"
  have v: "ac_valid_symbol G symh symbols al [] r = Ret (Some (ucast (us_value (symbols ! i))))"
    "ac_valid_symbol G symh symbols [] [] a = Ret None" for al
    by (subst ac_valid_symbol_eq; simp add: assms)+
  have self: "prefix_of a a" "\<not> prefix_of a b" using assms(6) by (auto simp: prefix_of_def)
  have v2: "ac_valid_symbol G symh symbols [?p] [] a = Ret (Some (ucast (us_value (symbols ! i))))"
    "ac_valid_symbol G symh symbols [?p] [] b = Ret None"
    by (subst ac_valid_symbol_eq; simp add: assms self v)+
  have "ac_valid_symbol G symh symbols [?q, ?p] marker a = Undef" for marker
    by (rule lookup_loops [OF assms(3), where p = ?q]) (simp_all add: assms(5))
  with v v2 assms(7,8) show ?thesis
    by (intro exI [of _ "[?p]"] exI [of _ "[?q, ?p]"]) (simp add: ac_parse_req_def)
qed

theorem alias_prefix_loops_witness:
  "\<exists>al1 al2. ac_parse_req (ac_valid_symbol alist_hash [(''r1'', 0)] [\<lparr>us_symbol = ''r1'', us_cspec = ''reg'', us_value = 1\<rparr>] []) []
       ''sp1 .req r1'' = Ret (Inr al1) \<and>
     ac_parse_req (ac_valid_symbol alist_hash [(''r1'', 0)] [\<lparr>us_symbol = ''r1'', us_cspec = ''reg'', us_value = 1\<rparr>] al1) al1
       ''sp .req sp1'' = Ret (Inr al2) \<and>
     (\<forall>marker. ac_valid_symbol alist_hash [(''r1'', 0)] [\<lparr>us_symbol = ''r1'', us_cspec = ''reg'', us_value = 1\<rparr>] al2 marker ''sp1'' = Undef)"
proof -
  have 1: "req_operands ''sp1 .req r1'' = Ret (Inr (''sp1'', ''r1''))" by code_simp
  have 2: "req_operands ''sp .req sp1'' = Ret (Inr (''sp'', ''sp1''))" by code_simp
  have 3: "hash_find alist_hash [(''r1'', 0)] ''r1'' = Some 0" "(''r1'' :: string) \<noteq> []"
    "hash_find alist_hash [(''r1'', 0)] ''sp1'' = None" "hash_find alist_hash [(''r1'', 0)] ''sp'' = None"
    by (simp_all add: alist_hash_def)
  have 4: "prefix_of ''sp'' ''sp1''" "length ''sp'' < length ''sp1''" by (simp_all add: prefix_of_def)
  show ?thesis by (rule alias_prefix_loops [OF 3 4 1 2])
qed

text \<open>
  \<open>.unreq\<close> compares as many characters as its operand has: it removes the newest alias that starts
  with the name, and any alias when there is no name.
\<close>

theorem unreq_takes_longer_name:
  assumes "take (length name) (new_name p) = name"
  shows "unlink name (p # al) = Some al"
  using assms by simp

text \<open>With symbols in any case, a name of the table with a capital letter is not found under a marker.\<close>

lemma strtolower_fixed: "strtolower (strtolower s) = strtolower s"
proof -
  have "charmap (charmap c) = charmap c" for c
    by (auto simp: charmap_def Let_def)
  then show ?thesis by (simp add: strtolower_def)
qed

theorem insensitive_capitals_lost:
  assumes "list_all (\<lambda>s. strtolower (us_symbol s) \<noteq> us_symbol s) symbols"
  shows "symbol_at symbols i (strtolower name) marker = None"
proof -
  have "us_symbol s \<noteq> strtolower name" if "s \<in> set symbols" for s
    using assms that strtolower_fixed [of name] by (auto simp: list_all_iff)
  moreover have "s \<in> set l" if "marker_loop n m l = Some s" for n m l s
    using that by (induction n m l rule: marker_loop.induct) (auto split: if_split_asm)
  ultimately show ?thesis
    unfolding symbol_at_def by (fastforce split: option.split dest: in_set_dropD)
qed

end
