(* ===== verification/DisassemblerCorrect.thy ===== *)
theory DisassemblerCorrect
  imports Disassembler OperandRoundtrip OpcodeTables
begin

text \<open>
  The disassembler and the generator of the opcode table: the string of arguments that
  \<open>create_operand_string\<close> writes is parsed back, and the text printed for a word is the syntax of the
  instruction with the text of each operand in its place.
\<close>

subsection \<open>The arguments in the compiled table\<close>

text \<open>The compiler reads two backslashes of a string literal as one.\<close>

fun c_literal :: "string \<Rightarrow> string" where
  "c_literal (c # d # s) = (if c = CHR 0x5C \<and> d = CHR 0x5C then CHR 0x5C # c_literal s else c # c_literal (d # s))"
| "c_literal s = s"

text \<open>The arguments for a literal and the identifiers of its operands.\<close>

fun args_of :: "string \<Rightarrow> nat list \<Rightarrow> string" where
  "args_of [] js = []"
| "args_of (c # s) js =
     (if c = CHR ''%'' then CHR ''%'' # dec_str (hd js) @ CHR '':'' # args_of s (tl js)
      else if c = CHR 0x5C then CHR 0x5C # CHR ''%'' # args_of (drop 2 s) js
      else c # args_of s js)"

lemma c_literal_plain: "c \<noteq> CHR 0x5C \<Longrightarrow> c_literal (c # s) = c # c_literal s"
  by (cases s) auto

lemma c_literal_append: "CHR 0x5C \<notin> set s \<Longrightarrow> c_literal (s @ t) = s @ c_literal t"
  by (induction s) (auto simp: c_literal_plain)

lemma dec_str_no: "\<not> isdigit c \<Longrightarrow> c \<notin> set (dec_str n)"
  using dec_str_isdigit by blast

lemma operand_string_args:
  assumes "literal lit (length xs)" "operand_string ops out xs lit = Ret (out', xs')"
    and "map op_oper_id xs = map int js"
  shows "\<exists>raw. out' = out @ raw \<and> c_literal raw = args_of lit js"
  using assms
proof (induction lit "length xs" arbitrary: out xs js xs' rule: literal.induct)
  case lit_nil
  then show ?case by auto
next
  case (lit_char s c)
  then have "operand_string ops (out @ [c]) xs s = Ret (out', xs')" by (auto simp: put_def split: if_split_asm)
  from lit_char.hyps(2) [OF refl this lit_char.prems(2)] lit_char.hyps(3,4)
  obtain raw where "out' = out @ c # raw" "c_literal raw = args_of s js" by auto
  with lit_char.hyps(3,4) show ?case by (intro exI [of _ "c # raw"]) (simp add: c_literal_plain)
next
  case (lit_tag s n)
  then obtain x ys where xs: "xs = x # ys" "length ys = n" by (cases xs) auto
  then obtain i js2 where js: "js = i # js2" "op_oper_id x = int i" "map op_oper_id ys = map int js2"
    using lit_tag.prems(2) by (cases js) auto
  obtain out1 x1 ys1 where t: "operand_tag ops x out = Ret (out1, x1)" "operand_string ops out1 ys s = Ret (out', ys1)"
    using lit_tag.prems(1) xs by (auto split: prod.splits)
  have "dec_str_int (int i) = dec_str i" by (simp add: dec_str_int_def)
  moreover have "takeWhile isdigit (dec_str i) = dec_str i" by (simp add: dec_str_isdigit)
  ultimately have out1: "out1 = out @ CHR ''%'' # dec_str i @ '':''"
    using t(1) js(2) by (auto simp: operand_tag_def Let_def)
  obtain raw where raw: "out' = out1 @ raw" "c_literal raw = args_of s js2"
    using lit_tag.hyps(2) [OF xs(2) [symmetric] t(2) js(3)] by auto
  have "CHR 0x5C \<notin> set (CHR ''%'' # dec_str i @ '':'')"
    using dec_str_no [of "CHR 0x5C" i] by (simp add: isdigit_def less_eq_char_def)
  from c_literal_append [OF this, of raw] raw out1 js(1) show ?case
    by (intro exI [of _ "CHR ''%'' # dec_str i @ '':'' @ raw"]) simp
next
  case (lit_escape s)
  then have "operand_string ops (out @ [CHR 0x5C, CHR 0x5C, CHR ''%'']) xs s = Ret (out', xs')"
    by (auto simp: put_def starts_def split: if_split_asm)
  from lit_escape.hyps(2) [OF refl this lit_escape.prems(2)]
  obtain raw where "out' = out @ [CHR 0x5C, CHR 0x5C, CHR ''%''] @ raw" "c_literal raw = args_of s js" by auto
  then show ?case
    by (intro exI [of _ "[CHR 0x5C, CHR 0x5C, CHR ''%''] @ raw"]) (simp add: c_literal_plain)
qed

subsection \<open>Parsing them\<close>

text \<open>
  The syntax with a text for each operand: the first blank becomes a tab, an escaped per cent sign
  disappears with the letters behind it.
\<close>

function template :: "bool \<Rightarrow> string \<Rightarrow> string list \<Rightarrow> string" where
  "template sfx [] ts = []"
| "template sfx (c # s) ts =
     (if c = CHR ''%'' then hd ts @ template sfx s (tl ts)
      else if c = CHR 0x5C then template sfx (dropWhile isalpha (drop 2 s)) ts
      else if c = CHR '' '' \<and> sfx then CHR 0x09 # template False s ts
      else c # template sfx s ts)"
  by pat_completeness auto
termination
  by (relation "measure (\<lambda>(sfx, s, ts). length s)")
    (auto intro: le_less_trans [OF length_dropWhile_le])

definition buffer_ok :: "nat \<Rightarrow> string \<Rightarrow> char list \<Rightarrow> bool" where
  "buffer_ok p pre b \<longleftrightarrow> length b = 100 \<and> length pre = p \<and> take p b = pre"

lemma buffer_poke:
  assumes "buffer_ok p pre b" "p < 100"
  shows "poke p c b = Ret (b[p := c])" "buffer_ok (p + 1) (pre @ [c]) (b[p := c])" "buffer_ok p pre (b[p := c])"
  using assms by (auto simp: poke_def buffer_ok_def take_Suc_conv_app_nth)

lemma str_at_nul: "p < length b \<Longrightarrow> b ! p = NUL \<Longrightarrow> str_at p b = Ret []"
  by (auto simp: str_at_def Cons_nth_drop_Suc [symmetric])

lemma buffer_strcat:
  assumes "buffer_ok p pre b" "b ! p = NUL" "p + length s < 100"
  shows "\<exists>b'. strcat_at p s b = Ret b' \<and> buffer_ok (p + length s) (pre @ s) b' \<and> b' ! (p + length s) = NUL"
proof -
  have p: "p < length b" "length b = 100" "take p b = pre" "length pre = p" using assms by (auto simp: buffer_ok_def)
  define b' where "b' = pre @ s @ [NUL] @ drop (p + length s + 1) b"
  have "strcat_at p s b = Ret b'"
    using str_at_nul [OF p(1) assms(2)] p assms(3) by (simp add: strcat_at_def strcpy_at_def b'_def)
  moreover have "length b' = 100" using p assms(3) by (simp add: b'_def)
  ultimately show ?thesis using p by (auto simp: buffer_ok_def b'_def nth_append)
qed

text \<open>A tag.\<close>

lemma read_tag_digits:
  assumes "buffer_ok p pre b" "p < 100" "list_all isdigit d" "length buf + length d < 50"
    and "d \<noteq> [] \<or> b ! p = NUL"
  shows "\<exists>b'. read_tag p b buf (d @ CHR '':'' # s) = Ret (b', buf @ d, s) \<and> buffer_ok p pre b' \<and> b' ! p = NUL"
  using assms
proof (induction d arbitrary: b buf)
  case (Cons c d)
  have c: "c \<noteq> CHR '':'' \<and> c \<noteq> CHR ''+''" using Cons.prems(3) by (auto simp: isdigit_def less_eq_char_def)
  note pk = buffer_poke [OF Cons.prems(1,2), of NUL]
  have "(b[p := NUL]) ! p = NUL" using Cons.prems(1,2) by (simp add: buffer_ok_def)
  with Cons.IH [OF pk(3), of "buf @ [c]"] Cons.prems
  obtain b' where "read_tag p (b[p := NUL]) (buf @ [c]) (d @ CHR '':'' # s) = Ret (b', (buf @ [c]) @ d, s)"
    "buffer_ok p pre b'" "b' ! p = NUL" by auto
  with c pk(1) Cons.prems show ?case by simp
qed auto

lemma dropWhile_args:
  "literal lit n \<Longrightarrow> dropWhile isalpha (args_of lit js) = args_of (dropWhile isalpha lit) js \<and> literal (dropWhile isalpha lit) n"
proof (induction rule: literal.induct)
  case (lit_char s n c)
  then show ?case by (cases "isalpha c") (auto intro: literal.lit_char)
next
  case (lit_tag s n)
  then show ?case by (auto intro: literal.lit_tag simp: isalpha_def islower_def isupper_def less_eq_char_def)
next
  case (lit_escape s n)
  then show ?case by (auto intro: literal.lit_escape simp: isalpha_def islower_def isupper_def less_eq_char_def)
qed (auto intro: literal.lit_nil)

definition symbol_of :: "oper_list list \<Rightarrow> nat \<Rightarrow> ac_symbol" where
  "symbol_of ops i = \<lparr>sy_type = ol_name (ops ! i), sy_is_list = ol_is_list (ops ! i), sy_oper_id = i\<rparr>"

lemma parse_loop_args:
  assumes "literal lit (length js)" "buffer_ok p pre b"
    and "\<forall>i \<in> set js. i < length ops" "length ops < 2 ^ 31"
    and "p + length (template sfx lit (map (\<lambda>i. ol_name (ops ! i)) js)) < 100"
  shows "\<exists>b'. parse_loop ops b p acc sfx (args_of lit js) = Ret (b', acc @ map (symbol_of ops) js) \<and>
     buffer_ok (length pre + length (template sfx lit (map (\<lambda>i. ol_name (ops ! i)) js)))
       (pre @ template sfx lit (map (\<lambda>i. ol_name (ops ! i)) js)) b' \<and>
     b' ! (length pre + length (template sfx lit (map (\<lambda>i. ol_name (ops ! i)) js))) = NUL"
  using assms
proof (induction "length lit" arbitrary: lit js p pre b sfx acc rule: less_induct)
  case less
  have p: "length pre = p" "length b = 100" using less.prems(2) by (auto simp: buffer_ok_def)
  from less.prems(1) show ?case
  proof (cases rule: literal.cases)
    case lit_nil
    have "p < 100" using less.prems(5) lit_nil by simp
    note pk = buffer_poke [OF less.prems(2) this, of NUL]
    from lit_nil pk p \<open>p < 100\<close> show ?thesis by (intro exI [of _ "b[p := NUL]"]) simp
  next
    case (lit_char s c)
    have lp: "p < 100" using less.prems(5) lit_char by (auto split: if_splits)
    show ?thesis
    proof (cases "c = CHR '' '' \<and> sfx")
      case True
      note pk = buffer_poke [OF less.prems(2) lp, of "CHR 0x09"]
      have "length s < length lit" using lit_char by simp
      from less.hyps [OF this _ pk(2) less.prems(3,4), of False acc] lit_char less.prems(5) True p pk(1)
      show ?thesis by simp
    next
      case False
      note pk = buffer_poke [OF less.prems(2) lp, of c]
      have "length s < length lit" using lit_char by simp
      from less.hyps [OF this _ pk(2) less.prems(3,4), of sfx acc] lit_char less.prems(5) False p pk(1)
      show ?thesis by auto
    qed
  next
    case (lit_tag s n)
    then obtain i js2 where js: "js = i # js2" "length js2 = n" by (cases js) auto
    let ?name = "ol_name (ops ! i)"
    let ?t = "template sfx s (map (\<lambda>i. ol_name (ops ! i)) js2)"
    have i: "i < length ops" "i < 2 ^ 31" using less.prems(3,4) js by auto
    have fit: "p + length ?name + length ?t < 100" using less.prems(5) lit_tag js by simp
    have "length (dec_str i) \<le> Suc 9" using i(2) by (intro dec_str_length) simp
    then obtain b1 where b1: "read_tag p b [] (dec_str i @ CHR '':'' # args_of s js2) = Ret (b1, dec_str i, args_of s js2)"
      "buffer_ok p pre b1" "b1 ! p = NUL"
      using read_tag_digits [OF less.prems(2), of "dec_str i" "[]" "args_of s js2"] fit by (auto simp: list_all_iff dec_str_isdigit)
    obtain b2 where b2: "strcat_at p ?name b1 = Ret b2" "buffer_ok (p + length ?name) (pre @ ?name) b2"
      "b2 ! (p + length ?name) = NUL"
      using buffer_strcat [OF b1(2,3), of ?name] fit by auto
    have at: "unat (of_int (atoi (dec_str i)) :: u32) = i"
      using i(2) by (simp add: atoi_dec_str unat_of_nat)
    have args: "args_of lit js = CHR ''%'' # dec_str i @ CHR '':'' # args_of s js2" using lit_tag js by simp
    have tem: "template sfx lit (map (\<lambda>i. ol_name (ops ! i)) js) = ?name @ ?t" using lit_tag js by simp
    have sy: "\<lparr>sy_type = ?name, sy_is_list = ol_is_list (ops ! i), sy_oper_id = i\<rparr> = symbol_of ops i"
      by (simp add: symbol_of_def)
    show ?thesis
    proof (cases "starts (CHR ''+'') (args_of s js2)")
      case False
      have "length s < length lit" using lit_tag by simp
      from less.hyps [OF this _ b2(2), of js2 sfx "acc @ [symbol_of ops i]"] lit_tag js less.prems(3,4) fit False
      show ?thesis unfolding args tem using b1(1) b2(1) at i(1) p by (simp add: Let_def sy add.assoc)
    next
      case True
      have "literal s (length js2)" using lit_tag js by simp
      then obtain s' where s': "s = CHR ''+'' # s'" "literal s' (length js2)"
        using True by (cases rule: literal.cases) (auto simp: starts_def)
      have t: "?t = CHR ''+'' # template sfx s' (map (\<lambda>i. ol_name (ops ! i)) js2)" by (simp add: s')
      obtain b3 where b3: "strcat_at (p + length ?name) ''+'' b2 = Ret b3"
        "buffer_ok (p + length ?name + 1) (pre @ ?name @ ''+'') b3"
        using buffer_strcat [OF b2(2,3), of "''+''"] fit t by auto
      have "length s' < length lit" using lit_tag s' by simp
      from less.hyps [OF this s'(2) b3(2), of sfx "acc @ [symbol_of ops i]"] js less.prems(3,4) fit t
      show ?thesis unfolding args tem t using b1(1) b2(1) b3(1) at i(1) p True by (simp add: Let_def sy s' add.assoc)
    qed
  next
    case (lit_escape s)
    have d: "dropWhile isalpha (args_of s js) = args_of (dropWhile isalpha s) js" "literal (dropWhile isalpha s) (length js)"
      using dropWhile_args [OF lit_escape(2), of js] by auto
    have "length (dropWhile isalpha s) < length lit"
      using lit_escape(1) length_dropWhile_le [of isalpha s] by (simp add: less_Suc_eq_le le_SucI)
    from less.hyps [OF this d(2) less.prems(2-4), of sfx acc] lit_escape less.prems(5) d(1) show ?thesis by simp
  qed
qed

lemma takeWhile_stop: "c \<notin> set xs \<Longrightarrow> takeWhile (\<lambda>x. x \<noteq> c) (xs @ c # r) = xs"
  by (induction xs) auto

lemma parse_args:
  assumes "literal lit (length js)" "length b = 100" "\<forall>i \<in> set js. i < length ops" "length ops < 2 ^ 31"
    and "length (template True lit (map (\<lambda>i. ol_name (ops ! i)) js)) < 100"
    and "NUL \<notin> set (template True lit (map (\<lambda>i. ol_name (ops ! i)) js))"
  shows "\<exists>b'. parse ops b (args_of lit js) = Ret (b', map (symbol_of ops) js) \<and>
     str_at 0 b' = Ret (template True lit (map (\<lambda>i. ol_name (ops ! i)) js))"
proof -
  let ?t = "template True lit (map (\<lambda>i. ol_name (ops ! i)) js)"
  have "buffer_ok 0 [] b" using assms(2) by (simp add: buffer_ok_def)
  from parse_loop_args [OF assms(1) this assms(3,4), of True "[]"] assms(5)
  obtain b' where b': "parse_loop ops b 0 [] True (args_of lit js) = Ret (b', map (symbol_of ops) js)"
    "buffer_ok (length ?t) ?t b'" "b' ! length ?t = NUL" by auto
  moreover have "length ?t < length b'" using b'(2) assms(5) by (simp add: buffer_ok_def)
  ultimately have "drop (length ?t) b' = NUL # drop (Suc (length ?t)) b'" "take (length ?t) b' = ?t"
    by (simp_all add: Cons_nth_drop_Suc [symmetric] buffer_ok_def)
  then obtain r where "b' = ?t @ NUL # r" by (metis append_take_drop_id)
  then have "str_at 0 b' = Ret ?t"
    using assms(6) by (simp add: str_at_def takeWhile_stop)
  with b'(1) show ?thesis by (auto simp: parse_def)
qed

subsection \<open>Replacing in order\<close>

text \<open>\<open>old\<close> is not found before the place behind \<open>pre\<close>.\<close>

fun clear :: "string \<Rightarrow> string \<Rightarrow> bool" where
  "clear old [] \<longleftrightarrow> True"
| "clear old (c # pre) \<longleftrightarrow> take (length old) (c # pre @ old) \<noteq> old \<and> clear old pre"

lemma skip_old_match:
  "\<forall>c \<in> set s. c \<noteq> NUL \<Longrightarrow> NUL \<notin> set old \<Longrightarrow> s \<noteq> [] \<or> (\<exists>c \<in> set behind. c \<noteq> NUL) \<Longrightarrow>
   skip_old (old @ NUL # behind) (old @ s) = Ret s"
proof (induction old)
  case Nil
  have "skip_old behind [] = Ret []" if "\<exists>c \<in> set behind. c \<noteq> NUL"
    using that by (induction behind) auto
  with Nil show ?case by (cases s) auto
qed simp

lemma replace_loop_first:
  assumes "clear old pre" "\<forall>c \<in> set s. c \<noteq> NUL" "NUL \<notin> set old" "s \<noteq> [] \<or> (\<exists>c \<in> set behind. c \<noteq> NUL)" "old \<noteq> []"
  shows "replace_loop old behind new out (pre @ old @ s) = Ret (out @ pre @ new @ s)"
  using assms(1)
proof (induction pre arbitrary: out)
  case Nil
  obtain o' r where old: "old = o' # r" using assms(5) by (cases old) auto
  have "skip_old (old @ NUL # behind) (old @ s) = Ret s" using assms by (intro skip_old_match)
  then show ?case by (simp add: old)
next
  case (Cons c pre)
  have "take (length old) ((c # pre @ old) @ s) = take (length old) (c # pre @ old)"
    by (subst take_append) simp
  with Cons.prems have "take (length old) (c # pre @ old @ s) \<noteq> old" by simp
  with Cons.IH [of "out @ [c]"] Cons.prems show ?case by simp
qed

text \<open>
  Each name is found at its own place: not in the literal and the texts before it. The lengths are
  those of the arrays of \<open>replace\<close>.
\<close>

function in_order :: "string \<Rightarrow> bool \<Rightarrow> string \<Rightarrow> string list \<Rightarrow> string list \<Rightarrow> bool" where
  "in_order pre sfx [] ns ts \<longleftrightarrow> True"
| "in_order pre sfx (c # s) ns ts \<longleftrightarrow>
     (if c = CHR ''%'' then
        hd ns \<noteq> [] \<and> clear (hd ns) pre \<and>
        length pre + length (hd ns) + length (template sfx s (tl ns)) < 50 \<and>
        length pre + length (hd ts) + length (template sfx s (tl ns)) < 100 \<and>
        in_order (pre @ hd ts) sfx s (tl ns) (tl ts)
      else if c = CHR 0x5C then in_order pre sfx (dropWhile isalpha (drop 2 s)) ns ts
      else if c = CHR '' '' \<and> sfx then in_order (pre @ [CHR 0x09]) False s ns ts
      else in_order (pre @ [c]) sfx s ns ts)"
  by pat_completeness auto
termination
  by (relation "measure (\<lambda>(pre, sfx, s, ns, ts). length s)")
    (auto intro: le_less_trans [OF length_dropWhile_le])

definition plain_text :: "dis_target \<Rightarrow> string \<Rightarrow> u64 \<Rightarrow> string" where
  "plain_text D type v =
     (if is_value_type type then hex_text False (unat v)
      else case filter (names_symbol type v) (dt_symbols D) of [] \<Rightarrow> hex_text False (unat v) | ss \<Rightarrow> us_symbol (last ss))"

definition shows_operand :: "dis_target \<Rightarrow> u64 \<Rightarrow> nat \<Rightarrow> string \<Rightarrow> bool" where
  "shows_operand D insn i t \<longleftrightarrow>
     (let opr = dt_operands D ! i in
      i < length (dt_operands D) \<and> \<not> ol_is_list opr \<and> ol_mod_type opr = 0 \<and>
      list_ex (\<lambda>c. c \<noteq> NUL) (dt_behind D (ol_name opr)) \<and> NUL \<notin> set (ol_name opr) \<and>
      (case get_value_from_fields (dt_operands D) i insn of
         Ret (x, n) \<Rightarrow> 0 < unat n \<and> unat n < 64 \<and> t = plain_text D (ol_name opr) (ucast x)
       | _ \<Rightarrow> False))"

lemma symbol_text_last:
  "list_all (\<lambda>s. length (us_symbol s) < 100) symbols \<Longrightarrow>
   symbol_text symbols type v found =
     Ret (case filter (names_symbol type v) symbols of [] \<Rightarrow> found | ss \<Rightarrow> Some (us_symbol (last ss)))"
  by (induction symbols arbitrary: found) (auto split: list.splits)

lemma replace_first:
  assumes "clear old pre" "NUL \<notin> set s" "NUL \<notin> set old" "list_ex (\<lambda>c. c \<noteq> NUL) behind" "old \<noteq> []"
    and "length pre + length old + length s < 50" "length pre + length new + length s < 100"
  shows "replace behind (pre @ old @ s) old new = Ret (pre @ new @ s)"
proof -
  have "replace_loop old behind new [] (pre @ old @ s) = Ret (pre @ new @ s)"
    using replace_loop_first [OF assms(1) _ assms(3) _ assms(5), of s behind new "[]"] assms(2,4)
    by (auto simp: list_ex_iff)
  with assms(6,7) show ?thesis by (simp add: replace_def)
qed

lemma print_operand_plain:
  assumes "shows_operand D insn i t" "list_all (\<lambda>s. length (us_symbol s) < 100) (dt_symbols D)"
    and "replace (dt_behind D (ol_name (dt_operands D ! i))) (ds_final st) (ol_name (dt_operands D ! i)) t = Ret s"
  shows "\<exists>st'. print_operand D memaddr insn (symbol_of (dt_operands D) i) st = Ret st' \<and> ds_final st' = s"
proof -
  let ?opr = "dt_operands D ! i"
  obtain x n where v: "get_value_from_fields (dt_operands D) i insn = Ret (x, n)" "0 < unat n" "unat n < 64"
    "t = plain_text D (ol_name ?opr) (ucast x)"
    using assms(1) by (auto simp: shows_operand_def Let_def split: run.split_asm)
  have o: "i < length (dt_operands D)" "\<not> ol_is_list ?opr" "ol_mod_type ?opr = 0"
    using assms(1) by (auto simp: shows_operand_def Let_def)
  have put: "put_text D (symbol_of (dt_operands D) i) t st = Ret (st\<lparr>ds_final := s\<rparr>)"
    using assms(3) by (simp add: put_text_def symbol_of_def)
  have mp: "decode_modifier (dt_modfndec D) (dt_operands D) mp i = Ret (mp\<lparr>mp_output := 0\<rparr>)" for mp
    using o by (simp add: decode_modifier_def Let_def)
  show ?thesis
  proof (cases "is_value_type (ol_name ?opr)")
    case True
    have sx: "\<exists>y. sign_extend_to_long w (unat n) = Ret y" for w
      using v(2,3) by (simp add: sign_extend_to_long_def Let_def)
    then obtain y where y: "sign_extend_to_long (ucast x) (unat n) = Ret y" by blast
    have "t = hex_text False (unat (ucast x :: u64))" using v(4) True by (simp add: plain_text_def)
    then show ?thesis
      using v(1) o(2) True put y
      by (simp add: print_operand_def Let_def print_value_def symbol_of_def mp)
  next
    case False
    then show ?thesis
      using v(1,4) o(2) put symbol_text_last [OF assms(2), of "ol_name ?opr" "ucast x" None]
      by (cases "filter (names_symbol (ol_name ?opr) (ucast x)) (dt_symbols D)")
        (auto simp: print_operand_def Let_def print_symbol_def symbol_of_def plain_text_def)
  qed
qed

lemma print_operands_in_order:
  assumes "literal lit (length js)" "list_all2 (shows_operand D insn) js ts"
    and "list_all (\<lambda>s. length (us_symbol s) < 100) (dt_symbols D)"
    and "in_order pre sfx lit (map (\<lambda>i. ol_name (dt_operands D ! i)) js) ts"
    and "ds_final st = pre @ template sfx lit (map (\<lambda>i. ol_name (dt_operands D ! i)) js)"
    and "NUL \<notin> set (template sfx lit (map (\<lambda>i. ol_name (dt_operands D ! i)) js))"
  shows "\<exists>st'. print_operands D memaddr insn (map (symbol_of (dt_operands D)) js) st = Ret st' \<and>
     ds_final st' = pre @ template sfx lit ts"
  using assms(1,2,4-)
proof (induction "length lit" arbitrary: lit js ts pre sfx st rule: less_induct)
  case less
  let ?names = "map (\<lambda>i. ol_name (dt_operands D ! i))"
  from less.prems(1) show ?case
  proof (cases rule: literal.cases)
    case lit_nil
    with less.prems show ?thesis by simp
  next
    case (lit_char s c)
    then have "length s < length lit" by simp
    note IH = less.hyps [OF this, of js ts _ _ st]
    show ?thesis
    proof (cases "c = CHR '' '' \<and> sfx")
      case True
      with IH [of "pre @ [CHR 0x09]" False] lit_char less.prems show ?thesis by simp
    next
      case False
      with IH [of "pre @ [c]" sfx] lit_char less.prems show ?thesis by auto
    qed
  next
    case (lit_tag s n)
    then obtain i js2 where js: "js = i # js2" "length js2 = n" by (cases js) auto
    then obtain t ts2 where ts: "ts = t # ts2" "shows_operand D insn i t" "list_all2 (shows_operand D insn) js2 ts2"
      using less.prems(2) by (auto simp: list_all2_Cons1)
    let ?old = "ol_name (dt_operands D ! i)"
    let ?rest = "template sfx s (?names js2)"
    have "replace (dt_behind D ?old) (pre @ ?old @ ?rest) ?old t = Ret (pre @ t @ ?rest)"
      using less.prems(3,5) ts(2) by (intro replace_first) (auto simp: lit_tag js ts(1) shows_operand_def Let_def)
    moreover have "ds_final st = pre @ ?old @ ?rest" using less.prems(4) by (simp add: lit_tag js)
    ultimately obtain st2 where st2: "print_operand D memaddr insn (symbol_of (dt_operands D) i) st = Ret st2"
      "ds_final st2 = pre @ t @ ?rest"
      using print_operand_plain [OF ts(2) assms(3), of st "pre @ t @ ?rest" memaddr] by auto
    have "length s < length lit" using lit_tag by simp
    from less.hyps [OF this, of js2 ts2 "pre @ t" sfx st2] lit_tag js ts(1,3) less.prems(3,5) st2
    show ?thesis by simp
  next
    case (lit_escape s)
    have "literal (dropWhile isalpha s) (length js)" using dropWhile_args [OF lit_escape(2), of js] by auto
    moreover have "length (dropWhile isalpha s) < length lit"
      using lit_escape(1) length_dropWhile_le [of isalpha s] by (simp add: less_Suc_eq_le le_SucI)
    ultimately show ?thesis
      using less.hyps [of "dropWhile isalpha s" js ts pre sfx st] less.prems lit_escape(1) by simp
  qed
qed

subsection \<open>Properties\<close>

text \<open>C12: The disassembler reads what the generator of the opcode table writes. For an instruction
  whose literal and operands fit together and have their identifiers in the table, \<open>parse\<close> on the
  compiled string of \<open>create_operand_string\<close> gives the operands in their order and leaves in
  \<open>bufInitial\<close> the syntax of the instruction with the name of each operand in its place.\<close>

theorem args_parsed:
  assumes "ai_op_literal a = Some lit" "literal lit (length (ai_operands a))"
    and "create_operand_string ops a = Ret (args, a')" "map op_oper_id (ai_operands a) = map int js"
    and "list_all (\<lambda>i. i < length ops) js" "length ops < 2 ^ 31" "length b = 100"
    and "length (template True lit (map (\<lambda>i. ol_name (ops ! i)) js)) < 100"
    and "NUL \<notin> set (template True lit (map (\<lambda>i. ol_name (ops ! i)) js))"
  shows "\<exists>b'. parse ops b (c_literal args) = Ret (b', map (symbol_of ops) js) \<and>
     str_at 0 b' = Ret (template True lit (map (\<lambda>i. ol_name (ops ! i)) js))"
proof -
  have len: "length (ai_operands a) = length js" using arg_cong [OF assms(4), of length] by simp
  obtain xs' where "operand_string ops [] (ai_operands a) lit = Ret (args, xs')"
    using assms(1,3) by (auto simp: create_operand_string_def)
  from operand_string_args [OF assms(2) this assms(4)] have "c_literal args = args_of lit js" by auto
  with parse_args [of lit js b ops] assms(2,5-) len show ?thesis by (simp add: list_all_iff)
qed

definition demo_dis_operands :: "oper_list list" where
  "demo_dis_operands =
     [demo_oper\<lparr>ol_name := ''reg'', ol_mod_type := 0, ol_fields := 1, ol_fields_positions := 0x0000000A\<rparr>,
      demo_oper\<lparr>ol_name := ''imm'', ol_mod_type := 0, ol_fields := 2, ol_fields_positions := 0x000000A0\<rparr>]"

definition demo_dis_literal :: string where
  "demo_dis_literal = ''s %, '' @ [CHR 0x5C, CHR 0x5C] @ ''%lo(%)''"

definition demo_dis_insn :: ac_asm_insn where
  "demo_dis_insn = blank_insn\<lparr>ai_op_literal := Some demo_dis_literal,
     ai_operands := [demo_typed\<lparr>op_oper_id := 0\<rparr>, demo_typed\<lparr>op_oper_id := 1\<rparr>]\<rparr>"

inductive_simps literal_simps: "literal [] n" "literal (c # s) n"

lemma demo_dis_literal_ok: "literal demo_dis_literal (Suc (Suc 0))"
  by (simp add: demo_dis_literal_def literal_simps)

lemma demo_dis_template:
  "template True demo_dis_literal [''reg'', ''imm''] = ''s'' @ [CHR 0x09] @ ''reg, (imm)''"
  by code_simp

theorem args_parsed_witness:
  "\<exists>b'. parse demo_dis_operands (replicate 100 NUL) ([CHR ''s'', CHR '' ''] @ ''%0:, '' @ [CHR 0x5C] @ ''%lo(%1:)'') =
      Ret (b', map (symbol_of demo_dis_operands) [0, 1]) \<and>
     str_at 0 b' = Ret (''s'' @ [CHR 0x09] @ ''reg, (imm)'')"
proof -
  have a': "create_operand_string demo_dis_operands demo_dis_insn =
      Ret (''s %0:, '' @ [CHR 0x5C, CHR 0x5C] @ ''%lo(%1:)'', demo_dis_insn)" by code_simp
  have names: "map (\<lambda>i. ol_name (demo_dis_operands ! i)) [0, 1] = [''reg'', ''imm'']" by code_simp
  have lit: "c_literal (''s %0:, '' @ [CHR 0x5C, CHR 0x5C] @ ''%lo(%1:)'') = [CHR ''s'', CHR '' ''] @ ''%0:, '' @ [CHR 0x5C] @ ''%lo(%1:)''"
    by code_simp
  have "\<exists>b'. parse demo_dis_operands (replicate 100 NUL) (c_literal (''s %0:, '' @ [CHR 0x5C, CHR 0x5C] @ ''%lo(%1:)'')) =
      Ret (b', map (symbol_of demo_dis_operands) [0, 1]) \<and>
     str_at 0 b' = Ret (template True demo_dis_literal (map (\<lambda>i. ol_name (demo_dis_operands ! i)) [0, 1]))"
    by (rule args_parsed [OF _ _ a'])
      (simp_all add: demo_dis_insn_def demo_dis_literal_ok demo_dis_operands_def demo_dis_template)
  then show ?thesis unfolding names demo_dis_template lit .
qed

lemma disassemble_text:
  assumes row: "find_first (opcode_fits D insn n_bits) (dt_opcodes D) = Some op" "oc_args op = args_of lit js" "length (oc_args op) < 50"
    and lit: "literal lit (length js)" "length (dt_operands D) < 2 ^ 31"
    and ops: "list_all2 (shows_operand D insn) js ts" "list_all (\<lambda>s. length (us_symbol s) < 100) (dt_symbols D)"
    and names: "names = map (\<lambda>i. ol_name (dt_operands D ! i)) js" "in_order [] True lit names ts"
    and tem: "length (template True lit names) < 100" "NUL \<notin> set (template True lit names)"
    and rest: "length b = 100" "n_bits \<noteq> 0"
  shows "\<exists>r b'. disassemble D b memaddr insn n_bits = Ret (r, b') \<and>
     dr_text r = oc_mnemonic op @ template True lit ts \<and> dr_bytes r = n_bits div 8"
proof -
  have "\<forall>i \<in> set js. i < length (dt_operands D)"
    using ops(1) by (auto simp: list_all2_conv_all_nth in_set_conv_nth shows_operand_def Let_def)
  from parse_args [OF lit(1) rest(1) this lit(2)] tem
  obtain b' where b': "parse (dt_operands D) b (oc_args op) = Ret (b', map (symbol_of (dt_operands D)) js)"
    "str_at 0 b' = Ret (template True lit names)"
    by (auto simp: row(2) names(1))
  obtain st where st: "print_operands D memaddr insn (map (symbol_of (dt_operands D)) js)
      \<lparr>ds_final = template True lit names, ds_addr_value = 0, ds_imm_value = 0\<rparr> = Ret st" "ds_final st = template True lit ts"
    using print_operands_in_order [OF lit(1) ops, of "[]" True "\<lparr>ds_final = template True lit names, ds_addr_value = 0, ds_imm_value = 0\<rparr>" memaddr]
      names tem(2) by auto
  have "opcode_fits D insn n_bits op" using find_first_SomeD [OF row(1)] by simp
  then have "ucast (insn_size_of (dt_formats D) (unat (oc_format_id op))) = (ucast (ucast n_bits :: u64) :: u32)"
    by (simp add: opcode_fits_def)
  also have "\<dots> = n_bits" by (rule ucast_up_ucast_id) (simp add: is_up)
  finally have "disassemble D b memaddr insn n_bits = Ret (finish_insn (oc_mnemonic op) n_bits st, b')"
    using row(1,3) b' st(1) rest(2) by (simp add: disassemble_def Let_def)
  with st(2) show ?thesis by (simp add: finish_insn_def)
qed


definition demo_dis :: dis_target where
  "demo_dis = \<lparr>dt_formats = [demo_op_format],
     dt_opcodes = [\<lparr>oc_mnemonic = ''add'', oc_args = args_of demo_dis_literal [0, 1], oc_image = 0xAB000001, oc_format_id = 0,
       oc_pseudo_idx = 0, oc_dmask = 0xFFFFFF01\<rparr>],
     dt_operands = demo_dis_operands,
     dt_symbols = [\<lparr>us_symbol = ''$4'', us_cspec = ''reg'', us_value = 4\<rparr>, \<lparr>us_symbol = ''$5'', us_cspec = ''reg'', us_value = 5\<rparr>,
       \<lparr>us_symbol = ''sp'', us_cspec = ''reg'', us_value = 5\<rparr>],
     dt_modfndec = [], dt_endian = 0, dt_max_format_size = 32, dt_variable_format_size = False,
     dt_behind = (\<lambda>_. ''x''), dt_parms = demo_parms, dt_stack = replicate 100 NUL,
     dt_read_memory = (\<lambda>_ n. (0, replicate n 0)), dt_buffer = replicate 32 0\<rparr>"


text \<open>
  In an architecture with formats of several sizes, memory that no row matches leaves the
  variables of \<open>print_insn\<close> without a value.
\<close>

lemma find_size_nothing:
  assumes "\<forall>a n. fst (dt_read_memory D a n) = 0" "\<forall>op \<in> set (dt_opcodes D). oc_pseudo_idx op \<noteq> 0"
    and "find_size D memaddr k n buf None = Ret r"
  shows "r = Inr None"
  using assms(3)
proof (induction k arbitrary: n buf)
  case (Suc k)
  have f: "find_first (opcode_fits D w m) (takeWhile (\<lambda>op. oc_dmask op \<noteq> 0) (dt_opcodes D)) = None" for w m
    using assms(2) by (auto simp: opcode_fits_def dest!: set_takeWhileD)
  have none: "(case find_first (opcode_fits D w m) (takeWhile (\<lambda>op. oc_dmask op \<noteq> 0) (dt_opcodes D)) of
      None \<Rightarrow> None | Some _ \<Rightarrow> Some (w, m)) = None" for w m
    by (simp only: f option.case)
  obtain buf2 where buf2: "fetch_data D memaddr (n div 8 - 1) (n div 8) buf = Inr buf2"
    using assms(1) unfolding fetch_data_def case_prod_beta by (simp del: split_paired_All)
  show ?case
    using Suc.prems unfolding find_size.simps buf2 sum.case Let_def none run_then_Ret by (elim exE conjE) (rule Suc.IH)
qed simp

theorem unmatched_insn_undefined:
  assumes "dt_variable_format_size D" "\<forall>a n. fst (dt_read_memory D a n) = 0"
    and "\<forall>op \<in> set (dt_opcodes D). oc_pseudo_idx op \<noteq> 0"
  shows "\<forall>r. print_insn D b memaddr \<noteq> Ret r"
proof (intro allI notI)
  fix r assume "print_insn D b memaddr = Ret r"
  then obtain x where x: "find_size D memaddr (unat (dt_max_format_size D) div 8) 8 (dt_buffer D) None = Ret x"
    "(case x of Inl e \<Rightarrow> Ret (Read_failed e, b) | Inr None \<Rightarrow> Undef
      | Inr (Some (insn, n_bits)) \<Rightarrow> run_then (disassemble D b memaddr insn n_bits) (\<lambda>(r, b). Ret (Printed r, b))) = Ret r"
    using assms(1) unfolding print_insn_def Let_def by (simp only: if_False not_True_eq_False run_then_Ret) blast
  from find_size_nothing [OF assms(2,3) x(1)] x(2) show False by simp
qed

text \<open>
  With nothing readable behind the name of the operand, as C has it for the end of an object, a
  template that ends with the operand makes \<open>replace\<close> read behind the name.
\<close>

theorem last_operand_undefined:
  assumes "clear old pre" "NUL \<notin> set old" "old \<noteq> []"
  shows "replace [] (pre @ old) old new = Undef"
proof -
  have skip: "skip_old (xs @ [NUL]) xs = Undef" if "NUL \<notin> set xs" for xs
    using that by (induction xs) auto
  have "replace_loop old [] new out (pre @ old) = Undef" for out
    using assms(1)
  proof (induction pre arbitrary: out)
    case Nil
    obtain c r where "old = c # r" using assms(3) by (cases old) auto
    with skip [OF assms(2)] show ?case by simp
  qed simp
  then show ?thesis by (simp add: replace_def)
qed

end
