(* ===== verification/GasAssemblerCorrect.thy ===== *)
theory GasAssemblerCorrect
  imports GasAssembler GasSymbolsCorrect DisassemblerCorrect
begin

text \<open>
  The assembler and the disassembler: the text that the disassembler prints for a word is assembled
  to the same word.
\<close>

subsection \<open>The value of an operand in an instruction\<close>

lemma encode_keeps_error:
  "split_input fmts opr n mp = Ret mp' \<Longrightarrow> mp_error mp' = mp_error mp"
  by (induction n arbitrary: mp) (auto simp: Let_def put_field_value_def shift_input_def split: if_splits)

lemma encode_no_error:
  assumes "encode_cons_field fmts ops modfn max_fields img mp n = Ret (img', mp')" "ol_mod_type (ops ! n) = 0"
  shows "mp_error mp' = 0"
  using assms by (auto simp: encode_cons_field_def Let_def dest: encode_keeps_error split: if_splits)

text \<open>Words with the same value of an operand agree in its fields.\<close>

lemma value_determines_fields:
  assumes L: "layout fmts opr js" and n: "n < length ops" "ops ! n = opr"
    and v: "get_value_from_fields ops n u = Ret (v, k)" "get_value_from_fields ops n w = Ret (v, k')"
    and j: "j \<in> set js" "in_field fmts opr j b"
  shows "bit u b = bit w b"
proof -
  let ?s = "sz fmts opr" and ?N = "length js"
  have nf: "unat (get_num_fields (ol_fields opr)) = ?N"
  proof -
    have "?N \<le> 32" using L set_bits_length by (metis layout_def)
    with L show ?thesis by (simp add: get_num_fields_bits layout_def unat_of_nat)
  qed
  have V: "bit v c \<longleftrightarrow> (\<exists>i. i < ?N \<and> below ?s (rev js) i \<le> c \<and> c < below ?s (rev js) i + ?s (rev js ! i) \<and>
       bit x (lo fmts opr (rev js ! i) + (c - below ?s (rev js) i)))"
    if "get_value_from_fields ops n x = Ret (v, k)" for x k c
    using join_fields_bits [OF L, of 0 x 0] n nf that by (auto simp: get_value_from_fields_def Let_def)
  obtain i where i: "i < ?N" "rev js ! i = j" using j(1) by (metis in_set_conv_nth length_rev set_rev)
  define c where "c = below ?s (rev js) i + (b - lo fmts opr j)"
  have c: "below ?s (rev js) i \<le> c" "c < below ?s (rev js) i + ?s (rev js ! i)"
    "lo fmts opr (rev js ! i) + (c - below ?s (rev js) i) = b"
    using j(2) i(2) by (auto simp: c_def in_field_def)
  have uniq: "i' = i" if "i' < ?N" "below ?s (rev js) i' \<le> c" "c < below ?s (rev js) i' + ?s (rev js ! i')" for i'
  proof (rule ccontr)
    assume "i' \<noteq> i"
    have mono: "below ?s (rev js) x + ?s (rev js ! x) \<le> below ?s (rev js) y" if "x < y" "y < ?N" for x y
    proof -
      have "below ?s (rev js) (Suc x) \<le> below ?s (rev js) y"
        using that below_le [of ?s "take y (rev js)" "Suc x"] by (simp add: below_def min_def)
      with that show ?thesis by (simp add: below_Suc)
    qed
    show False using \<open>i' \<noteq> i\<close> mono [of i i'] mono [of i' i] that c(1,2) i(1) by (cases i i' rule: linorder_cases) auto
  qed
  have "bit v c \<longleftrightarrow> bit x b" if "get_value_from_fields ops n x = Ret (v, k)" for x k
    unfolding V [OF that] using i(1) c uniq by metis
  with v show ?thesis by metis
qed

definition operand_fields :: "ac_dec_format list \<Rightarrow> oper_list \<Rightarrow> nat \<Rightarrow> bool" where
  "operand_fields fmts opr b \<longleftrightarrow> (\<exists>j \<in> set (set_bits (ol_fields opr)). in_field fmts opr j b)"

lemma encode_field_bits:
  assumes "oi_is_pseudo o' = 0" and i: "i < length (ge_operands E)" "ge_operands E ! i = opr"
    and L: "layout (ge_formats E) opr (set_bits (ol_fields opr))" and m: "ol_mod_type opr = 0"
    and mp: "\<forall>j \<in> set (set_bits (ol_fields opr)). j < length (mp_field (ge_parms E))"
    and v: "get_value_from_fields (ge_operands E) i w = Ret (v, k)"
  shows "\<exists>img. encode_field E v i [] o' = Ret (o'\<lparr>oi_image := img\<rparr>) \<and>
    (\<forall>b < 32. bit img b = (if operand_fields (ge_formats E) opr b then bit w b else bit (oi_image o') b))"
proof -
  let ?mp = "(ge_parms E)\<lparr>mp_input := v, mp_address := ge_frag_now_fix E, mp_section := Some ''no symbol'', mp_list_results := []\<rparr>"
  let ?js = "set_bits (ol_fields opr)" and ?fmts = "ge_formats E"
  have mp': "\<forall>j \<in> set ?js. j < length (mp_field ?mp)" using mp by simp
  obtain img mp2 where e: "encode_cons_field ?fmts (ge_operands E) (ge_modfn E) (ge_max_fields E) (oi_image o') ?mp i = Ret (img, mp2)"
    "get_value_from_fields (ge_operands E) i (ucast img) =
       Ret (take_bit (sum_list (map (sz ?fmts opr) ?js)) v, of_nat (sum_list (map (sz ?fmts opr) ?js)))"
    "\<forall>b. (\<forall>j \<in> set ?js. \<not> in_field ?fmts opr j b) \<longrightarrow> bit img b = bit (oi_image o') b"
    using encode_decode [OF L i m mp', of "ge_modfn E" "ge_max_fields E" "oi_image o'"] by auto
  have "mp_error mp2 = 0" using encode_no_error [OF e(1)] i m by simp
  then have "encode_field E v i [] o' = Ret (o'\<lparr>oi_image := img\<rparr>)"
    using assms(1) e(1) by (simp add: encode_field_def Let_def)
  moreover have "take_bit (sum_list (map (sz ?fmts opr) ?js)) v = v"
  proof -
    have nf: "unat (get_num_fields (ol_fields opr)) = length ?js"
      using set_bits_length [of "ol_fields opr"] by (simp add: get_num_fields_bits unat_of_nat)
    obtain v' where "get_value_from_fields (ge_operands E) i w = Ret (v', of_nat (sum_list (map (sz ?fmts opr) ?js)))"
      "\<forall>b. bit v' b \<longleftrightarrow> (\<exists>i. i < length ?js \<and> below (sz ?fmts opr) (rev ?js) i \<le> b \<and>
         b < below (sz ?fmts opr) (rev ?js) i + sz ?fmts opr (rev ?js ! i) \<and>
         bit w (lo ?fmts opr (rev ?js ! i) + (b - below (sz ?fmts opr) (rev ?js) i)))"
      using join_fields_bits [OF L, of 0 w 0] i nf by (auto simp: get_value_from_fields_def Let_def)
    then have "v = v'" and V: "\<And>b. bit v b \<Longrightarrow> \<exists>i. i < length ?js \<and> b < below (sz ?fmts opr) (rev ?js) (Suc i)"
      using v by (auto simp: below_Suc)
    have "b < sum_list (map (sz ?fmts opr) ?js)" if b: "bit v b" for b
    proof -
      obtain x where "b < below (sz ?fmts opr) (rev ?js) (Suc x)" using V [OF b] by blast
      with below_le [of "sz ?fmts opr" "rev ?js" "Suc x"] show ?thesis by (simp add: rev_map [symmetric])
    qed
    then show ?thesis by (intro bit_word_eqI) (auto simp: bit_take_bit_iff)
  qed
  then have gv: "get_value_from_fields (ge_operands E) i (ucast img) = Ret (v, of_nat (sum_list (map (sz ?fmts opr) ?js)))"
    using e(2) by simp
  have "bit img b = bit w b" if "j \<in> set ?js" "in_field ?fmts opr j b" "b < 32" for j b
    using value_determines_fields [OF L i gv v that(1,2)] that(3) by (simp add: bit_ucast_iff)
  ultimately show ?thesis using e(3) unfolding operand_fields_def by (intro exI [of _ img]) auto
qed

subsection \<open>Reading an operand\<close>

text \<open>What gas documents of its readers of numbers, for the numbers the disassembler prints.\<close>

definition reads_numbers :: "'h gas_env \<Rightarrow> bool" where
  "reads_numbers E \<longleftrightarrow> (\<forall>hook n s. n < 2 ^ 32 \<longrightarrow> s = [] \<or> hd s \<in> set '',)]'' \<longrightarrow>
     ge_single_number E hook (hex_text False n @ s) = Ret (int n, s, None) \<and>
     ge_expression E hook (hex_text False n @ s) = Ret (X_constant (int n), s, None))"

text \<open>The tables as \<open>md_begin\<close> fills them from sorted symbols.\<close>

definition tables_filled :: "'h gas_env \<Rightarrow> bool" where
  "tables_filled E \<longleftrightarrow> hash_laws (ge_hash E) \<and>
     md_begin (ge_hash E) False (ge_opcodes E) (ge_symbols E) = Ret (ge_op_hash E, ge_sym_hash E) \<and>
     sorted (map us_symbol (ge_symbols E)) \<and> distinct (map (\<lambda>x. (us_symbol x, us_cspec x)) (ge_symbols E))"

definition symbol_word :: "string \<Rightarrow> bool" where
  "symbol_word t \<longleftrightarrow> (case t of [] \<Rightarrow> False | c # u \<Rightarrow> operand_start c \<and> list_all operand_char u)"

text \<open>\<open>t\<close> is a text for operand \<open>i\<close> of the word \<open>w\<close>, in front of \<open>rest\<close>.\<close>

definition operand_text :: "'h gas_env \<Rightarrow> u64 \<Rightarrow> nat \<Rightarrow> string \<Rightarrow> string \<Rightarrow> bool" where
  "operand_text E w i t rest \<longleftrightarrow>
     (let opr = ge_operands E ! i in
      i < length (ge_operands E) \<and> \<not> ol_is_list opr \<and> ol_mod_type opr = 0 \<and>
      layout (ge_formats E) opr (set_bits (ol_fields opr)) \<and>
      list_all (\<lambda>j. j < length (mp_field (ge_parms E))) (set_bits (ol_fields opr)) \<and>
      (case get_value_from_fields (ge_operands E) i w of
         Ret (v, k) \<Rightarrow>
           (case ol_type opr of
              op_userdef \<Rightarrow>
                ol_name opr \<noteq> [] \<and> symbol_word t \<and> (rest = [] \<or> \<not> operand_char (hd rest)) \<and>
                list_ex (\<lambda>x. us_symbol x = t \<and> us_cspec x = ol_name opr \<and> ucast (us_value x) = v) (ge_symbols E)
            | op_addr \<Rightarrow> False
            | _ \<Rightarrow> t = hex_text False (unat v) \<and> (rest = [] \<or> hd rest \<in> set '',)]''))
       | _ \<Rightarrow> False))"

lemma operand_text_first:
  assumes "operand_text E w i t rest"
  shows "t \<noteq> []" "\<not> isspace (hd t)"
proof -
  have "hex_text False n = CHR ''0'' # CHR ''x'' # hex_str False n" for n by (simp add: hex_text_def)
  moreover have "operand_start c \<Longrightarrow> \<not> isspace c" for c
    by (auto simp: operand_start_def isspace_def isalpha_def islower_def isupper_def isdigit_def less_eq_char_def)
  ultimately show "t \<noteq> []" "\<not> isspace (hd t)"
    using assms by (auto simp: operand_text_def Let_def symbol_word_def isspace_def
        split: run.split_asm prod.split_asm operand_type.split_asm list.split_asm)
qed

lemma find_first_distinct:
  assumes "distinct (map f xs)" "x \<in> set xs" "f x = k"
  shows "find_first (\<lambda>x. f x = k) xs = Some x"
  using assms by (induction xs) (auto simp: image_iff)

lemma env_symbol_word:
  assumes "tables_filled E" "x \<in> set (ge_symbols E)" "us_cspec x \<noteq> []"
  shows "env_symbol E al (us_cspec x) (us_symbol x) = Ret (Some (ucast (us_value x)))"
proof -
  have t: "hash_laws (ge_hash E)" "md_begin (ge_hash E) False (ge_opcodes E) (ge_symbols E) = Ret (ge_op_hash E, ge_sym_hash E)"
    "sorted (map us_symbol (ge_symbols E))" "distinct (map (\<lambda>x. (us_symbol x, us_cspec x)) (ge_symbols E))"
    using assms(1) by (auto simp: tables_filled_def)
  have "hash_find (ge_hash E) (ge_sym_hash E) (us_symbol x) = first_index (\<lambda>s. us_symbol s = us_symbol x) (ge_symbols E)"
    using md_begin_tables(2) [OF t(1,2)] by simp
  from valid_symbol_entry [OF this t(3) assms(3)] assms(2)
    find_first_distinct [OF t(4) assms(2) refl] show ?thesis
    by (auto simp: env_symbol_def)
qed

lemma get_userdefoper_word:
  assumes "symbol_word t" "rest = [] \<or> \<not> operand_char (hd rest)" "env_symbol E al opclass t = Ret (Some v)"
  shows "get_userdefoper E al opclass (t @ rest) = Ret (Inr (v, rest))"
proof -
  obtain c u where t: "t = c # u" "operand_start c" "list_all operand_char u"
    using assms(1) by (auto simp: symbol_word_def split: list.split_asm)
  have "takeWhile operand_char (u @ rest) = u \<and> dropWhile operand_char (u @ rest) = rest"
    using t(3) assms(2) by (cases rest) (auto simp: list_all_iff)
  with t assms(3) show ?thesis by (simp add: get_userdefoper_def)
qed

lemma read_operand_text:
  assumes "operand_text E w i t rest" "reads_numbers E" "tables_filled E"
  shows "\<exists>v k. get_value_from_fields (ge_operands E) i w = Ret (v, k) \<and>
    read_operand E al save (ge_operands E ! i) (t @ rest) = Ret (Op_value v rest)"
proof -
  let ?opr = "ge_operands E ! i"
  obtain v k where v: "get_value_from_fields (ge_operands E) i w = Ret (v, k)"
    using assms(1) by (auto simp: operand_text_def Let_def split: run.split_asm prod.split_asm)
  have l: "unat v < 2 ^ 32" using unsigned_less [of v] by simp
  have n: "ge_single_number E hook (hex_text False (unat v) @ rest) = Ret (int (unat v), rest, None)"
    "ge_expression E hook (hex_text False (unat v) @ rest) = Ret (X_constant (int (unat v)), rest, None)"
    if "rest = [] \<or> hd rest \<in> set '',)]''" for hook
    using assms(2) l that unfolding reads_numbers_def by blast+
  show ?thesis
  proof (cases "ol_type ?opr")
    case op_userdef
    then obtain x where "ol_name ?opr \<noteq> []" "symbol_word t" "rest = [] \<or> \<not> operand_char (hd rest)"
      "x \<in> set (ge_symbols E)" "us_symbol x = t" "us_cspec x = ol_name ?opr" "ucast (us_value x) = v"
      using assms(1) v by (auto simp: operand_text_def Let_def list_ex_iff)
    with env_symbol_word [OF assms(3), of x al] get_userdefoper_word [of t rest E al "ol_name ?opr" v] op_userdef v
    show ?thesis by (simp add: read_operand_def)
  qed (use assms(1) v n in \<open>auto simp: operand_text_def Let_def read_operand_def get_expression_def get_immediate_def\<close>)
qed

text \<open>What stays when the operands \<open>js\<close> of \<open>w\<close> are stored.\<close>

definition stores :: "'h gas_env \<Rightarrow> u64 \<Rightarrow> nat list \<Rightarrow> insn_encoding \<Rightarrow> insn_encoding \<Rightarrow> bool" where
  "stores E w js o1 o2 \<longleftrightarrow>
     oi_format o2 = oi_format o1 \<and> oi_is_pseudo o2 = oi_is_pseudo o1 \<and> oi_fixups o2 = oi_fixups o1 \<and> oi_invalid o2 = oi_invalid o1 \<and>
     length (oi_op_pos o2) = length (oi_op_pos o1) + 2 * length js \<and>
     (\<forall>b < 32. bit (oi_image o2) b =
        (if \<exists>i \<in> set js. operand_fields (ge_formats E) (ge_operands E ! i) b then bit w b else bit (oi_image o1) b))"

lemma parse_operand_text:
  assumes "operand_text E w i t rest" "reads_numbers E" "tables_filled E" "oi_is_pseudo o' = 0" "length (oi_op_pos o') + 2 \<le> 18"
  shows "\<exists>o1 o2 o3. push_pos (t @ rest) o' = Ret o1 \<and> parse_operand E al i o1 (t @ rest) = Ret (Inr (o2, rest)) \<and>
    push_pos rest o2 = Ret o3 \<and> stores E w [i] o' o3"
proof -
  let ?opr = "ge_operands E ! i" and ?o1 = "o'\<lparr>oi_op_pos := oi_op_pos o' @ [t @ rest]\<rparr>"
  define o2 where "o2 = (if ol_type ?opr = op_exp then ?o1\<lparr>oi_save_expr := first_char (t @ rest)\<rparr> else ?o1)"
  have o: "i < length (ge_operands E)" "\<not> ol_is_list ?opr" "ol_mod_type ?opr = 0" "layout (ge_formats E) ?opr (set_bits (ol_fields ?opr))"
    "\<forall>j \<in> set (set_bits (ol_fields ?opr)). j < length (mp_field (ge_parms E))"
    using assms(1) by (auto simp: operand_text_def Let_def list_all_iff)
  obtain v k where v: "get_value_from_fields (ge_operands E) i w = Ret (v, k)"
    "read_operand E al (oi_save_expr ?o1) ?opr (t @ rest) = Ret (Op_value v rest)"
    using read_operand_text [OF assms(1-3)] by blast
  have z: "oi_is_pseudo o2 = 0" using assms(4) by (simp add: o2_def)
  obtain img where img: "encode_field E v i [] o2 = Ret (o2\<lparr>oi_image := img\<rparr>)"
    "\<forall>b < 32. bit img b = (if operand_fields (ge_formats E) ?opr b then bit w b else bit (oi_image o2) b)"
    using encode_field_bits [OF z o(1) refl o(4,3,5) v(1)] by blast
  have "parse_operand E al i ?o1 (t @ rest) = Ret (Inr (o2\<lparr>oi_image := img\<rparr>, rest))"
    using v(2) img(1) o(2) by (simp add: parse_operand_def operand_turn_def Let_def o2_def split: if_splits)
  moreover have "stores E w [i] o' (o2\<lparr>oi_image := img, oi_op_pos := oi_op_pos o2 @ [rest]\<rparr>)"
    using img(2) by (simp add: stores_def o2_def)
  ultimately show ?thesis using assms(5) by (simp add: push_pos_def o2_def)
qed

subsection \<open>The operands of a row\<close>

text \<open>
  The text of a literal, as the disassembler prints it, can be read by the arguments of the literal:
  no per cent sign is escaped, blanks are single and not at the end, and the texts of the operands are
  read up to what follows. \<open>blank\<close> says that a blank was just read.
\<close>

fun assembles :: "'h gas_env \<Rightarrow> u64 \<Rightarrow> bool \<Rightarrow> string \<Rightarrow> nat list \<Rightarrow> string list \<Rightarrow> bool" where
  "assembles E w blank [] js ts \<longleftrightarrow> \<not> blank \<and> js = [] \<and> ts = []"
| "assembles E w blank (c # s) js ts \<longleftrightarrow>
     c \<noteq> CHR 0x5C \<and>
     (if isspace c then c = CHR '' '' \<and> \<not> blank \<and> assembles E w True s js ts
      else if c = CHR ''%'' then
        js \<noteq> [] \<and> ts \<noteq> [] \<and> operand_text E w (hd js) (hd ts) (template False s (tl ts)) \<and> assembles E w False s (tl js) (tl ts)
      else assembles E w False s js ts)"

lemma assembles_behind_blank:
  "assembles E w True lit js ts \<Longrightarrow>
   (\<exists>c s. template False lit ts = c # s \<and> \<not> isspace c) \<and> (\<exists>c s. args_of lit js = c # s \<and> \<not> isspace c)"
proof (cases lit)
  case (Cons c s)
  assume a: "assembles E w True lit js ts"
  show ?thesis
  proof (cases "c = CHR ''%''")
    case True
    with a Cons have "operand_text E w (hd js) (hd ts) (template False s (tl ts))" by (simp add: isspace_def)
    from operand_text_first [OF this] True Cons show ?thesis by (cases "hd ts") (auto simp: isspace_def)
  next
    case False
    with a Cons show ?thesis by (auto split: if_split_asm)
  qed
qed simp

lemma parse_blank:
  assumes "\<exists>c s'. s = c # s' \<and> \<not> isspace c" "\<exists>c args'. args = c # args' \<and> \<not> isspace c"
  shows "ac_parse_operands E al o' (CHR '' '' # s) (CHR '' '' # args) = ac_parse_operands E al o' s args"
proof -
  obtain c s' d args' where "s = c # s'" "\<not> isspace c" "args = d # args'" "\<not> isspace d" using assms by auto
  moreover have "isspace (CHR '' '')" by (simp add: isspace_def)
  ultimately show ?thesis by (simp add: Let_def)
qed

lemma parse_literal:
  "\<not> isspace c \<Longrightarrow> c \<noteq> CHR ''%'' \<Longrightarrow> c \<noteq> CHR 0x5C \<Longrightarrow>
   ac_parse_operands E al o' (c # s) (c # args) = ac_parse_operands E al o' s args"
  by (simp add: Let_def)

lemma op_tag_digits:
  "list_all isdigit d \<Longrightarrow> length buf + length d < 30 \<Longrightarrow> op_tag buf (d @ CHR '':'' # s) = Ret (buf @ d, s)"
proof (induction d arbitrary: buf)
  case (Cons c d)
  moreover have "c \<noteq> CHR '':''" using Cons.prems(1) by (auto simp: isdigit_def less_eq_char_def)
  ultimately show ?case by simp
qed simp

lemma op_tag_id:
  assumes "i < 2 ^ 31"
  shows "op_tag [] (dec_str i @ CHR '':'' # s) = Ret (dec_str i, s)" "tag_id (dec_str i) = i"
proof -
  have "length (dec_str i) \<le> Suc 9" using assms by (intro dec_str_length) simp
  then show "op_tag [] (dec_str i @ CHR '':'' # s) = Ret (dec_str i, s)"
    using op_tag_digits [of "dec_str i" "[]" s] by (simp add: list_all_iff dec_str_isdigit)
  show "tag_id (dec_str i) = i" using assms by (simp add: tag_id_def atoi_dec_str unat_of_nat)
qed

lemma stores_trans:
  "stores E w js o1 o2 \<Longrightarrow> stores E w ks o2 o3 \<Longrightarrow> stores E w (js @ ks) o1 o3"
  unfolding stores_def by (auto simp del: not_less split: if_split_asm)

lemma parse_operands_text:
  assumes "assembles E w blank lit js ts" "reads_numbers E" "tables_filled E" "length (ge_operands E) < 2 ^ 31"
    and "oi_is_pseudo o' = 0" "length (oi_op_pos o') + 2 * length js \<le> 18"
  shows "\<exists>o2. ac_parse_operands E al o' (template False lit ts) (args_of lit js) = Ret (None, o2) \<and> stores E w js o' o2"
  using assms(1,5,6)
proof (induction lit arbitrary: blank js ts o')
  case Nil
  then show ?case by (simp add: stores_def)
next
  case (Cons c s)
  consider (blank) "isspace c" | (tag) "c = CHR ''%''" | (plain) "\<not> isspace c" "c \<noteq> CHR ''%''" "c \<noteq> CHR 0x5C"
    using Cons.prems(1) by auto
  then show ?case
  proof cases
    case blank
    with Cons.prems(1) have c: "c = CHR '' ''" "assembles E w True s js ts" by auto
    with assembles_behind_blank [OF c(2)] Cons.IH [OF c(2) Cons.prems(2,3)]
    show ?thesis by (simp add: parse_blank del: ac_parse_operands.simps)
  next
    case plain
    with Cons.prems(1) have "assembles E w False s js ts" by simp
    with Cons.IH [OF this Cons.prems(2,3)] plain show ?thesis by (simp add: parse_literal del: ac_parse_operands.simps)
  next
    case tag
    then have "\<not> isspace c" by (simp add: isspace_def)
    with Cons.prems(1) tag obtain i js2 t ts2 where js: "js = i # js2" "ts = t # ts2"
      "operand_text E w i t (template False s ts2)" "assembles E w False s js2 ts2"
      by (cases js; cases ts) auto
    let ?rest = "template False s ts2"
    have i: "i < length (ge_operands E)" "i < 2 ^ 31"
      using js(3) assms(4) by (auto simp: operand_text_def Let_def)
    have "length (oi_op_pos o') + 2 \<le> 18" using Cons.prems(3) js(1) by simp
    from parse_operand_text [OF js(3) assms(2,3) Cons.prems(2) this]
    obtain o1 o2 o3 where o: "push_pos (t @ ?rest) o' = Ret o1" "parse_operand E al i o1 (t @ ?rest) = Ret (Inr (o2, ?rest))"
      "push_pos ?rest o2 = Ret o3" "stores E w [i] o' o3" by blast
    have o3: "oi_is_pseudo o3 = 0" "length (oi_op_pos o3) + 2 * length js2 \<le> 18"
      using o(4) Cons.prems(2,3) js(1) by (auto simp: stores_def)
    obtain o4 where o4: "ac_parse_operands E al o3 ?rest (args_of s js2) = Ret (None, o4)" "stores E w js2 o3 o4"
      using Cons.IH [OF js(4) o3] by blast
    obtain d u where t: "t = d # u" "\<not> isspace d" using operand_text_first [OF js(3)] by (cases t) auto
    have "ac_parse_operands E al o' (t @ ?rest) (CHR ''%'' # dec_str i @ CHR '':'' # args_of s js2) = Ret (None, o4)"
      using o(1-3) o4(1) t op_tag_id [OF i(2)] i(1)
      by (simp add: Let_def isspace_def)
    moreover have "stores E w js o' o4" using stores_trans [OF o(4) o4(2)] js(1) by simp
    ultimately show ?thesis using tag js by auto
  qed
qed

subsection \<open>The row and its mnemonic\<close>

text \<open>The encoding when a row is tried.\<close>

definition start_row :: "acasm_opcode \<Rightarrow> insn_encoding \<Rightarrow> insn_encoding" where
  "start_row op o' = (clean_out_insn o')\<lparr>oi_image := ucast (oc_image op), oi_format := ucast (oc_format_id op),
     oi_is_pseudo := oc_pseudo_idx op\<rparr>"

text \<open>The literal is empty or starts with the blank behind the mnemonic.\<close>

definition behind_mnemonic :: "string \<Rightarrow> bool" where
  "behind_mnemonic lit \<longleftrightarrow> lit = [] \<or> hd lit = CHR '' ''"

lemma template_first:
  assumes "assembles E w False lit js ts" "behind_mnemonic lit"
  shows "lit = [] \<and> js = [] \<and> ts = [] \<or>
    (\<exists>s. lit = CHR '' '' # s \<and> assembles E w True s js ts \<and> template True lit ts = CHR 0x09 # template False s ts \<and>
       args_of lit js = CHR '' '' # args_of s js)"
  using assms by (cases lit) (auto simp: behind_mnemonic_def isspace_def)

lemma try_row_text:
  assumes "assembles E w False lit js ts" "behind_mnemonic lit" "oc_args op = args_of lit js" "length (oc_args op) < 200"
    and "reads_numbers E" "tables_filled E" "length (ge_operands E) < 2 ^ 31" "\<not> ge_insensitive_symbols E"
    and "oc_pseudo_idx op = 0" "length js \<le> 9"
  shows "\<exists>o2. try_row E al op (template True lit ts) o' = Ret (None, False, True, template True lit ts, o2) \<and>
     stores E w js (start_row op o') o2"
proof -
  let ?o = "start_row op o'"
  have o: "oi_is_pseudo ?o = 0" "length (oi_op_pos ?o) + 2 * length js \<le> 18"
    using assms(9,10) by (simp_all add: start_row_def clean_out_insn_def)
  have start: "(clean_out_insn o')\<lparr>oi_image := ucast (oc_image op), oi_format := ucast (oc_format_id op), oi_is_pseudo := 0\<rparr> = ?o"
    using assms(9) by (simp add: start_row_def)
  from template_first [OF assms(1,2)] show ?thesis
  proof (elim disjE exE conjE)
    assume "lit = []" "js = []" "ts = []"
    then show ?thesis
      using assms(3,8,9) by (intro exI [of _ ?o]) (simp add: try_row_def Let_def start stores_def)
  next
    fix s assume s: "lit = CHR '' '' # s" "assembles E w True s js ts" "template True lit ts = CHR 0x09 # template False s ts"
      "args_of lit js = CHR '' '' # args_of s js"
    obtain o2 where o2: "ac_parse_operands E al ?o (template False s ts) (args_of s js) = Ret (None, o2)" "stores E w js ?o o2"
      using parse_operands_text [OF s(2) assms(5-7) o] by blast
    have sp: "isspace (CHR '' '')" "isspace (CHR 0x09)" by (simp_all add: isspace_def)
    have d: "dropWhile isspace (template False s ts) = template False s ts"
      using assembles_behind_blank [OF s(2)] by auto
    show ?thesis
      using assms(3,4,8,9) o2 sp d by (intro exI [of _ o2]) (simp add: try_row_def Let_def start s(3,4))
  qed
qed

text \<open>A row that refuses a text, without a report, so that the next one is tried.\<close>

definition refuses :: "'h gas_env \<Rightarrow> acaliastype list \<Rightarrow> acasm_opcode \<Rightarrow> string \<Rightarrow> bool" where
  "refuses E al op s \<longleftrightarrow>
     (\<forall>o'. \<exists>e sfx o2. try_row E al op s o' = Ret (Some e, sfx, True, s, o2) \<and> oi_invalid o2 = oi_invalid o')"

lemma main_loop_refused:
  assumes "i < length (ge_opcodes E)" "\<And>j. k \<le> j \<Longrightarrow> j < i \<Longrightarrow> same_mnemonic E j \<and> refuses E al (ge_opcodes E ! j) s" "k \<le> i"
  shows "\<exists>le' o2. main_loop E al k s le o' = main_loop E al i s le' o2 \<and> oi_invalid o2 = oi_invalid o'"
  using assms(2,3)
proof (induction "i - k" arbitrary: k le o')
  case 0
  then show ?case by auto
next
  case (Suc d)
  then have k: "k < i" by simp
  with Suc.prems obtain e sfx o1 where t: "try_row E al (ge_opcodes E ! k) s o' = Ret (Some e, sfx, True, s, o1)" "oi_invalid o1 = oi_invalid o'"
    "same_mnemonic E k" unfolding refuses_def by blast
  have "k < length (ge_opcodes E)" using k assms(1) by simp
  with t have step: "main_loop E al k s le o' = main_loop E al (k + 1) s (if sfx then le else Some e) o1"
    by (subst main_loop.simps) simp
  have "d = i - (k + 1)" "k + 1 \<le> i" using Suc(2) k by auto
  with Suc.hyps(1) [of "k + 1" "if sfx then le else Some e" o1] Suc.prems(1) show ?case
    unfolding step t(2) [symmetric] by simp
qed

lemma main_loop_found:
  assumes "i < length (ge_opcodes E)" "try_row E al (ge_opcodes E ! i) s o' = Ret (None, False, keep, s, o2)"
  shows "main_loop E al i s le o' = Ret (None, le, i, s, o2)"
  using assms by (subst main_loop.simps) simp

lemma outer_loop_found:
  assumes "tables_filled E" "i < length (ge_opcodes E)" "ge_opcodes E ! i = op" "oc_mnemonic op \<noteq> []"
    and refused: "\<And>j. j < i \<Longrightarrow> oc_mnemonic (ge_opcodes E ! j) = oc_mnemonic op \<Longrightarrow> refuses E al (ge_opcodes E ! j) s"
    and found: "\<And>o'. \<exists>o2. try_row E al op s o' = Ret (None, False, True, s, o2) \<and> stores E w js (start_row op o') o2"
  shows "\<exists>o1 o2. outer_loop E al None (length (oc_mnemonic op)) (oc_mnemonic op @ s) le o' = Ret (Found i o2, o2) \<and>
    oi_invalid o1 = oi_invalid o' \<and> stores E w js (start_row op o1) o2"
proof -
  let ?m = "oc_mnemonic op"
  have E: "hash_laws (ge_hash E)" "md_begin (ge_hash E) False (ge_opcodes E) (ge_symbols E) = Ret (ge_op_hash E, ge_sym_hash E)"
    using assms(1) by (auto simp: tables_filled_def)
  obtain k where k: "first_index (\<lambda>op. oc_mnemonic op = ?m) (ge_opcodes E) = Some k"
    using assms(2,3) by (cases "first_index (\<lambda>op. oc_mnemonic op = ?m) (ge_opcodes E)") (auto dest: nth_mem)
  note K = first_index_SomeD [OF k]
  have ki: "k \<le> i" using K assms(3) by (metis not_le)
  have same: "oc_mnemonic (ge_opcodes E ! j) = ?m" if "k \<le> j" "j \<le> i" for j
    using md_begin_tables(3) [OF E that assms(2)] K assms(3) by simp
  obtain le' o1 where o1: "main_loop E al k s le o' = main_loop E al i s le' o1" "oi_invalid o1 = oi_invalid o'"
  proof (rule main_loop_refused [OF assms(2) _ ki, THEN exE])
    fix j assume "k \<le> j" "j < i"
    then show "same_mnemonic E j \<and> refuses E al (ge_opcodes E ! j) s"
      using same [of j] same [of "j + 1"] refused assms(2) by (simp add: same_mnemonic_def)
  qed (use that in blast)
  obtain o2 where o2: "try_row E al op s o1 = Ret (None, False, True, s, o2)" "stores E w js (start_row op o1) o2"
    using found by blast
  have ml: "main_loop E al k s le o' = Ret (None, le', i, s, o2)"
    unfolding o1(1) using o2(1) assms(2,3) by (intro main_loop_found) simp_all
  obtain n where n: "length ?m = Suc n" using assms(4) by (cases ?m) auto
  have "hash_find (ge_hash E) (ge_op_hash E) ?m = Some k" using md_begin_tables(1) [OF E] k by simp
  moreover have "take (Suc n) (?m @ s) = ?m" "drop (Suc n) (?m @ s) = s" using n by (simp_all flip: n)
  ultimately have "outer_loop E al None (length ?m) (?m @ s) le o' = Ret (Found i o2, o2)"
    using ml by (simp add: n)
  with o1(2) o2(2) show ?thesis by blast
qed

lemma takeWhile_mnemonic:
  assumes "list_all (\<lambda>c. \<not> isspace c) m" "s = [] \<or> isspace (hd s)"
  shows "takeWhile (\<lambda>c. \<not> isspace c) (m @ s) = m"
  using assms by (cases s) (auto simp: list_all_iff takeWhile_append2)

lemma template_start:
  "behind_mnemonic lit \<Longrightarrow> template True lit ts = [] \<or> isspace (hd (template True lit ts))"
  by (cases lit) (auto simp: behind_mnemonic_def isspace_def)

lemma assembles_literal: "assembles E w blank lit js ts \<Longrightarrow> literal lit (length js) \<and> length ts = length js"
proof (induction lit arbitrary: blank js ts)
  case Nil
  then show ?case by (auto intro: literal.lit_nil)
next
  case (Cons c s)
  show ?case
  proof (cases "c = CHR ''%''")
    case True
    with Cons.prems obtain i js2 t ts2 where "js = i # js2" "ts = t # ts2" "assembles E w False s js2 ts2"
      by (cases js; cases ts) (auto simp: isspace_def)
    with Cons.IH True show ?thesis by (auto intro: literal.lit_tag)
  next
    case False
    with Cons show ?thesis by (auto intro: literal.lit_char split: if_split_asm)
  qed
qed

text \<open>The row \<open>op\<close> with the literal \<open>lit\<close>: \<open>w\<close> can be printed, and the text can be read again.\<close>

definition prints :: "dis_target \<Rightarrow> u64 \<Rightarrow> acasm_opcode \<Rightarrow> string \<Rightarrow> nat list \<Rightarrow> string list \<Rightarrow> bool" where
  "prints D w op lit js ts \<longleftrightarrow>
     (let names = map (\<lambda>i. ol_name (dt_operands D ! i)) js in
      oc_args op = args_of lit js \<and> length (oc_args op) < 50 \<and> list_all2 (shows_operand D w) js ts \<and>
      list_all (\<lambda>s. length (us_symbol s) < 100) (dt_symbols D) \<and> in_order [] True lit names ts \<and>
      length (template True lit names) < 100 \<and> NUL \<notin> set (template True lit names))"

definition reads_back :: "'h gas_env \<Rightarrow> u64 \<Rightarrow> acasm_opcode \<Rightarrow> string \<Rightarrow> nat list \<Rightarrow> string list \<Rightarrow> bool" where
  "reads_back E w op lit js ts \<longleftrightarrow>
     assembles E w False lit js ts \<and> behind_mnemonic lit \<and> length js \<le> 9 \<and>
     oc_mnemonic op \<noteq> [] \<and> list_all (\<lambda>c. \<not> isspace c) (oc_mnemonic op) \<and>
     map to_lower (take 4 (dropWhile isspace (template True lit ts))) \<noteq> ''.req'' \<and>
     oc_format_id op < 2 ^ 32"

text \<open>Every bit that the row does not fix belongs to an operand.\<close>

definition row_complete :: "'h gas_env \<Rightarrow> acasm_opcode \<Rightarrow> nat list \<Rightarrow> bool" where
  "row_complete E op js \<longleftrightarrow>
     list_all (\<lambda>b. bit (oc_dmask op) b \<or> list_ex (\<lambda>i. operand_fields (ge_formats E) (ge_operands E ! i) b) js) [0..<32]"

lemma stored_word:
  assumes "stores E w js (start_row op o1) o2" "row_complete E op js" "w AND oc_dmask op = oc_image op"
  shows "oi_image o2 = ucast w"
proof (rule bit_word_eqI)
  fix b assume "b < LENGTH(32)"
  then have b: "b < 32" by simp
  have "bit (oi_image o2) b = (if \<exists>i \<in> set js. operand_fields (ge_formats E) (ge_operands E ! i) b then bit w b
      else bit (oc_image op) b)"
    using assms(1) b by (simp add: stores_def start_row_def clean_out_insn_def bit_ucast_iff)
  moreover have "bit (oc_dmask op) b \<or> (\<exists>i \<in> set js. operand_fields (ge_formats E) (ge_operands E ! i) b)"
    using assms(2) b by (auto simp: row_complete_def list_all_iff list_ex_iff)
  moreover have "bit (oc_image op) b = (bit w b \<and> bit (oc_dmask op) b)" by (simp flip: assms(3) add: bit_and_iff)
  ultimately show "bit (oi_image o2) b = bit (ucast w :: u32) b" using b by (auto simp: bit_ucast_iff)
qed

lemma md_assemble_text:
  assumes E: "reads_numbers E" "tables_filled E" "length (ge_operands E) < 2 ^ 31" "\<not> ge_insensitive_symbols E" "ge_original_case E = None"
    and op: "i < length (ge_opcodes E)" "ge_opcodes E ! i = op" "oc_pseudo_idx op = 0" "oc_args op = args_of lit js" "length (oc_args op) < 200"
    and read: "reads_back E w op lit js ts" "row_complete E op js" "w AND oc_dmask op = oc_image op"
    and refused: "\<And>j. j < i \<Longrightarrow> oc_mnemonic (ge_opcodes E ! j) = oc_mnemonic op \<Longrightarrow>
      refuses E (ao_aliases out) (ge_opcodes E ! j) (template True lit ts)"
  shows "\<exists>o2. md_assemble E (oc_mnemonic op @ template True lit ts) out =
    Ret (out\<lparr>ao_insns := ao_insns out @ [\<lparr>em_image = ucast w,
        em_bytes = insn_size_of (ge_formats E) (unat (oc_format_id op)) div 8, em_fixups = []\<rparr>], ao_out_insn := o2\<rparr>)"
proof -
  let ?s = "template True lit ts" and ?m = "oc_mnemonic op" and ?o = "(ao_out_insn out)\<lparr>oi_invalid := []\<rparr>"
  have R: "assembles E w False lit js ts" "behind_mnemonic lit" "length js \<le> 9" "?m \<noteq> []" "list_all (\<lambda>c. \<not> isspace c) ?m"
    "map to_lower (take 4 (dropWhile isspace ?s)) \<noteq> ''.req''" "oc_format_id op < 2 ^ 32"
    using read(1) by (auto simp: reads_back_def)
  have found: "\<exists>o2. try_row E (ao_aliases out) op ?s o' = Ret (None, False, True, ?s, o2) \<and> stores E w js (start_row op o') o2" for o'
    by (rule try_row_text [OF R(1,2) op(4,5) E(1-4) op(3) R(3)])
  obtain o1 o2 where o: "outer_loop E (ao_aliases out) None (length ?m) (?m @ ?s) None ?o = Ret (Found i o2, o2)"
    "oi_invalid o1 = []" "stores E w js (start_row op o1) o2"
    using outer_loop_found [OF E(2) op(1,2) R(4) refused found, of None ?o] by auto
  have o2: "oi_invalid o2 = []" "oi_fixups o2 = []" "oi_format o2 = ucast (oc_format_id op)"
    using o(2,3) by (simp_all add: stores_def start_row_def clean_out_insn_def)
  have "unat (oc_format_id op) < 2 ^ 32" using R(7) by (simp add: word_less_nat_alt)
  moreover have "(ucast (oc_format_id op) :: u32) = of_nat (unat (oc_format_id op))" by simp
  ultimately have "unat (ucast (oc_format_id op) :: u32) = unat (oc_format_id op)" by (simp only: unat_of_nat) simp
  then have e: "emit_insn E o2 = Ret \<lparr>em_image = ucast w,
      em_bytes = insn_size_of (ge_formats E) (unat (oc_format_id op)) div 8, em_fixups = []\<rparr>"
    using o2 stored_word [OF o(3) read(2,3)] by (simp add: emit_insn_def)
  have tw: "takeWhile (\<lambda>c. \<not> isspace c) (?m @ ?s) = ?m" using R(5) template_start [OF R(2)] by (rule takeWhile_mnemonic)
  show ?thesis
    unfolding md_assemble_def md_assemble_with_def Let_def tw E(5) if_False option.case
    using R(6) o(1) o2(1,2) op(2,3) e by (intro exI [of _ "o2\<lparr>oi_fixups := []\<rparr>"]) simp
qed

subsection \<open>Properties\<close>


lemma hex_chr_digit: "d < 16 \<Longrightarrow> digit_of 16 (hex_chr False d) = Some d"
proof -
  have "\<forall>d < 16. digit_of 16 (hex_chr False d) = Some d" by code_simp
  then show "d < 16 \<Longrightarrow> digit_of 16 (hex_chr False d) = Some d" by blast
qed

lemma hex_str_read: "digits_value 16 (hex_str False n) = n \<and> (\<forall>c \<in> set (hex_str False n). digit_of 16 c \<noteq> None)"
proof (induction n rule: less_induct)
  case (less n)
  have "digits_value 16 (s @ [c]) = 16 * digits_value 16 s + the (digit_of 16 c)" for s c
    by (simp add: digits_value_def)
  with less [of "n div 16"] hex_chr_digit [of n] hex_chr_digit [of "n mod 16"] show ?case
    by (subst (1 2) hex_str.simps) (auto simp: digits_value_def)
qed

text \<open>A reader of hexadecimal numbers.\<close>

definition read_hex :: "string \<Rightarrow> int \<times> string" where
  "read_hex s = (let ds = takeWhile (\<lambda>c. digit_of 16 c \<noteq> None) (drop 2 s) in (int (digits_value 16 ds), drop (length ds) (drop 2 s)))"

lemma read_hex_text:
  assumes "s = [] \<or> hd s \<in> set '',)]''"
  shows "read_hex (hex_text False n @ s) = (int n, s)"
proof -
  have "s = [] \<or> digit_of 16 (hd s) = None"
    using assms by (auto simp: digit_of_def isdigit_def islower_def isupper_def less_eq_char_def)
  then have "takeWhile (\<lambda>c. digit_of 16 c \<noteq> None) (hex_str False n @ s) = hex_str False n"
    using hex_str_read [of n] by (cases s) (auto simp: takeWhile_append2)
  then show ?thesis using hex_str_read [of n] by (simp add: read_hex_def hex_text_def Let_def)
qed

definition demo_gas_format :: ac_dec_format where
  "demo_gas_format = \<lparr>format_id = 0, format_name = ''I'', format_size = 32, format_fields =
     [\<lparr>field_name = ''op'', field_size = 8, first_bit = 7, field_id = 0, field_val = 0, field_sign = 0\<rparr>,
      \<lparr>field_name = ''r'', field_size = 5, first_bit = 12, field_id = 1, field_val = 0, field_sign = 0\<rparr>,
      \<lparr>field_name = ''i'', field_size = 19, first_bit = 31, field_id = 2, field_val = 0, field_sign = 0\<rparr>]\<rparr>"

definition demo_gas_operands :: "oper_list list" where
  "demo_gas_operands =
     [\<lparr>ol_id = 0, ol_name = ''reg'', ol_type = op_userdef, ol_mod_type = 0, ol_mod_addend = 0, ol_is_list = False,
        ol_fields = 2, ol_format_id = 0, ol_reloc_id = 0, ol_fields_positions = 0x00880000\<rparr>,
      \<lparr>ol_id = 1, ol_name = ''imm'', ol_type = op_imm, ol_mod_type = 0, ol_mod_addend = 0, ol_is_list = False,
        ol_fields = 4, ol_format_id = 0, ol_reloc_id = 0, ol_fields_positions = 0x00040001\<rparr>]"

definition demo_gas_literal :: string where
  "demo_gas_literal = '' %, %''"

definition demo_gas_rows :: "acasm_opcode list" where
  "demo_gas_rows =
     [\<lparr>oc_mnemonic = ''add'', oc_args = '' #%1:'', oc_image = 0xAA000000, oc_format_id = 0, oc_pseudo_idx = 0, oc_dmask = 0xFFF80000\<rparr>,
      \<lparr>oc_mnemonic = ''add'', oc_args = '' %0:, %1:'', oc_image = 0xAB000000, oc_format_id = 0, oc_pseudo_idx = 0, oc_dmask = 0xFF000000\<rparr>]"

definition demo_gas_symbols :: "acasm_symbol list" where
  "demo_gas_symbols = [\<lparr>us_symbol = ''$4'', us_cspec = ''reg'', us_value = 4\<rparr>, \<lparr>us_symbol = ''$5'', us_cspec = ''reg'', us_value = 5\<rparr>]"

definition demo_gas_dis :: dis_target where
  "demo_gas_dis = demo_dis\<lparr>dt_formats := [demo_gas_format], dt_opcodes := demo_gas_rows, dt_operands := demo_gas_operands,
     dt_symbols := demo_gas_symbols\<rparr>"

definition demo_gas :: "(string \<times> nat) list gas_env" where
  "demo_gas = \<lparr>ge_hash = alist_hash, ge_op_hash = [(''add'', 0)], ge_sym_hash = [(''$5'', 1), (''$4'', 0)],
     ge_opcodes = demo_gas_rows, ge_symbols = demo_gas_symbols, ge_operands = demo_gas_operands, ge_pseudo_instrs = [],
     ge_formats = [demo_gas_format], ge_modfn = [], ge_max_fields = 3, ge_insensitive_symbols = False, ge_original_case = None,
     ge_expression = (\<lambda>hook s. case read_hex s of (n, r) \<Rightarrow> Ret (X_constant n, r, None)),
     ge_single_number = (\<lambda>hook s. case read_hex s of (n, r) \<Rightarrow> Ret (n, r, None)),
     ge_frag_now_fix = 0, ge_parms = demo_parms\<lparr>mp_field := [0, 0, 0]\<rparr>, ge_stack = 0\<rparr>"

definition demo_output :: asm_output where
  "demo_output = \<lparr>ao_aliases = [], ao_insns = [], ao_messages = [],
     ao_out_insn = \<lparr>oi_image = 0, oi_format = 0, oi_is_pseudo = 0, oi_op_pos = [], oi_fixups = [], oi_invalid = [], oi_save_expr = NUL\<rparr>\<rparr>"

lemma demo_gas_refuses: "refuses demo_gas [] (demo_gas_rows ! 0) (CHR 0x09 # ''$5, 0x3'')"
  by (simp add: refuses_def try_row_def demo_gas_rows_def demo_gas_def Let_def clean_out_insn_def isspace_def)
    (rule exI [of _ False], simp)


subsection \<open>Lists, suffixes and pseudo instructions\<close>

text \<open>In a list, a separator behind a symbol that needs a fixup follows a null pointer.\<close>

theorem list_fixup_undefined:
  assumes "ol_is_list (ge_operands E ! i)" "s' = CHR '','' # s''"
    and "read_operand E al (oi_save_expr o') (ge_operands E ! i) s = Ret (Op_fixup e s')"
  shows "parse_operand E al i o' s = Undef"
proof -
  have "\<not> isspace (CHR '','')" by (simp add: isspace_def)
  with assms show ?thesis
    by (simp add: parse_operand_def operand_turn_def Let_def first_char_def set_separator_def)
qed

text \<open>
  A list of numbers is encoded with the variable \<open>symbol_value\<close>, which only user defined operands set, as the
  value.
\<close>

theorem number_list_value_unset:
  assumes "ol_is_list (ge_operands E ! i)" "ol_type (ge_operands E ! i) = op_imm"
    and "get_immediate E al s = Ret (k, [], None)"
  shows "parse_operand E al i o' s =
    run_then (encode_field E (ge_stack E) i [\<lparr>lr_result = of_int k, lr_separator = NUL\<rparr>] o') (\<lambda>o'. Ret (Inr (o', [])))"
  using assms
  by (simp add: parse_operand_def operand_turn_def read_operand_def Let_def first_char_def create_list_results_node_def)

text \<open>
  With the option for mnemonics in their original case, every prefix of the word is looked up as the
  whole word: an instruction with a suffix is not found.
\<close>

theorem original_case_suffix_lost:
  assumes "hash_find (ge_hash E) (ge_op_hash E) m = None" "ge_original_case E = Some m"
    and "map to_lower (take 4 (dropWhile isspace (dropWhile (\<lambda>c. \<not> isspace c) str))) \<noteq> ''.req''"
  shows "\<exists>o'. md_assemble E str out =
    Ret (out\<lparr>ao_out_insn := o', ao_messages := ao_messages out @ [Unrecognized m]\<rparr>)"
proof -
  have "outer_loop E al (Some m) k str None o' = Ret (Unknown_mnemonic, o')" for al k o'
    using assms(1) by (induction k) simp_all
  moreover have "drop (length (takeWhile (\<lambda>c. \<not> isspace c) str)) str = dropWhile (\<lambda>c. \<not> isspace c) str"
    by (simp add: dropWhile_eq_drop)
  ultimately show ?thesis
    using assms(2,3) unfolding md_assemble_def md_assemble_with_def Let_def
    by (intro exI [of _ "(ao_out_insn out)\<lparr>oi_invalid := []\<rparr>"]) simp
qed

text \<open>
  The template of a member: literal characters, escaped characters and operand numbers. Its expansion is
  the text with the operands in their places, if it fits into the 50 characters.
\<close>

datatype member_part = Plain char | Escaped char | Argument nat

fun part_template :: "member_part \<Rightarrow> string" where
  "part_template (Plain c) = [c]"
| "part_template (Escaped c) = [CHR 0x5C, c]"
| "part_template (Argument n) = CHR ''%'' # dec_str n"

fun part_text :: "string list \<Rightarrow> member_part \<Rightarrow> string" where
  "part_text ts (Plain c) = [c]"
| "part_text ts (Escaped c) = [c]"
| "part_text ts (Argument n) = ts ! n"

definition part_ok :: "string list \<Rightarrow> member_part \<Rightarrow> bool" where
  "part_ok ts x \<longleftrightarrow> (case x of Plain c \<Rightarrow> c \<noteq> CHR 0x5C \<and> c \<noteq> CHR ''%'' | Escaped c \<Rightarrow> True | Argument n \<Rightarrow> n < length ts \<and> n < 10)"

lemma expand_plain:
  assumes "c \<noteq> CHR 0x5C" "c \<noteq> CHR ''%''" "length out < 50"
  shows "expand_pseudo ts out (c # s) = expand_pseudo ts (out @ [c]) s"
  using assms by (cases s) simp_all

theorem pseudo_member_text:
  assumes "list_all (part_ok ts) xs" "length (concat (map (part_text ts) xs)) < 50"
  shows "expand_pseudo ts [] (concat (map part_template xs)) = Ret (concat (map (part_text ts) xs))"
proof -
  have "expand_pseudo ts out (concat (map part_template xs)) = Ret (out @ concat (map (part_text ts) xs))"
    if "length out + length (concat (map (part_text ts) xs)) < 50" for out
    using assms(1) that
  proof (induction xs arbitrary: out)
    case (Cons x xs)
    show ?case
    proof (cases x)
      case (Plain c)
      with Cons.IH [of "out @ [c]"] Cons.prems show ?thesis by (simp add: part_ok_def expand_plain)
    next
      case (Escaped c)
      with Cons.IH [of "out @ [c]"] Cons.prems show ?thesis by simp
    next
      case (Argument n)
      then have "dec_str n = [digit_chr n]" "n < length ts" "n < 10"
        using Cons.prems(1) by (auto simp: part_ok_def dec_str.simps)
      with Argument Cons.IH [of "out @ ts ! n"] Cons.prems show ?thesis by simp
    qed
  qed simp
  from this [of "[]"] assms(2) show ?thesis by simp
qed

end
