(* ===== verification/ArmState.thy ===== *)
theory ArmState
  imports Prelude
begin

text \<open>
  The state of the ARMv7 processor model, \<open>armv7/src/arm_isa.cpp\<close> and
  \<open>armv7/src/arm_interrupts.cpp\<close>, as the system model is compiled: the register bank and the
  registers that the modes of the processor have for themselves, the flags and the status
  registers, the variables in which a format leaves its operands for the instruction, and the
  entry of exceptions. Backtrace and debug output are left out.

  A signed 32-bit sum or product wraps, as the simulator is compiled. What C leaves open is a
  field of \<open>arm_host\<close>: the value of a shift by 32 or more places, the value of a function that ends without
  a \<open>return\<close>, and what a variable holds that is not set. The devices on the bus are of the
  type \<open>'m\<close>, with their reading and writing also in \<open>arm_host\<close>.
\<close>

subsection \<open>The state\<close>

datatype bank = Fiq | Irq | Svc | Abt | Und

record 'm arm_host =
  shl_out :: "nat \<Rightarrow> u32 \<Rightarrow> u32"
  no_return :: u32
  not_set :: u32
  bus_devices :: "(u32 \<times> u32) list"
  read_signal :: "nat \<Rightarrow> u32 \<Rightarrow> u32 \<Rightarrow> 'm \<Rightarrow> u32 \<times> 'm"
  write_signal :: "nat \<Rightarrow> u32 \<Rightarrow> u32 \<Rightarrow> u32 \<Rightarrow> 'm \<Rightarrow> 'm"

record 'm arm =
  ac_pc :: u32
  regbank :: "nat \<Rightarrow> u32"
  banked :: "bank \<Rightarrow> nat \<Rightarrow> u32"
  spsr :: "bank \<Rightarrow> u32"
  flag_N :: bool
  flag_Z :: bool
  flag_C :: bool
  flag_V :: bool
  flag_Q :: bool
  flag_T :: bool
  pm_fiq :: bool
  pm_irq :: bool
  pm_thumb :: bool
  pm_mode :: u32
  dpi_shiftop :: u32
  dpi_shiftopcarry :: bool
  ls_address :: u32
  lsm_startaddress :: u32
  dsp_op1 :: u32
  dsp_op2 :: u32
  cp15_value :: "nat \<Rightarrow> u32"
  devices :: 'm
  host :: "'m arm_host"

subsection \<open>Modes\<close>

definition USER_MODE :: u32 where "USER_MODE = 0x10"
definition FIQ_MODE :: u32 where "FIQ_MODE = 0x11"
definition IRQ_MODE :: u32 where "IRQ_MODE = 0x12"
definition SUPERVISOR_MODE :: u32 where "SUPERVISOR_MODE = 0x13"
definition ABORT_MODE :: u32 where "ABORT_MODE = 0x17"
definition UNDEFINED_MODE :: u32 where "UNDEFINED_MODE = 0x1B"
definition SYSTEM_MODE :: u32 where "SYSTEM_MODE = 0x1F"
definition MODE_MASK :: u32 where "MODE_MASK = 0x1F"

lemmas mode_defs = USER_MODE_def FIQ_MODE_def IRQ_MODE_def SUPERVISOR_MODE_def ABORT_MODE_def
  UNDEFINED_MODE_def SYSTEM_MODE_def MODE_MASK_def

text \<open>The modes with registers of their own, and which registers those are.\<close>

definition mode_bank :: "u32 \<Rightarrow> bank option" where
  "mode_bank m =
     (if m = FIQ_MODE then Some Fiq else if m = IRQ_MODE then Some Irq
      else if m = SUPERVISOR_MODE then Some Svc else if m = ABORT_MODE then Some Abt
      else if m = UNDEFINED_MODE then Some Und else None)"

definition bank_has :: "bank \<Rightarrow> nat \<Rightarrow> bool" where
  "bank_has b r \<longleftrightarrow> (if b = Fiq then 8 \<le> r \<and> r \<le> 14 else r = 13 \<or> r = 14)"

definition user_or_system :: "'m arm \<Rightarrow> bool" where
  "user_or_system s \<longleftrightarrow> pm_mode s = USER_MODE \<or> pm_mode s = SYSTEM_MODE"

definition RB_direct :: "'m arm \<Rightarrow> nat \<Rightarrow> u32 \<Rightarrow> 'm arm" where
  "RB_direct s address datum = s\<lparr>regbank := (regbank s)(address := datum)\<rparr>"

definition bypass_write :: "'m arm \<Rightarrow> nat \<Rightarrow> u32 \<Rightarrow> 'm arm" where
  "bypass_write s address datum =
     (if user_or_system s then RB_direct s address datum
      else case mode_bank (pm_mode s) of
        None \<Rightarrow> s
      | Some b \<Rightarrow>
          if bank_has b address
          then s\<lparr>banked := (banked s)(b := (banked s b)(address := datum))\<rparr>
          else RB_direct s address datum)"

definition bypass_read :: "'m arm \<Rightarrow> nat \<Rightarrow> u32" where
  "bypass_read s address =
     (if user_or_system s then regbank s address
      else case mode_bank (pm_mode s) of
        None \<Rightarrow> no_return (host s)
      | Some b \<Rightarrow> if bank_has b address then banked s b address else regbank s address)"

definition getPrivilegeLevel :: "'m arm \<Rightarrow> nat" where
  "getPrivilegeLevel s = (if pm_mode s = SYSTEM_MODE \<or> mode_bank (pm_mode s) \<noteq> None then 1 else 0)"

subsection \<open>Shifts\<close>

definition ArithmeticShiftRight :: "nat \<Rightarrow> u32 \<Rightarrow> u32" where
  "ArithmeticShiftRight shiftamount w = signed_drop_bit shiftamount w"

definition host_shl :: "'m arm_host \<Rightarrow> nat \<Rightarrow> u32 \<Rightarrow> u32" where
  "host_shl h n w = (if n < 32 then push_bit n w else shl_out h n w)"

text \<open>A rotation by 0 shifts left by 32 places.\<close>

definition RotateRight :: "'m arm_host \<Rightarrow> nat \<Rightarrow> u32 \<Rightarrow> u32" where
  "RotateRight h shiftamount w = drop_bit shiftamount w OR host_shl h (32 - shiftamount) w"

text \<open>With a length of 0 the mask is empty, and the result 0 whatever the shift by -1 gives.\<close>

definition SignExtend :: "'m arm_host \<Rightarrow> u32 \<Rightarrow> nat \<Rightarrow> u32" where
  "SignExtend h word word_length =
     (let m = host_shl h (word_length - 1) 1; x = word AND mask word_length in (x XOR m) - m)"

definition LSM_CountSetBits :: "u32 \<Rightarrow> nat" where
  "LSM_CountSetBits registerList = length (filter (bit registerList) [0..<16])"

subsection \<open>The status registers\<close>

definition put_flag :: "nat \<Rightarrow> bool \<Rightarrow> u32 \<Rightarrow> u32" where
  "put_flag n b w = (if b then set_bit n w else unset_bit n w)"

definition CPSRBuild :: "'m arm \<Rightarrow> u32" where
  "CPSRBuild s =
     (let w = pm_mode s;
          w = (if pm_fiq s then set_bit 6 w else w);
          w = (if pm_irq s then set_bit 7 w else w);
          w = (if pm_thumb s then set_bit 5 w else w);
          w = put_flag 31 (flag_N s) w;
          w = put_flag 30 (flag_Z s) w;
          w = put_flag 29 (flag_C s) w;
          w = put_flag 28 (flag_V s) w;
          w = put_flag 27 (flag_Q s) w
      in if flag_T s then set_bit 5 w else w)"

definition readCPSR :: "'m arm \<Rightarrow> u32" where
  "readCPSR s = CPSRBuild s"

definition writeCPSR :: "u32 \<Rightarrow> 'm arm \<Rightarrow> 'm arm" where
  "writeCPSR v s = s\<lparr>
     flag_N := bit v 31, flag_Z := bit v 30, flag_C := bit v 29, flag_V := bit v 28,
     flag_Q := bit v 27, flag_T := bit v 5,
     pm_fiq := bit v 6, pm_irq := bit v 7, pm_mode := v AND MODE_MASK\<rparr>"

definition SPSRtoCPSR :: "'m arm \<Rightarrow> 'm arm" where
  "SPSRtoCPSR s = (case mode_bank (pm_mode s) of None \<Rightarrow> s | Some b \<Rightarrow> writeCPSR (spsr s b) s)"

definition writeSPSR :: "u32 \<Rightarrow> 'm arm \<Rightarrow> 'm arm" where
  "writeSPSR v s = (case mode_bank (pm_mode s) of None \<Rightarrow> s | Some b \<Rightarrow> s\<lparr>spsr := (spsr s)(b := v)\<rparr>)"

definition readSPSR :: "'m arm \<Rightarrow> u32" where
  "readSPSR s = (case mode_bank (pm_mode s) of None \<Rightarrow> 0 | Some b \<Rightarrow> spsr s b)"

subsection \<open>Reset and exceptions\<close>

definition behavior_begin :: "'m arm \<Rightarrow> 'm arm" where
  "behavior_begin s = s\<lparr>pm_mode := SUPERVISOR_MODE, pm_thumb := False, pm_fiq := True, pm_irq := True, ac_pc := 0\<rparr>"

datatype exception_type =
  EXCEPTION_RESET | EXCEPTION_UNDEFINED_INSTR | EXCEPTION_SWI | EXCEPTION_PREFETCH_ABORT
| EXCEPTION_DATA_ABORT | EXCEPTION_IRQ | EXCEPTION_FIQ

definition RESET_ADDR :: u32 where "RESET_ADDR = 0"
definition UNDEFINED_ADDR :: u32 where "UNDEFINED_ADDR = 4"
definition SWI_ADDR :: u32 where "SWI_ADDR = 8"
definition PREFETCH_ABORT_ADDR :: u32 where "PREFETCH_ABORT_ADDR = 0xc"
definition DATA_ABORT_ADDR :: u32 where "DATA_ABORT_ADDR = 0x10"
definition IRQ_ADDR :: u32 where "IRQ_ADDR = 0x18"

lemmas vector_defs = RESET_ADDR_def UNDEFINED_ADDR_def SWI_ADDR_def PREFETCH_ABORT_ADDR_def
  DATA_ABORT_ADDR_def IRQ_ADDR_def

definition VECTOR_BASE_REGISTER :: nat where "VECTOR_BASE_REGISTER = 0xc000"

text \<open>What the cases of the switch have in common: link register, saved status, new mode, vector.\<close>

definition enter_mode :: "bank \<Rightarrow> u32 \<Rightarrow> u32 \<Rightarrow> u32 \<Rightarrow> u32 \<Rightarrow> 'm arm \<Rightarrow> 'm arm \<times> u32" where
  "enter_mode b link saved m vector s =
     (s\<lparr>banked := (banked s)(b := (banked s b)(14 := link)), spsr := (spsr s)(b := saved), ac_pc := vector\<rparr>,
      (readCPSR s AND NOT MODE_MASK) OR m)"

definition service_interrupt :: "exception_type \<Rightarrow> 'm arm \<Rightarrow> 'm arm" where
  "service_interrupt excep_type s =
     (let cpsr = readCPSR s in
      if bit cpsr 6 \<and> excep_type = EXCEPTION_FIQ then s
      else if bit cpsr 7 \<and> excep_type = EXCEPTION_IRQ then s
      else
        let base = cp15_value s VECTOR_BASE_REGISTER AND NOT 0x1f;
            (s, cpsr) =
              (case excep_type of
                 EXCEPTION_RESET \<Rightarrow>
                   let (s, c) = enter_mode Svc 0 0 SUPERVISOR_MODE (base + RESET_ADDR) s in (s, set_bit 6 c)
               | EXCEPTION_UNDEFINED_INSTR \<Rightarrow> enter_mode Und (ac_pc s) cpsr UNDEFINED_MODE (base + UNDEFINED_ADDR) s
               | EXCEPTION_SWI \<Rightarrow> enter_mode Svc (ac_pc s) cpsr SUPERVISOR_MODE (base + SWI_ADDR) s
               | EXCEPTION_PREFETCH_ABORT \<Rightarrow> enter_mode Abt (ac_pc s) cpsr ABORT_MODE (base + PREFETCH_ABORT_ADDR) s
               | EXCEPTION_DATA_ABORT \<Rightarrow> enter_mode Abt (ac_pc s + 4) cpsr ABORT_MODE (base + DATA_ABORT_ADDR) s
               | EXCEPTION_IRQ \<Rightarrow> enter_mode Irq (ac_pc s + 4) cpsr IRQ_MODE (base + IRQ_ADDR) s
               | EXCEPTION_FIQ \<Rightarrow>
                   let (s, c) = enter_mode Fiq (ac_pc s + 4) cpsr FIQ_MODE (base + DATA_ABORT_ADDR) s in (s, set_bit 6 c))
        in writeCPSR (set_bit 7 (unset_bit 5 cpsr)) s)"

subsection \<open>The result of a behaviour\<close>

text \<open>
  A behaviour returns to the simulation loop, or leaves the instruction by \<open>ac_annul\<close>, which jumps
  to the head of the loop, or ends the simulator.
\<close>

datatype 's act = Done 's | Annulled 's | Quit

fun act_then :: "'s act \<Rightarrow> ('s \<Rightarrow> 's act) \<Rightarrow> 's act" where
  "act_then (Done s) f = f s"
| "act_then (Annulled s) f = Annulled s"
| "act_then Quit f = Quit"

text \<open>An access to memory gives a value, or ends the simulator.\<close>

definition access_then :: "('v \<times> 's) option \<Rightarrow> ('v \<Rightarrow> 's \<Rightarrow> 's act) \<Rightarrow> 's act" where
  "access_then r f = (case r of None \<Rightarrow> Quit | Some (v, s) \<Rightarrow> f v s)"

lemma access_then_simps [simp]:
  "access_then None f = Quit" "access_then (Some (v, s)) f = f v s"
  by (simp_all add: access_then_def)

text \<open>Every instruction ends by taking the next address from register 15.\<close>

definition update_pc :: "'m arm \<Rightarrow> 'm arm" where
  "update_pc s = s\<lparr>ac_pc := bypass_read s 15\<rparr>"

end
