(* ===== verification/ArmMemory.thy ===== *)
theory ArmMemory
  imports ArmState
begin

text \<open>
  The way of a memory access from the processor to a device: the port \<open>MEM\<close>
  (\<open>archc/src/aclib/ac_storage/ac_memport.H\<close>, \<open>ac_tlm/ac_tlm_port.cpp\<close>), the MMU
  (\<open>armv7/src/mmu.cpp\<close>), which is compiled without its TLB, the bus (\<open>bus.cpp\<close>) and the RAM
  (\<open>ram.cpp\<close>); and the registers of the system coprocessor (\<open>cp15.cpp\<close>). An address without a device
  raises a data abort at once, in the middle of the instruction. A result \<open>None\<close> is the end of the
  simulator. The attributes that the table walks store with an entry are never read and are left out.
\<close>

subsection \<open>The bus\<close>

definition connect_device :: "u32 \<Rightarrow> u32 \<Rightarrow> (u32 \<times> u32) list \<Rightarrow> (u32 \<times> u32) list" where
  "connect_device start_address end_address ds = ds @ [(start_address, end_address)]"

fun find_device :: "nat \<Rightarrow> (u32 \<times> u32) list \<Rightarrow> u32 \<Rightarrow> (nat \<times> u32) option" where
  "find_device i [] a = None"
| "find_device i ((st, en) # ds) a = (if st \<le> a \<and> a \<le> en then Some (i, st) else find_device (i + 1) ds a)"

definition byte_offset :: "u32 \<Rightarrow> u32" where
  "byte_offset a = (a mod 4) * 8"

text \<open>A response without data is the status \<open>ERROR\<close>.\<close>

definition bus_read :: "'m arm \<Rightarrow> u32 \<Rightarrow> u32 option \<times> 'm arm" where
  "bus_read s a =
     (case find_device 0 (bus_devices (host s)) a of
        Some (i, st) \<Rightarrow>
          (case read_signal (host s) i (a - st) (byte_offset a) (devices s) of
             (v, m) \<Rightarrow> (Some v, s\<lparr>devices := m\<rparr>))
      | None \<Rightarrow> (None, service_interrupt EXCEPTION_DATA_ABORT s))"

definition bus_write :: "'m arm \<Rightarrow> u32 \<Rightarrow> u32 \<Rightarrow> 'm arm" where
  "bus_write s a v =
     (case find_device 0 (bus_devices (host s)) a of
        Some (i, st) \<Rightarrow> s\<lparr>devices := write_signal (host s) i (a - st) v (byte_offset a) (devices s)\<rparr>
      | None \<Rightarrow> service_interrupt EXCEPTION_DATA_ABORT s)"

subsection \<open>The MMU\<close>

definition CONTROL :: nat where "CONTROL = 0x1000"
definition TRANSLATION_TABLE_BASE_0 :: nat where "TRANSLATION_TABLE_BASE_0 = 0x2000"
definition TRANSLATION_TABLE_BASE_1 :: nat where "TRANSLATION_TABLE_BASE_1 = 0x2001"
definition TRANSLATION_TABLE_BASE_CONTROL :: nat where "TRANSLATION_TABLE_BASE_CONTROL = 0x2002"

definition translation_active :: "'m arm \<Rightarrow> bool" where
  "translation_active s \<longleftrightarrow> bit (cp15_value s CONTROL) 0"

definition ttbcr_n :: "'m arm \<Rightarrow> nat" where
  "ttbcr_n s = unat (cp15_value s TRANSLATION_TABLE_BASE_CONTROL AND 7)"

text \<open>The loops that set the bits of a mask from \<open>hi\<close> down to \<open>lo\<close>.\<close>

definition bits_mask :: "nat \<Rightarrow> nat \<Rightarrow> u32" where
  "bits_mask lo hi = foldl (\<lambda>m i. set_bit i m) 0 (rev [lo..<Suc hi])"

definition ttb_address :: "'m arm \<Rightarrow> u32 \<Rightarrow> bool \<times> u32" where
  "ttb_address s va =
     (let n = ttbcr_n s;
          used = n \<noteq> 0 \<and> list_ex (bit va) (rev [32 - n..<32]);
          ttb = cp15_value s (if used then TRANSLATION_TABLE_BASE_1 else TRANSLATION_TABLE_BASE_0)
      in (used, ttb AND bits_mask (14 - n) 31))"

datatype l1_entry = L1_fault | L1_page u32 | L1_section u32 | L1_supersection

definition L1_table_walk :: "'m arm \<Rightarrow> u32 \<Rightarrow> l1_entry \<times> 'm arm" where
  "L1_table_walk s fla =
     (let (rsp, s) = bus_read s fla;
          data = (case rsp of Some d \<Rightarrow> d | None \<Rightarrow> not_set (host s));
          t = data AND 3 in
      (if t = 0 then L1_fault
       else if t = 1 then L1_page (drop_bit 10 (data AND 0xFFFFFC00))
       else if bit data 18 then L1_supersection
       else L1_section (drop_bit 20 (data AND 0xFFF00000)), s))"

datatype l2_entry = L2_fault | L2_large u32 | L2_small u32

definition L2_table_walk :: "'m arm \<Rightarrow> u32 \<Rightarrow> l2_entry \<times> 'm arm" where
  "L2_table_walk s sla =
     (let (rsp, s) = bus_read s sla;
          data = (case rsp of Some d \<Rightarrow> d | None \<Rightarrow> not_set (host s));
          t = data AND 3 in
      (if t = 0 then L2_fault
       else if t = 1 then L2_large (drop_bit 16 (data AND 0xFFFF0000))
       else L2_small (drop_bit 12 (data AND 0xFFFFF000)), s))"

definition L2_translate :: "'m arm \<Rightarrow> u32 \<Rightarrow> u32 \<Rightarrow> (u32 \<times> 'm arm) option" where
  "L2_translate s base_address va =
     (let table_index = drop_bit 12 (va AND 0xFF000);
          (e, s) = L2_table_walk s (push_bit 2 (push_bit 8 base_address OR table_index)) in
      case e of
        L2_small b \<Rightarrow> Some (push_bit 12 b OR (va AND 0xFFF), s)
      | L2_large b \<Rightarrow> Some (push_bit 16 b OR (va AND 0xFFFF), s)
      | L2_fault \<Rightarrow> None)"

text \<open>A fault at the first level only prints, and the physical address stays 0.\<close>

definition L1_translate :: "'m arm \<Rightarrow> u32 \<Rightarrow> (u32 \<times> 'm arm) option" where
  "L1_translate s va =
     (let (used, ttb) = ttb_address s va;
          n = (if used then 0 else ttbcr_n s);
          index = drop_bit 20 (va AND bits_mask 20 (31 - n));
          (e, s) = L1_table_walk s (ttb OR push_bit 2 index) in
      case e of
        L1_page b \<Rightarrow> L2_translate s b va
      | L1_section b \<Rightarrow> Some (push_bit 20 b OR (va AND 0xFFFFF), s)
      | L1_fault \<Rightarrow> Some (0, s)
      | L1_supersection \<Rightarrow> None)"

definition mmu_address :: "'m arm \<Rightarrow> u32 \<Rightarrow> (u32 \<times> 'm arm) option" where
  "mmu_address s va = (if \<not> translation_active s then Some (va, s) else L1_translate s va)"

definition mmu_read :: "'m arm \<Rightarrow> u32 \<Rightarrow> (u32 option \<times> 'm arm) option" where
  "mmu_read s va = (case mmu_address s va of None \<Rightarrow> None | Some (pa, s) \<Rightarrow> Some (bus_read s pa))"

definition mmu_write :: "'m arm \<Rightarrow> u32 \<Rightarrow> u32 \<Rightarrow> 'm arm option" where
  "mmu_write s va v = (case mmu_address s va of None \<Rightarrow> None | Some (pa, s) \<Rightarrow> Some (bus_write s pa v))"

subsection \<open>The memory port\<close>

text \<open>
  A response without data leaves the variable of the caller as it is. Bytes and half words are
  written by reading the word at their address and writing it back with its low part replaced.
\<close>

definition MEM_read :: "'m arm \<Rightarrow> u32 \<Rightarrow> (u32 \<times> 'm arm) option" where
  "MEM_read s a =
     (case mmu_read s a of
        None \<Rightarrow> None
      | Some (Some d, s) \<Rightarrow> Some (d, s)
      | Some (None, s) \<Rightarrow> Some (not_set (host s), s))"

definition MEM_read_byte :: "'m arm \<Rightarrow> u32 \<Rightarrow> (u8 \<times> 'm arm) option" where
  "MEM_read_byte s a =
     (case mmu_read s a of
        None \<Rightarrow> None
      | Some (Some d, s) \<Rightarrow> Some (ucast d, s)
      | Some (None, s) \<Rightarrow> Some (ucast (not_set (host s)), s))"

definition MEM_write :: "'m arm \<Rightarrow> u32 \<Rightarrow> u32 \<Rightarrow> 'm arm option" where
  "MEM_write s a v = mmu_write s a v"

definition replace_low :: "nat \<Rightarrow> u32 \<Rightarrow> u32 \<Rightarrow> u32" where
  "replace_low n old new = (old AND NOT (mask n)) OR (new AND mask n)"

definition write_part :: "nat \<Rightarrow> 'm arm \<Rightarrow> u32 \<Rightarrow> u32 \<Rightarrow> 'm arm option" where
  "write_part n s a v =
     (case mmu_read s a of
        None \<Rightarrow> None
      | Some (rsp, s) \<Rightarrow> mmu_write s a (replace_low n (case rsp of Some d \<Rightarrow> d | None \<Rightarrow> not_set (host s)) v))"

definition MEM_write_byte :: "'m arm \<Rightarrow> u32 \<Rightarrow> u8 \<Rightarrow> 'm arm option" where
  "MEM_write_byte s a v = write_part 8 s a (ucast v)"

definition MEM_write_half :: "'m arm \<Rightarrow> u32 \<Rightarrow> u16 \<Rightarrow> 'm arm option" where
  "MEM_write_half s a v = write_part 16 s a (ucast v)"

text \<open>The block of a RAM is a function on the addresses; a word is read and written at any of them.\<close>

type_synonym ram = "u32 \<Rightarrow> u8"

definition ram_read :: "u32 \<Rightarrow> ram \<Rightarrow> u32" where
  "ram_read a m = ucast (m a) OR push_bit 8 (ucast (m (a + 1))) OR push_bit 16 (ucast (m (a + 2))) OR push_bit 24 (ucast (m (a + 3)))"

definition ram_write :: "u32 \<Rightarrow> u32 \<Rightarrow> ram \<Rightarrow> ram" where
  "ram_write a v m = m(a := ucast v, a + 1 := ucast (drop_bit 8 v), a + 2 := ucast (drop_bit 16 v), a + 3 := ucast (drop_bit 24 v))"

subsection \<open>The system coprocessor\<close>

definition getRegister :: "nat \<Rightarrow> nat \<Rightarrow> nat \<Rightarrow> nat \<Rightarrow> nat" where
  "getRegister opc1 opc2 crn crm =
     push_bit 12 (crn AND 0xf) OR push_bit 8 (opc1 AND 0xf) OR push_bit 4 (crm AND 0xf) OR (opc2 AND 0xf)"

definition cp15_MCR :: "nat \<Rightarrow> nat \<Rightarrow> nat \<Rightarrow> nat \<Rightarrow> u32 \<Rightarrow> 'm arm \<Rightarrow> 'm arm" where
  "cp15_MCR opc1 opc2 crn crm v s = s\<lparr>cp15_value := (cp15_value s)(getRegister opc1 opc2 crn crm := v)\<rparr>"

definition cp15_MRC :: "nat \<Rightarrow> nat \<Rightarrow> nat \<Rightarrow> nat \<Rightarrow> 'm arm \<Rightarrow> u32" where
  "cp15_MRC opc1 opc2 crn crm s = cp15_value s (getRegister opc1 opc2 crn crm)"

end
