(* ===== verification/ArmShift.thy ===== *)
theory ArmShift
  imports ArmState
begin

text \<open>
  The second operand of the data processing instructions, \<open>armv7/src/arm_isa.cpp\<close>: the behaviours of
  the formats \<open>Type_DPI1\<close> to \<open>Type_DPI5\<close> and \<open>Type_PCK1\<close>, which leave it in \<open>dpi_shiftop\<close> and the carry
  of the shifter in \<open>dpi_shiftopcarry\<close>. Register numbers, shift types and amounts are the values of the
  fields.
\<close>

definition set_shiftop :: "u32 \<Rightarrow> bool \<Rightarrow> 'm arm \<Rightarrow> 'm arm" where
  "set_shiftop v c s = s\<lparr>dpi_shiftop := v, dpi_shiftopcarry := c\<rparr>"

definition Type_DPI1 :: "nat \<Rightarrow> nat \<Rightarrow> nat \<Rightarrow> 'm arm \<Rightarrow> 'm arm" where
  "Type_DPI1 shiftamount shift rm s =
     (let rm2 = (if rm = 15 then bypass_read s rm + 4 else bypass_read s rm) in
      if 31 < shiftamount then s
      else if shift = 0 then
        if shiftamount = 0 then set_shiftop rm2 (flag_C s) s
        else set_shiftop (push_bit shiftamount rm2) (bit rm2 (32 - shiftamount)) s
      else if shift = 1 then
        if shiftamount = 0 then set_shiftop 0 (bit rm2 31) s
        else set_shiftop (drop_bit shiftamount rm2) (bit rm2 (shiftamount - 1)) s
      else if shift = 2 then
        if shiftamount = 0 then
          if \<not> bit rm2 31 then set_shiftop 0 (bit rm2 31) s else set_shiftop 0xFFFFFFFF (bit rm2 31) s
        else set_shiftop (signed_drop_bit shiftamount rm2) (bit rm2 (shiftamount - 1)) s
      else
        if shiftamount = 0 then
          set_shiftop (if flag_C s then set_bit 31 (drop_bit 1 rm2) else drop_bit 1 rm2) (bit rm2 0) s
        else set_shiftop (RotateRight (host s) shiftamount rm2) (bit rm2 (shiftamount - 1)) s)"

text \<open>
  The amount is the low byte of \<open>rs\<close>. The comparisons with 32 read it as a signed byte, those with a
  smaller number as an unsigned one.
\<close>

definition Type_DPI2 :: "nat \<Rightarrow> nat \<Rightarrow> nat \<Rightarrow> nat \<Rightarrow> nat \<Rightarrow> 'm arm \<Rightarrow> 'm arm act" where
  "Type_DPI2 rn rd rs shift rm s =
     (if rd = 15 \<or> rm = 15 \<or> rn = 15 \<or> rs = 15 then Annulled s
      else
        let rm2 = bypass_read s rm;
            rs2 = bypass_read s rs;
            rs40 = unat (rs2 AND 0x0000000F);
            ub = unat (ucast rs2 :: u8);
            sb = sint (ucast rs2 :: u8) in
        Done
         (if shift = 0 then
            if sb = 0 then set_shiftop rm2 (flag_C s) s
            else if ub < 32 then set_shiftop (push_bit ub rm2) (bit rm2 (32 - ub)) s
            else if sb = 32 then set_shiftop 0 (bit rm2 0) s
            else set_shiftop 0 False s
          else if shift = 1 then
            if sb = 0 then set_shiftop rm2 (flag_C s) s
            else if ub < 32 then set_shiftop (drop_bit ub rm2) (bit rm2 (ub - 1)) s
            else if sb = 32 then set_shiftop 0 (bit rm2 31) s
            else set_shiftop 0 False s
          else if shift = 2 then
            if sb = 0 then set_shiftop rm2 (flag_C s) s
            else if ub < 32 then set_shiftop (signed_drop_bit ub rm2) (bit rm2 (ub - 1)) s
            else if \<not> bit rm2 31 then set_shiftop 0 (bit rm2 31) s
            else set_shiftop 0xFFFFFFFF (bit rm2 31) s
          else
            if sb = 0 then set_shiftop rm2 (flag_C s) s
            else if rs40 = 0 then set_shiftop rm2 (bit rm2 31) s
            else set_shiftop (RotateRight (host s) rs40 rm2) (bit rm2 (rs40 - 1)) s))"

definition Type_DPI3 :: "nat \<Rightarrow> u32 \<Rightarrow> 'm arm \<Rightarrow> 'm arm" where
  "Type_DPI3 rotation imm8 s =
     (let v = drop_bit (2 * rotation) imm8 OR host_shl (host s) (32 - 2 * rotation) imm8 in
      set_shiftop v (if rotation = 0 then flag_C s else bit v 31) s)"

definition Type_DPI4 :: "u32 \<Rightarrow> u32 \<Rightarrow> 'm arm \<Rightarrow> 'm arm" where
  "Type_DPI4 imm4 imm12 s = s\<lparr>dpi_shiftop := push_bit 12 imm4 OR imm12\<rparr>"

text \<open>Here the register bank is read directly, whatever the mode.\<close>

definition Type_DPI5 :: "nat \<Rightarrow> bool \<Rightarrow> nat \<Rightarrow> 'm arm \<Rightarrow> 'm arm" where
  "Type_DPI5 shiftamount tb rm s =
     s\<lparr>dpi_shiftop := (if tb then ArithmeticShiftRight shiftamount (regbank s rm) else push_bit shiftamount (regbank s rm))\<rparr>"

definition Type_PCK1 :: "nat \<Rightarrow> nat \<Rightarrow> 'm arm \<Rightarrow> 'm arm" where
  "Type_PCK1 rotation rm s = s\<lparr>dpi_shiftop := RotateRight (host s) (push_bit 1 rotation) (bypass_read s rm)\<rparr>"

end
