(* ===== verification/ArmLoadStore.thy ===== *)
theory ArmLoadStore
  imports ArmMemory ArmShift
begin

text \<open>
  Loads and stores, \<open>armv7/src/arm_isa.cpp\<close>: the formats \<open>Type_LSI\<close>, \<open>Type_LSR\<close>, \<open>Type_LSE\<close> and
  \<open>Type_LSM\<close> compute the address and write the base register back, the instructions transfer. The
  variable \<open>lsm_endaddress\<close>, which is never read, is left out.
\<close>

subsection \<open>Addresses\<close>

definition add_offset :: "bool \<Rightarrow> u32 \<Rightarrow> u32 \<Rightarrow> u32" where
  "add_offset u base off = (if u then base + off else base - off)"

definition Type_LSI :: "bool \<Rightarrow> bool \<Rightarrow> bool \<Rightarrow> nat \<Rightarrow> nat \<Rightarrow> u32 \<Rightarrow> 'm arm \<Rightarrow> 'm arm act" where
  "Type_LSI p u w rn rd imm12 s =
     (let rn2 = bypass_read s rn;
          s = s\<lparr>ls_address := 0\<rparr>;
          a = add_offset u rn2 imm12 in
      if p \<and> \<not> w then Done (s\<lparr>ls_address := (if rn = 15 then 4 else 0) + a\<rparr>)
      else if p \<and> w then
        if rn = 15 then Annulled s
        else if rn = rd then Annulled s
        else Done (bypass_write (s\<lparr>ls_address := a\<rparr>) rn a)
      else if \<not> p \<and> \<not> w then
        if rn = 15 then Annulled s
        else if rn = rd then Annulled s
        else Done (bypass_write (s\<lparr>ls_address := rn2\<rparr>) rn a)
      else Done s)"

definition lsr_index :: "'m arm \<Rightarrow> nat \<Rightarrow> nat \<Rightarrow> u32 \<Rightarrow> u32" where
  "lsr_index s shift shiftamount rm2 =
     (if shift = 0 then if shiftamount = 0 then rm2 else push_bit shiftamount rm2
      else if shift = 1 then if shiftamount = 0 then 0 else drop_bit shiftamount rm2
      else if shift = 2 then
        if shiftamount = 0 then if bit rm2 31 then 0xFFFFFFFF else 0
        else signed_drop_bit shiftamount rm2
      else
        if shiftamount = 0 then (if flag_C s then set_bit 31 0 else 0) OR drop_bit 1 rm2
        else RotateRight (host s) shiftamount rm2)"

definition Type_LSR :: "bool \<Rightarrow> bool \<Rightarrow> bool \<Rightarrow> nat \<Rightarrow> nat \<Rightarrow> nat \<Rightarrow> nat \<Rightarrow> nat \<Rightarrow> 'm arm \<Rightarrow> 'm arm act" where
  "Type_LSR p u w rn rd shiftamount shift rm s =
     (let rm2 = bypass_read s rm;
          rn2 = bypass_read s rn;
          s = s\<lparr>ls_address := 0\<rparr>;
          a = add_offset u rn2 (lsr_index s shift shiftamount rm2) in
      if p \<and> \<not> w then
        let s = (if rn = 15 then s\<lparr>ls_address := 4\<rparr> else s) in
        if rm = 15 then Done s
        else Done (s\<lparr>ls_address := ls_address s + a\<rparr>)
      else if p \<and> w then
        if rn = 15 then Annulled s
        else if rn = rd then Annulled s
        else if rm = 15 then Annulled s
        else if rn = rm then Annulled s
        else Done (bypass_write (s\<lparr>ls_address := a\<rparr>) rn a)
      else if \<not> p \<and> \<not> w then
        if rn = 15 then Annulled s
        else if rn = rd then Annulled s
        else if rm = 15 then Annulled s
        else if rn = rm then Annulled s
        else Done (bypass_write (s\<lparr>ls_address := rn2\<rparr>) rn a)
      else Done s)"

definition Type_LSE ::
  "bool \<Rightarrow> bool \<Rightarrow> bool \<Rightarrow> bool \<Rightarrow> nat \<Rightarrow> nat \<Rightarrow> u32 \<Rightarrow> bool \<Rightarrow> bool \<Rightarrow> nat \<Rightarrow> 'm arm \<Rightarrow> 'm arm act" where
  "Type_LSE p u i w rn rd addr1 ss hh addr2 s =
     (if \<not> p \<and> w then Annulled s
      else if \<not> ss \<and> \<not> hh then Annulled s
      else
        let rn2 = bypass_read s rn;
            rm2 = bypass_read s addr2;
            off8 = push_bit 4 addr1 OR of_nat addr2;
            s = s\<lparr>ls_address := 0\<rparr>;
            ai = add_offset u rn2 off8;
            ar = add_offset u rn2 rm2 in
        if p then
          if i \<and> \<not> w then Done (s\<lparr>ls_address := (if rn = 15 then 4 else 0) + ai\<rparr>)
          else if \<not> i \<and> \<not> w then
            if addr2 = 15 then Annulled s
            else Done (s\<lparr>ls_address := (if rn = 15 then 4 else 0) + ar\<rparr>)
          else if i \<and> w then
            if rn = 15 then Annulled s
            else if rn = rd then Annulled s
            else Done (bypass_write (s\<lparr>ls_address := ai\<rparr>) rn ai)
          else
            if rn = 15 then Annulled s
            else if rn = rd then Annulled s
            else if addr2 = 15 then Annulled s
            else if rn = addr2 then Annulled s
            else Done (bypass_write (s\<lparr>ls_address := ar\<rparr>) rn ar)
        else
          if i then
            if rn = 15 then Annulled s
            else Done (bypass_write (s\<lparr>ls_address := rn2\<rparr>) rn ai)
          else
            if rn = 15 then Annulled s
            else if rn = rd then Annulled s
            else if addr2 = 15 then Annulled s
            else if rn = addr2 then Annulled s
            else Done (bypass_write (s\<lparr>ls_address := rn2\<rparr>) rn ar))"

definition Type_LSM :: "bool \<Rightarrow> bool \<Rightarrow> bool \<Rightarrow> nat \<Rightarrow> u32 \<Rightarrow> 'm arm \<Rightarrow> 'm arm act" where
  "Type_LSM p u w rn rlist s =
     (if rlist = 0 then Annulled s
      else
        let rn2 = bypass_read s rn;
            bytes = of_nat (LSM_CountSetBits rlist) * 4;
            start = (if \<not> p \<and> u then rn2 else if p \<and> u then rn2 + 4
                     else if \<not> p \<and> \<not> u then rn2 - bytes + 4 else rn2 - bytes);
            rn2 = (if \<not> w then rn2 else if u then rn2 + bytes else rn2 - bytes);
            s = s\<lparr>lsm_startaddress := start\<rparr> in
        if w \<and> bit rlist rn then Annulled s
        else Done (bypass_write s rn rn2))"

subsection \<open>Single loads\<close>

definition store_then :: "'s option \<Rightarrow> ('s \<Rightarrow> 's act) \<Rightarrow> 's act" where
  "store_then r f = (case r of None \<Rightarrow> Quit | Some s \<Rightarrow> f s)"

lemma store_then_simps [simp]: "store_then None f = Quit" "store_then (Some s) f = f s"
  by (simp_all add: store_then_def)

definition arm_LDR :: "nat \<Rightarrow> 'm arm \<Rightarrow> 'm arm act" where
  "arm_LDR rd s =
     access_then (MEM_read s (ls_address s)) (\<lambda>v s.
       Done (update_pc
         (if rd = 15 then (bypass_write s 15 (v AND 0xFFFFFFFE))\<lparr>flag_T := bit v 0\<rparr> else bypass_write s rd v)))"

definition arm_LDRB :: "nat \<Rightarrow> 'm arm \<Rightarrow> 'm arm act" where
  "arm_LDRB rd s =
     access_then (MEM_read_byte s (ls_address s)) (\<lambda>v s. Done (update_pc (bypass_write s rd (ucast v))))"

definition arm_LDRBT :: "nat \<Rightarrow> 'm arm \<Rightarrow> 'm arm act" where
  "arm_LDRBT rd s =
     access_then (MEM_read_byte s (ls_address s)) (\<lambda>v s. Done (update_pc (bypass_write s rd (ucast v))))"

text \<open>Both values are read before the checks, and they are bytes.\<close>

definition arm_LDRD :: "nat \<Rightarrow> 'm arm \<Rightarrow> 'm arm act" where
  "arm_LDRD rd s =
     access_then (MEM_read_byte s (ls_address s)) (\<lambda>value1 s.
     access_then (MEM_read_byte s (ls_address s + 4)) (\<lambda>value2 s.
       if odd rd then Done s
       else if rd = 14 \<or> ls_address s AND 7 \<noteq> 0 then Done s
       else Done (update_pc (bypass_write (bypass_write s rd (ucast value1)) (rd + 1) (ucast value2)))))"

definition arm_LDRH :: "nat \<Rightarrow> 'm arm \<Rightarrow> 'm arm act" where
  "arm_LDRH rd s =
     access_then (MEM_read s (ls_address s)) (\<lambda>v s. Done (update_pc (bypass_write s rd (v AND 0xFFFF))))"

definition arm_LDRSB :: "nat \<Rightarrow> 'm arm \<Rightarrow> 'm arm act" where
  "arm_LDRSB rd s =
     access_then (MEM_read_byte s (ls_address s)) (\<lambda>v s.
       Done (update_pc (bypass_write s rd (SignExtend (host s) (ucast v) 8))))"

definition arm_LDRSH :: "nat \<Rightarrow> 'm arm \<Rightarrow> 'm arm act" where
  "arm_LDRSH rd s =
     (if bit (ls_address s) 0 then Done s
      else access_then (MEM_read s (ls_address s)) (\<lambda>v s.
        Done (update_pc (bypass_write s rd (SignExtend (host s) (v AND 0xFFFF) 16)))))"

text \<open>The value that is read is not written to a register.\<close>

definition arm_LDRT :: "nat \<Rightarrow> 'm arm \<Rightarrow> 'm arm act" where
  "arm_LDRT rd s = access_then (MEM_read s (ls_address s)) (\<lambda>v s. Done (update_pc s))"

subsection \<open>Single stores\<close>

definition arm_STR :: "nat \<Rightarrow> 'm arm \<Rightarrow> 'm arm act" where
  "arm_STR rd s = store_then (MEM_write s (ls_address s) (bypass_read s rd)) (\<lambda>s. Done (update_pc s))"

definition arm_STRB :: "nat \<Rightarrow> 'm arm \<Rightarrow> 'm arm act" where
  "arm_STRB rd s = store_then (MEM_write_byte s (ls_address s) (ucast (bypass_read s rd))) (\<lambda>s. Done (update_pc s))"

definition arm_STRBT :: "nat \<Rightarrow> 'm arm \<Rightarrow> 'm arm act" where
  "arm_STRBT rd s = store_then (MEM_write_byte s (ls_address s) (ucast (bypass_read s rd))) (\<lambda>s. Done (update_pc s))"

text \<open>The second register is read after the first word is written.\<close>

definition arm_STRD :: "nat \<Rightarrow> 'm arm \<Rightarrow> 'm arm act" where
  "arm_STRD rd s =
     (if odd rd then Done s
      else if rd = 14 \<or> ls_address s AND 7 \<noteq> 0 then Done s
      else store_then (MEM_write s (ls_address s) (bypass_read s rd)) (\<lambda>s.
           store_then (MEM_write s (ls_address s + 4) (bypass_read s (rd + 1))) (\<lambda>s. Done (update_pc s))))"

definition arm_STRH :: "nat \<Rightarrow> 'm arm \<Rightarrow> 'm arm act" where
  "arm_STRH rd s =
     (if bit (ls_address s) 0 then Done s
      else store_then (MEM_write_half s (ls_address s) (ucast (bypass_read s rd AND 0xFFFF))) (\<lambda>s. Done (update_pc s)))"

definition arm_STRT :: "nat \<Rightarrow> 'm arm \<Rightarrow> 'm arm act" where
  "arm_STRT rd s = store_then (MEM_write s (ls_address s) (bypass_read s rd)) (\<lambda>s. Done (update_pc s))"

subsection \<open>Multiple transfers\<close>

text \<open>
  The loop over the registers of the list. \<open>put\<close> and \<open>get\<close> reach the registers of the mode, or the bank
  directly.
\<close>

fun ldm_loop :: "('m arm \<Rightarrow> nat \<Rightarrow> u32 \<Rightarrow> 'm arm) \<Rightarrow> u32 \<Rightarrow> nat list \<Rightarrow> 'm arm \<Rightarrow> 'm arm act" where
  "ldm_loop put rlist [] s = Done s"
| "ldm_loop put rlist (i # is) s =
     (if bit rlist i then
        access_then (MEM_read s (ls_address s)) (\<lambda>v s.
          let s = put s i v in ldm_loop put rlist is (s\<lparr>ls_address := ls_address s + 4\<rparr>))
      else ldm_loop put rlist is s)"

definition arm_LDM :: "u32 \<Rightarrow> bool \<Rightarrow> 'm arm \<Rightarrow> 'm arm act" where
  "arm_LDM rlist r s =
     (if \<not> r then
        act_then (ldm_loop bypass_write rlist [0..<15] (s\<lparr>ls_address := lsm_startaddress s\<rparr>)) (\<lambda>s.
          if bit rlist 15 then
            access_then (MEM_read s (ls_address s)) (\<lambda>v s.
              let s = bypass_write s 15 (v AND 0xFFFFFFFE) in
              Done (update_pc (s\<lparr>ls_address := ls_address s + 4\<rparr>)))
          else Done (update_pc s))
      else if getPrivilegeLevel s = 0 then Quit
      else
        act_then (ldm_loop RB_direct rlist [0..<15] (s\<lparr>ls_address := lsm_startaddress s\<rparr>)) (\<lambda>s.
          if bit rlist 15 then
            access_then (MEM_read s (ls_address s)) (\<lambda>v s.
              let s = RB_direct s 15 (v AND 0xFFFFFFFE) in
              Done (update_pc (SPSRtoCPSR (s\<lparr>ls_address := ls_address s + 4\<rparr>))))
          else Done (update_pc s)))"

fun stm_loop :: "('m arm \<Rightarrow> nat \<Rightarrow> u32) \<Rightarrow> u32 \<Rightarrow> nat list \<Rightarrow> 'm arm \<Rightarrow> 'm arm act" where
  "stm_loop get rlist [] s = Done s"
| "stm_loop get rlist (i # is) s =
     (if bit rlist i then
        store_then (MEM_write s (ls_address s) (get s i)) (\<lambda>s.
          stm_loop get rlist is (s\<lparr>ls_address := ls_address s + 4\<rparr>))
      else stm_loop get rlist is s)"

definition arm_STM :: "u32 \<Rightarrow> bool \<Rightarrow> 'm arm \<Rightarrow> 'm arm act" where
  "arm_STM rlist r s =
     (if \<not> r then
        act_then (stm_loop bypass_read rlist [0..<16] (s\<lparr>ls_address := lsm_startaddress s\<rparr>)) (\<lambda>s. Done (update_pc s))
      else if getPrivilegeLevel s = 0 then Quit
      else act_then (stm_loop regbank rlist [0..<16] (s\<lparr>ls_address := lsm_startaddress s\<rparr>)) (\<lambda>s. Done (update_pc s)))"

subsection \<open>Swaps and exclusive access\<close>

definition arm_SWP :: "nat \<Rightarrow> nat \<Rightarrow> nat \<Rightarrow> 'm arm \<Rightarrow> 'm arm act" where
  "arm_SWP rd rn rm s =
     (if rd = 15 \<or> rm = 15 \<or> rn = 15 \<or> rm = rn \<or> rn = rd then Done s
      else
        let rn2 = bypass_read s rn; rm2 = bypass_read s rm; rn10 = rn2 AND 3 in
        access_then (MEM_read s rn2) (\<lambda>v s.
          let tmp = (if rn10 = 0 then v else if rn10 = 1 then RotateRight (host s) 8 v
                     else if rn10 = 2 then RotateRight (host s) 16 v else RotateRight (host s) 24 v) in
          store_then (MEM_write s rn2 rm2) (\<lambda>s. Done (update_pc (bypass_write s rd tmp)))))"

definition arm_SWPB :: "nat \<Rightarrow> nat \<Rightarrow> nat \<Rightarrow> 'm arm \<Rightarrow> 'm arm act" where
  "arm_SWPB rd rn rm s =
     (if rd = 15 \<or> rm = 15 \<or> rn = 15 \<or> rm = rn \<or> rn = rd then Done s
      else
        let rm2 = bypass_read s rm; rn2 = bypass_read s rn in
        access_then (MEM_read_byte s rn2) (\<lambda>v s.
          store_then (MEM_write_byte s rn2 (ucast rm2)) (\<lambda>s. Done (update_pc (bypass_write s rd (ucast v))))))"

definition behavior_ldrex :: "nat \<Rightarrow> nat \<Rightarrow> 'm arm \<Rightarrow> 'm arm act" where
  "behavior_ldrex rd rn s = arm_LDR rd (s\<lparr>ls_address := bypass_read s rn\<rparr>)"

definition behavior_strex :: "nat \<Rightarrow> nat \<Rightarrow> nat \<Rightarrow> 'm arm \<Rightarrow> 'm arm act" where
  "behavior_strex rd rn rt s =
     act_then (arm_STR rt (s\<lparr>ls_address := bypass_read s rn\<rparr>)) (\<lambda>s. Done (bypass_write s rd 0))"

end
