(* ===== verification/ArmData.thy ===== *)
theory ArmData
  imports ArmShift
begin

text \<open>
  The data processing instructions, \<open>armv7/src/arm_isa.cpp\<close>: arithmetic and logic on a register and
  the operand in \<open>dpi_shiftop\<close>, with the flags, and the return from an exception when register 15 is
  written and the flags are asked for.
\<close>

subsection \<open>Flags and the end of an instruction\<close>

definition set_NZ :: "u32 \<Rightarrow> 'm arm \<Rightarrow> 'm arm" where
  "set_NZ r s = s\<lparr>flag_N := bit r 31, flag_Z := r = 0\<rparr>"

definition sign_overflow :: "u32 \<Rightarrow> u32 \<Rightarrow> u32 \<Rightarrow> bool" where
  "sign_overflow a b r \<longleftrightarrow> (bit a 31 \<and> bit b 31 \<and> \<not> bit r 31) \<or> (\<not> bit a 31 \<and> \<not> bit b 31 \<and> bit r 31)"

definition set_NZCV :: "u32 \<Rightarrow> bool \<Rightarrow> bool \<Rightarrow> 'm arm \<Rightarrow> 'm arm" where
  "set_NZCV r c v s = (set_NZ r s)\<lparr>flag_C := c, flag_V := v\<rparr>"

definition set_NZC :: "u32 \<Rightarrow> 'm arm \<Rightarrow> 'm arm" where
  "set_NZC r s = (set_NZ r s)\<lparr>flag_C := dpi_shiftopcarry s\<rparr>"

text \<open>The result is written first. With register 15 and \<open>s\<close> the status register is restored.\<close>

definition write_result :: "nat \<Rightarrow> u32 \<Rightarrow> bool \<Rightarrow> ('m arm \<Rightarrow> 'm arm) \<Rightarrow> 'm arm \<Rightarrow> 'm arm" where
  "write_result rd v sf set_flags s =
     (let s = bypass_write s rd v in
      if sf \<and> rd = 15 then if user_or_system s then s else update_pc (SPSRtoCPSR s)
      else update_pc (if sf then set_flags s else s))"

definition first_operand :: "nat \<Rightarrow> 'm arm \<Rightarrow> u32" where
  "first_operand rn s = (if rn = 15 then bypass_read s rn + 4 else bypass_read s rn)"

definition soma :: "u32 \<Rightarrow> u32 \<Rightarrow> u64" where
  "soma a b = ucast a + ucast b"

lemma unat_soma: "unat (soma a b) = unat a + unat b"
proof -
  have u: "unat (ucast w :: u64) = unat w" for w :: u32
    by (simp add: unsigned_ucast_eq take_bit_nat_eq_self order.strict_trans [OF unsigned_less])
  have "unat a + unat b < 2 ^ 64"
    using unsigned_less [of a, where 'a = nat] unsigned_less [of b, where 'a = nat] by simp
  then show ?thesis
    unfolding soma_def by (subst unat_add_lem [THEN iffD1]) (simp_all add: u)
qed

lemma ucast_soma [simp]: "ucast (soma a b) = a + (b :: u32)"
proof -
  have "ucast (soma a b) = (of_nat (unat (soma a b)) :: u32)" by simp
  then show ?thesis by (simp only: unat_soma of_nat_add) simp
qed

subsection \<open>Arithmetic\<close>

definition arm_ADC :: "nat \<Rightarrow> nat \<Rightarrow> bool \<Rightarrow> 'm arm \<Rightarrow> 'm arm" where
  "arm_ADC rd rn sf s =
     (let rn2 = first_operand rn s;
          sum = soma rn2 (dpi_shiftop s) + (if flag_C s then 1 else 0);
          rd2 = ucast sum;
          s = bypass_write s rd rd2 in
      if sf \<and> rd = 15 then s
      else update_pc (if sf then set_NZCV rd2 (drop_bit 32 sum \<noteq> 0) (sign_overflow rn2 (dpi_shiftop s) rd2) s else s))"

definition arm_ADD :: "nat \<Rightarrow> nat \<Rightarrow> bool \<Rightarrow> 'm arm \<Rightarrow> 'm arm" where
  "arm_ADD rd rn sf s =
     (let rn2 = first_operand rn s;
          sum = soma rn2 (dpi_shiftop s);
          rd2 = ucast sum in
      write_result rd rd2 sf
        (set_NZCV rd2 (drop_bit 32 sum \<noteq> 0) (sign_overflow rn2 (dpi_shiftop s) rd2)) s)"

definition arm_CMN :: "nat \<Rightarrow> 'm arm \<Rightarrow> 'm arm" where
  "arm_CMN rn s =
     (let rn2 = bypass_read s rn;
          sum = soma rn2 (dpi_shiftop s);
          alu_out = ucast sum in
      update_pc (set_NZCV alu_out (drop_bit 32 sum \<noteq> 0) (sign_overflow rn2 (dpi_shiftop s) alu_out) s))"

definition arm_CMP :: "nat \<Rightarrow> 'm arm \<Rightarrow> 'm arm" where
  "arm_CMP rn s =
     (let rn2 = bypass_read s rn;
          neg_shiftop = - dpi_shiftop s;
          alu_out = ucast (soma rn2 neg_shiftop) in
      update_pc (set_NZCV alu_out (\<not> rn2 < dpi_shiftop s) (sign_overflow rn2 neg_shiftop alu_out) s))"

definition arm_SUB :: "nat \<Rightarrow> nat \<Rightarrow> bool \<Rightarrow> 'm arm \<Rightarrow> 'm arm" where
  "arm_SUB rd rn sf s =
     (let rn2 = first_operand rn s;
          neg_shiftop = - dpi_shiftop s;
          rd2 = ucast (soma rn2 neg_shiftop) in
      write_result rd rd2 sf (set_NZCV rd2 (\<not> rn2 < dpi_shiftop s) (sign_overflow rn2 neg_shiftop rd2)) s)"

definition arm_SBC :: "nat \<Rightarrow> nat \<Rightarrow> bool \<Rightarrow> 'm arm \<Rightarrow> 'm arm" where
  "arm_SBC rd rn sf s =
     (let rn2 = first_operand rn s;
          neg_shiftop = - dpi_shiftop s - (if \<not> flag_C s then 1 else 0);
          rd2 = ucast (soma rn2 neg_shiftop) in
      write_result rd rd2 sf (set_NZCV rd2 (\<not> rn2 < dpi_shiftop s) (sign_overflow rn2 neg_shiftop rd2)) s)"

definition arm_RSB :: "nat \<Rightarrow> nat \<Rightarrow> bool \<Rightarrow> 'm arm \<Rightarrow> 'm arm" where
  "arm_RSB rd rn sf s =
     (let rn2 = first_operand rn s;
          neg_rn2 = - rn2;
          rd2 = ucast (soma (dpi_shiftop s) neg_rn2) in
      write_result rd rd2 sf (set_NZCV rd2 (\<not> dpi_shiftop s < rn2) (sign_overflow neg_rn2 (dpi_shiftop s) rd2)) s)"

definition arm_RSC :: "nat \<Rightarrow> nat \<Rightarrow> bool \<Rightarrow> 'm arm \<Rightarrow> 'm arm" where
  "arm_RSC rd rn sf s =
     (let rn2 = first_operand rn s;
          neg_rn2 = - rn2 - (if \<not> flag_C s then 1 else 0);
          rd2 = ucast (soma (dpi_shiftop s) neg_rn2) in
      write_result rd rd2 sf (set_NZCV rd2 (\<not> dpi_shiftop s < rn2) (sign_overflow neg_rn2 (dpi_shiftop s) rd2)) s)"

subsection \<open>Logic and moves\<close>

definition arm_AND :: "nat \<Rightarrow> nat \<Rightarrow> bool \<Rightarrow> 'm arm \<Rightarrow> 'm arm" where
  "arm_AND rd rn sf s = (let rd2 = bypass_read s rn AND dpi_shiftop s in write_result rd rd2 sf (set_NZC rd2) s)"

definition arm_EOR :: "nat \<Rightarrow> nat \<Rightarrow> bool \<Rightarrow> 'm arm \<Rightarrow> 'm arm" where
  "arm_EOR rd rn sf s = (let rd2 = bypass_read s rn XOR dpi_shiftop s in write_result rd rd2 sf (set_NZC rd2) s)"

definition arm_ORR :: "nat \<Rightarrow> nat \<Rightarrow> bool \<Rightarrow> 'm arm \<Rightarrow> 'm arm" where
  "arm_ORR rd rn sf s = (let rd2 = bypass_read s rn OR dpi_shiftop s in write_result rd rd2 sf (set_NZC rd2) s)"

definition arm_BIC :: "nat \<Rightarrow> nat \<Rightarrow> bool \<Rightarrow> 'm arm \<Rightarrow> 'm arm" where
  "arm_BIC rd rn sf s = (let rd2 = bypass_read s rn AND NOT (dpi_shiftop s) in write_result rd rd2 sf (set_NZC rd2) s)"

definition arm_MVN :: "nat \<Rightarrow> bool \<Rightarrow> 'm arm \<Rightarrow> 'm arm" where
  "arm_MVN rd sf s = write_result rd (NOT (dpi_shiftop s)) sf (set_NZC (NOT (dpi_shiftop s))) s"

definition arm_TEQ :: "nat \<Rightarrow> 'm arm \<Rightarrow> 'm arm" where
  "arm_TEQ rn s = update_pc (set_NZC (bypass_read s rn XOR dpi_shiftop s) s)"

definition arm_TST :: "nat \<Rightarrow> 'm arm \<Rightarrow> 'm arm" where
  "arm_TST rn s = update_pc (set_NZC (bypass_read s rn AND dpi_shiftop s) s)"

text \<open>\<open>MOV\<close> sets the flags after the status register is restored, and writes its result last.\<close>

definition arm_MOV :: "nat \<Rightarrow> bool \<Rightarrow> 'm arm \<Rightarrow> 'm arm" where
  "arm_MOV rd sf s =
     (if sf \<and> rd = 15 \<and> user_or_system s then s
      else
        let s = (if sf \<and> rd = 15 then SPSRtoCPSR s else s);
            s = (if sf then set_NZC (dpi_shiftop s) s else s) in
        update_pc (bypass_write s rd (dpi_shiftop s)))"

definition arm_MOVT :: "nat \<Rightarrow> bool \<Rightarrow> 'm arm \<Rightarrow> 'm arm" where
  "arm_MOVT rd sf s =
     arm_MOV rd sf (s\<lparr>dpi_shiftop := push_bit 16 (dpi_shiftop s) OR (bypass_read s rd AND 0xFFFF)\<rparr>)"

subsection \<open>The sixteen operations\<close>

datatype dp_op =
  Op_AND | Op_EOR | Op_SUB | Op_RSB | Op_ADD | Op_ADC | Op_SBC | Op_RSC
| Op_TST | Op_TEQ | Op_CMP | Op_CMN | Op_ORR | Op_MOV | Op_BIC | Op_MVN

fun dp_behavior :: "dp_op \<Rightarrow> nat \<Rightarrow> nat \<Rightarrow> bool \<Rightarrow> 'm arm \<Rightarrow> 'm arm" where
  "dp_behavior Op_AND rd rn sf s = arm_AND rd rn sf s"
| "dp_behavior Op_EOR rd rn sf s = arm_EOR rd rn sf s"
| "dp_behavior Op_SUB rd rn sf s = arm_SUB rd rn sf s"
| "dp_behavior Op_RSB rd rn sf s = arm_RSB rd rn sf s"
| "dp_behavior Op_ADD rd rn sf s = arm_ADD rd rn sf s"
| "dp_behavior Op_ADC rd rn sf s = arm_ADC rd rn sf s"
| "dp_behavior Op_SBC rd rn sf s = arm_SBC rd rn sf s"
| "dp_behavior Op_RSC rd rn sf s = arm_RSC rd rn sf s"
| "dp_behavior Op_TST rd rn sf s = arm_TST rn s"
| "dp_behavior Op_TEQ rd rn sf s = arm_TEQ rn s"
| "dp_behavior Op_CMP rd rn sf s = arm_CMP rn s"
| "dp_behavior Op_CMN rd rn sf s = arm_CMN rn s"
| "dp_behavior Op_ORR rd rn sf s = arm_ORR rd rn sf s"
| "dp_behavior Op_MOV rd rn sf s = arm_MOV rd sf s"
| "dp_behavior Op_BIC rd rn sf s = arm_BIC rd rn sf s"
| "dp_behavior Op_MVN rd rn sf s = arm_MVN rd sf s"

end
