(* ===== verification/ArmMultiply.thy ===== *)
theory ArmMultiply
  imports ArmData
begin

text \<open>
  Multiplications, bit fields and byte operations, \<open>armv7/src/arm_isa.cpp\<close>. The multiplications give 32
  or 64 bits; the behaviours of instructions hand over the fields of their format under other names,
  as the comments in the source say.
\<close>

subsection \<open>Multiplications to 32 bits\<close>

definition arm_MUL :: "nat \<Rightarrow> nat \<Rightarrow> nat \<Rightarrow> bool \<Rightarrow> 'm arm \<Rightarrow> 'm arm" where
  "arm_MUL rd rm rs sf s =
     (let rd2 = bypass_read s rm * bypass_read s rs;
          s = (if sf then set_NZ rd2 s else s) in
      update_pc (bypass_write s rd rd2))"

definition arm_MLA :: "nat \<Rightarrow> nat \<Rightarrow> nat \<Rightarrow> nat \<Rightarrow> bool \<Rightarrow> 'm arm \<Rightarrow> 'm arm" where
  "arm_MLA rd rn rm rs sf s =
     (if rd = 15 \<or> rm = 15 \<or> rs = 15 \<or> rn = 15 then s
      else
        let rd2 = bypass_read s rm * bypass_read s rs + bypass_read s rn;
            s = (if sf then set_NZ rd2 s else s) in
        update_pc (bypass_write s rd rd2))"

text \<open>\<open>MLS\<close> reads the register bank directly.\<close>

definition arm_MLS :: "nat \<Rightarrow> nat \<Rightarrow> nat \<Rightarrow> nat \<Rightarrow> 'm arm \<Rightarrow> 'm arm" where
  "arm_MLS rd ra rm rn s =
     (if rd = 15 \<or> ra = 15 \<or> rm = 15 \<or> rn = 15 then s
      else bypass_write s rd (regbank s ra - regbank s rm * regbank s rn))"

subsection \<open>Multiplications to 64 bits\<close>

definition join64 :: "u32 \<Rightarrow> u32 \<Rightarrow> u64" where
  "join64 hi lo = push_bit 32 (ucast hi) OR ucast lo"

definition high_word :: "u64 \<Rightarrow> u32" where
  "high_word w = ucast (drop_bit 32 w)"

definition low_word :: "u64 \<Rightarrow> u32" where
  "low_word w = ucast w"

text \<open>The high register is written first; the flags come after both.\<close>

definition write_long :: "nat \<Rightarrow> nat \<Rightarrow> bool \<Rightarrow> u64 \<Rightarrow> 'm arm \<Rightarrow> 'm arm" where
  "write_long rdhi rdlo sf r s =
     (let s = bypass_write (bypass_write s rdhi (high_word r)) rdlo (low_word r);
          s = (if sf then s\<lparr>flag_N := bit (high_word r) 31, flag_Z := r = 0\<rparr> else s) in
      update_pc s)"

definition arm_UMULL :: "nat \<Rightarrow> nat \<Rightarrow> nat \<Rightarrow> nat \<Rightarrow> bool \<Rightarrow> 'm arm \<Rightarrow> 'm arm" where
  "arm_UMULL rdhi rdlo rm rs sf s =
     (if rdhi = 15 \<or> rdlo = 15 \<or> rm = 15 \<or> rs = 15 \<or> rdhi = rdlo then s
      else write_long rdhi rdlo sf (ucast (bypass_read s rm) * ucast (bypass_read s rs)) s)"

definition arm_SMULL :: "nat \<Rightarrow> nat \<Rightarrow> nat \<Rightarrow> nat \<Rightarrow> bool \<Rightarrow> 'm arm \<Rightarrow> 'm arm" where
  "arm_SMULL rdhi rdlo rm rs sf s =
     (if rdhi = 15 \<or> rdlo = 15 \<or> rm = 15 \<or> rs = 15 \<or> rdhi = rdlo then s
      else write_long rdhi rdlo sf (scast (bypass_read s rm) * scast (bypass_read s rs)) s)"

definition arm_UMLAL :: "nat \<Rightarrow> nat \<Rightarrow> nat \<Rightarrow> nat \<Rightarrow> bool \<Rightarrow> 'm arm \<Rightarrow> 'm arm" where
  "arm_UMLAL rdhi rdlo rm rs sf s =
     (if rdhi = 15 \<or> rdlo = 15 \<or> rm = 15 \<or> rs = 15 \<or> rdhi = rdlo \<or> rdhi = rm \<or> rdlo = rm then s
      else write_long rdhi rdlo sf
        (ucast (bypass_read s rm) * ucast (bypass_read s rs) + join64 (bypass_read s rdhi) (bypass_read s rdlo)) s)"

definition arm_SMLAL :: "nat \<Rightarrow> nat \<Rightarrow> nat \<Rightarrow> nat \<Rightarrow> bool \<Rightarrow> 'm arm \<Rightarrow> 'm arm" where
  "arm_SMLAL rdhi rdlo rm rs sf s =
     (if rdhi = 15 \<or> rdlo = 15 \<or> rm = 15 \<or> rs = 15 \<or> rdhi = rdlo \<or> rdhi = rm \<or> rdlo = rm then s
      else write_long rdhi rdlo sf
        (scast (bypass_read s rm) * scast (bypass_read s rs) + join64 (bypass_read s rdhi) (bypass_read s rdlo)) s)"

subsection \<open>Multiplications of half words\<close>

definition Type_DSPSM :: "nat \<Rightarrow> nat \<Rightarrow> nat \<Rightarrow> bool \<Rightarrow> bool \<Rightarrow> nat \<Rightarrow> 'm arm \<Rightarrow> 'm arm" where
  "Type_DSPSM drd drn rs yy xx rm s =
     (let rm2 = bypass_read s rm; rs2 = bypass_read s rs in
      if drd = 15 \<or> drn = 15 \<or> rm = 15 \<or> rs = 15 then s
      else s\<lparr>dsp_op1 := (if \<not> xx then SignExtend (host s) rm2 16 else SignExtend (host s) (signed_drop_bit 16 rm2) 16),
             dsp_op2 := (if \<not> yy then SignExtend (host s) rs2 16 else SignExtend (host s) (signed_drop_bit 16 rs2) 16)\<rparr>)"

definition arm_DSMLA :: "nat \<Rightarrow> nat \<Rightarrow> 'm arm \<Rightarrow> 'm arm" where
  "arm_DSMLA rd rn s = bypass_write s rd (dsp_op1 s * dsp_op2 s + bypass_read s rn)"

definition arm_DSMUL :: "nat \<Rightarrow> 'm arm \<Rightarrow> 'm arm" where
  "arm_DSMUL rd s = bypass_write s rd (dsp_op1 s * dsp_op2 s)"

subsection \<open>Bit fields\<close>

text \<open>The loop that shifts in a one for each bit of the width.\<close>

fun ones_loop :: "nat \<Rightarrow> u32 \<Rightarrow> u32" where
  "ones_loop 0 m = m"
| "ones_loop (Suc n) m = ones_loop n (push_bit 1 m OR 1)"

definition arm_BFI :: "nat \<Rightarrow> nat \<Rightarrow> nat \<Rightarrow> nat \<Rightarrow> 'm arm \<Rightarrow> 'm arm" where
  "arm_BFI rd rn lsb msb s =
     (let dest = bypass_read s rd;
          m = push_bit lsb (ones_loop (msb + 1 - lsb) 0);
          orig = (if rn = 15 then 0 else bypass_read s rn) in
      bypass_write s rd ((dest AND NOT m) OR (m AND orig)))"

text \<open>The loop that sets the bits from \<open>lsb\<close> to \<open>msb\<close>; \<open>1 << i\<close> may leave the word.\<close>

definition field_bits :: "'m arm_host \<Rightarrow> nat \<Rightarrow> nat \<Rightarrow> u32" where
  "field_bits h lsb msb = foldl (\<lambda>m i. m OR host_shl h i 1) 0 [lsb..<Suc msb]"

definition arm_UBFX :: "nat \<Rightarrow> nat \<Rightarrow> nat \<Rightarrow> nat \<Rightarrow> 'm arm \<Rightarrow> 'm arm" where
  "arm_UBFX rd rn lsb width s =
     (let n = bypass_read s rn; msb = lsb + width - 1 in
      bypass_write s rd (drop_bit lsb (n AND field_bits (host s) lsb msb)))"

definition arm_SBFX :: "nat \<Rightarrow> nat \<Rightarrow> nat \<Rightarrow> nat \<Rightarrow> 'm arm \<Rightarrow> 'm arm" where
  "arm_SBFX rd rn lsb width s =
     (let n = bypass_read s rn; msb = lsb + width - 1 in
      bypass_write s rd (SignExtend (host s) (drop_bit lsb (n AND field_bits (host s) lsb msb)) msb))"

subsection \<open>Bytes and half words\<close>

definition arm_UXTB :: "nat \<Rightarrow> nat \<Rightarrow> 'm arm \<Rightarrow> 'm arm" where
  "arm_UXTB rd rm s = (if rd = 15 \<or> rm = 15 then s else bypass_write s rd (dpi_shiftop s AND 0xFF))"

definition arm_UXTH :: "nat \<Rightarrow> nat \<Rightarrow> 'm arm \<Rightarrow> 'm arm" where
  "arm_UXTH rd rm s = (if rd = 15 \<or> rm = 15 then s else bypass_write s rd (dpi_shiftop s AND 0xFFFF))"

definition arm_SXTH :: "nat \<Rightarrow> nat \<Rightarrow> 'm arm \<Rightarrow> 'm arm" where
  "arm_SXTH rd rm s =
     (if rd = 15 \<or> rm = 15 then s else bypass_write s rd (SignExtend (host s) (dpi_shiftop s AND 0xFFFF) 16))"

text \<open>The masks are words, so that the shifts to the right fill with zeros.\<close>

definition arm_REV :: "nat \<Rightarrow> nat \<Rightarrow> 'm arm \<Rightarrow> 'm arm" where
  "arm_REV rd rm s =
     (let rm_r = bypass_read s rm in
      if rd = 15 \<or> rm = 15 then s
      else bypass_write s rd
        (push_bit 24 (rm_r AND 0xFF) OR push_bit 8 (rm_r AND 0xFF00) OR
         drop_bit 8 (rm_r AND 0xFF0000) OR drop_bit 24 (rm_r AND 0xFF000000)))"

definition arm_PKH :: "nat \<Rightarrow> nat \<Rightarrow> nat \<Rightarrow> bool \<Rightarrow> 'm arm \<Rightarrow> 'm arm" where
  "arm_PKH rd rn rm tb s =
     (if rd = 15 \<or> rn = 15 \<or> rm = 15 then s
      else bypass_write s rd
        (if tb then (dpi_shiftop s AND 0xFFFF) OR (regbank s rn AND 0xFFFF0000)
         else (regbank s rn AND 0xFFFF) OR (dpi_shiftop s AND 0xFFFF0000)))"

text \<open>The loop of \<open>CLZ\<close>, which goes down from bit 31 to the highest one.\<close>

fun top_bit :: "u32 \<Rightarrow> nat \<Rightarrow> nat" where
  "top_bit w 0 = 0"
| "top_bit w (Suc i) = (if bit w (Suc i) then Suc i else top_bit w i)"

definition arm_CLZ :: "nat \<Rightarrow> nat \<Rightarrow> 'm arm \<Rightarrow> 'm arm" where
  "arm_CLZ rd rm s =
     (if (rd = 15 \<or> rm = 15) \<and> user_or_system s then s
      else
        let s = (if rd = 15 \<or> rm = 15 then SPSRtoCPSR s else s);
            rm2 = bypass_read s rm in
        update_pc (bypass_write s rd (if rm2 = 0 then 32 else of_nat (31 - top_bit rm2 31))))"

end
