(* ===== verification/ArmExec.thy ===== *)
theory ArmExec
  imports ArmLoadStore ArmMultiply
begin

text \<open>
  Branches, status registers and coprocessors, and the execution of an instruction
  (\<open>armv7/src/arm_isa.cpp\<close>): the generic behaviour with its condition, the behaviour of the format,
  the behaviour of the instruction, as the loop of \<open>arm.cpp\<close> calls them. A decoded instruction is a
  constructor with the fields that its behaviours read.
\<close>

subsection \<open>Branches\<close>

definition arm_B :: "bool \<Rightarrow> u32 \<Rightarrow> 'm arm \<Rightarrow> 'm arm" where
  "arm_B h offset s =
     (let s = (if h then bypass_write s 14 (bypass_read s 15) else s);
          mem_pos = bypass_read s 15 + 4 + SignExtend (host s) (push_bit 2 offset) 26 in
      update_pc (bypass_write s 15 mem_pos))"

text \<open>\<open>BX\<close> tests bit 0 of the number of the register. It does not write register 15.\<close>

definition arm_BX :: "nat \<Rightarrow> 'm arm \<Rightarrow> 'm arm act" where
  "arm_BX rm s =
     (if odd rm then Quit
      else Done (s\<lparr>flag_T := odd rm, ac_pc := bypass_read s rm AND 0xFFFFFFFE\<rparr>))"

definition behavior_blx2 :: "nat \<Rightarrow> 'm arm \<Rightarrow> 'm arm act" where
  "behavior_blx2 rm s =
     (let dest = bypass_read s rm in
      if bit dest 0 then Quit
      else
        let s = (bypass_write s 14 (bypass_read s 15))\<lparr>flag_T := odd rm\<rparr> in
        Done (update_pc (bypass_write s 15 (dest AND 0xFFFFFFFE))))"

subsection \<open>Coprocessors\<close>

text \<open>\<open>main.cpp\<close> creates coprocessor 15 and no other.\<close>

definition arm_MCR :: "nat \<Rightarrow> nat \<Rightarrow> nat \<Rightarrow> nat \<Rightarrow> nat \<Rightarrow> nat \<Rightarrow> 'm arm \<Rightarrow> 'm arm" where
  "arm_MCR cp_num funcc2 funcc3 crn crm rd s =
     (if rd = 15 then s
      else if cp_num \<noteq> 15 then service_interrupt EXCEPTION_UNDEFINED_INSTR s
      else cp15_MCR funcc2 funcc3 crn crm (bypass_read s rd) s)"

definition arm_MRC :: "nat \<Rightarrow> nat \<Rightarrow> nat \<Rightarrow> nat \<Rightarrow> nat \<Rightarrow> nat \<Rightarrow> 'm arm \<Rightarrow> 'm arm" where
  "arm_MRC cp_num funcc2 funcc3 crn crm rd s =
     (if cp_num \<noteq> 15 then service_interrupt EXCEPTION_UNDEFINED_INSTR s
      else
        let cp_val = cp15_MRC funcc2 funcc3 crn crm s in
        if rd \<noteq> 15 then bypass_write s rd cp_val
        else s\<lparr>flag_N := bit cp_val 31, flag_Z := bit cp_val 30, flag_C := bit cp_val 29, flag_V := bit cp_val 28\<rparr>)"

subsection \<open>Status registers\<close>

definition arm_MRS :: "nat \<Rightarrow> bool \<Rightarrow> nat \<Rightarrow> nat \<Rightarrow> nat \<Rightarrow> nat \<Rightarrow> nat \<Rightarrow> nat \<Rightarrow> 'm arm \<Rightarrow> 'm arm" where
  "arm_MRS rd r zero3 subop2 func2 subop1 rm field s =
     (if rd = 15 \<or> (zero3 \<noteq> 0 \<and> subop2 \<noteq> 0 \<and> func2 \<noteq> 0 \<and> subop1 \<noteq> 0 \<and> rm \<noteq> 0) \<or> field \<noteq> 15 then s
      else if r \<and> getPrivilegeLevel s = 0 then s
      else update_pc (bypass_write s rd (if r then readSPSR s else readCPSR s)))"

definition put_byte :: "nat \<Rightarrow> nat \<Rightarrow> u32 \<Rightarrow> u32 \<Rightarrow> u32" where
  "put_byte fieldmask k new res =
     (if bit fieldmask k then (res AND NOT (push_bit (8 * k) 0xFF)) OR (new AND push_bit (8 * k) 0xFF) else res)"

text \<open>The bytes of the CPSR below the flags are written in a privileged mode only.\<close>

definition arm_MSR :: "bool \<Rightarrow> nat \<Rightarrow> u32 \<Rightarrow> 'm arm \<Rightarrow> 'm arm" where
  "arm_MSR r fieldmask new s =
     (if \<not> r then
        let res = readCPSR s;
            res = (if getPrivilegeLevel s = 1
                   then put_byte fieldmask 2 new (put_byte fieldmask 1 new (put_byte fieldmask 0 new res)) else res)
        in writeCPSR (put_byte fieldmask 3 new res) s
      else
        writeSPSR (put_byte fieldmask 3 new (put_byte fieldmask 2 new
          (put_byte fieldmask 1 new (put_byte fieldmask 0 new (readSPSR s))))) s)"

definition behavior_msr1 :: "bool \<Rightarrow> nat \<Rightarrow> nat \<Rightarrow> 'm arm \<Rightarrow> 'm arm" where
  "behavior_msr1 r fieldmask rm s = arm_MSR r fieldmask (bypass_read s rm) s"

definition behavior_msr2 :: "bool \<Rightarrow> nat \<Rightarrow> nat \<Rightarrow> u32 \<Rightarrow> 'm arm \<Rightarrow> 'm arm" where
  "behavior_msr2 r fieldmask rotation imm8 s = arm_MSR r fieldmask (RotateRight (host s) (rotation * 2) imm8) s"

subsection \<open>Conditions\<close>

fun cond_holds :: "nat \<Rightarrow> 'm arm \<Rightarrow> bool" where
  "cond_holds cond s =
     (if cond = 0 then flag_Z s else if cond = 1 then \<not> flag_Z s
      else if cond = 2 then flag_C s else if cond = 3 then \<not> flag_C s
      else if cond = 4 then flag_N s else if cond = 5 then \<not> flag_N s
      else if cond = 6 then flag_V s else if cond = 7 then \<not> flag_V s
      else if cond = 8 then flag_C s \<and> \<not> flag_Z s else if cond = 9 then \<not> flag_C s \<or> flag_Z s
      else if cond = 10 then flag_N s = flag_V s else if cond = 11 then flag_N s \<noteq> flag_V s
      else if cond = 12 then \<not> flag_Z s \<and> flag_N s = flag_V s
      else if cond = 13 then flag_Z s \<or> flag_N s \<noteq> flag_V s
      else cond = 14)"

declare cond_holds.simps [simp del]

definition behavior_instruction :: "nat \<Rightarrow> 'm arm \<Rightarrow> 'm arm act" where
  "behavior_instruction cond s =
     (let execute = cond_holds cond s;
          s = s\<lparr>ac_pc := ac_pc s + 4\<rparr>;
          s = bypass_write s 15 (ac_pc s) in
      if \<not> execute then Annulled s else Done s)"

subsection \<open>Instructions\<close>

datatype long_op = Op_UMULL | Op_UMLAL | Op_SMULL | Op_SMLAL

fun long_behavior :: "long_op \<Rightarrow> nat \<Rightarrow> nat \<Rightarrow> nat \<Rightarrow> nat \<Rightarrow> bool \<Rightarrow> 'm arm \<Rightarrow> 'm arm" where
  "long_behavior Op_UMULL = arm_UMULL"
| "long_behavior Op_UMLAL = arm_UMLAL"
| "long_behavior Op_SMULL = arm_SMULL"
| "long_behavior Op_SMLAL = arm_SMLAL"

datatype ls_op = Op_LDR | Op_LDRT | Op_LDRB | Op_LDRBT | Op_STR | Op_STRT | Op_STRB | Op_STRBT

fun ls_behavior :: "ls_op \<Rightarrow> nat \<Rightarrow> 'm arm \<Rightarrow> 'm arm act" where
  "ls_behavior Op_LDR = arm_LDR"
| "ls_behavior Op_LDRT = arm_LDRT"
| "ls_behavior Op_LDRB = arm_LDRB"
| "ls_behavior Op_LDRBT = arm_LDRBT"
| "ls_behavior Op_STR = arm_STR"
| "ls_behavior Op_STRT = arm_STRT"
| "ls_behavior Op_STRB = arm_STRB"
| "ls_behavior Op_STRBT = arm_STRBT"

datatype lse_op = Op_LDRH | Op_LDRSB | Op_LDRSH | Op_STRH | Op_LDRD | Op_STRD

fun lse_behavior :: "lse_op \<Rightarrow> nat \<Rightarrow> 'm arm \<Rightarrow> 'm arm act" where
  "lse_behavior Op_LDRH = arm_LDRH"
| "lse_behavior Op_LDRSB = arm_LDRSB"
| "lse_behavior Op_LDRSH = arm_LDRSH"
| "lse_behavior Op_STRH = arm_STRH"
| "lse_behavior Op_LDRD = arm_LDRD"
| "lse_behavior Op_STRD = arm_STRD"

datatype pack_op = Op_UXTB | Op_UXTH | Op_SXTH | Op_REV

fun pack_behavior :: "pack_op \<Rightarrow> nat \<Rightarrow> nat \<Rightarrow> 'm arm \<Rightarrow> 'm arm" where
  "pack_behavior Op_UXTB = arm_UXTB"
| "pack_behavior Op_UXTH = arm_UXTH"
| "pack_behavior Op_SXTH = arm_SXTH"
| "pack_behavior Op_REV = arm_REV"

text \<open>
  The arguments of a constructor are the fields that the behaviours read, in the order of the format
  in \<open>arm_isa.ac\<close>. Each function runs the behaviour of the format, then that of the instruction.
  \<open>I_warning\<close> stands for the instructions that only print a warning: \<open>blx1\<close>, \<open>cdp\<close>, \<open>ldc\<close>, \<open>stc\<close>, \<open>bkpt\<close>
  and \<open>smc\<close>; \<open>I_dsp_warning\<close> for \<open>dsmlal\<close>, \<open>dsmlaw\<close> and \<open>dsmulw\<close>, whose format is executed.
\<close>

datatype dp_insn =
    I_DPI1 dp_op bool nat nat nat nat nat
  | I_DPI2 dp_op bool nat nat nat nat nat
  | I_DPI3 dp_op bool nat nat nat u32
  | I_mov4 bool u32 nat u32
  | I_movt bool u32 nat u32
  | I_nop u32 u32
  | I_pkh nat nat nat bool nat

fun execute_dp :: "dp_insn \<Rightarrow> 'm arm \<Rightarrow> 'm arm act" where
  "execute_dp (I_DPI1 op sf rn rd shiftamount shift rm) s =
     Done (dp_behavior op rd rn sf (Type_DPI1 shiftamount shift rm s))"
| "execute_dp (I_DPI2 op sf rn rd rs shift rm) s =
     act_then (Type_DPI2 rn rd rs shift rm s) (\<lambda>s. Done (dp_behavior op rd rn sf s))"
| "execute_dp (I_DPI3 op sf rn rd rotation imm8) s = Done (dp_behavior op rd rn sf (Type_DPI3 rotation imm8 s))"
| "execute_dp (I_mov4 sf imm4 rd imm12) s = Done (arm_MOV rd sf (Type_DPI4 imm4 imm12 s))"
| "execute_dp (I_movt sf imm4 rd imm12) s = Done (arm_MOVT rd sf (Type_DPI4 imm4 imm12 s))"
| "execute_dp (I_nop imm4 imm12) s = Done (Type_DPI4 imm4 imm12 s)"
| "execute_dp (I_pkh rn rd shiftamount tb rm) s = Done (arm_PKH rd rn rm tb (Type_DPI5 shiftamount tb rm s))"

datatype bits_insn =
    I_bfi nat nat nat nat
  | I_ubfx nat nat nat nat
  | I_sbfx nat nat nat nat
  | I_PCK1 pack_op nat nat nat
  | I_clz nat nat

fun execute_bits :: "bits_insn \<Rightarrow> 'm arm \<Rightarrow> 'm arm act" where
  "execute_bits (I_bfi msb rd lsb rn) s = Done (arm_BFI rd rn lsb msb s)"
| "execute_bits (I_ubfx widthm1 rd lsb rn) s = Done (arm_UBFX rd rn lsb (widthm1 + 1) s)"
| "execute_bits (I_sbfx widthm1 rd lsb rn) s = Done (arm_SBFX rd rn lsb (widthm1 + 1) s)"
| "execute_bits (I_PCK1 op rd rotation rm) s = Done (pack_behavior op rd rm (Type_PCK1 rotation rm s))"
| "execute_bits (I_clz rd rm) s = Done (arm_CLZ rd rm s)"

datatype branch_insn =
    I_b bool u32
  | I_bx nat
  | I_blx2 nat
  | I_swi

fun execute_branch :: "branch_insn \<Rightarrow> 'm arm \<Rightarrow> 'm arm act" where
  "execute_branch (I_b h offset) s = Done (arm_B h offset s)"
| "execute_branch (I_bx rm) s = arm_BX rm s"
| "execute_branch (I_blx2 rm) s = behavior_blx2 rm s"
| "execute_branch I_swi s = Done (service_interrupt EXCEPTION_SWI s)"

datatype mult_insn =
    I_mla bool nat nat nat nat
  | I_mul bool nat nat nat
  | I_mls nat nat nat nat
  | I_MULT2 long_op bool nat nat nat nat
  | I_dsmla nat nat nat bool bool nat
  | I_dsmul nat nat nat bool bool nat
  | I_dsp_warning nat nat nat bool bool nat

fun execute_mult :: "mult_insn \<Rightarrow> 'm arm \<Rightarrow> 'm arm act" where
  "execute_mult (I_mla sf rn rd rs rm) s = Done (arm_MLA rn rd rm rs sf s)"
| "execute_mult (I_mul sf rn rs rm) s = Done (arm_MUL rn rm rs sf s)"
| "execute_mult (I_mls rn rd rs rm) s = Done (arm_MLS rn rd rs rm s)"
| "execute_mult (I_MULT2 op sf rdhi rdlo rs rm) s = Done (long_behavior op rdhi rdlo rm rs sf s)"
| "execute_mult (I_dsmla drd drn rs yy xx rm) s = Done (arm_DSMLA drd drn (Type_DSPSM drd drn rs yy xx rm s))"
| "execute_mult (I_dsmul drd drn rs yy xx rm) s = Done (arm_DSMUL drd (Type_DSPSM drd drn rs yy xx rm s))"
| "execute_mult (I_dsp_warning drd drn rs yy xx rm) s = Done (Type_DSPSM drd drn rs yy xx rm s)"

datatype mem_insn =
    I_LSI ls_op bool bool bool nat nat u32
  | I_LSR ls_op bool bool bool nat nat nat nat nat
  | I_LSE lse_op bool bool bool bool nat nat u32 bool bool nat
  | I_ldm bool bool bool bool nat u32
  | I_stm bool bool bool bool nat u32
  | I_ldrex nat nat
  | I_strex nat nat nat
  | I_swp nat nat nat
  | I_swpb nat nat nat

fun execute_mem :: "mem_insn \<Rightarrow> 'm arm \<Rightarrow> 'm arm act" where
  "execute_mem (I_LSI op p u w rn rd imm12) s = act_then (Type_LSI p u w rn rd imm12 s) (ls_behavior op rd)"
| "execute_mem (I_LSR op p u w rn rd shiftamount shift rm) s =
     act_then (Type_LSR p u w rn rd shiftamount shift rm s) (ls_behavior op rd)"
| "execute_mem (I_LSE op p u i w rn rd addr1 ss hh addr2) s =
     act_then (Type_LSE p u i w rn rd addr1 ss hh addr2 s) (lse_behavior op rd)"
| "execute_mem (I_ldm p u r w rn rlist) s = act_then (Type_LSM p u w rn rlist s) (arm_LDM rlist r)"
| "execute_mem (I_stm p u r w rn rlist) s = act_then (Type_LSM p u w rn rlist s) (arm_STM rlist r)"
| "execute_mem (I_ldrex rn rd) s = behavior_ldrex rd rn s"
| "execute_mem (I_strex rn rd rt) s = behavior_strex rd rn rt s"
| "execute_mem (I_swp rn rd rm) s = arm_SWP rd rn rm s"
| "execute_mem (I_swpb rn rd rm) s = arm_SWPB rd rn rm s"

datatype system_insn =
    I_mcr nat nat nat nat nat nat
  | I_mrc nat nat nat nat nat nat
  | I_mrs bool nat nat nat nat nat nat nat
  | I_msr1 bool nat nat
  | I_msr2 bool nat nat u32
  | I_warning

fun execute_system :: "system_insn \<Rightarrow> 'm arm \<Rightarrow> 'm arm act" where
  "execute_system (I_mcr cp_num funcc2 funcc3 crn crm rd) s = Done (arm_MCR cp_num funcc2 funcc3 crn crm rd s)"
| "execute_system (I_mrc cp_num funcc2 funcc3 crn crm rd) s = Done (arm_MRC cp_num funcc2 funcc3 crn crm rd s)"
| "execute_system (I_mrs r fieldmask rd zero3 subop2 func2 subop1 rm) s =
     Done (arm_MRS rd r zero3 subop2 func2 subop1 rm fieldmask s)"
| "execute_system (I_msr1 r fieldmask rm) s = Done (behavior_msr1 r fieldmask rm s)"
| "execute_system (I_msr2 r fieldmask rotation imm8) s = Done (behavior_msr2 r fieldmask rotation imm8 s)"
| "execute_system I_warning s = Done s"

datatype arm_insn =
    Dp dp_insn | Bits bits_insn | Branch branch_insn | Mult mult_insn | Mem mem_insn | System system_insn

fun execute_insn :: "arm_insn \<Rightarrow> 'm arm \<Rightarrow> 'm arm act" where
  "execute_insn (Dp i) s = execute_dp i s"
| "execute_insn (Bits i) s = execute_bits i s"
| "execute_insn (Branch i) s = execute_branch i s"
| "execute_insn (Mult i) s = execute_mult i s"
| "execute_insn (Mem i) s = execute_mem i s"
| "execute_insn (System i) s = execute_system i s"

text \<open>One turn of the simulation loop, with the instruction decoded; \<open>None\<close> is the end of the simulator.\<close>

definition simulate :: "nat \<Rightarrow> arm_insn \<Rightarrow> 'm arm \<Rightarrow> 'm arm option" where
  "simulate cond i s =
     (case act_then (behavior_instruction cond s) (execute_insn i) of
        Done s \<Rightarrow> Some s | Annulled s \<Rightarrow> Some s | Quit \<Rightarrow> None)"

end
