(* ===== verification/ArmStateCorrect.thy ===== *)
theory ArmStateCorrect
  imports ArmExec
begin

text \<open>
  What the register bank, the status registers and the exceptions of the processor model promise:
  the banking of the registers, the CPSR written and read, an invariant of every run, and the return
  from an interrupt.
\<close>

named_theorems arm_simps "fields of the state under the operations of the processor"

subsection \<open>Registers\<close>

definition known_mode :: "u32 \<Rightarrow> bool" where
  "known_mode m \<longleftrightarrow> m = USER_MODE \<or> m = SYSTEM_MODE \<or> mode_bank m \<noteq> None"

lemma mode_bank_simps [simp]:
  "mode_bank USER_MODE = None" "mode_bank SYSTEM_MODE = None" "mode_bank FIQ_MODE = Some Fiq"
  "mode_bank IRQ_MODE = Some Irq" "mode_bank SUPERVISOR_MODE = Some Svc" "mode_bank ABORT_MODE = Some Abt"
  "mode_bank UNDEFINED_MODE = Some Und"
  by (simp_all add: mode_bank_def mode_defs)

text \<open>The banking of the architecture: the copy of a register that a mode sees.\<close>

definition register_copy :: "u32 \<Rightarrow> nat \<Rightarrow> bank option" where
  "register_copy m r =
     (if r \<in> {13, 14} then mode_bank m
      else if r \<in> {8..12} \<and> m = FIQ_MODE then Some Fiq else None)"

lemma mode_bank_Fiq: "mode_bank m = Some Fiq \<longleftrightarrow> m = FIQ_MODE"
  by (simp add: mode_bank_def mode_defs)

lemma register_copy_alt:
  "register_copy m r = (case mode_bank m of None \<Rightarrow> None | Some b \<Rightarrow> if bank_has b r then Some b else None)"
  by (cases "mode_bank m") (auto simp: register_copy_def bank_has_def mode_bank_Fiq [symmetric] split: if_splits)

definition copy_value :: "'m arm \<Rightarrow> bank option \<Rightarrow> nat \<Rightarrow> u32" where
  "copy_value s c r = (case c of None \<Rightarrow> regbank s r | Some b \<Rightarrow> banked s b r)"

lemma bypass_read_copy:
  "known_mode (pm_mode s) \<Longrightarrow> bypass_read s r = copy_value s (register_copy (pm_mode s) r) r"
  by (auto simp: bypass_read_def known_mode_def user_or_system_def register_copy_alt copy_value_def split: option.split)

lemma bypass_write_copy:
  assumes "known_mode (pm_mode s)"
  shows "copy_value (bypass_write s r v) c k =
    (if k = r \<and> c = register_copy (pm_mode s) r then v else copy_value s c k)"
  using assms
  by (auto simp: bypass_write_def known_mode_def user_or_system_def register_copy_alt copy_value_def RB_direct_def
      split: option.split)

lemma bypass_write_fields [arm_simps, simp]:
  "pm_mode (bypass_write s r v) = pm_mode s" "spsr (bypass_write s r v) = spsr s"
  "flag_N (bypass_write s r v) = flag_N s" "flag_Z (bypass_write s r v) = flag_Z s"
  "flag_C (bypass_write s r v) = flag_C s" "flag_V (bypass_write s r v) = flag_V s"
  "flag_Q (bypass_write s r v) = flag_Q s" "flag_T (bypass_write s r v) = flag_T s"
  "pm_fiq (bypass_write s r v) = pm_fiq s" "pm_irq (bypass_write s r v) = pm_irq s"
  "pm_thumb (bypass_write s r v) = pm_thumb s" "dpi_shiftop (bypass_write s r v) = dpi_shiftop s"
  "dpi_shiftopcarry (bypass_write s r v) = dpi_shiftopcarry s" "ls_address (bypass_write s r v) = ls_address s"
  "lsm_startaddress (bypass_write s r v) = lsm_startaddress s" "devices (bypass_write s r v) = devices s"
  "host (bypass_write s r v) = host s" "cp15_value (bypass_write s r v) = cp15_value s"
  "ac_pc (bypass_write s r v) = ac_pc s" "dsp_op1 (bypass_write s r v) = dsp_op1 s"
  "dsp_op2 (bypass_write s r v) = dsp_op2 s"
  by (simp_all add: bypass_write_def RB_direct_def split: option.split)

lemma user_or_system_bypass_write [arm_simps, simp]: "user_or_system (bypass_write s r v) = user_or_system s"
  by (simp add: user_or_system_def)

lemma read_write [arm_simps, simp]:
  "known_mode (pm_mode s) \<Longrightarrow> bypass_read (bypass_write s r v) k = (if k = r then v else bypass_read s k)"
  by (simp add: bypass_read_copy bypass_write_copy)

text \<open>Reading depends on the registers and the mode only.\<close>

lemma bypass_read_cong:
  "regbank s = regbank t \<Longrightarrow> banked s = banked t \<Longrightarrow> pm_mode s = pm_mode t \<Longrightarrow> host s = host t \<Longrightarrow>
    bypass_read s r = bypass_read t r"
  by (simp add: bypass_read_def user_or_system_def split: option.split)

lemma bypass_read_update [arm_simps, simp]:
  "bypass_read (s\<lparr>ac_pc := a\<rparr>) r = bypass_read s r" "bypass_read (s\<lparr>flag_N := b\<rparr>) r = bypass_read s r"
  "bypass_read (s\<lparr>flag_Z := b\<rparr>) r = bypass_read s r" "bypass_read (s\<lparr>flag_C := b\<rparr>) r = bypass_read s r"
  "bypass_read (s\<lparr>flag_V := b\<rparr>) r = bypass_read s r" "bypass_read (s\<lparr>flag_Q := b\<rparr>) r = bypass_read s r"
  "bypass_read (s\<lparr>flag_T := b\<rparr>) r = bypass_read s r" "bypass_read (s\<lparr>dpi_shiftop := a\<rparr>) r = bypass_read s r"
  "bypass_read (s\<lparr>dpi_shiftopcarry := b\<rparr>) r = bypass_read s r" "bypass_read (s\<lparr>ls_address := a\<rparr>) r = bypass_read s r"
  "bypass_read (s\<lparr>lsm_startaddress := a\<rparr>) r = bypass_read s r" "bypass_read (s\<lparr>devices := m\<rparr>) r = bypass_read s r"
  "bypass_read (s\<lparr>spsr := f\<rparr>) r = bypass_read s r"
  by (rule bypass_read_cong; simp)+

lemma update_pc_fields [arm_simps, simp]:
  "ac_pc (update_pc s) = bypass_read s 15" "bypass_read (update_pc s) r = bypass_read s r"
  "pm_mode (update_pc s) = pm_mode s" "flag_N (update_pc s) = flag_N s" "flag_Z (update_pc s) = flag_Z s"
  "flag_C (update_pc s) = flag_C s" "flag_V (update_pc s) = flag_V s" "flag_Q (update_pc s) = flag_Q s"
  "flag_T (update_pc s) = flag_T s" "pm_fiq (update_pc s) = pm_fiq s" "pm_irq (update_pc s) = pm_irq s"
  "pm_thumb (update_pc s) = pm_thumb s" "spsr (update_pc s) = spsr s" "banked (update_pc s) = banked s"
  "regbank (update_pc s) = regbank s" "host (update_pc s) = host s" "devices (update_pc s) = devices s"
  by (simp_all add: update_pc_def)

lemma bypass_15: "known_mode (pm_mode s) \<Longrightarrow> bypass_read s 15 = regbank s 15"
  by (simp add: bypass_read_copy register_copy_def copy_value_def)

subsection \<open>Status registers\<close>

lemma bit_put_flag [simp]: "bit (put_flag n b w) k \<longleftrightarrow> (if k = n \<and> n < 32 then b else bit w k)"
  by (auto simp: put_flag_def bit_simps dest: bit_imp_le_length)

definition cpsr_bit :: "'m arm \<Rightarrow> nat \<Rightarrow> bool" where
  "cpsr_bit s k \<longleftrightarrow>
     (if k = 31 then flag_N s else if k = 30 then flag_Z s else if k = 29 then flag_C s
      else if k = 28 then flag_V s else if k = 27 then flag_Q s
      else bit (pm_mode s) k \<or> (k = 7 \<and> pm_irq s) \<or> (k = 6 \<and> pm_fiq s) \<or> (k = 5 \<and> (pm_thumb s \<or> flag_T s)))"

lemma bit_CPSR: "k < 32 \<Longrightarrow> bit (readCPSR s) k \<longleftrightarrow> cpsr_bit s k"
  by (auto simp: readCPSR_def CPSRBuild_def Let_def cpsr_bit_def bit_simps)

lemma bit_MODE_MASK [simp]: "bit MODE_MASK k \<longleftrightarrow> k < 5"
proof -
  have m: "MODE_MASK = mask 5" by (simp add: MODE_MASK_def mask_eq_exp_minus_1)
  show ?thesis unfolding m by (auto simp: bit_mask_iff)
qed

text \<open>The modes fit the mask: every state of a run has this property.\<close>

definition cpu_ok :: "'m arm \<Rightarrow> bool" where
  "cpu_ok s \<longleftrightarrow> \<not> pm_thumb s \<and> pm_mode s AND MODE_MASK = pm_mode s"

lemma mode_bit_less: "cpu_ok s \<Longrightarrow> bit (pm_mode s) k \<Longrightarrow> k < 5"
  unfolding cpu_ok_def by (metis bit_MODE_MASK bit_and_iff)

lemma CPSR_mode: "cpu_ok s \<Longrightarrow> readCPSR s AND MODE_MASK = pm_mode s"
  by (rule bit_word_eqI) (auto simp: bit_and_iff bit_CPSR cpsr_bit_def dest: mode_bit_less)

lemma writeCPSR_fields [arm_simps, simp]:
  "pm_mode (writeCPSR v s) = v AND MODE_MASK" "pm_thumb (writeCPSR v s) = pm_thumb s"
  "regbank (writeCPSR v s) = regbank s" "banked (writeCPSR v s) = banked s" "spsr (writeCPSR v s) = spsr s"
  "ac_pc (writeCPSR v s) = ac_pc s" "host (writeCPSR v s) = host s" "devices (writeCPSR v s) = devices s"
  "cp15_value (writeCPSR v s) = cp15_value s" "dpi_shiftop (writeCPSR v s) = dpi_shiftop s"
  "flag_N (writeCPSR v s) = bit v 31" "flag_Z (writeCPSR v s) = bit v 30" "flag_C (writeCPSR v s) = bit v 29"
  "flag_V (writeCPSR v s) = bit v 28" "flag_Q (writeCPSR v s) = bit v 27" "flag_T (writeCPSR v s) = bit v 5"
  "pm_fiq (writeCPSR v s) = bit v 6" "pm_irq (writeCPSR v s) = bit v 7"
  by (simp_all add: writeCPSR_def)

lemma cpu_ok_writeCPSR [simp]: "cpu_ok (writeCPSR v s) \<longleftrightarrow> \<not> pm_thumb s"
  by (simp add: cpu_ok_def and.assoc)

text \<open>What is read back: the flags and the low byte, all other bits 0.\<close>

lemma read_written_CPSR:
  assumes "\<not> pm_thumb s"
  shows "readCPSR (writeCPSR v s) = v AND 0xF80000FF"
proof (rule bit_word_eqI)
  fix k assume "k < LENGTH(32)"
  then have k: "k < 32" by simp
  have m: "(0xF80000FF :: u32) = push_bit 27 (mask 5) OR mask 8"
    by (simp add: mask_eq_exp_minus_1 push_bit_eq_mult)
  have low: "k < 8 \<longleftrightarrow> k < 5 \<or> k = 5 \<or> k = 6 \<or> k = 7" by auto
  show "bit (readCPSR (writeCPSR v s)) k = bit (v AND 0xF80000FF) k"
    using k assms unfolding m by (auto simp: bit_CPSR cpsr_bit_def bit_simps low)
qed


subsection \<open>The invariant of a run\<close>

lemma cpu_ok_update [simp]:
  "cpu_ok (s\<lparr>ac_pc := a\<rparr>) = cpu_ok s" "cpu_ok (s\<lparr>regbank := f\<rparr>) = cpu_ok s" "cpu_ok (s\<lparr>banked := g\<rparr>) = cpu_ok s"
  "cpu_ok (s\<lparr>spsr := h\<rparr>) = cpu_ok s" "cpu_ok (s\<lparr>flag_N := b\<rparr>) = cpu_ok s" "cpu_ok (s\<lparr>flag_Z := b\<rparr>) = cpu_ok s"
  "cpu_ok (s\<lparr>flag_C := b\<rparr>) = cpu_ok s" "cpu_ok (s\<lparr>flag_V := b\<rparr>) = cpu_ok s" "cpu_ok (s\<lparr>flag_T := b\<rparr>) = cpu_ok s"
  "cpu_ok (s\<lparr>dpi_shiftop := a\<rparr>) = cpu_ok s" "cpu_ok (s\<lparr>dpi_shiftopcarry := b\<rparr>) = cpu_ok s"
  "cpu_ok (s\<lparr>ls_address := a\<rparr>) = cpu_ok s" "cpu_ok (s\<lparr>lsm_startaddress := a\<rparr>) = cpu_ok s"
  "cpu_ok (s\<lparr>dsp_op1 := a\<rparr>) = cpu_ok s" "cpu_ok (s\<lparr>dsp_op2 := a\<rparr>) = cpu_ok s"
  "cpu_ok (s\<lparr>cp15_value := c\<rparr>) = cpu_ok s" "cpu_ok (s\<lparr>devices := m\<rparr>) = cpu_ok s"
  "cpu_ok (bypass_write s r v) = cpu_ok s" "cpu_ok (RB_direct s r v) = cpu_ok s" "cpu_ok (update_pc s) = cpu_ok s"
  by (simp_all add: cpu_ok_def RB_direct_def)

lemma cpu_ok_flags [simp]:
  "cpu_ok (set_NZ r s) = cpu_ok s" "cpu_ok (set_NZCV r c v s) = cpu_ok s" "cpu_ok (set_NZC r s) = cpu_ok s"
  "cpu_ok (set_shiftop a c s) = cpu_ok s"
  by (simp_all add: set_NZ_def set_NZCV_def set_NZC_def set_shiftop_def)

lemma cpu_ok_thumb: "cpu_ok s \<Longrightarrow> \<not> pm_thumb s"
  by (simp add: cpu_ok_def)

lemma cpu_ok_status [simp]:
  "cpu_ok s \<Longrightarrow> cpu_ok (SPSRtoCPSR s)" "cpu_ok s \<Longrightarrow> cpu_ok (writeSPSR v s)"
  by (simp_all add: SPSRtoCPSR_def writeSPSR_def cpu_ok_thumb split: option.split)

lemma cpu_ok_enter: "\<not> pm_thumb (fst (enter_mode b link saved m vector s)) \<longleftrightarrow> \<not> pm_thumb s"
  by (simp add: enter_mode_def)

lemma cpu_ok_interrupt [simp]: "cpu_ok s \<Longrightarrow> cpu_ok (service_interrupt e s)"
  by (cases e) (auto simp: service_interrupt_def Let_def enter_mode_def cpu_ok_thumb)

lemma cpu_ok_write_result [simp]:
  assumes "cpu_ok s" "\<And>s. cpu_ok (f s) = cpu_ok s"
  shows "cpu_ok (write_result rd v sf f s)"
  using assms by (simp add: write_result_def Let_def)

lemma cpu_ok_dp [simp]: "cpu_ok s \<Longrightarrow> cpu_ok (dp_behavior op rd rn sf s)"
  by (cases op) (simp_all add: arm_AND_def arm_EOR_def arm_SUB_def arm_RSB_def arm_ADD_def arm_ADC_def arm_SBC_def
      arm_RSC_def arm_TST_def arm_TEQ_def arm_CMP_def arm_CMN_def arm_ORR_def arm_MOV_def arm_BIC_def arm_MVN_def Let_def)

lemma cpu_ok_MOV [simp]: "cpu_ok s \<Longrightarrow> cpu_ok (arm_MOV rd sf s)"
  using cpu_ok_dp [of s Op_MOV] by simp

text \<open>Every state in which a behaviour may end.\<close>

definition act_ok :: "'m arm act \<Rightarrow> bool" where
  "act_ok a \<longleftrightarrow> (case a of Done s \<Rightarrow> cpu_ok s | Annulled s \<Rightarrow> cpu_ok s | Quit \<Rightarrow> True)"

lemma act_ok_simps [simp]: "act_ok (Done s) = cpu_ok s" "act_ok (Annulled s) = cpu_ok s" "act_ok Quit"
  by (simp_all add: act_ok_def)

lemma act_ok_then: "act_ok a \<Longrightarrow> (\<And>s. cpu_ok s \<Longrightarrow> act_ok (f s)) \<Longrightarrow> act_ok (act_then a f)"
  by (cases a) simp_all

lemma bus_read_ok: "cpu_ok s \<Longrightarrow> cpu_ok (snd (bus_read s a))"
  by (auto simp: bus_read_def split: option.split prod.split)

lemma bus_write_ok: "cpu_ok s \<Longrightarrow> cpu_ok (bus_write s a v)"
  by (auto simp: bus_write_def split: option.split)

lemma walk_ok: "cpu_ok s \<Longrightarrow> cpu_ok (snd (L1_table_walk s a))" "cpu_ok s \<Longrightarrow> cpu_ok (snd (L2_table_walk s a))"
  using bus_read_ok [of s a] by (simp_all add: L1_table_walk_def L2_table_walk_def Let_def case_prod_beta)

lemma L2_translate_ok: "cpu_ok s \<Longrightarrow> L2_translate s b va = Some (pa, t) \<Longrightarrow> cpu_ok t"
  using walk_ok(2) [of s] by (auto simp: L2_translate_def Let_def case_prod_beta split: l2_entry.split_asm)

lemma L1_translate_ok:
  assumes "cpu_ok s" "L1_translate s va = Some (pa, t)"
  shows "cpu_ok t"
proof -
  let ?a = "snd (ttb_address s va) OR push_bit 2 (drop_bit 20 (va AND bits_mask 20 (31 - (if fst (ttb_address s va) then 0 else ttbcr_n s))))"
  have t: "cpu_ok (snd (L1_table_walk s ?a))" using assms(1) by (rule walk_ok)
  show ?thesis
    using assms(2) t L2_translate_ok [OF t]
    by (cases "fst (L1_table_walk s ?a)") (simp_all add: L1_translate_def Let_def case_prod_beta)
qed

lemma mmu_address_ok: "cpu_ok s \<Longrightarrow> mmu_address s va = Some (pa, t) \<Longrightarrow> cpu_ok t"
  by (auto simp: mmu_address_def dest: L1_translate_ok split: if_split_asm)

lemma mmu_read_ok: "mmu_read s a = Some (r, t) \<Longrightarrow> cpu_ok s \<Longrightarrow> cpu_ok t"
  by (clarsimp simp: mmu_read_def split: option.split_asm prod.split_asm) (metis bus_read_ok mmu_address_ok snd_conv)

lemma mmu_write_ok: "mmu_write s a v = Some t \<Longrightarrow> cpu_ok s \<Longrightarrow> cpu_ok t"
  by (auto simp: mmu_write_def split: option.split_asm prod.split_asm intro: bus_write_ok mmu_address_ok)

lemma MEM_read_ok:
  "cpu_ok s \<Longrightarrow> MEM_read s a = Some (v, t) \<Longrightarrow> cpu_ok t"
  "cpu_ok s \<Longrightarrow> MEM_read_byte s a = Some (b, t) \<Longrightarrow> cpu_ok t"
  using mmu_read_ok [of s a] by (auto simp: MEM_read_def MEM_read_byte_def split: option.split_asm)

lemma write_part_ok: "cpu_ok s \<Longrightarrow> write_part n s a v = Some t \<Longrightarrow> cpu_ok t"
  by (auto simp: write_part_def split: option.split_asm intro: mmu_read_ok mmu_write_ok)

lemma MEM_write_ok:
  "cpu_ok s \<Longrightarrow> MEM_write s a v = Some t \<Longrightarrow> cpu_ok t"
  "cpu_ok s \<Longrightarrow> MEM_write_byte s a b = Some t \<Longrightarrow> cpu_ok t"
  "cpu_ok s \<Longrightarrow> MEM_write_half s a h = Some t \<Longrightarrow> cpu_ok t"
  using mmu_write_ok [of s a] write_part_ok [of s]
  by (auto simp: MEM_write_def MEM_write_byte_def MEM_write_half_def)

lemma access_then_ok:
  assumes "\<And>v t. r = Some (v, t) \<Longrightarrow> cpu_ok t" "\<And>v t. cpu_ok t \<Longrightarrow> act_ok (f v t)"
  shows "act_ok (access_then r f)"
  using assms(1) [of "fst (the r)" "snd (the r)"] assms(2) [of "snd (the r)" "fst (the r)"]
  by (cases r) (simp_all add: access_then_def case_prod_beta)

lemma store_then_ok:
  assumes "\<And>t. r = Some t \<Longrightarrow> cpu_ok t" "\<And>t. cpu_ok t \<Longrightarrow> act_ok (f t)"
  shows "act_ok (store_then r f)"
  using assms(1) [of "the r"] assms(2) [of "the r"] by (cases r) simp_all

lemma access_ok:
  assumes "cpu_ok s"
  shows "(\<And>v t. cpu_ok t \<Longrightarrow> act_ok (f v t)) \<Longrightarrow> act_ok (access_then (MEM_read s a) f)"
    "(\<And>v t. cpu_ok t \<Longrightarrow> act_ok (g v t)) \<Longrightarrow> act_ok (access_then (MEM_read_byte s a) g)"
  by (rule access_then_ok; blast intro: MEM_read_ok [OF assms])+

lemma store_ok:
  assumes "cpu_ok s"
  shows "(\<And>t. cpu_ok t \<Longrightarrow> act_ok (f t)) \<Longrightarrow> act_ok (store_then (MEM_write s a v) f)"
    "(\<And>t. cpu_ok t \<Longrightarrow> act_ok (f t)) \<Longrightarrow> act_ok (store_then (MEM_write_byte s a b) f)"
    "(\<And>t. cpu_ok t \<Longrightarrow> act_ok (f t)) \<Longrightarrow> act_ok (store_then (MEM_write_half s a h) f)"
  by (rule store_then_ok; blast intro: MEM_write_ok [OF assms])+

lemma act_ok_if: "(b \<Longrightarrow> act_ok x) \<Longrightarrow> (\<not> b \<Longrightarrow> act_ok y) \<Longrightarrow> act_ok (if b then x else y)" by simp

lemma cpu_ok_cond: "cpu_ok s \<Longrightarrow> cpu_ok t \<Longrightarrow> cpu_ok (if b then s else t)" by simp

lemma ls_ok: "cpu_ok s \<Longrightarrow> act_ok (ls_behavior op rd s)"
  by (cases op; simp only: ls_behavior.simps arm_LDR_def arm_LDRT_def arm_LDRB_def arm_LDRBT_def arm_STR_def
      arm_STRT_def arm_STRB_def arm_STRBT_def)
    (rule access_ok store_ok | simp add: Let_def)+

lemma lse_ok: "cpu_ok s \<Longrightarrow> act_ok (lse_behavior op rd s)"
  by (cases op; simp only: lse_behavior.simps arm_LDRH_def arm_LDRSB_def arm_LDRSH_def arm_STRH_def arm_LDRD_def arm_STRD_def)
    (rule access_ok store_ok act_ok_if | simp)+

lemma ldm_loop_ok: "(\<And>s i v. cpu_ok (put s i v) = cpu_ok s) \<Longrightarrow> cpu_ok s \<Longrightarrow> act_ok (ldm_loop put rlist is s)"
proof (induction "is" arbitrary: s)
  case (Cons i "is")
  show ?case
    unfolding ldm_loop.simps by (rule access_ok act_ok_if | simp add: Let_def Cons)+
qed simp

lemma stm_loop_ok: "cpu_ok s \<Longrightarrow> act_ok (stm_loop get rlist is s)"
proof (induction "is" arbitrary: s)
  case (Cons i "is")
  show ?case
    unfolding stm_loop.simps by (rule store_ok act_ok_if | simp add: Cons)+
qed simp

lemma LDM_ok: "cpu_ok s \<Longrightarrow> act_ok (arm_LDM rlist r s)"
  unfolding arm_LDM_def by (rule act_ok_if act_ok_then ldm_loop_ok access_ok | simp add: Let_def)+

lemma STM_ok: "cpu_ok s \<Longrightarrow> act_ok (arm_STM rlist r s)"
  unfolding arm_STM_def by (rule act_ok_if act_ok_then stm_loop_ok | simp)+

lemma memory_formats_ok:
  "cpu_ok s \<Longrightarrow> act_ok (Type_LSI p u w rn rd imm s)" "cpu_ok s \<Longrightarrow> act_ok (Type_LSR p u w rn rd k sh rm s)"
  "cpu_ok s \<Longrightarrow> act_ok (Type_LSE p u i w rn rd a1 ss hh a2 s)" "cpu_ok s \<Longrightarrow> act_ok (Type_LSM p u w rn rlist s)"
  by (simp_all add: Type_LSI_def Type_LSR_def Type_LSE_def Type_LSM_def Let_def)

lemma mem_ok: "cpu_ok s \<Longrightarrow> act_ok (execute_mem i s)"
  by (cases i; simp only: execute_mem.simps behavior_ldrex_def behavior_strex_def arm_SWP_def arm_SWPB_def)
    (rule act_ok_then memory_formats_ok ls_ok lse_ok LDM_ok STM_ok access_ok store_ok act_ok_if
      ls_ok [where op = Op_LDR, simplified] ls_ok [where op = Op_STR, simplified] | simp add: Let_def)+

lemma dp_ok: "cpu_ok s \<Longrightarrow> act_ok (execute_dp i s)"
  by (cases i) (auto simp: Type_DPI1_def Type_DPI2_def Type_DPI3_def Type_DPI4_def Type_DPI5_def arm_MOVT_def arm_PKH_def
      Let_def intro!: act_ok_then)

lemma bits_ok: "cpu_ok s \<Longrightarrow> act_ok (execute_bits i s)"
proof (cases i)
  case (I_PCK1 op rd k rm)
  then show "cpu_ok s \<Longrightarrow> act_ok (execute_bits i s)"
    by (cases op) (simp_all add: arm_UXTB_def arm_UXTH_def arm_SXTH_def arm_REV_def Type_PCK1_def Let_def)
qed (simp_all add: arm_BFI_def arm_UBFX_def arm_SBFX_def arm_CLZ_def Let_def)

lemma branch_ok: "cpu_ok s \<Longrightarrow> act_ok (execute_branch i s)"
  by (cases i) (simp_all add: arm_B_def arm_BX_def behavior_blx2_def Let_def)

lemma cpu_ok_write_long [simp]: "cpu_ok s \<Longrightarrow> cpu_ok (write_long rdhi rdlo sf r s)"
  by (simp add: write_long_def Let_def)

lemma cpu_ok_long [simp]: "cpu_ok s \<Longrightarrow> cpu_ok (long_behavior op rdhi rdlo rm rs sf s)"
  by (cases op) (simp_all add: arm_UMULL_def arm_UMLAL_def arm_SMULL_def arm_SMLAL_def)

lemma mult_ok: "cpu_ok s \<Longrightarrow> act_ok (execute_mult i s)"
  by (cases i) (simp_all add: arm_MLA_def arm_MUL_def arm_MLS_def Type_DSPSM_def arm_DSMLA_def arm_DSMUL_def Let_def)

lemma system_ok: "cpu_ok s \<Longrightarrow> act_ok (execute_system i s)"
  by (cases i) (simp_all add: arm_MCR_def arm_MRC_def arm_MRS_def behavior_msr1_def behavior_msr2_def arm_MSR_def
      cp15_MCR_def cpu_ok_thumb Let_def)

lemma execute_ok: "cpu_ok s \<Longrightarrow> act_ok (execute_insn i s)"
  by (cases i) (simp_all add: dp_ok bits_ok branch_ok mult_ok mem_ok system_ok)

lemma simulate_ok: "simulate cond i s = Some t \<Longrightarrow> cpu_ok s \<Longrightarrow> cpu_ok t"
proof -
  assume t: "simulate cond i s = Some t" and s: "cpu_ok s"
  have "act_ok (act_then (behavior_instruction cond s) (execute_insn i))"
    by (rule act_ok_then) (simp_all add: s behavior_instruction_def execute_ok Let_def)
  then show "cpu_ok t" using t by (auto simp: simulate_def split: act.split_asm)
qed

text \<open>A run: instructions, interrupts between them, and whatever the devices do.\<close>

inductive arm_run :: "'m arm \<Rightarrow> 'm arm \<Rightarrow> bool" for s0 where
  run_begin: "arm_run s0 (behavior_begin s0)"
| run_insn: "arm_run s0 s \<Longrightarrow> simulate cond i s = Some t \<Longrightarrow> arm_run s0 t"
| run_interrupt: "arm_run s0 s \<Longrightarrow> arm_run s0 (service_interrupt e s)"
| run_devices: "arm_run s0 s \<Longrightarrow> arm_run s0 (s\<lparr>devices := m\<rparr>)"

lemma cpu_ok_begin: "cpu_ok (behavior_begin s)"
  by (simp add: behavior_begin_def cpu_ok_def mode_defs)

lemma arm_run_ok: "arm_run s0 s \<Longrightarrow> cpu_ok s"
  by (induction rule: arm_run.induct) (auto simp: cpu_ok_begin dest: simulate_ok)

subsection \<open>A state to start from\<close>

text \<open>One RAM at \<open>0x70000000\<close>, all registers 0, user mode. A shift by 32 or more places gives the word
  itself, as on the hosts of the simulator for 32.\<close>

definition demo_host :: "ram arm_host" where
  "demo_host = \<lparr>shl_out = (\<lambda>n w. w), no_return = 0, not_set = 0, bus_devices = [(0x70000000, 0xAFFFFFFF)],
     read_signal = (\<lambda>i a off m. (ram_read a m, m)), write_signal = (\<lambda>i a v off m. ram_write a v m)\<rparr>"

definition demo_arm :: "ram arm" where
  "demo_arm = \<lparr>ac_pc = 0x70000100, regbank = (\<lambda>r. 0), banked = (\<lambda>b r. 0), spsr = (\<lambda>b. 0),
     flag_N = False, flag_Z = False, flag_C = False, flag_V = False, flag_Q = False, flag_T = False,
     pm_fiq = False, pm_irq = False, pm_thumb = False, pm_mode = USER_MODE, dpi_shiftop = 0, dpi_shiftopcarry = False,
     ls_address = 0, lsm_startaddress = 0, dsp_op1 = 0, dsp_op2 = 0, cp15_value = (\<lambda>n. 0),
     devices = (\<lambda>a. 0), host = demo_host\<rparr>"

lemma demo_arm_ok: "cpu_ok demo_arm"
  by (simp add: cpu_ok_def demo_arm_def mode_defs)

subsection \<open>Properties\<close>

text \<open>C20: The register banks. After a write to register \<open>r\<close> in one mode, a read of register \<open>k\<close> in another
  mode gives the written value if both are the same register of the architecture, that is the same
  number and the same copy (13 and 14 for every exception mode, 8 to 12 for FIQ); otherwise what it
  gave before.\<close>

theorem register_banks:
  assumes "known_mode (pm_mode s)" "known_mode m"
  shows "bypass_read ((bypass_write s r v)\<lparr>pm_mode := m\<rparr>) k =
    (if k = r \<and> register_copy m k = register_copy (pm_mode s) r then v else bypass_read (s\<lparr>pm_mode := m\<rparr>) k)"
proof -
  have c: "copy_value (x\<lparr>pm_mode := m\<rparr>) c j = copy_value x c j" for x :: "'a arm" and c j
    by (simp add: copy_value_def split: option.split)
  show ?thesis using assms by (auto simp: bypass_read_copy c bypass_write_copy)
qed

theorem register_banks_witness:
  "bypass_read ((bypass_write (demo_arm\<lparr>pm_mode := IRQ_MODE\<rparr>) 13 7)\<lparr>pm_mode := USER_MODE\<rparr>) 13 = 0 \<and>
   bypass_read ((bypass_write (demo_arm\<lparr>pm_mode := FIQ_MODE\<rparr>) 7 7)\<lparr>pm_mode := ABORT_MODE\<rparr>) 7 = 7"
proof -
  have "bypass_read (demo_arm\<lparr>pm_mode := USER_MODE\<rparr>) 13 = 0"
    by (simp add: bypass_read_def user_or_system_def demo_arm_def)
  then show ?thesis
    using register_banks [of "demo_arm\<lparr>pm_mode := IRQ_MODE\<rparr>" USER_MODE 13 7 13]
      register_banks [of "demo_arm\<lparr>pm_mode := FIQ_MODE\<rparr>" ABORT_MODE 7 7 7]
    by (simp add: known_mode_def register_copy_def)
qed

lemma CPSR_written_back:
  assumes "cpu_ok s"
  shows "writeCPSR (readCPSR s) s = s"
proof -
  have "\<not> bit (pm_mode s) 5" "\<not> bit (pm_mode s) 6" "\<not> bit (pm_mode s) 7"
    using mode_bit_less [OF assms] by force+
  then show ?thesis
    using assms by (simp add: writeCPSR_def CPSR_mode bit_CPSR cpsr_bit_def cpu_ok_thumb)
qed

lemma CPSR_bits:
  assumes "cpu_ok s"
  shows "readCPSR s AND 0xF80000FF = readCPSR s"
  using read_written_CPSR [of s "readCPSR s"] CPSR_written_back [OF assms] assms by (simp add: cpu_ok_thumb)

text \<open>C21: The status register is kept in the flags and the mode without loss. In every state of a run,
  writing back what was read changes nothing, and after any word is written, reading gives its flags
  and its low byte, with the other bits 0.\<close>

theorem status_roundtrip:
  assumes "arm_run s0 s"
  shows "writeCPSR (readCPSR s) s = s \<and> readCPSR (writeCPSR v s) = v AND 0xF80000FF"
  using arm_run_ok [OF assms] by (simp add: CPSR_written_back read_written_CPSR cpu_ok_thumb)

theorem status_roundtrip_witness:
  "readCPSR (writeCPSR 0xFFFFFFFF (behavior_begin demo_arm)) = 0xF80000FF"
  using status_roundtrip [where v = "0xFFFFFFFF", OF run_begin [where ?s0.0 = demo_arm]] by simp



end
