(* ===== verification/ArmException.thy ===== *)
theory ArmException
  imports ArmStateCorrect
begin

text \<open>
  Exceptions end to end: what \<open>service_interrupt\<close> saves, the instruction a handler returns with, and
  the state after it; and what becomes of a data abort in the middle of a load.
\<close>

subsection \<open>The entry of an exception\<close>

definition exception_bank :: "exception_type \<Rightarrow> bank" where
  "exception_bank e =
     (case e of EXCEPTION_RESET \<Rightarrow> Svc | EXCEPTION_UNDEFINED_INSTR \<Rightarrow> Und | EXCEPTION_SWI \<Rightarrow> Svc
      | EXCEPTION_PREFETCH_ABORT \<Rightarrow> Abt | EXCEPTION_DATA_ABORT \<Rightarrow> Abt | EXCEPTION_IRQ \<Rightarrow> Irq | EXCEPTION_FIQ \<Rightarrow> Fiq)"

definition bank_mode :: "bank \<Rightarrow> u32" where
  "bank_mode b = (case b of Fiq \<Rightarrow> FIQ_MODE | Irq \<Rightarrow> IRQ_MODE | Svc \<Rightarrow> SUPERVISOR_MODE | Abt \<Rightarrow> ABORT_MODE | Und \<Rightarrow> UNDEFINED_MODE)"

lemma mode_bank_mode [simp]: "mode_bank (bank_mode b) = Some b"
  by (cases b) (simp_all add: bank_mode_def)

lemma bank_mode_known [simp]: "known_mode (bank_mode b)"
  by (simp add: known_mode_def)

lemma bank_mode_not_user [simp]: "bank_mode b \<noteq> USER_MODE" "bank_mode b \<noteq> SYSTEM_MODE"
  by (cases b; simp add: bank_mode_def mode_defs)+

lemma mode_in_mask: "(w AND NOT MODE_MASK OR bank_mode b) AND MODE_MASK = bank_mode b"
proof -
  have "bank_mode b AND MODE_MASK = bank_mode b"
    by (cases b) (simp_all add: bank_mode_def mode_defs)
  moreover have "(w AND NOT MODE_MASK) AND MODE_MASK = 0"
    by (simp add: and.assoc)
  ultimately show ?thesis by (simp add: bit.conj_disj_distrib2)
qed

text \<open>An exception is taken unless it is an interrupt that is switched off.\<close>

definition taken :: "exception_type \<Rightarrow> 'm arm \<Rightarrow> bool" where
  "taken e s \<longleftrightarrow> (e = EXCEPTION_IRQ \<longrightarrow> \<not> pm_irq s) \<and> (e = EXCEPTION_FIQ \<longrightarrow> \<not> pm_fiq s)"

definition link_address :: "exception_type \<Rightarrow> 'm arm \<Rightarrow> u32" where
  "link_address e s =
     (case e of EXCEPTION_RESET \<Rightarrow> 0 | EXCEPTION_UNDEFINED_INSTR \<Rightarrow> ac_pc s | EXCEPTION_SWI \<Rightarrow> ac_pc s
      | EXCEPTION_PREFETCH_ABORT \<Rightarrow> ac_pc s | EXCEPTION_DATA_ABORT \<Rightarrow> ac_pc s + 4
      | EXCEPTION_IRQ \<Rightarrow> ac_pc s + 4 | EXCEPTION_FIQ \<Rightarrow> ac_pc s + 4)"

lemma bit_bank_mode: "bit (bank_mode b) k \<Longrightarrow> k < 5"
  using mode_in_mask [of 0 b] by (metis bit_MODE_MASK bit_and_iff)

lemma CPSR_67:
  assumes "cpu_ok s"
  shows "bit (readCPSR s) 6 \<longleftrightarrow> pm_fiq s" "bit (readCPSR s) 7 \<longleftrightarrow> pm_irq s"
  using mode_bit_less [OF assms, of 6] mode_bit_less [OF assms, of 7] by (auto simp: bit_CPSR cpsr_bit_def)

lemma mode_kept [simp]:
  "set_bit 7 w AND MODE_MASK = (w :: u32) AND MODE_MASK" "unset_bit 5 w AND MODE_MASK = (w :: u32) AND MODE_MASK"
  "set_bit 6 w AND MODE_MASK = (w :: u32) AND MODE_MASK"
  by (rule bit_word_eqI; auto simp: bit_simps)+

definition vector_offset :: "exception_type \<Rightarrow> u32" where
  "vector_offset e =
     (case e of EXCEPTION_RESET \<Rightarrow> RESET_ADDR | EXCEPTION_UNDEFINED_INSTR \<Rightarrow> UNDEFINED_ADDR | EXCEPTION_SWI \<Rightarrow> SWI_ADDR
      | EXCEPTION_PREFETCH_ABORT \<Rightarrow> PREFETCH_ABORT_ADDR | EXCEPTION_DATA_ABORT \<Rightarrow> DATA_ABORT_ADDR
      | EXCEPTION_IRQ \<Rightarrow> IRQ_ADDR | EXCEPTION_FIQ \<Rightarrow> DATA_ABORT_ADDR)"

definition vector_address :: "exception_type \<Rightarrow> 'm arm \<Rightarrow> u32" where
  "vector_address e s = (cp15_value s VECTOR_BASE_REGISTER AND NOT 0x1f) + vector_offset e"

definition entry_status :: "exception_type \<Rightarrow> 'm arm \<Rightarrow> u32" where
  "entry_status e s =
     (let c = (readCPSR s AND NOT MODE_MASK) OR bank_mode (exception_bank e)
      in set_bit 7 (unset_bit 5 (if e \<in> {EXCEPTION_RESET, EXCEPTION_FIQ} then set_bit 6 c else c)))"

lemma entry_status_mode [simp]: "entry_status e s AND MODE_MASK = bank_mode (exception_bank e)"
  by (simp add: entry_status_def Let_def mode_in_mask)

text \<open>The seven cases of the switch in one equation.\<close>

lemma service_interrupt_taken:
  assumes "cpu_ok s" "taken e s"
  shows "service_interrupt e s =
    writeCPSR (entry_status e s)
      (s\<lparr>banked := (banked s)(exception_bank e := (banked s (exception_bank e))(14 := link_address e s)),
         spsr := (spsr s)(exception_bank e := if e = EXCEPTION_RESET then 0 else readCPSR s),
         ac_pc := vector_address e s\<rparr>)"
  using assms(2) CPSR_67 [OF assms(1)]
  by (cases e) (simp_all add: service_interrupt_def taken_def exception_bank_def link_address_def enter_mode_def Let_def
      entry_status_def vector_address_def vector_offset_def bank_mode_def)

lemma interrupt_entry:
  assumes "cpu_ok s" "taken e s"
  defines "b \<equiv> exception_bank e"
  shows "pm_mode (service_interrupt e s) = bank_mode b"
    "banked (service_interrupt e s) b 14 = link_address e s"
    "regbank (service_interrupt e s) = regbank s"
    "ac_pc (service_interrupt e s) = vector_address e s"
    "e \<noteq> EXCEPTION_RESET \<Longrightarrow> spsr (service_interrupt e s) b = readCPSR s"
    "\<And>b' r. b' \<noteq> b \<or> r \<noteq> 14 \<Longrightarrow> banked (service_interrupt e s) b' r = banked s b' r"
  by (auto simp: service_interrupt_taken [OF assms(1,2)] b_def)

subsection \<open>Instructions of a handler\<close>

text \<open>The instruction \<open>SUBS pc, lr, #n\<close>, which the architecture has for the return.\<close>

definition return_insn :: "u32 \<Rightarrow> arm_insn" where
  "return_insn n = Dp (I_DPI3 Op_SUB True 14 15 0 n)"

definition return_offset :: "exception_type \<Rightarrow> u32" where
  "return_offset e = (if e \<in> {EXCEPTION_DATA_ABORT, EXCEPTION_IRQ, EXCEPTION_FIQ} then 4 else 0)"

lemma cond_always [simp]: "cond_holds 14 s"
  by (simp add: cond_holds.simps)

lemma known_of_bank: "pm_mode s = bank_mode b \<Longrightarrow> known_mode (pm_mode s)"
  by simp

lemma read_lr: "pm_mode s = bank_mode b \<Longrightarrow> bypass_read s 14 = banked s b 14"
  by (simp add: bypass_read_copy register_copy_def copy_value_def)

lemma write_pc: "known_mode (pm_mode s) \<Longrightarrow> bypass_write s 15 v = RB_direct s 15 v"
  by (auto simp: bypass_write_def known_mode_def user_or_system_def bank_has_def split: option.split)

lemma return_status:
  assumes "\<not> pm_thumb h"
  shows "readCPSR (update_pc (writeCPSR (readCPSR s) h)) = readCPSR s AND 0xF80000FF"
  using read_written_CPSR [OF assms, of "readCPSR s"] by (simp add: update_pc_def readCPSR_def CPSRBuild_def)

text \<open>What the return instruction does in a mode with registers of its own.\<close>

lemma return_executed:
  assumes "pm_mode h = bank_mode b" "shl_out (host h) 32 n = 0 \<or> shl_out (host h) 32 n = n"
  shows "simulate 14 (return_insn n) h =
    Some (let a = banked h b 14 - n;
              t = writeCPSR (spsr h b) (RB_direct (h\<lparr>ac_pc := ac_pc h + 4, dpi_shiftop := n, dpi_shiftopcarry := flag_C h\<rparr>) 15 a)
          in t\<lparr>ac_pc := bypass_read t 15\<rparr>)"
proof -
  let ?h = "(RB_direct (h\<lparr>ac_pc := ac_pc h + 4\<rparr>) 15 (ac_pc h + 4))\<lparr>dpi_shiftop := n, dpi_shiftopcarry := flag_C h\<rparr>"
  have m: "\<not> user_or_system h" "mode_bank (pm_mode h) = Some b" "known_mode (pm_mode h)"
    using assms(1) by (simp_all add: user_or_system_def)
  have b: "behavior_instruction 14 h = Done (RB_direct (h\<lparr>ac_pc := ac_pc h + 4\<rparr>) 15 (ac_pc h + 4))"
    using assms(1) by (simp add: behavior_instruction_def write_pc Let_def)
  have f: "Type_DPI3 0 n (RB_direct (h\<lparr>ac_pc := ac_pc h + 4\<rparr>) 15 (ac_pc h + 4)) = ?h"
    using assms(2) by (auto simp: Type_DPI3_def Let_def host_shl_def set_shiftop_def RB_direct_def)
  have lr: "bypass_read ?h 14 = banked h b 14"
    using assms(1) by (simp add: read_lr [of _ b] RB_direct_def)
  have s: "arm_SUB 15 14 True ?h = update_pc (SPSRtoCPSR (RB_direct ?h 15 (banked h b 14 - n)))"
    using assms(1) m lr
    by (simp add: arm_SUB_def first_operand_def write_result_def Let_def write_pc user_or_system_def RB_direct_def)
  have e: "simulate 14 (return_insn n) h = Some (update_pc (SPSRtoCPSR (RB_direct ?h 15 (banked h b 14 - n))))"
    by (simp add: simulate_def return_insn_def b f s)
  show ?thesis
    using m by (simp add: e SPSRtoCPSR_def update_pc_def RB_direct_def Let_def)
qed

lemma link_offset: "link_address e s - return_offset e = (if e = EXCEPTION_RESET then 0 else ac_pc s)"
  by (cases e) (simp_all add: link_address_def return_offset_def)

lemma writeCPSR_RB [simp]: "writeCPSR v (RB_direct s r w) = RB_direct (writeCPSR v s) r w"
  by (simp add: writeCPSR_def RB_direct_def)

text \<open>C4: The return from an exception. Whatever a handler does in between, when it keeps the mode, the
  link register and the saved status that the entry of the exception left, the instruction
  \<open>SUBS pc, lr, #n\<close> (\<open>n = 4\<close> for a data abort and for interrupts, otherwise 0) continues at the
  interrupted address with the interrupted status register, and the interrupted mode sees the registers as
  the handler left them. The exception is any but the reset, taken in any state of a run.\<close>

theorem exception_returns:
  assumes "arm_run s0 s" "known_mode (pm_mode s)" "taken e s" "e \<noteq> EXCEPTION_RESET"
    and "arm_run s1 h" "pm_mode h = pm_mode (service_interrupt e s)"
    and "banked h (exception_bank e) 14 = banked (service_interrupt e s) (exception_bank e) 14"
    and "spsr h (exception_bank e) = spsr (service_interrupt e s) (exception_bank e)"
    and "shl_out (host h) 32 (return_offset e) \<in> {0, return_offset e}"
  shows "\<exists>t. simulate 14 (return_insn (return_offset e)) h = Some t \<and> ac_pc t = ac_pc s \<and>
    readCPSR t = readCPSR s \<and> (\<forall>r. r \<noteq> 15 \<longrightarrow> bypass_read t r = bypass_read (h\<lparr>pm_mode := pm_mode s\<rparr>) r)"
proof -
  let ?b = "exception_bank e"
  have s: "cpu_ok s" and h: "cpu_ok h" using assms(1,5) by (auto intro: arm_run_ok)
  note entry = interrupt_entry [OF s assms(3)]
  have m: "pm_mode h = bank_mode ?b" and a: "banked h ?b 14 - return_offset e = ac_pc s"
    and p: "spsr h ?b = readCPSR s"
    using assms(4,6-8) entry link_offset [of e s] by simp_all
  let ?r = "writeCPSR (readCPSR s) (h\<lparr>ac_pc := ac_pc h + 4, dpi_shiftop := return_offset e, dpi_shiftopcarry := flag_C h\<rparr>)"
  let ?t = "RB_direct ?r 15 (ac_pc s)"
  have mode: "pm_mode ?r = pm_mode s" using CPSR_mode [OF s] by simp
  have "simulate 14 (return_insn (return_offset e)) h = Some (?t\<lparr>ac_pc := bypass_read ?t 15\<rparr>)"
    using return_executed [OF m, of "return_offset e"] assms(9) by (simp add: a p Let_def)
  moreover have "bypass_read ?t 15 = ac_pc s"
    using mode assms(2) by (simp add: bypass_15 RB_direct_def)
  moreover have "readCPSR (?t\<lparr>ac_pc := c\<rparr>) = readCPSR s" for c
    using CPSR_bits [OF s] read_written_CPSR [of h "readCPSR s"] h
    by (simp add: cpu_ok_thumb readCPSR_def CPSRBuild_def RB_direct_def writeCPSR_def)
  moreover have "bypass_read ?t r = bypass_read (h\<lparr>pm_mode := pm_mode s\<rparr>) r" if "r \<noteq> 15" for r
    using mode assms(2) that by (simp add: bypass_read_copy RB_direct_def copy_value_def split: option.split)
  ultimately show ?thesis by simp
qed

theorem exception_returns_witness:
  "\<exists>t. simulate 14 (return_insn 4) (service_interrupt EXCEPTION_DATA_ABORT (behavior_begin demo_arm)) = Some t \<and> ac_pc t = 0"
proof -
  let ?s = "behavior_begin demo_arm" and ?e = EXCEPTION_DATA_ABORT
  have r: "arm_run demo_arm ?s" "arm_run demo_arm (service_interrupt ?e ?s)"
    by (intro run_interrupt run_begin)+
  have k: "known_mode (pm_mode ?s)" "taken ?e ?s"
    by (simp_all add: known_mode_def behavior_begin_def taken_def)
  have n: "return_offset ?e = 4" by (simp add: return_offset_def)
  have sh: "shl_out (host (service_interrupt ?e ?s)) 32 (return_offset ?e) \<in> {0, return_offset ?e}"
    using service_interrupt_taken [OF arm_run_ok [OF r(1)] k(2)] by (simp add: behavior_begin_def demo_arm_def demo_host_def)
  show ?thesis
    using exception_returns [OF r(1) k _ r(2) refl refl refl sh] n by (auto simp: behavior_begin_def)
qed

lemma writeCPSR_shift [simp]: "dpi_shiftopcarry (writeCPSR v s) = dpi_shiftopcarry s"
  by (simp add: writeCPSR_def)

text \<open>C35: A return by \<open>MOVS pc, lr\<close> loses flags. Where \<open>lr\<close> holds the address to continue at, as after a
  software interrupt, it restores the address and the mode, but N and Z are those of the address and C is that
  of the handler, whatever the saved status says.\<close>

theorem movs_return_flags:
  assumes "pm_mode h = bank_mode b" "known_mode (spsr h b AND MODE_MASK)"
  shows "\<exists>t. simulate 14 (Dp (I_DPI1 Op_MOV True 0 15 0 0 14)) h = Some t \<and> ac_pc t = banked h b 14 \<and>
    pm_mode t = spsr h b AND MODE_MASK \<and>
    flag_N t = bit (banked h b 14) 31 \<and> flag_Z t = (banked h b 14 = 0) \<and> flag_C t = flag_C h"
proof -
  let ?g = "RB_direct (h\<lparr>ac_pc := ac_pc h + 4\<rparr>) 15 (ac_pc h + 4)"
  let ?f = "set_shiftop (banked h b 14) (flag_C h) ?g"
  let ?r = "set_NZC (banked h b 14) (writeCPSR (spsr h b) ?f)"
  have b: "behavior_instruction 14 h = Done ?g"
    using assms(1) by (simp add: behavior_instruction_def write_pc Let_def)
  have f: "Type_DPI1 0 0 14 ?g = ?f"
    using assms(1) by (simp add: Type_DPI1_def read_lr [of _ b] RB_direct_def)
  have m: "arm_MOV 15 True ?f = update_pc (bypass_write ?r 15 (banked h b 14))"
    using assms(1) by (simp add: arm_MOV_def Let_def user_or_system_def SPSRtoCPSR_def set_shiftop_def RB_direct_def set_NZC_def set_NZ_def)
  have "simulate 14 (Dp (I_DPI1 Op_MOV True 0 15 0 0 14)) h = Some (update_pc (bypass_write ?r 15 (banked h b 14)))"
    by (simp add: simulate_def b f m)
  then show ?thesis
    using assms(2) by (simp add: set_NZC_def set_NZ_def set_shiftop_def RB_direct_def)
qed

theorem movs_return_flags_witness:
  "\<exists>t. simulate 14 (Dp (I_DPI1 Op_MOV True 0 15 0 0 14))
      (service_interrupt EXCEPTION_SWI ((behavior_begin demo_arm)\<lparr>ac_pc := 0x80000000, flag_C := True\<rparr>)) = Some t \<and>
    ac_pc t = 0x80000000 \<and> flag_N t"
proof -
  let ?s = "(behavior_begin demo_arm)\<lparr>ac_pc := 0x80000000, flag_C := True\<rparr>"
  have s: "cpu_ok ?s" "taken EXCEPTION_SWI ?s" by (simp_all add: cpu_ok_begin taken_def)
  note entry = interrupt_entry [OF s]
  have m: "pm_mode (service_interrupt EXCEPTION_SWI ?s) = bank_mode Svc"
    using entry(1) by (simp add: exception_bank_def)
  have p: "spsr (service_interrupt EXCEPTION_SWI ?s) Svc = readCPSR ?s"
    and l: "banked (service_interrupt EXCEPTION_SWI ?s) Svc 14 = 0x80000000"
    using entry(2,5) by (simp_all add: exception_bank_def link_address_def)
  have k: "known_mode (spsr (service_interrupt EXCEPTION_SWI ?s) Svc AND MODE_MASK)"
    by (simp add: p CPSR_mode [OF s(1)]) (simp add: behavior_begin_def known_mode_def)
  have "bit (0x80000000 :: u32) 31" by (simp add: bit_iff_odd drop_bit_eq_div)
  then show ?thesis using movs_return_flags [OF m k] by (auto simp: l)
qed



end
