(* ===== verification/ArmDataCorrect.thy ===== *)
theory ArmDataCorrect
  imports ArmException
begin

text \<open>
  The data processing instructions against the architecture: the addition with carry, the shifter, and one
  step of the abstract machine that the manual describes. The cases in which the flags of the simulator
  are others are named exactly.
\<close>

subsection \<open>The reference\<close>

text \<open>The functions of the architecture manual, on the integers that the words stand for.\<close>

definition AddWithCarry :: "u32 \<Rightarrow> u32 \<Rightarrow> bool \<Rightarrow> u32 \<times> bool \<times> bool" where
  "AddWithCarry x y c =
     (let usum = uint x + uint y + of_bool c;
          ssum = sint x + sint y + of_bool c;
          r = word_of_int usum
      in (r, uint r \<noteq> usum, sint r \<noteq> ssum))"

definition LSL_C :: "u32 \<Rightarrow> nat \<Rightarrow> u32 \<times> bool" where
  "LSL_C x n = (push_bit n x, bit (push_bit n (uint x)) 32)"

definition LSR_C :: "u32 \<Rightarrow> nat \<Rightarrow> u32 \<times> bool" where
  "LSR_C x n = (drop_bit n x, bit (uint x) (n - 1))"

definition ASR_C :: "u32 \<Rightarrow> nat \<Rightarrow> u32 \<times> bool" where
  "ASR_C x n = (word_of_int (drop_bit n (sint x)), bit (sint x) (n - 1))"

definition ROR_C :: "u32 \<Rightarrow> nat \<Rightarrow> u32 \<times> bool" where
  "ROR_C x n = (let r = word_rotr n x in (r, bit r 31))"

definition RRX_C :: "u32 \<Rightarrow> bool \<Rightarrow> u32 \<times> bool" where
  "RRX_C x c = ((if c then set_bit 31 (drop_bit 1 x) else drop_bit 1 x), bit x 0)"

text \<open>A shift by 0 places leaves the word and the carry; type 4 is the rotation through the carry.\<close>

definition Shift_C :: "u32 \<Rightarrow> nat \<Rightarrow> nat \<Rightarrow> bool \<Rightarrow> u32 \<times> bool" where
  "Shift_C x type amount c =
     (if amount = 0 then (x, c)
      else if type = 0 then LSL_C x amount else if type = 1 then LSR_C x amount
      else if type = 2 then ASR_C x amount else if type = 3 then ROR_C x amount else RRX_C x c)"

definition DecodeImmShift :: "nat \<Rightarrow> nat \<Rightarrow> nat \<times> nat" where
  "DecodeImmShift type imm5 =
     (if type = 0 then (0, imm5) else if type = 3 \<and> imm5 = 0 then (4, 1)
      else (type, if imm5 = 0 then 32 else imm5))"

text \<open>Bits 3 to 1 of the condition choose a test, bit 0 inverts it.\<close>

definition ConditionPassed :: "nat \<Rightarrow> bool \<Rightarrow> bool \<Rightarrow> bool \<Rightarrow> bool \<Rightarrow> bool" where
  "ConditionPassed cond n z c v =
     (let r = [z, c, n, v, c \<and> \<not> z, n = v, n = v \<and> \<not> z, True] ! (cond div 2)
      in if odd cond \<and> cond \<noteq> 15 then \<not> r else r)"

subsection \<open>Words as integers\<close>

lemma bit_31: "bit (w :: u32) 31 \<longleftrightarrow> sint w < 0"
  using bit_last_iff [of w] by simp

lemma sint_bounds: "- 2147483648 \<le> sint (w :: u32)" "sint (w :: u32) < 2147483648"
  using sint_ge [of w] sint_lt [of w] by simp_all

lemma sint_word_of_int:
  obtains k where "sint (word_of_int i :: u32) = i + k * 4294967296"
proof -
  have "sint (word_of_int i :: u32) mod 2 ^ 32 = i mod 2 ^ 32"
    using uint_sint [of "word_of_int i :: u32"] by (simp add: uint_word_of_int take_bit_eq_mod)
  then obtain k where "sint (word_of_int i :: u32) = i + 2 ^ 32 * k"
    by (auto simp: mod_eq_dvd_iff dvd_def algebra_simps)
  then show thesis using that [of k] by (simp add: mult.commute)
qed

lemma sint_sum_cases:
  fixes r :: u32 and i :: int
  assumes "r = word_of_int i"
  shows "\<exists>k. sint r = i + k * 4294967296"
  using sint_word_of_int [of i] assms by metis

lemma sign_rule:
  fixes A B R C k :: int
  assumes "R = A + B + C + k * 4294967296" "C = 0 \<or> C = 1" "- 2147483648 \<le> A" "A < 2147483648"
    "- 2147483648 \<le> B" "B < 2147483648" "- 2147483648 \<le> R" "R < 2147483648"
  shows "(A < 0 \<and> B < 0 \<and> \<not> R < 0 \<or> \<not> A < 0 \<and> \<not> B < 0 \<and> R < 0) \<longleftrightarrow> R \<noteq> A + B + C"
proof -
  have "k \<le> 1" "- 1 \<le> k" using assms by linarith+
  then consider "k = 0" | "k = 1" | "k = - 1" by linarith
  then show ?thesis using assms by cases auto
qed

lemma overflow_exact:
  fixes r :: u32
  assumes r: "r = word_of_int (sint a + sint b + of_bool c)"
  shows "sign_overflow a b r \<longleftrightarrow> sint r \<noteq> sint a + sint b + of_bool c"
proof -
  obtain k where k: "sint r = sint a + sint b + of_bool c + k * 4294967296"
    using sint_sum_cases [OF r] by auto
  show ?thesis
    unfolding sign_overflow_def bit_31
    by (rule sign_rule [OF k]) (simp_all add: sint_bounds of_bool_def)
qed

lemma word_sum: "word_of_int (sint a + sint b + of_bool c) = (a :: u32) + b + of_bool c"
  "word_of_int (uint a + uint b + of_bool c) = (a :: u32) + b + of_bool c"
  by simp_all

lemma wrapped_iff: "0 \<le> (i :: int) \<Longrightarrow> i mod 2 ^ 32 \<noteq> i \<longleftrightarrow> 2 ^ 32 \<le> i"
  using pos_mod_bound [of "2 ^ 32" i] by (cases "i < 2 ^ 32") simp_all

lemma AddWithCarry_alt:
  "AddWithCarry x y c =
     (x + y + of_bool c, 2 ^ 32 \<le> unat x + unat y + of_bool c, sign_overflow x y (x + y + of_bool c))"
proof -
  let ?r = "x + y + of_bool c"
  have "sign_overflow x y ?r \<longleftrightarrow> sint ?r \<noteq> sint x + sint y + of_bool c"
    by (rule overflow_exact) simp
  moreover have "uint ?r \<noteq> uint x + uint y + of_bool c \<longleftrightarrow> 2 ^ 32 \<le> unat x + unat y + of_bool c"
  proof -
    have u: "uint ?r = (uint x + uint y + of_bool c) mod 2 ^ 32"
      using uint_word_of_int [of "uint x + uint y + of_bool c", where 'a = 32] by (simp add: take_bit_eq_mod)
    have "0 \<le> uint x + uint y + of_bool c" by simp
    then have "uint ?r \<noteq> uint x + uint y + of_bool c \<longleftrightarrow> 2 ^ 32 \<le> uint x + uint y + of_bool c"
      unfolding u by (rule wrapped_iff)
    also have "\<dots> \<longleftrightarrow> int (2 ^ 32) \<le> int (unat x + unat y + of_bool c)" by simp
    finally show ?thesis by (simp only: of_nat_le_iff)
  qed
  ultimately show ?thesis by (simp add: AddWithCarry_def Let_def)
qed

subsection \<open>The shifter\<close>

lemma rotate_right:
  assumes "0 < n" "n < 32"
  shows "RotateRight h n w = word_rotr n w"
proof (rule bit_word_eqI)
  fix k assume "k < LENGTH(32)"
  then have k: "k < 32" by simp
  have "\<not> bit w (k + n)" if "32 \<le> k + n" using that by (auto dest: bit_imp_le_length)
  moreover have "(k + n) mod 32 = (if k + n < 32 then k + n else k + n - 32)"
    using k assms by (simp add: mod_if)
  ultimately show "bit (RotateRight h n w) k = bit (word_rotr n w) k"
    using k assms by (auto simp: RotateRight_def host_shl_def bit_simps add.commute dest: bit_imp_le_length)
qed

lemma LSL_carry: "bit (push_bit n (uint x)) 32 \<longleftrightarrow> n \<le> 32 \<and> bit (x :: u32) (32 - n)"
  by (auto simp: bit_push_bit_iff bit_uint_iff dest: bit_imp_le_length)

lemma ASR_word: "word_of_int (drop_bit n (sint x)) = signed_drop_bit n (x :: u32)"
  by (rule bit_word_eqI) (simp add: bit_simps)

lemma uint_carry: "bit (uint (x :: u32)) n \<longleftrightarrow> bit x n"
  by (simp add: bit_uint_iff) (auto dest: bit_imp_le_length)

lemma sint_carry:
  "k < 32 \<Longrightarrow> bit (sint (x :: u32)) k \<longleftrightarrow> bit x k" "32 \<le> k \<Longrightarrow> bit (sint (x :: u32)) k \<longleftrightarrow> bit x 31"
  by (auto simp: bit_sint_iff min_def dest: bit_imp_le_length)

lemma signed_drop_all:
  assumes "32 \<le> n"
  shows "signed_drop_bit n (x :: u32) = (if bit x 31 then 0xFFFFFFFF else 0)"
proof -
  have m: "(0xFFFFFFFF :: u32) = - 1" by simp
  show ?thesis
    using assms unfolding m by (intro bit_word_eqI) (auto simp: bit_simps min_def)
qed

lemma drop_all: "32 \<le> n \<Longrightarrow> drop_bit n (x :: u32) = 0" "32 \<le> n \<Longrightarrow> push_bit n (x :: u32) = 0"
  by (rule bit_word_eqI; auto simp: bit_simps dest: bit_imp_le_length)+

lemma rotr_carry:
  assumes "0 < n" "n < 32"
  shows "bit (word_rotr n (x :: u32)) 31 \<longleftrightarrow> bit x (n - 1)"
proof -
  have "(31 + n) mod 32 = n - 1" using assms by (simp add: mod_if)
  then show ?thesis by (simp add: bit_word_rotr_iff add.commute)
qed

definition shift_operand :: "nat \<Rightarrow> 'm arm \<Rightarrow> u32" where
  "shift_operand rm s = (if rm = 15 then bypass_read s rm + 4 else bypass_read s rm)"

lemma nat_less_4: "(n :: nat) < 4 \<Longrightarrow> n = 0 \<or> n = 1 \<or> n = 2 \<or> n = 3" by auto

lemma immediate_shift:
  assumes "amount < 32" "type < 4"
  shows "Type_DPI1 amount type rm s =
    (case DecodeImmShift type amount of (ty, n) \<Rightarrow> case Shift_C (shift_operand rm s) ty n (flag_C s) of (v, c) \<Rightarrow> set_shiftop v c s)"
  using assms(1) nat_less_4 [OF assms(2)]
  by (elim disjE; cases "amount = 0")
    (simp_all add: Type_DPI1_def Let_def DecodeImmShift_def Shift_C_def LSL_C_def LSR_C_def ASR_C_def ROR_C_def RRX_C_def
      shift_operand_def rotate_right rotr_carry LSL_carry ASR_word uint_carry sint_carry signed_drop_all drop_all)

definition shift_amount :: "nat \<Rightarrow> 'm arm \<Rightarrow> nat" where
  "shift_amount rs s = unat (bypass_read s rs) mod 256"

lemma rotr_0: "word_rotr 0 x = (x :: u32)"
  by (rule bit_word_eqI) (simp add: bit_word_rotr_iff)

lemma byte_values:
  "sint (b :: u8) = 0 \<longleftrightarrow> unat b = 0" "sint (b :: u8) = 32 \<longleftrightarrow> unat b = 32"
proof -
  have e: "sint b = sint c \<longleftrightarrow> unat b = unat c" for c :: u8
    using word_eq_iff_signed [of b c] word_eq_iff_unsigned [of b c, where 'a = nat] by blast
  show "sint b = 0 \<longleftrightarrow> unat b = 0" "sint b = 32 \<longleftrightarrow> unat b = 32"
    using e [of 0] e [of 32] by simp_all
qed

lemma beyond: "32 \<le> k \<Longrightarrow> \<not> bit (x :: u32) k"
  by (auto dest: bit_imp_le_length)

text \<open>C29: A shift by a register. For every amount of the low byte, also from 32 to 255, the operand and
  the carry of the shifter are those of the architecture, if the shift is not a rotation; a rotation
  by an amount that is not 0 rotates by its value modulo 16, where the architecture has it modulo 32.\<close>

theorem register_shift:
  assumes "rd \<noteq> 15" "rm \<noteq> 15" "rn \<noteq> 15" "rs \<noteq> 15" "type < 4"
  shows "Type_DPI2 rn rd rs type rm s =
    (let n = shift_amount rs s;
         (v, c) = (if type = 3 \<and> n \<noteq> 0 then ROR_C (bypass_read s rm) (n mod 16) else Shift_C (bypass_read s rm) type n (flag_C s))
     in Done (set_shiftop v c s))"
proof -
  define w where "w = bypass_read s rs"
  define n where "n = unat w mod 256"
  have ub: "unat (ucast w :: u8) = n"
    by (simp add: n_def unsigned_ucast_eq take_bit_eq_mod)
  have s0: "sint (ucast w :: u8) = 0 \<longleftrightarrow> n = 0"
    using byte_values(1) [of "ucast w"] by (simp only: ub)
  have s32: "sint (ucast w :: u8) = 32 \<longleftrightarrow> n = 32"
    using byte_values(2) [of "ucast w"] by (simp only: ub)
  have "w AND 15 = take_bit 4 w"
    by (simp add: take_bit_eq_mask mask_eq_exp_minus_1)
  then have r: "unat (w AND 15) = n mod 16"
    by (simp only: unsigned_take_bit_eq) (simp add: take_bit_eq_mod n_def mod_mod_cancel)
  have amt: "shift_amount rs s = n" by (simp add: shift_amount_def n_def w_def)
  let ?x = "bypass_read s rm"
  note src = Type_DPI2_def w_def [symmetric] ub s0 s32 r Let_def Shift_C_def
  have rot: "Type_DPI2 rn rd rs 3 rm s = Done (set_shiftop (fst (ROR_C ?x (n mod 16))) (snd (ROR_C ?x (n mod 16))) s)"
    if "n \<noteq> 0"
    using that assms(1-4) by (cases "n mod 16 = 0") (simp_all add: src ROR_C_def rotate_right rotr_carry rotr_0)
  consider (zero) "n = 0" | (less) "0 < n" "n < 32" | (eq) "n = 32" | (more) "32 < n" by linarith
  then have other: "Type_DPI2 rn rd rs ty rm s =
      Done (set_shiftop (fst (Shift_C ?x ty n (flag_C s))) (snd (Shift_C ?x ty n (flag_C s))) s)"
    if "ty = 0 \<or> ty = 1 \<or> ty = 2 \<or> n = 0 \<and> ty = 3" for ty
  proof cases
    case zero
    then show ?thesis using assms(1-4) by (simp add: src)
  next
    case less
    then show ?thesis using that assms(1-4)
      by (auto simp: src LSL_C_def LSR_C_def ASR_C_def LSL_carry ASR_word uint_carry sint_carry(1))
  next
    case eq
    then show ?thesis using that assms(1-4)
      by (auto simp: src LSL_C_def LSR_C_def ASR_C_def LSL_carry ASR_word uint_carry sint_carry(1) signed_drop_all drop_all)
  next
    case more
    then have m: "32 \<le> n" "32 \<le> n - 1" "n \<noteq> 0" "\<not> n \<le> 32" "\<not> n < 32" "n \<noteq> 32" by simp_all
    note high = beyond [OF m(2)] sint_carry(2) [OF m(2)] drop_all [OF m(1)] signed_drop_all [OF m(1)]
    show ?thesis using that assms(1-4)
      by (elim disjE) (simp_all add: src m(3-6) LSL_C_def LSR_C_def ASR_C_def LSL_carry ASR_word uint_carry high [simplified])
  qed
  show ?thesis
  proof (cases "type = 3 \<and> n \<noteq> 0")
    case True
    then show ?thesis using rot by (simp add: amt Let_def case_prod_beta)
  next
    case False
    then have "type = 0 \<or> type = 1 \<or> type = 2 \<or> n = 0 \<and> type = 3" using assms(5) by auto
    from other [OF this] show ?thesis
      using False by (simp only: amt Let_def if_False case_prod_beta)
  qed
qed

theorem register_shift_witness:
  "Type_DPI2 0 0 1 3 2 (demo_arm\<lparr>regbank := (\<lambda>r. if r = 1 then 17 else 0x80000001)\<rparr>) =
    Done (set_shiftop 0xC0000000 True (demo_arm\<lparr>regbank := (\<lambda>r. if r = 1 then 17 else 0x80000001)\<rparr>))"
proof -
  let ?s = "demo_arm\<lparr>regbank := (\<lambda>r. if r = 1 then 17 else 0x80000001)\<rparr>"
  have r: "bypass_read ?s 1 = 17" "bypass_read ?s 2 = 0x80000001"
    by (simp_all add: bypass_read_def user_or_system_def demo_arm_def)
  have "word_rotr 1 (0x80000001 :: u32) = 0xC0000000" "bit (0xC0000000 :: u32) 31"
    by (code_simp, code_simp)
  then have c: "ROR_C (bypass_read ?s 2) (shift_amount 1 ?s mod 16) = (0xC0000000, True)" "shift_amount 1 ?s \<noteq> 0"
    by (simp_all only: r shift_amount_def ROR_C_def Let_def) simp_all
  have "Type_DPI2 0 0 1 3 2 ?s = (let n = shift_amount 1 ?s;
         (v, c) = (if (3 :: nat) = 3 \<and> n \<noteq> 0 then ROR_C (bypass_read ?s 2) (n mod 16) else Shift_C (bypass_read ?s 2) 3 n (flag_C ?s))
     in Done (set_shiftop v c ?s))"
    by (rule register_shift) simp_all
  then show ?thesis by (simp only: Let_def c) simp
qed

subsection \<open>The operations\<close>

text \<open>What the manual gives for an operation: the result, the carry and the overflow flag.\<close>

definition alu :: "dp_op \<Rightarrow> u32 \<Rightarrow> u32 \<Rightarrow> bool \<Rightarrow> bool \<Rightarrow> bool \<Rightarrow> u32 \<times> bool \<times> bool" where
  "alu op x y sc c v =
     (case op of
        Op_AND \<Rightarrow> (x AND y, sc, v) | Op_TST \<Rightarrow> (x AND y, sc, v) | Op_EOR \<Rightarrow> (x XOR y, sc, v) | Op_TEQ \<Rightarrow> (x XOR y, sc, v)
      | Op_ORR \<Rightarrow> (x OR y, sc, v) | Op_BIC \<Rightarrow> (x AND NOT y, sc, v) | Op_MOV \<Rightarrow> (y, sc, v) | Op_MVN \<Rightarrow> (NOT y, sc, v)
      | Op_ADD \<Rightarrow> AddWithCarry x y False | Op_CMN \<Rightarrow> AddWithCarry x y False | Op_ADC \<Rightarrow> AddWithCarry x y c
      | Op_SUB \<Rightarrow> AddWithCarry x (NOT y) True | Op_CMP \<Rightarrow> AddWithCarry x (NOT y) True
      | Op_SBC \<Rightarrow> AddWithCarry x (NOT y) c
      | Op_RSB \<Rightarrow> AddWithCarry (NOT x) y True | Op_RSC \<Rightarrow> AddWithCarry (NOT x) y c)"

definition compares :: "dp_op \<Rightarrow> bool" where
  "compares op \<longleftrightarrow> op \<in> {Op_TST, Op_TEQ, Op_CMP, Op_CMN}"

text \<open>Where the simulator has another flag.\<close>

definition overflow_wrong :: "dp_op \<Rightarrow> u32 \<Rightarrow> u32 \<Rightarrow> bool \<Rightarrow> bool" where
  "overflow_wrong op x y c \<longleftrightarrow>
     (op \<in> {Op_SUB, Op_CMP} \<or> op = Op_SBC \<and> c) \<and> y = 0x80000000 \<or>
     (op = Op_RSB \<or> op = Op_RSC \<and> c) \<and> x = 0x80000000"

definition carry_wrong :: "dp_op \<Rightarrow> u32 \<Rightarrow> u32 \<Rightarrow> bool \<Rightarrow> bool" where
  "carry_wrong op x y c \<longleftrightarrow> op \<in> {Op_SBC, Op_RSC} \<and> \<not> c \<and> x = y"

lemma sint_negated: "sint (- (y :: u32)) = (if y = 0x80000000 then sint y else - sint y)"
proof -
  obtain k where k: "sint (- y) = - sint y + k * 4294967296"
    using sint_sum_cases [of "- y" "- sint y"] by auto
  have "sint y = - 2147483648 \<longleftrightarrow> y = 0x80000000"
    using word_eq_iff_signed [of y "0x80000000", where 'a = int] by simp
  then show ?thesis using k sint_bounds [of y] sint_bounds [of "- y"] by auto
qed

lemma subtract_overflow:
  "sign_overflow x (- y) (x - y) \<longleftrightarrow> (snd (snd (AddWithCarry x (NOT y) True)) \<longleftrightarrow> y \<noteq> 0x80000000)"
proof -
  have r: "x - y = word_of_int (sint x + sint (- y) + of_bool False)" by simp
  obtain j where "sint (NOT y) = - sint y - 1 + j * 4294967296"
    using sint_sum_cases [of "NOT y" "- sint y - 1"] by (auto simp: not_eq_complement)
  then have n: "sint (NOT y) = - sint y - 1"
    using sint_bounds [of y] sint_bounds [of "NOT y"] by auto
  have e: "x + NOT y + 1 = x - y" by (simp add: not_eq_complement)
  have "snd (snd (AddWithCarry x (NOT y) True)) \<longleftrightarrow> sint (x + NOT y + 1) \<noteq> sint x + sint (NOT y) + 1"
    by (simp add: AddWithCarry_def Let_def)
  then have ref: "snd (snd (AddWithCarry x (NOT y) True)) \<longleftrightarrow> sint (x - y) \<noteq> sint x - sint y"
    unfolding e n by simp
  obtain k where k: "sint (x - y) = sint x - sint y + k * 4294967296"
    using sint_sum_cases [of "x - y" "sint x - sint y"] by auto
  show ?thesis
  proof (cases "y = 0x80000000")
    case False
    then show ?thesis unfolding overflow_exact [OF r] ref by (simp add: sint_negated)
  next
    case True
    then have y: "sint y = - 2147483648" "sint (- y) = - 2147483648" by simp_all
    have "k = 0 \<or> k = - 1"
      using k sint_bounds [of x] sint_bounds [of "x - y"] unfolding y by linarith
    then show ?thesis
      unfolding overflow_exact [OF r] ref using True k unfolding y by auto
  qed
qed

lemma subtract_carry:
  "2 ^ 32 \<le> unat x + unat (NOT (y :: u32)) + of_bool c \<longleftrightarrow> (if c then \<not> x < y else y < x)"
proof -
  have "unat (- 1 - y) = unat (- 1 :: u32) - unat y" by (rule unat_sub) simp
  moreover have "unat (- 1 :: u32) = 2 ^ 32 - 1"
    by (simp add: unsigned_minus_1_eq_mask mask_eq_exp_minus_1)
  moreover have "unat y < 2 ^ 32" using unsigned_less [of y, where 'a = nat] by simp
  moreover have "NOT y = - 1 - y" by (simp add: not_eq_complement)
  ultimately have "unat (NOT y) + unat y + 1 = 2 ^ 32" by presburger
  then show ?thesis by (auto simp: word_less_nat_alt)
qed

lemma minus_one: "- y - 1 = NOT (y :: u32)"
  by (simp add: not_eq_complement)

lemma subtracted: "x + NOT y + of_bool c = (if c then x - y else x + (- y - 1 :: u32))"
  by (simp add: not_eq_complement)

lemma high_word_carry: "drop_bit 32 (w :: u64) \<noteq> 0 \<longleftrightarrow> 2 ^ 32 \<le> unat w"
proof -
  have "drop_bit 32 w = 0 \<longleftrightarrow> unat w div 2 ^ 32 = 0"
    by (simp add: drop_bit_eq_div word_eq_iff_unsigned [where 'a = nat] unat_div)
  then show ?thesis by (auto simp: div_eq_0_iff)
qed

lemma unat_soma_carry: "unat (soma x y + of_bool c) = unat x + unat y + of_bool c"
proof -
  have "unat x + unat y + 1 < 2 ^ 64"
    using unsigned_less [of x, where 'a = nat] unsigned_less [of y, where 'a = nat] by simp
  then have "unat (soma x y) + unat (of_bool c :: u64) < 2 ^ LENGTH(64)" by (simp add: unat_soma)
  then have "unat (soma x y + of_bool c) = unat (soma x y) + unat (of_bool c :: u64)"
    by (rule unat_add_lem [THEN iffD1])
  then show ?thesis by (simp add: unat_soma)
qed

lemma add_carry:
  "drop_bit 32 (soma x y + of_bool c) \<noteq> 0 \<longleftrightarrow> 2 ^ 32 \<le> unat x + unat y + of_bool c"
  "drop_bit 32 (soma x y) \<noteq> 0 \<longleftrightarrow> 2 ^ 32 \<le> unat x + unat y"
  unfolding high_word_carry by (simp_all add: unat_soma_carry unat_soma)

text \<open>The flags of the simulator for a subtraction \<open>x - y\<close> with and without carry.\<close>

definition flags_eq :: "'m arm \<Rightarrow> bool \<Rightarrow> bool \<Rightarrow> bool \<Rightarrow> bool \<Rightarrow> bool" where
  "flags_eq t n z c v \<longleftrightarrow> flag_N t = n \<and> flag_Z t = z \<and> flag_C t = c \<and> flag_V t = v"

lemma alu_subtract:
  "AddWithCarry x (NOT y) c =
    (x + (- y - of_bool (\<not> c)), if c then \<not> x < y else y < x,
     sign_overflow x (- y - of_bool (\<not> c)) (x + (- y - of_bool (\<not> c))) \<longleftrightarrow> \<not> (c \<and> y = 0x80000000))"
proof (cases c)
  case True
  have "AddWithCarry x (NOT y) True = (x - y, \<not> x < y, snd (snd (AddWithCarry x (NOT y) True)))"
    using subtract_carry [of x y True] by (simp add: AddWithCarry_alt not_eq_complement)
  then show ?thesis using True subtract_overflow [of x y] by auto
next
  case False
  then show ?thesis
    using subtract_carry [of x y False] by (simp add: AddWithCarry_alt minus_one)
qed

lemma AddWithCarry_swap: "AddWithCarry x y c = AddWithCarry y x c"
  by (simp add: AddWithCarry_def add.commute)

lemma sign_overflow_swap: "sign_overflow a b r = sign_overflow b a r"
  by (auto simp: sign_overflow_def)

definition dp_flags :: "dp_op \<Rightarrow> u32 \<Rightarrow> 'm arm \<Rightarrow> 'm arm \<Rightarrow> bool" where
  "dp_flags op x s t \<longleftrightarrow>
     (let y = dpi_shiftop s;
          (r, c, v) = alu op x y (dpi_shiftopcarry s) (flag_C s) (flag_V s)
      in flag_N t = bit r 31 \<and> flag_Z t = (r = 0) \<and>
         (flag_C t = c \<longleftrightarrow> \<not> carry_wrong op x y (flag_C s)) \<and> (flag_V t = v \<longleftrightarrow> \<not> overflow_wrong op x y (flag_C s)))"

lemma set_flags_fields [simp]:
  "flag_N (set_NZCV r c v s) = bit r 31" "flag_Z (set_NZCV r c v s) = (r = 0)"
  "flag_C (set_NZCV r c v s) = c" "flag_V (set_NZCV r c v s) = v"
  "flag_N (set_NZC r s) = bit r 31" "flag_Z (set_NZC r s) = (r = 0)"
  "flag_C (set_NZC r s) = dpi_shiftopcarry s" "flag_V (set_NZC r s) = flag_V s"
  "bypass_read (set_NZCV r c v s) k = bypass_read s k" "bypass_read (set_NZC r s) k = bypass_read s k"
  "pm_mode (set_NZCV r c v s) = pm_mode s" "pm_mode (set_NZC r s) = pm_mode s"
  "host (set_NZCV r c v s) = host s" "host (set_NZC r s) = host s"
  "dpi_shiftop (set_NZC r s) = dpi_shiftop s"
  by (simp_all add: set_NZCV_def set_NZC_def set_NZ_def)

lemma alu_reverse:
  "AddWithCarry (NOT x) y c =
    (y + (- x - of_bool (\<not> c)), if c then \<not> y < x else x < y,
     sign_overflow (- x - of_bool (\<not> c)) y (y + (- x - of_bool (\<not> c))) \<longleftrightarrow> \<not> (c \<and> x = 0x80000000))"
  using alu_subtract [of y x c] by (simp only: AddWithCarry_swap [of "NOT x" y] sign_overflow_swap [of "- x - of_bool (\<not> c)" y])

lemma soma_carry: "ucast (soma a b + 1) = a + b + (1 :: u32)"
proof -
  have "ucast (soma a b + of_bool True) = (of_nat (unat (soma a b + of_bool True)) :: u32)" by simp
  then show ?thesis by (simp only: unat_soma_carry of_nat_add) simp
qed

lemma logic_flags:
  assumes "known_mode (pm_mode s)" "rd \<noteq> 15" "rn \<noteq> 15" "sf \<or> compares op"
    "op \<in> {Op_AND, Op_TST, Op_EOR, Op_TEQ, Op_ORR, Op_BIC, Op_MOV, Op_MVN}"
  shows "dp_flags op (bypass_read s rn) s (dp_behavior op rd rn sf s)"
  using assms
  by (cases op)
    (simp_all add: dp_flags_def alu_def compares_def carry_wrong_def overflow_wrong_def Let_def write_result_def
      arm_AND_def arm_EOR_def arm_ORR_def arm_BIC_def arm_MVN_def arm_MOV_def arm_TST_def arm_TEQ_def)

lemma addition_flags:
  assumes "known_mode (pm_mode s)" "rd \<noteq> 15" "rn \<noteq> 15" "sf \<or> compares op" "op \<in> {Op_ADD, Op_CMN, Op_ADC}"
  shows "dp_flags op (bypass_read s rn) s (dp_behavior op rd rn sf s)"
  using assms
  by (cases op)
    (simp_all add: dp_flags_def alu_def compares_def carry_wrong_def overflow_wrong_def Let_def write_result_def
      arm_ADD_def arm_ADC_def arm_CMN_def first_operand_def AddWithCarry_alt add_carry soma_carry
      add_carry(1) [of _ _ True, simplified])

lemma subtraction_flags:
  assumes "known_mode (pm_mode s)" "rd \<noteq> 15" "rn \<noteq> 15" "sf \<or> compares op" "op \<in> {Op_SUB, Op_CMP, Op_SBC, Op_RSB, Op_RSC}"
  shows "dp_flags op (bypass_read s rn) s (dp_behavior op rd rn sf s)"
  using assms
  by (cases op; cases "flag_C s")
    (auto simp: dp_flags_def alu_def compares_def carry_wrong_def overflow_wrong_def Let_def write_result_def
      arm_CMP_def arm_SUB_def arm_SBC_def arm_RSB_def arm_RSC_def first_operand_def alu_subtract alu_reverse not_less)

lemma dp_flags_all:
  assumes "known_mode (pm_mode s)" "rd \<noteq> 15" "rn \<noteq> 15" "sf \<or> compares op"
  shows "dp_flags op (bypass_read s rn) s (dp_behavior op rd rn sf s)"
  by (cases op) (rule logic_flags [OF assms] addition_flags [OF assms] subtraction_flags [OF assms]; simp)+

lemma AddWithCarry_sum: "fst (AddWithCarry x y c) = x + y + of_bool c"
  by (simp add: AddWithCarry_alt)

lemma complement_sums:
  fixes x y :: u32
  shows "x + NOT y + of_bool c = x - y - of_bool (\<not> c)" "NOT x + y + of_bool c = y - x - of_bool (\<not> c)"
    "x + NOT y + 1 = x - y" "NOT x + y + 1 = y - x"
proof -
  have n: "NOT z = - 1 - z" for z :: u32 by (simp add: not_eq_complement)
  show "x + NOT y + 1 = x - y" "NOT x + y + 1 = y - x" unfolding n by simp_all
  show "x + NOT y + of_bool c = x - y - of_bool (\<not> c)" "NOT x + y + of_bool c = y - x - of_bool (\<not> c)"
    unfolding n by (cases c; simp)+
qed

lemma alu_result:
  "fst (alu Op_ADD x y sc c v) = x + y" "fst (alu Op_ADC x y sc c v) = x + y + of_bool c"
  "fst (alu Op_SUB x y sc c v) = x - y" "fst (alu Op_SBC x y sc c v) = x - y - of_bool (\<not> c)"
  "fst (alu Op_RSB x y sc c v) = y - x" "fst (alu Op_RSC x y sc c v) = y - x - of_bool (\<not> c)"
  "fst (alu Op_AND x y sc c v) = x AND y" "fst (alu Op_EOR x y sc c v) = x XOR y" "fst (alu Op_ORR x y sc c v) = x OR y"
  "fst (alu Op_BIC x y sc c v) = x AND NOT y" "fst (alu Op_MOV x y sc c v) = y" "fst (alu Op_MVN x y sc c v) = NOT y"
  by (simp_all add: alu_def AddWithCarry_sum complement_sums)

lemma dp_registers:
  assumes "known_mode (pm_mode s)" "rd \<noteq> 15" "rn \<noteq> 15"
  shows "bypass_read (dp_behavior op rd rn sf s) k =
      (if k = rd \<and> \<not> compares op then fst (alu op (bypass_read s rn) (dpi_shiftop s) sc (flag_C s) v) else bypass_read s k)"
    "ac_pc (dp_behavior op rd rn sf s) = bypass_read s 15"
    "\<not> sf \<Longrightarrow> \<not> compares op \<Longrightarrow> flag_N (dp_behavior op rd rn sf s) = flag_N s \<and> flag_Z (dp_behavior op rd rn sf s) = flag_Z s \<and>
      flag_C (dp_behavior op rd rn sf s) = flag_C s \<and> flag_V (dp_behavior op rd rn sf s) = flag_V s"
  subgoal
    using assms by (cases op) (simp_all add: alu_result compares_def write_result_def Let_def arm_AND_def arm_EOR_def arm_ORR_def
      arm_BIC_def arm_MVN_def arm_MOV_def arm_TST_def arm_TEQ_def arm_ADD_def arm_ADC_def arm_CMN_def
      arm_CMP_def arm_SUB_def arm_SBC_def arm_RSB_def arm_RSC_def first_operand_def soma_carry)
  subgoal
    using assms by (cases op) (simp_all add: write_result_def Let_def arm_AND_def arm_EOR_def arm_ORR_def
      arm_BIC_def arm_MVN_def arm_MOV_def arm_TST_def arm_TEQ_def arm_ADD_def arm_ADC_def arm_CMN_def
      arm_CMP_def arm_SUB_def arm_SBC_def arm_RSB_def arm_RSC_def)
  subgoal
    using assms by (cases op) (simp_all add: compares_def write_result_def Let_def arm_AND_def arm_EOR_def arm_ORR_def
      arm_BIC_def arm_MVN_def arm_MOV_def arm_ADD_def arm_ADC_def arm_SUB_def arm_SBC_def arm_RSB_def arm_RSC_def)
  done

lemma data_processing_step:
  assumes "known_mode (pm_mode s)" "rd \<noteq> 15" "rn \<noteq> 15"
  shows "let x = bypass_read s rn; y = dpi_shiftop s; t = dp_behavior op rd rn sf s;
      (r, c, v) = alu op x y (dpi_shiftopcarry s) (flag_C s) (flag_V s) in
    (\<forall>k. bypass_read t k = (if k = rd \<and> \<not> compares op then r else bypass_read s k)) \<and>
    (if sf \<or> compares op
     then flag_N t = bit r 31 \<and> flag_Z t = (r = 0) \<and>
       (flag_C t = c \<longleftrightarrow> \<not> carry_wrong op x y (flag_C s)) \<and> (flag_V t = v \<longleftrightarrow> \<not> overflow_wrong op x y (flag_C s))
     else flag_N t = flag_N s \<and> flag_Z t = flag_Z s \<and> flag_C t = flag_C s \<and> flag_V t = flag_V s)"
  using dp_registers(1) [OF assms, where op = op and sf = sf and sc = "dpi_shiftopcarry s" and v = "flag_V s"]
    dp_registers(3) [OF assms, where op = op and sf = sf] dp_flags_all [OF assms, where op = op and sf = sf]
  unfolding dp_flags_def Let_def case_prod_beta by auto

text \<open>C10: The data processing instructions. For all sixteen operations, with or without \<open>s\<close>, in any known
  mode, the destination gets the result of the manual, no other register changes, and the flags N, Z, C and V
  become those of the manual exactly when the case is not one of: V of a subtraction whose subtrahend is
  \<open>0x80000000\<close> and that has no borrow to add, which is always wrong, and C of \<open>SBC\<close> and \<open>RSC\<close> with a borrow and equal
  operands, which is always wrong. Without \<open>s\<close>, and with no comparison, the flags stay.\<close>

theorem data_processing_exact:
  assumes "known_mode (pm_mode s)" "rd \<noteq> 15" "rn \<noteq> 15"
  shows "let x = bypass_read s rn; y = dpi_shiftop s; t = dp_behavior op rd rn sf s;
      (r, c, v) = alu op x y (dpi_shiftopcarry s) (flag_C s) (flag_V s) in
    (\<forall>k. bypass_read t k = (if k = rd \<and> \<not> compares op then r else bypass_read s k)) \<and>
    (if sf \<or> compares op
     then flag_N t = bit r 31 \<and> flag_Z t = (r = 0) \<and>
       (flag_C t = c \<longleftrightarrow> \<not> carry_wrong op x y (flag_C s)) \<and> (flag_V t = v \<longleftrightarrow> \<not> overflow_wrong op x y (flag_C s))
     else flag_N t = flag_N s \<and> flag_Z t = flag_Z s \<and> flag_C t = flag_C s \<and> flag_V t = flag_V s)"
  by (rule data_processing_step [OF assms])

theorem data_processing_exact_witness:
  "let t = dp_behavior Op_SUB 0 1 True (demo_arm\<lparr>dpi_shiftop := 0x80000000\<rparr>) in
    bypass_read t 0 = 0x80000000 \<and> flag_N t \<and> \<not> flag_C t \<and> \<not> flag_V t"
proof -
  let ?s = "demo_arm\<lparr>dpi_shiftop := 0x80000000\<rparr>"
  have k: "known_mode (pm_mode ?s)" by (simp add: known_mode_def demo_arm_def)
  have x: "bypass_read ?s 1 = 0" by (simp add: bypass_read_def user_or_system_def demo_arm_def)
  have a: "alu Op_SUB 0 0x80000000 False False False = (0x80000000, False, True)"
    by (simp add: alu_def AddWithCarry_def)
  have b: "bit (0x80000000 :: u32) 31" by (simp add: bit_iff_odd drop_bit_eq_div)
  have f: "dpi_shiftop ?s = 0x80000000" "\<not> dpi_shiftopcarry ?s" "\<not> flag_C ?s" "\<not> flag_V ?s"
    by (simp_all add: demo_arm_def)
  have w: "overflow_wrong Op_SUB 0 0x80000000 False" "\<not> carry_wrong Op_SUB 0 0x80000000 False" "\<not> compares Op_SUB"
    by (simp_all add: compares_def overflow_wrong_def carry_wrong_def)
  have "(0 :: nat) \<noteq> 15" "(1 :: nat) \<noteq> 15" by simp_all
  from data_processing_exact [OF k this, of Op_SUB True] show ?thesis
    using f w b by (simp only: x a Let_def case_prod_conv) simp
qed

subsection \<open>One instruction of the abstract machine\<close>

lemma conditions:
  assumes "cond < 15"
  shows "cond_holds cond s = ConditionPassed cond (flag_N s) (flag_Z s) (flag_C s) (flag_V s)"
proof -
  have "cond = 0 \<or> cond = 1 \<or> cond = 2 \<or> cond = 3 \<or> cond = 4 \<or> cond = 5 \<or> cond = 6 \<or> cond = 7 \<or> cond = 8 \<or>
    cond = 9 \<or> cond = 10 \<or> cond = 11 \<or> cond = 12 \<or> cond = 13 \<or> cond = 14"
    using assms by presburger
  then show ?thesis
    by (elim disjE) (auto simp: cond_holds.simps ConditionPassed_def Let_def)
qed

record arch =
  areg :: "nat \<Rightarrow> u32"
  apc :: u32
  aN :: bool
  aZ :: bool
  aC :: bool
  aV :: bool

text \<open>What a program sees of the simulator between two instructions: the fifteen registers of the mode, the
  address and the flags.\<close>

definition view :: "'m arm \<Rightarrow> arch" where
  "view s = \<lparr>areg = (\<lambda>r. if r < 15 then bypass_read s r else 0), apc = ac_pc s,
     aN = flag_N s, aZ = flag_Z s, aC = flag_C s, aV = flag_V s\<rparr>"

text \<open>A data processing instruction of the manual; register 15 reads as the address plus 8.\<close>

definition arch_operand :: "nat \<Rightarrow> nat \<Rightarrow> nat \<Rightarrow> arch \<Rightarrow> u32 \<times> bool" where
  "arch_operand imm5 type rm a =
     (case DecodeImmShift type imm5 of (ty, n) \<Rightarrow> Shift_C (if rm = 15 then apc a + 8 else areg a rm) ty n (aC a))"

definition arch_dp :: "nat \<Rightarrow> dp_op \<Rightarrow> bool \<Rightarrow> nat \<Rightarrow> nat \<Rightarrow> nat \<Rightarrow> nat \<Rightarrow> nat \<Rightarrow> arch \<Rightarrow> arch" where
  "arch_dp cond op sf rn rd imm5 type rm a =
     (let next = a\<lparr>apc := apc a + 4\<rparr> in
      if \<not> ConditionPassed cond (aN a) (aZ a) (aC a) (aV a) then next
      else
        let (y, sc) = arch_operand imm5 type rm a;
            (r, c, v) = alu op (areg a rn) y sc (aC a) (aV a);
            next = (if compares op then next else next\<lparr>areg := (areg a)(rd := r)\<rparr>)
        in if sf \<or> compares op then next\<lparr>aN := bit r 31, aZ := (r = 0), aC := c, aV := v\<rparr> else next)"

lemma view_eqI:
  assumes "\<And>r. r < 15 \<Longrightarrow> bypass_read t r = areg a r" "\<And>r. 15 \<le> r \<Longrightarrow> areg a r = 0" "ac_pc t = apc a"
    "flag_N t = aN a" "flag_Z t = aZ a" "flag_C t = aC a" "flag_V t = aV a"
  shows "view t = a"
  using assms by (cases a) (auto simp: view_def)

text \<open>C3: The simulator refines the architecture. One turn of the simulation loop on a data processing instruction with a
  shift by a constant, seen through the registers of the mode, the address and the flags, is the step of
  the abstract machine: the condition, the shifter, the operation and the flags. Registers 0 to 14 are the
  operands, the shifted one may be 15, and the case is none of those in which a flag is wrong.\<close>

theorem data_processing_refines:
  assumes "known_mode (pm_mode s)" "cond < 15" "rn < 15" "rd < 15" "rm \<le> 15" "amount < 32" "type < 4"
    and "sf \<or> compares op \<Longrightarrow> \<not> carry_wrong op (bypass_read s rn) (fst (arch_operand amount type rm (view s))) (flag_C s)"
    and "sf \<or> compares op \<Longrightarrow> \<not> overflow_wrong op (bypass_read s rn) (fst (arch_operand amount type rm (view s))) (flag_C s)"
  shows "\<exists>t. simulate cond (Dp (I_DPI1 op sf rn rd amount type rm)) s = Some t \<and>
    view t = arch_dp cond op sf rn rd amount type rm (view s)"
proof -
  define s1 where "s1 = bypass_write (s\<lparr>ac_pc := ac_pc s + 4\<rparr>) 15 (ac_pc s + 4)"
  define v where "v = view s"
  have b: "behavior_instruction cond s = (if cond_holds cond s then Done s1 else Annulled s1)"
    by (simp add: behavior_instruction_def s1_def Let_def)
  have k: "known_mode (pm_mode (s\<lparr>ac_pc := ac_pc s + 4\<rparr>))" using assms(1) by simp
  have s1: "known_mode (pm_mode s1)" "bypass_read s1 r = (if r = 15 then ac_pc s + 4 else bypass_read s r)" "ac_pc s1 = ac_pc s + 4"
    "flag_N s1 = flag_N s" "flag_Z s1 = flag_Z s" "flag_C s1 = flag_C s" "flag_V s1 = flag_V s" for r
    using assms(1) read_write [OF k] by (simp_all add: s1_def)
  have v: "areg v r = (if r < 15 then bypass_read s r else 0)" "apc v = ac_pc s" "aN v = flag_N s" "aZ v = flag_Z s"
    "aC v = flag_C s" "aV v = flag_V s" for r
    by (simp_all add: v_def view_def)
  have c: "cond_holds cond s = ConditionPassed cond (aN v) (aZ v) (aC v) (aV v)"
    using conditions [OF assms(2)] by (simp add: v)
  show ?thesis
  proof (cases "cond_holds cond s")
    case False
    have "view s1 = arch_dp cond op sf rn rd amount type rm v"
      using False by (intro view_eqI) (simp_all add: arch_dp_def c s1 v)
    then show ?thesis using False by (simp add: simulate_def b v_def)
  next
    case True
    obtain y sc where y: "arch_operand amount type rm v = (y, sc)" by fastforce
    have "shift_operand rm s1 = (if rm = 15 then apc v + 8 else areg v rm)"
      using assms(5) by (auto simp: shift_operand_def s1 v)
    then have f: "Type_DPI1 amount type rm s1 = set_shiftop y sc s1"
      using y by (simp add: immediate_shift [OF assms(6,7)] arch_operand_def s1 v case_prod_beta)
    define s2 where "s2 = set_shiftop y sc s1"
    have s2: "known_mode (pm_mode s2)" "bypass_read s2 r = bypass_read s1 r" "dpi_shiftop s2 = y" "dpi_shiftopcarry s2 = sc"
      "flag_N s2 = flag_N s1" "flag_Z s2 = flag_Z s1" "flag_C s2 = flag_C s1" "flag_V s2 = flag_V s1" for r
      using s1(1) by (simp_all add: s2_def set_shiftop_def)
    define t where "t = dp_behavior op rd rn sf s2"
    have sim: "simulate cond (Dp (I_DPI1 op sf rn rd amount type rm)) s = Some t"
      using True by (simp add: simulate_def b f t_def s2_def)
    have n: "rd \<noteq> 15" "rn \<noteq> 15" using assms(3,4) by simp_all
    have pc: "ac_pc t = ac_pc s + 4"
      using dp_registers(2) [OF s2(1) n] by (simp add: t_def s2 s1)
    obtain r co vo where a: "alu op (areg v rn) y sc (aC v) (aV v) = (r, co, vo)" by (cases "alu op (areg v rn) y sc (aC v) (aV v)")
    have x: "bypass_read s2 rn = areg v rn" using assms(3) by (simp add: s2 s1 v)
    have "alu op (bypass_read s2 rn) (dpi_shiftop s2) (dpi_shiftopcarry s2) (flag_C s2) (flag_V s2) = (r, co, vo)"
      using a assms(3) by (simp add: s2 s1 v)
    note al = this
    have y1: "fst (arch_operand amount type rm (view s)) = y" using y by (simp add: v_def)
    have wrong: "sf \<or> compares op \<Longrightarrow> \<not> carry_wrong op (bypass_read s2 rn) (dpi_shiftop s2) (flag_C s2)"
      "sf \<or> compares op \<Longrightarrow> \<not> overflow_wrong op (bypass_read s2 rn) (dpi_shiftop s2) (flag_C s2)"
      using assms(3,8,9) by (simp_all add: s2 s1 y1)
    have st: "(\<forall>k. bypass_read t k = (if k = rd \<and> \<not> compares op then r else bypass_read s2 k)) \<and>
      (if sf \<or> compares op
       then flag_N t = bit r 31 \<and> flag_Z t = (r = 0) \<and>
         (flag_C t = co \<longleftrightarrow> \<not> carry_wrong op (bypass_read s2 rn) (dpi_shiftop s2) (flag_C s2)) \<and>
         (flag_V t = vo \<longleftrightarrow> \<not> overflow_wrong op (bypass_read s2 rn) (dpi_shiftop s2) (flag_C s2))
       else flag_N t = flag_N s2 \<and> flag_Z t = flag_Z s2 \<and> flag_C t = flag_C s2 \<and> flag_V t = flag_V s2)"
      using data_processing_step [OF s2(1) n, where op = op and sf = sf]
      unfolding Let_def al case_prod_conv t_def [symmetric] .
    have step: "bypass_read t k = (if k = rd \<and> \<not> compares op then r else bypass_read s2 k)" for k
      using conjunct1 [OF st] by (rule spec)
    have flags: "if sf \<or> compares op then flag_N t = bit r 31 \<and> flag_Z t = (r = 0) \<and> flag_C t = co \<and> flag_V t = vo
      else flag_N t = aN v \<and> flag_Z t = aZ v \<and> flag_C t = aC v \<and> flag_V t = aV v"
      using st wrong by (simp only: s2 s1 v split: if_split) simp
    let ?next = "if compares op then v\<lparr>apc := apc v + 4\<rparr> else v\<lparr>apc := apc v + 4, areg := (areg v)(rd := r)\<rparr>"
    have passed: "ConditionPassed cond (aN v) (aZ v) (aC v) (aV v)" using True c by simp
    have ref: "arch_dp cond op sf rn rd amount type rm v =
      (if sf \<or> compares op then ?next\<lparr>aN := bit r 31, aZ := (r = 0), aC := co, aV := vo\<rparr> else ?next)"
      using passed unfolding arch_dp_def Let_def y a case_prod_conv by simp
    have "view t = arch_dp cond op sf rn rd amount type rm v"
      unfolding ref using assms(4) flags
      by (intro view_eqI) (simp_all add: step pc s2(2) s1(2) v split: if_split_asm)
    then show ?thesis using sim by (simp add: v_def)
  qed
qed

theorem data_processing_refines_witness:
  "\<exists>t. simulate 14 (Dp (I_DPI1 Op_ADD True 1 2 0 0 15)) demo_arm = Some t \<and> areg (view t) 2 = 0x70000108 \<and>
    apc (view t) = 0x70000104 \<and> \<not> aC (view t)"
proof -
  have k: "known_mode (pm_mode demo_arm)" by (simp add: known_mode_def demo_arm_def)
  have r: "bypass_read demo_arm 1 = 0" by (simp add: bypass_read_def user_or_system_def demo_arm_def)
  have v: "areg (view demo_arm) 1 = 0" "apc (view demo_arm) = 0x70000100" "\<not> aC (view demo_arm)" "\<not> aV (view demo_arm)"
    using r by (simp_all add: view_def) (simp_all add: demo_arm_def)
  have o: "arch_operand 0 0 15 (view demo_arm) = (0x70000108, False)"
    using v by (simp add: arch_operand_def DecodeImmShift_def Shift_C_def)
  have a: "alu Op_ADD 0 0x70000108 False False False = (0x70000108, False, False)"
    by (simp add: alu_def AddWithCarry_def)
  have "\<exists>t. simulate 14 (Dp (I_DPI1 Op_ADD True 1 2 0 0 15)) demo_arm = Some t \<and>
    view t = arch_dp 14 Op_ADD True 1 2 0 0 15 (view demo_arm)"
    by (rule data_processing_refines [OF k]) (simp_all add: carry_wrong_def overflow_wrong_def)
  moreover have "arch_dp 14 Op_ADD True 1 2 0 0 15 (view demo_arm) =
      (view demo_arm)\<lparr>apc := 0x70000104, areg := (areg (view demo_arm))(2 := 0x70000108),
        aN := bit (0x70000108 :: u32) 31, aZ := False, aC := False, aV := False\<rparr>"
    using v by (simp add: arch_dp_def o a ConditionPassed_def compares_def)
  ultimately show ?thesis by auto
qed

end
