(* ===== verification/ArmMultiplyCorrect.thy ===== *)
theory ArmMultiplyCorrect
  imports ArmDataCorrect
begin

text \<open>
  Multiplications, bit fields and the count of leading zeros against their meaning on integers.
\<close>

subsection \<open>Words of 64 bits in two registers\<close>

definition long_value :: "'m arm \<Rightarrow> nat \<Rightarrow> nat \<Rightarrow> int" where
  "long_value s rdhi rdlo = uint (bypass_read s rdhi) * 2 ^ 32 + uint (bypass_read s rdlo)"

lemma halves: "uint (high_word r) * 2 ^ 32 + uint (low_word r) = uint r"
proof -
  have "uint r < 2 ^ 64" using unsigned_less [of r, where 'a = int] by simp
  then have "0 \<le> uint r div 2 ^ 32" "uint r div 2 ^ 32 < 2 ^ 32" by (simp_all add: pos_imp_zdiv_nonneg_iff)
  then have "(uint r div 2 ^ 32) mod 2 ^ 32 = uint r div 2 ^ 32" by (rule mod_pos_pos_trivial)
  then have "uint (high_word r) = uint r div 2 ^ 32"
    by (simp only: high_word_def unsigned_ucast_eq unsigned_drop_bit_eq) (simp add: take_bit_eq_mod drop_bit_eq_div)
  moreover have "uint (low_word r) = uint r mod 2 ^ 32"
    by (simp add: low_word_def unsigned_ucast_eq take_bit_eq_mod)
  ultimately show ?thesis by simp
qed

lemma join_halves: "uint (join64 hi lo) = uint hi * 2 ^ 32 + uint lo"
proof -
  have "high_word (join64 hi lo) = hi" "low_word (join64 hi lo) = lo"
    by (rule bit_word_eqI; auto simp: high_word_def low_word_def join64_def bit_simps dest: bit_imp_le_length)+
  then show ?thesis using halves [of "join64 hi lo"] by simp
qed

lemma write_long_value:
  assumes "known_mode (pm_mode s)" "rdhi \<noteq> 15" "rdlo \<noteq> 15" "rdhi \<noteq> rdlo"
  shows "long_value (write_long rdhi rdlo sf r s) rdhi rdlo = uint r"
    "k \<noteq> rdhi \<Longrightarrow> k \<noteq> rdlo \<Longrightarrow> bypass_read (write_long rdhi rdlo sf r s) k = bypass_read s k"
    "sf \<Longrightarrow> flag_N (write_long rdhi rdlo sf r s) = bit (high_word r) 31 \<and> flag_Z (write_long rdhi rdlo sf r s) = (r = 0)"
    "flag_C (write_long rdhi rdlo sf r s) = flag_C s" "flag_V (write_long rdhi rdlo sf r s) = flag_V s"
  using assms halves [of r] by (simp_all add: long_value_def write_long_def Let_def)

text \<open>The meaning of the four operations on integers.\<close>

definition long_result :: "long_op \<Rightarrow> u32 \<Rightarrow> u32 \<Rightarrow> int \<Rightarrow> int" where
  "long_result op a b acc =
     (case op of
        Op_UMULL \<Rightarrow> uint a * uint b | Op_UMLAL \<Rightarrow> uint a * uint b + acc
      | Op_SMULL \<Rightarrow> sint a * sint b | Op_SMLAL \<Rightarrow> sint a * sint b + acc)"

lemma top_bit_set: "bit (high_word r) 31 \<longleftrightarrow> 2 ^ 63 \<le> uint r"
proof -
  have "uint r < 2 ^ 64" using unsigned_less [of r, where 'a = int] by simp
  then have "uint r div 2 ^ 63 = of_bool (2 ^ 63 \<le> uint r)"
    by (cases "2 ^ 63 \<le> uint r") (simp_all add: div_pos_geq)
  moreover have "bit (high_word r) 31 \<longleftrightarrow> bit (uint r) 63"
    by (simp add: high_word_def bit_simps)
  ultimately show ?thesis by (simp add: bit_iff_odd)
qed

lemma join_sum: "join64 hi lo = ucast hi * 4294967296 + ucast lo"
proof -
  have "join64 hi lo = word_of_int (uint hi * 2 ^ 32 + uint lo)"
    by (simp only: join_halves [symmetric]) simp
  then show ?thesis by simp
qed

lemma long_word:
  assumes "rdhi \<noteq> 15" "rdlo \<noteq> 15" "rm \<noteq> 15" "rs \<noteq> 15" "rdhi \<noteq> rdlo" "op \<in> {Op_UMLAL, Op_SMLAL} \<Longrightarrow> rm \<noteq> rdhi \<and> rm \<noteq> rdlo"
  shows "long_behavior op rdhi rdlo rm rs sf s =
    write_long rdhi rdlo sf (word_of_int (long_result op (bypass_read s rm) (bypass_read s rs) (long_value s rdhi rdlo))) s"
  using assms
  by (cases op) (simp_all add: long_result_def arm_UMULL_def arm_UMLAL_def arm_SMULL_def arm_SMLAL_def long_value_def join_sum)

text \<open>C28: The long multiplications. The pair of registers that \<open>UMULL\<close>, \<open>UMLAL\<close>, \<open>SMULL\<close> and \<open>SMLAL\<close> write holds the
  unsigned or signed product, plus what it held before for the accumulating ones, modulo \<open>2^64\<close>; no other
  register changes; with \<open>s\<close> the flag Z says that all 64 bits are 0 and N is the highest of them, and C and V
  stay.\<close>

theorem long_multiplication_exact:
  assumes "known_mode (pm_mode s)" "rdhi \<noteq> 15" "rdlo \<noteq> 15" "rm \<noteq> 15" "rs \<noteq> 15" "rdhi \<noteq> rdlo"
    and "op \<in> {Op_UMLAL, Op_SMLAL} \<Longrightarrow> rm \<noteq> rdhi \<and> rm \<noteq> rdlo"
  shows "let t = long_behavior op rdhi rdlo rm rs sf s;
      v = long_result op (bypass_read s rm) (bypass_read s rs) (long_value s rdhi rdlo) mod 2 ^ 64 in
    long_value t rdhi rdlo = v \<and> (\<forall>k. k \<noteq> rdhi \<and> k \<noteq> rdlo \<longrightarrow> bypass_read t k = bypass_read s k) \<and>
    (sf \<longrightarrow> flag_Z t = (v = 0) \<and> flag_N t = (2 ^ 63 \<le> v)) \<and> flag_C t = flag_C s \<and> flag_V t = flag_V s"
proof -
  let ?i = "long_result op (bypass_read s rm) (bypass_read s rs) (long_value s rdhi rdlo)"
  let ?r = "word_of_int ?i :: u64"
  have u: "uint ?r = ?i mod 2 ^ 64" by (simp add: uint_word_of_int take_bit_eq_mod)
  have z: "?r = 0 \<longleftrightarrow> ?i mod 2 ^ 64 = 0"
    unfolding u [symmetric] by (simp add: unsigned_eq_0_iff)
  have n: "bit (high_word ?r) 31 \<longleftrightarrow> 2 ^ 63 \<le> ?i mod 2 ^ 64"
    unfolding u [symmetric] by (rule top_bit_set)
  note w = write_long_value [OF assms(1-3,6), where sf = sf and r = ?r]
  show ?thesis
    using w z n by (simp only: long_word [OF assms(2-7)] Let_def u) simp
qed

theorem long_multiplication_exact_witness:
  "let t = long_behavior Op_SMULL 1 0 2 3 True (demo_arm\<lparr>regbank := (\<lambda>r. if r = 2 then 0xFFFFFFFE else 3)\<rparr>) in
    long_value t 1 0 = 2 ^ 64 - 6 \<and> flag_N t"
proof -
  let ?s = "demo_arm\<lparr>regbank := (\<lambda>r. if r = 2 then 0xFFFFFFFE else 3)\<rparr>"
  have k: "known_mode (pm_mode ?s)" by (simp add: known_mode_def demo_arm_def)
  have r: "bypass_read ?s 2 = 0xFFFFFFFE" "bypass_read ?s 3 = 3"
    by (simp_all add: bypass_read_def user_or_system_def demo_arm_def)
  have n: "(1 :: nat) \<noteq> 15" "(0 :: nat) \<noteq> 15" "(2 :: nat) \<noteq> 15" "(3 :: nat) \<noteq> 15" "(1 :: nat) \<noteq> 0" by simp_all
  have v: "long_result Op_SMULL (bypass_read ?s 2) (bypass_read ?s 3) c mod 2 ^ 64 = 2 ^ 64 - 6" for c
    unfolding r by (simp add: long_result_def)
  show ?thesis
    using long_multiplication_exact [OF k n, of Op_SMULL True] unfolding v by (simp add: Let_def)
qed

subsection \<open>Leading zeros\<close>

lemma top_bit_spec: "(\<forall>k \<le> n. k > top_bit w n \<longrightarrow> \<not> bit w k) \<and> top_bit w n \<le> n \<and> (bit w (top_bit w n) \<or> top_bit w n = 0)"
  by (induction n) (auto simp: le_Suc_eq)

lemma top_bit_value:
  assumes "w \<noteq> 0"
  shows "2 ^ top_bit w 31 \<le> unat w" "unat w < 2 ^ (top_bit w 31 + 1)"
proof -
  let ?n = "top_bit w 31"
  have high: "\<not> bit w k" if "?n < k" for k
    using that top_bit_spec [of 31 w] by (cases "k \<le> 31") (auto dest: bit_imp_le_length)
  have n: "bit w ?n"
  proof (rule ccontr)
    assume "\<not> bit w ?n"
    moreover from this have "?n = 0" using top_bit_spec [of 31 w] by auto
    ultimately have "\<not> bit w k" for k using high [of k] by (cases "k = 0") auto
    then show False using assms by (simp add: bit_eq_iff)
  qed
  have "bit (take_bit (?n + 1) (unat w)) k = bit (unat w) k" for k
    using high [of k] by (cases "k < ?n + 1") (auto simp: bit_take_bit_iff bit_unsigned_iff)
  then have "take_bit (?n + 1) (unat w) = unat w" by (intro bit_eqI) blast
  then show "unat w < 2 ^ (?n + 1)"
    using take_bit_nat_less_exp [of "?n + 1" "unat w"] by simp
  have "bit (unat w) ?n" using n by (simp add: bit_unsigned_iff bit_imp_le_length)
  then show "2 ^ ?n \<le> unat w" by (metis bit_iff_odd div_less even_zero not_le)
qed

text \<open>C34: Counting leading zeros. For every word, \<open>CLZ\<close> gives the number \<open>z\<close> from 0 to 32 for which the word is below
  \<open>2^(32 - z)\<close> and, when it is not 0, no smaller power would do; the next address and the other registers stay.\<close>

theorem clz_exact:
  assumes "known_mode (pm_mode s)" "rd \<noteq> 15" "rm \<noteq> 15"
  shows "\<exists>z \<le> 32. bypass_read (arm_CLZ rd rm s) rd = of_nat z \<and> unat (bypass_read s rm) < 2 ^ (32 - z) \<and>
    (z < 32 \<longrightarrow> 2 ^ (31 - z) \<le> unat (bypass_read s rm)) \<and>
    (\<forall>k. k \<noteq> rd \<longrightarrow> bypass_read (arm_CLZ rd rm s) k = bypass_read s k)"
proof -
  let ?w = "bypass_read s rm"
  let ?z = "if ?w = 0 then 32 else 31 - top_bit ?w 31"
  have "top_bit ?w 31 \<le> 31" using top_bit_spec [of 31 ?w] by simp
  then have "31 - (31 - top_bit ?w 31) = top_bit ?w 31" "32 - (31 - top_bit ?w 31) = top_bit ?w 31 + 1"
    "31 - top_bit ?w 31 \<le> 32" by simp_all
  then show ?thesis
    using assms top_bit_value [of ?w] by (intro exI [of _ ?z]) (simp add: arm_CLZ_def Let_def)
qed

theorem clz_exact_witness: "\<exists>z \<le> 32. bypass_read (arm_CLZ 1 0 demo_arm) 1 = of_nat z \<and> unat (bypass_read demo_arm 0) < 2 ^ (32 - z)"
proof -
  have k: "known_mode (pm_mode demo_arm)" by (simp add: known_mode_def demo_arm_def)
  show ?thesis using clz_exact [OF k, of 1 0] by auto
qed

subsection \<open>Sign extension and bit fields\<close>

lemma flip_sign:
  "(take_bit (Suc n) w XOR push_bit n 1) - push_bit n 1 = signed_take_bit n (w :: u32)"
proof -
  let ?l = "take_bit (Suc n) w"
  have x: "?l XOR push_bit n 1 = flip_bit n ?l" by (simp add: flip_bit_def)
  have s: "signed_take_bit n w = (if bit ?l n then ?l + push_bit (Suc n) (- 1) else ?l)"
    by (simp add: signed_take_bit_code Let_def)
  show ?thesis
  proof (cases "bit ?l n")
    case True
    then have "flip_bit n ?l = ?l - 2 ^ n" by (simp add: flip_bit_eq_if unset_bit_eq)
    moreover have "push_bit (Suc n) (- 1 :: u32) = - (2 ^ n) - 2 ^ n" by (simp add: push_bit_eq_mult)
    ultimately show ?thesis using True unfolding x s by (simp add: push_bit_eq_mult)
  next
    case False
    then have "flip_bit n ?l = ?l + 2 ^ n" by (simp add: flip_bit_eq_if set_bit_eq)
    then show ?thesis using False unfolding x s by (simp add: push_bit_eq_mult)
  qed
qed

lemma SignExtend_exact:
  assumes "0 < n" "n \<le> 32"
  shows "SignExtend h w n = signed_take_bit (n - 1) w"
proof -
  have "n - 1 < 32" "Suc (n - 1) = n" using assms by simp_all
  then show ?thesis
    using flip_sign [of "n - 1" w] by (simp add: SignExtend_def host_shl_def Let_def take_bit_eq_mask [symmetric])
qed

lemma ones_bits:
  assumes "b \<le> 32"
  shows "bit (foldl (\<lambda>m i. m OR host_shl h i 1) m [a..<b]) k \<longleftrightarrow> bit m k \<or> a \<le> k \<and> k < b"
  using assms by (induction b) (auto simp: host_shl_def bit_simps less_Suc_eq)

lemma field_bits_exact:
  assumes "lsb + width \<le> 32" "0 < width"
  shows "bit (field_bits h lsb (lsb + width - 1)) k \<longleftrightarrow> lsb \<le> k \<and> k < lsb + width"
  using assms ones_bits [of "lsb + width" h 0 lsb k] by (simp add: field_bits_def)

lemma extracted_field:
  assumes "lsb + width \<le> 32" "0 < width"
  shows "drop_bit lsb (w AND field_bits h lsb (lsb + width - 1)) = take_bit width (drop_bit lsb w)"
  using assms by (intro bit_word_eqI) (auto simp: bit_drop_bit_eq bit_and_iff bit_take_bit_iff field_bits_exact [OF assms, simplified])

text \<open>C33: Bit fields. \<open>UBFX\<close> gives the field of the source, for every position and width inside the word. \<open>SBFX\<close> is to give
  it with its sign, but the length that it extends from is the number of the highest bit: for a field that starts
  at bit 2 or above it gives the same as \<open>UBFX\<close>, never a negative number.\<close>

theorem bit_fields:
  assumes "known_mode (pm_mode s)" "0 < width" "lsb + width \<le> 32"
  shows "bypass_read (arm_UBFX rd rn lsb width s) rd = take_bit width (drop_bit lsb (bypass_read s rn)) \<and>
    (2 \<le> lsb \<longrightarrow> bypass_read (arm_SBFX rd rn lsb width s) rd = bypass_read (arm_UBFX rd rn lsb width s) rd)"
proof -
  let ?f = "take_bit width (drop_bit lsb (bypass_read s rn))"
  have "signed_take_bit (lsb + width - 2) ?f = ?f" if "2 \<le> lsb"
  proof (rule bit_word_eqI)
    fix k assume k: "k < LENGTH(32)"
    have "\<not> bit ?f k" "\<not> bit ?f (lsb + width - 2)" if "lsb + width - 2 \<le> k"
      using that \<open>2 \<le> lsb\<close> assms(3) by (auto simp: bit_take_bit_iff)
    then show "bit (signed_take_bit (lsb + width - 2) ?f) k = bit ?f k"
      using k by (cases "lsb + width - 2 \<le> k") (auto simp: bit_signed_take_bit_iff min_def)
  qed
  moreover have "2 \<le> lsb \<Longrightarrow> SignExtend (host s) ?f (lsb + width - 1) = signed_take_bit (lsb + width - 2) ?f"
    using assms(2,3) by (subst SignExtend_exact) (simp_all add: numeral_2_eq_2)
  ultimately show ?thesis
    using assms(1) extracted_field [OF assms(3,2), of "bypass_read s rn" "host s"]
    by (simp add: arm_UBFX_def arm_SBFX_def Let_def)
qed

theorem bit_fields_witness:
  "bypass_read (arm_SBFX 0 1 8 8 (demo_arm\<lparr>regbank := (\<lambda>r. 0xFF00)\<rparr>)) 0 = 0xFF"
proof -
  let ?s = "demo_arm\<lparr>regbank := (\<lambda>r. 0xFF00)\<rparr>"
  have k: "known_mode (pm_mode ?s)" by (simp add: known_mode_def demo_arm_def)
  have r: "bypass_read ?s 1 = 0xFF00" by (simp add: bypass_read_def user_or_system_def demo_arm_def)
  have "take_bit 8 (drop_bit 8 (0xFF00 :: u32)) = 0xFF" by simp
  then show ?thesis using bit_fields [OF k, of 8 8 0 1] unfolding r by simp
qed

end
