(* ===== verification/ArmMemoryCorrect.thy ===== *)
theory ArmMemoryCorrect
  imports ArmException
begin

text \<open>
  Memory: the contract of a store of words and what follows from it for words in a row, the RAM
  behind the bus, saving and restoring registers on a stack, and the tables of the MMU.
\<close>

subsection \<open>A store of words\<close>

definition apart :: "u32 \<Rightarrow> u32 \<Rightarrow> bool" where
  "apart a b \<longleftrightarrow> 4 \<le> b - a \<and> 4 \<le> a - b"

primrec put_words :: "('m \<Rightarrow> u32 \<Rightarrow> u32 \<Rightarrow> 'm) \<Rightarrow> 'm \<Rightarrow> u32 \<Rightarrow> u32 list \<Rightarrow> 'm" where
  "put_words put m a [] = m"
| "put_words put m a (v # vs) = put_words put (put m a v) (a + 4) vs"

primrec get_words :: "('m \<Rightarrow> u32 \<Rightarrow> u32) \<Rightarrow> 'm \<Rightarrow> u32 \<Rightarrow> nat \<Rightarrow> u32 list" where
  "get_words get m a 0 = []"
| "get_words get m a (Suc n) = get m a # get_words get m (a + 4) n"

lemma apart_step:
  assumes "k + 1 < 2 ^ 30"
  shows "apart (a + 4 + of_nat k * 4) a"
proof -
  let ?d = "4 + of_nat k * 4 :: u32"
  have d: "?d = of_nat (4 + k * 4)" by simp
  have u: "unat ?d = 4 + k * 4"
    unfolding d using assms by (simp only: unat_of_nat) simp
  then have "4 \<le> ?d" by (simp add: word_le_nat_alt)
  moreover have "(of_nat (2 ^ 32 - (4 + k * 4)) :: u32) = of_nat (2 ^ 32) - of_nat (4 + k * 4)"
    using assms by (intro of_nat_diff) simp
  then have m: "- ?d = of_nat (2 ^ 32 - (4 + k * 4))" by simp
  have "unat (- ?d) = 2 ^ 32 - (4 + k * 4)"
    unfolding m by (simp only: unat_of_nat) simp
  then have "4 \<le> - ?d" using assms by (simp add: word_le_nat_alt)
  ultimately show ?thesis by (simp add: apart_def algebra_simps)
qed

locale word_memory =
  fixes get :: "'m \<Rightarrow> u32 \<Rightarrow> u32" and put :: "'m \<Rightarrow> u32 \<Rightarrow> u32 \<Rightarrow> 'm"
  assumes get_put: "get (put m a v) a = v"
    and get_put_apart: "apart a b \<Longrightarrow> get (put m a v) b = get m b"
begin

lemma get_put_words:
  assumes "\<And>k. k < length vs \<Longrightarrow> apart (a + of_nat k * 4) b"
  shows "get (put_words put m a vs) b = get m b"
  using assms
proof (induction vs arbitrary: m a)
  case (Cons v vs)
  have "apart (a + 4 + of_nat k * 4) b" if "k < length vs" for k
    using Cons.prems [of "Suc k"] that by (simp add: algebra_simps)
  then show ?case using Cons.IH [of "a + 4"] Cons.prems [of 0] by (simp add: get_put_apart)
qed simp

text \<open>Words written in a row are read back.\<close>

lemma words_kept:
  assumes "length vs \<le> 2 ^ 30"
  shows "get_words get (put_words put m a vs) a (length vs) = vs"
  using assms
proof (induction vs arbitrary: m a)
  case (Cons v vs)
  have "get (put_words put (put m a v) (a + 4) vs) a = get (put m a v) a"
    using Cons.prems by (intro get_put_words apart_step) simp
  then show ?case using Cons by (simp add: get_put)
qed simp

end

subsection \<open>The RAM\<close>

lemma ram_read_write: "ram_read a (ram_write a v m) = v"
proof (rule bit_word_eqI)
  fix k assume "k < LENGTH(32)"
  then consider "k < 8" | "8 \<le> k" "k < 16" | "16 \<le> k" "k < 24" | "24 \<le> k" "k < 32" by fastforce
  then show "bit (ram_read a (ram_write a v m)) k = bit v k"
    by cases (auto simp: ram_read_def ram_write_def bit_simps)
qed

lemma apart_bytes:
  assumes "apart a b" "i \<in> {0, 1, 2, 3}" "j \<in> {0, 1, 2, 3}"
  shows "b + i \<noteq> a + j"
proof
  assume e: "b + i = a + j"
  then have "b - a = j - i" by (simp add: algebra_simps)
  moreover from e have "a - b = i - j" by (simp add: algebra_simps)
  ultimately show False
    using assms by (auto simp: apart_def word_le_nat_alt)
qed

lemma ram_read_other:
  assumes "apart a b"
  shows "ram_read b (ram_write a v m) = ram_read b m"
proof -
  have "\<forall>i \<in> {0, 1, 2, 3}. \<forall>j \<in> {0, 1, 2, 3}. b + i \<noteq> a + j" using apart_bytes [OF assms] by blast
  then have "ram_write a v m b = m b" "ram_write a v m (b + 1) = m (b + 1)" "ram_write a v m (b + 2) = m (b + 2)"
    "ram_write a v m (b + 3) = m (b + 3)"
    by (simp_all add: ram_write_def)
  then show ?thesis by (simp add: ram_read_def)
qed

interpretation ram: word_memory "\<lambda>m a. ram_read a m" "\<lambda>m a v. ram_write a v m"
  by unfold_locales (simp_all add: ram_read_write ram_read_other)

text \<open>A RAM from address \<open>st\<close> to \<open>en\<close>, reached without translation.\<close>

definition ram_at :: "ram arm \<Rightarrow> u32 \<Rightarrow> u32 \<Rightarrow> bool" where
  "ram_at s st en \<longleftrightarrow> \<not> translation_active s \<and>
     (\<exists>i. (\<forall>a. st \<le> a \<and> a \<le> en \<longrightarrow> find_device 0 (bus_devices (host s)) a = Some (i, st)) \<and>
          read_signal (host s) i = (\<lambda>a off m. (ram_read a m, m)) \<and>
          write_signal (host s) i = (\<lambda>a v off m. ram_write a v m))"

lemma ram_at_cong:
  "ram_at s st en \<Longrightarrow> host t = host s \<Longrightarrow> cp15_value t = cp15_value s \<Longrightarrow> ram_at t st en"
  by (simp add: ram_at_def translation_active_def)

lemma MEM_ram:
  assumes "ram_at s st en" "st \<le> a \<and> a \<le> en"
  shows "MEM_read s a = Some (ram_read (a - st) (devices s), s)"
    "MEM_write s a v = Some (s\<lparr>devices := ram_write (a - st) v (devices s)\<rparr>)"
proof -
  obtain i where i: "find_device 0 (bus_devices (host s)) a = Some (i, st)"
    "read_signal (host s) i = (\<lambda>a off m. (ram_read a m, m))" "write_signal (host s) i = (\<lambda>a v off m. ram_write a v m)"
    using assms unfolding ram_at_def by blast
  have n: "\<not> translation_active s" using assms(1) by (simp add: ram_at_def)
  show "MEM_read s a = Some (ram_read (a - st) (devices s), s)"
    using i n by (simp add: MEM_read_def mmu_read_def mmu_address_def bus_read_def)
  show "MEM_write s a v = Some (s\<lparr>devices := ram_write (a - st) v (devices s)\<rparr>)"
    using i n by (simp add: MEM_write_def mmu_write_def mmu_address_def bus_write_def)
qed

subsection \<open>Registers on a stack\<close>

abbreviation listed :: "u32 \<Rightarrow> nat list \<Rightarrow> nat list" where
  "listed rlist rs \<equiv> filter (bit rlist) rs"

lemma stm_loop_ram:
  assumes "ram_at s st en" "\<And>k. k < length (listed rlist rs) \<Longrightarrow> st \<le> ls_address s + of_nat k * 4 \<and> ls_address s + of_nat k * 4 \<le> en"
  shows "stm_loop bypass_read rlist rs s =
    Done (s\<lparr>devices := put_words (\<lambda>m a v. ram_write a v m) (devices s) (ls_address s - st) (map (bypass_read s) (listed rlist rs)),
      ls_address := ls_address s + of_nat (length (listed rlist rs)) * 4\<rparr>)"
  using assms
proof (induction rs arbitrary: s)
  case (Cons r rs)
  show ?case
  proof (cases "bit rlist r")
    case True
    let ?s = "s\<lparr>devices := ram_write (ls_address s - st) (bypass_read s r) (devices s), ls_address := ls_address s + 4\<rparr>"
    have a: "st \<le> ls_address s \<and> ls_address s \<le> en" using Cons.prems(2) [of 0] True by simp
    have "ram_at ?s st en" by (rule ram_at_cong [OF Cons.prems(1)]) simp_all
    moreover have "st \<le> ls_address ?s + of_nat k * 4 \<and> ls_address ?s + of_nat k * 4 \<le> en" if "k < length (listed rlist rs)" for k
      using Cons.prems(2) [of "Suc k"] True that by (simp add: algebra_simps)
    ultimately show ?thesis
      using True Cons.IH [of ?s] MEM_ram(2) [OF Cons.prems(1) a] by (simp add: algebra_simps)
  next
    case False
    then show ?thesis using Cons by simp
  qed
qed simp

lemma ldm_loop_ram:
  assumes "ram_at s st en" "known_mode (pm_mode s)" "distinct rs"
    "\<And>k. k < length (listed rlist rs) \<Longrightarrow> st \<le> ls_address s + of_nat k * 4 \<and> ls_address s + of_nat k * 4 \<le> en"
  shows "\<exists>t. ldm_loop bypass_write rlist rs s = Done t \<and> pm_mode t = pm_mode s \<and>
    (\<forall>k. bypass_read t k =
      (case map_of (zip (listed rlist rs) (get_words (\<lambda>m a. ram_read a m) (devices s) (ls_address s - st) (length (listed rlist rs)))) k
       of None \<Rightarrow> bypass_read s k | Some v \<Rightarrow> v))"
  using assms
proof (induction rs arbitrary: s)
  case (Cons r rs)
  show ?case
  proof (cases "bit rlist r")
    case True
    let ?v = "ram_read (ls_address s - st) (devices s)"
    let ?s = "(bypass_write s r ?v)\<lparr>ls_address := ls_address s + 4\<rparr>"
    have a: "st \<le> ls_address s \<and> ls_address s \<le> en" using Cons.prems(4) [of 0] True by simp
    have p: "ram_at ?s st en" by (rule ram_at_cong [OF Cons.prems(1)]) simp_all
    have q: "st \<le> ls_address ?s + of_nat k * 4 \<and> ls_address ?s + of_nat k * 4 \<le> en" if "k < length (listed rlist rs)" for k
      using Cons.prems(4) [of "Suc k"] True that by (simp add: algebra_simps)
    have m: "known_mode (pm_mode ?s)" "distinct rs" using Cons.prems(2,3) by simp_all
    let ?ws = "get_words (\<lambda>m a. ram_read a m) (devices s) (ls_address s - st + 4) (length (listed rlist rs))"
    have r: "bypass_read ?s k = (if k = r then ?v else bypass_read s k)" for k using Cons.prems(2) by simp
    have none: "map_of (zip (listed rlist rs) ws) r = None" for ws :: "u32 list"
    proof (cases "map_of (zip (listed rlist rs) ws) r")
      case (Some v)
      then have "r \<in> set (listed rlist rs)" by (rule set_zip_leftD [OF map_of_SomeD])
      then show ?thesis using Cons.prems(3) by simp
    qed
    have d: "devices ?s = devices s" "ls_address ?s - st = ls_address s - st + 4" "pm_mode ?s = pm_mode s"
      by simp_all
    from Cons.IH [OF p m q] obtain t where h: "ldm_loop bypass_write rlist rs ?s = Done t \<and> pm_mode t = pm_mode s \<and>
      (\<forall>k. bypass_read t k = (case map_of (zip (listed rlist rs) ?ws) k of None \<Rightarrow> bypass_read ?s k | Some v \<Rightarrow> v))"
      unfolding d by (rule exE)
    have t: "ldm_loop bypass_write rlist rs ?s = Done t" "pm_mode t = pm_mode s"
      and t3: "bypass_read t k = (case map_of (zip (listed rlist rs) ?ws) k of None \<Rightarrow> bypass_read ?s k | Some v \<Rightarrow> v)" for k
      using h by simp_all
    have "ldm_loop bypass_write rlist (r # rs) s = Done t"
      using True t(1) MEM_ram(1) [OF Cons.prems(1) a] by simp
    moreover have "bypass_read t k = (case map_of (zip (r # listed rlist rs) (?v # ?ws)) k of None \<Rightarrow> bypass_read s k | Some v \<Rightarrow> v)" for k
      using none [of ?ws] unfolding t3 r by (cases "k = r") (simp_all split: option.split)
    ultimately show ?thesis
      using True t(2) by simp
  next
    case False
    then show ?thesis using Cons by simp
  qed
qed simp

lemma behavior_always:
  assumes "known_mode (pm_mode s)"
  shows "behavior_instruction 14 s = Done (bypass_write (s\<lparr>ac_pc := ac_pc s + 4\<rparr>) 15 (ac_pc s + 4))"
  by (simp add: behavior_instruction_def Let_def)

lemma listed_15: "\<not> bit rlist 15 \<Longrightarrow> listed rlist [0..<16] = listed rlist [0..<15]"
proof -
  assume "\<not> bit rlist 15"
  moreover have "[0..<16] = [0..<15] @ [15]" by (simp add: upt_conv_Cons)
  ultimately show ?thesis by simp
qed

lemma listed_length: "length (listed rlist [0..<16]) \<le> 16"
  using length_filter_le [of "bit rlist" "[0..<16]"] by simp

lemma map_of_zip_map_eq: "map_of (zip ks (map f ks)) k = (if k \<in> set ks then Some (f k) else None)"
  by (induction ks) auto

text \<open>\<open>STMDB sp!, {...}\<close> and \<open>LDMIA sp!, {...}\<close>.\<close>

definition push_insn :: "u32 \<Rightarrow> arm_insn" where
  "push_insn rlist = Mem (I_stm True False False True 13 rlist)"

definition pop_insn :: "u32 \<Rightarrow> arm_insn" where
  "pop_insn rlist = Mem (I_ldm False True False True 13 rlist)"

lemma push_executed:
  assumes "known_mode (pm_mode s)" "ram_at s st en" "rlist \<noteq> 0" "\<not> bit rlist 13" "\<not> bit rlist 15"
    and "\<And>k. k < LSM_CountSetBits rlist \<Longrightarrow> st \<le> a + of_nat k * 4 \<and> a + of_nat k * 4 \<le> en"
    and a: "a = bypass_read s 13 - of_nat (LSM_CountSetBits rlist) * 4"
  shows "\<exists>t. simulate 14 (push_insn rlist) s = Some t \<and> pm_mode t = pm_mode s \<and> host t = host s \<and> cp15_value t = cp15_value s \<and>
    (\<forall>r < 15. bypass_read t r = (if r = 13 then a else bypass_read s r)) \<and>
    devices t = put_words (\<lambda>m a v. ram_write a v m) (devices s) (a - st) (map (bypass_read s) (listed rlist [0..<16]))"
proof -
  let ?n = "LSM_CountSetBits rlist"
  define s1 where "s1 = bypass_write (s\<lparr>ac_pc := ac_pc s + 4\<rparr>) 15 (ac_pc s + 4)"
  define s2 where "s2 = bypass_write (s1\<lparr>lsm_startaddress := a\<rparr>) 13 a"
  let ?s3 = "s2\<lparr>ls_address := a\<rparr>"
  have k1: "known_mode (pm_mode (s\<lparr>ac_pc := ac_pc s + 4\<rparr>))" using assms(1) by simp
  have f1: "pm_mode s1 = pm_mode s" "host s1 = host s" "cp15_value s1 = cp15_value s" "devices s1 = devices s"
    "bypass_read s1 r = (if r = 15 then ac_pc s + 4 else bypass_read s r)" for r
    using read_write [OF k1] by (simp_all add: s1_def)
  have k2: "known_mode (pm_mode (s1\<lparr>lsm_startaddress := a\<rparr>))" using assms(1) f1(1) by simp
  have f2: "pm_mode s2 = pm_mode s" "host s2 = host s" "cp15_value s2 = cp15_value s" "devices s2 = devices s"
    "lsm_startaddress s2 = a" "bypass_read s2 r = (if r = 13 then a else bypass_read s1 r)" for r
    using read_write [OF k2] by (simp_all add: s2_def f1)
  have lsm: "Type_LSM True False True 13 rlist s1 = Done s2"
    using assms(3,4) by (simp add: Type_LSM_def f1 a s2_def Let_def)
  have ram: "ram_at ?s3 st en" by (rule ram_at_cong [OF assms(2)]) (simp_all add: f2)
  have n: "length (listed rlist [0..<16]) = ?n" by (simp add: LSM_CountSetBits_def)
  have regs: "map (bypass_read ?s3) (listed rlist [0..<16]) = map (bypass_read s) (listed rlist [0..<16])"
    using assms(4,5) by (intro map_cong) (auto simp: f2 f1)
  let ?m = "put_words (\<lambda>m a v. ram_write a v m) (devices s) (a - st) (map (bypass_read s) (listed rlist [0..<16]))"
  let ?t = "update_pc (?s3\<lparr>devices := ?m, ls_address := a + of_nat ?n * 4\<rparr>)"
  have "stm_loop bypass_read rlist [0..<16] ?s3 = Done (?s3\<lparr>devices := ?m, ls_address := a + of_nat ?n * 4\<rparr>)"
    using stm_loop_ram [OF ram, of rlist "[0..<16]"] assms(6) unfolding n regs by (simp add: f2)
  then have "arm_STM rlist False s2 = Done ?t"
    by (simp add: arm_STM_def f2)
  then have "simulate 14 (push_insn rlist) s = Some ?t"
    using behavior_always [OF assms(1)] by (simp add: simulate_def push_insn_def s1_def [symmetric] lsm)
  moreover have "cp15_value ?t = cp15_value s" by (simp add: update_pc_def f2)
  ultimately show ?thesis by (intro exI [of _ ?t]) (simp add: f2 f1)
qed

lemma pop_executed:
  assumes "known_mode (pm_mode u)" "ram_at u st en" "rlist \<noteq> 0" "\<not> bit rlist 13" "\<not> bit rlist 15"
    and "\<And>k. k < LSM_CountSetBits rlist \<Longrightarrow> st \<le> a + of_nat k * 4 \<and> a + of_nat k * 4 \<le> en"
    and a: "a = bypass_read u 13"
    and m: "get_words (\<lambda>m a. ram_read a m) (devices u) (a - st) (LSM_CountSetBits rlist) = map f (listed rlist [0..<16])"
  shows "\<exists>w. simulate 14 (pop_insn rlist) u = Some w \<and>
    (\<forall>r < 15. bypass_read w r =
      (if r = 13 then a + of_nat (LSM_CountSetBits rlist) * 4 else if bit rlist r then f r else bypass_read u r))"
proof -
  let ?n = "LSM_CountSetBits rlist"
  define s1 where "s1 = bypass_write (u\<lparr>ac_pc := ac_pc u + 4\<rparr>) 15 (ac_pc u + 4)"
  define s2 where "s2 = bypass_write (s1\<lparr>lsm_startaddress := a\<rparr>) 13 (a + of_nat ?n * 4)"
  let ?s3 = "s2\<lparr>ls_address := a\<rparr>"
  have k1: "known_mode (pm_mode (u\<lparr>ac_pc := ac_pc u + 4\<rparr>))" using assms(1) by simp
  have f1: "pm_mode s1 = pm_mode u" "host s1 = host u" "cp15_value s1 = cp15_value u" "devices s1 = devices u"
    "bypass_read s1 r = (if r = 15 then ac_pc u + 4 else bypass_read u r)" for r
    using read_write [OF k1] by (simp_all add: s1_def)
  have k2: "known_mode (pm_mode (s1\<lparr>lsm_startaddress := a\<rparr>))" using assms(1) f1(1) by simp
  have f2: "pm_mode s2 = pm_mode u" "host s2 = host u" "cp15_value s2 = cp15_value u" "devices s2 = devices u"
    "lsm_startaddress s2 = a" "bypass_read s2 r = (if r = 13 then a + of_nat ?n * 4 else bypass_read s1 r)" for r
    using read_write [OF k2] by (simp_all add: s2_def f1)
  have lsm: "Type_LSM False True True 13 rlist s1 = Done s2"
    using assms(3,4) by (simp add: Type_LSM_def f1 a s2_def Let_def)
  have ram: "ram_at ?s3 st en" by (rule ram_at_cong [OF assms(2)]) (simp_all add: f2)
  note l = listed_15 [OF assms(5)]
  have n: "length (listed rlist [0..<15]) = ?n" by (simp add: LSM_CountSetBits_def l)
  have k3: "known_mode (pm_mode ?s3)" using assms(1) by (simp add: f2)
  have range: "st \<le> ls_address ?s3 + of_nat k * 4 \<and> ls_address ?s3 + of_nat k * 4 \<le> en"
    if "k < length (listed rlist [0..<15])" for k
    using assms(6) [of k] that unfolding n by simp
  have w: "get_words (\<lambda>m a. ram_read a m) (devices ?s3) (ls_address ?s3 - st) (length (listed rlist [0..<15])) =
      map f (listed rlist [0..<15])"
    using m unfolding n l by (simp add: f2)
  have "\<exists>t. ldm_loop bypass_write rlist [0..<15] ?s3 = Done t \<and> pm_mode t = pm_mode ?s3 \<and>
    (\<forall>k. bypass_read t k = (case map_of (zip (listed rlist [0..<15]) (map f (listed rlist [0..<15]))) k
      of None \<Rightarrow> bypass_read ?s3 k | Some v \<Rightarrow> v))"
    unfolding w [symmetric] by (rule ldm_loop_ram [OF ram k3 distinct_upt range])
  then obtain t where loop: "ldm_loop bypass_write rlist [0..<15] ?s3 = Done t" and
    t: "bypass_read t r = (case map_of (zip (listed rlist [0..<15]) (map f (listed rlist [0..<15]))) r
      of None \<Rightarrow> bypass_read ?s3 r | Some v \<Rightarrow> v)" for r
    by blast
  have "arm_LDM rlist False s2 = Done (update_pc t)"
    using assms(5) loop by (simp add: arm_LDM_def f2)
  then have sim: "simulate 14 (pop_insn rlist) u = Some (update_pc t)"
    using behavior_always [OF assms(1)] by (simp add: simulate_def pop_insn_def s1_def [symmetric] lsm)
  have "bypass_read t r = (if r = 13 then a + of_nat ?n * 4 else if bit rlist r then f r else bypass_read u r)" if "r < 15" for r
    using that assms(4) by (simp add: t map_of_zip_map_eq f2 f1)
  then show ?thesis using sim by (intro exI [of _ "update_pc t"]) simp
qed

text \<open>C9: A push and a pop. After \<open>STMDB sp!, {list}\<close>, with a list without the stack pointer and register 15 and with RAM
  below the stack pointer, whatever the program does to the other registers, to the flags and to the
  address: \<open>LDMIA sp!, {list}\<close> in the same mode, with the same stack pointer and RAM, gives every register of the list and the stack
  pointer their values of before the push, and leaves the others.\<close>

theorem push_pop:
  assumes "known_mode (pm_mode s)" "ram_at s st en" "rlist \<noteq> 0" "\<not> bit rlist 13" "\<not> bit rlist 15"
    and "\<forall>k < LSM_CountSetBits rlist. st \<le> bypass_read s 13 - of_nat (LSM_CountSetBits rlist) * 4 + of_nat k * 4 \<and>
      bypass_read s 13 - of_nat (LSM_CountSetBits rlist) * 4 + of_nat k * 4 \<le> en"
  shows "\<exists>t. simulate 14 (push_insn rlist) s = Some t \<and>
    bypass_read t 13 = bypass_read s 13 - of_nat (LSM_CountSetBits rlist) * 4 \<and>
    (\<forall>u. pm_mode u = pm_mode t \<and> host u = host t \<and> cp15_value u = cp15_value t \<and> devices u = devices t \<and>
      bypass_read u 13 = bypass_read t 13 \<longrightarrow>
      (\<exists>w. simulate 14 (pop_insn rlist) u = Some w \<and> bypass_read w 13 = bypass_read s 13 \<and>
        (\<forall>r < 15. r \<noteq> 13 \<longrightarrow> bypass_read w r = (if bit rlist r then bypass_read s r else bypass_read u r))))"
proof -
  let ?n = "LSM_CountSetBits rlist" and ?regs = "listed rlist [0..<16]"
  define a where "a = bypass_read s 13 - of_nat ?n * 4"
  have range: "\<And>k. k < ?n \<Longrightarrow> st \<le> a + of_nat k * 4 \<and> a + of_nat k * 4 \<le> en"
    using assms(6) by (simp add: a_def)
  obtain t where t: "simulate 14 (push_insn rlist) s = Some t" "pm_mode t = pm_mode s" "host t = host s" "cp15_value t = cp15_value s"
    and r: "\<forall>r < 15. bypass_read t r = (if r = 13 then a else bypass_read s r)"
    and d: "devices t = put_words (\<lambda>m a v. ram_write a v m) (devices s) (a - st) (map (bypass_read s) ?regs)"
    using push_executed [OF assms(1-5) range a_def] by blast
  have n: "length (map (bypass_read s) ?regs) = ?n" by (simp add: LSM_CountSetBits_def)
  have small: "length (map (bypass_read s) ?regs) \<le> 2 ^ 30" using listed_length [of rlist] by simp
  have words: "get_words (\<lambda>m a. ram_read a m) (devices t) (a - st) ?n = map (bypass_read s) ?regs"
    using ram.words_kept [OF small, of "devices s" "a - st"] unfolding n d .
  have "\<exists>w. simulate 14 (pop_insn rlist) u = Some w \<and> bypass_read w 13 = bypass_read s 13 \<and>
      (\<forall>r < 15. r \<noteq> 13 \<longrightarrow> bypass_read w r = (if bit rlist r then bypass_read s r else bypass_read u r))"
    if u: "pm_mode u = pm_mode t" "host u = host t" "cp15_value u = cp15_value t" "devices u = devices t"
      "bypass_read u 13 = bypass_read t 13" for u
  proof -
    have k: "known_mode (pm_mode u)" using u(1) t(2) assms(1) by simp
    have m: "ram_at u st en" using u(2,3) t(3,4) by (intro ram_at_cong [OF assms(2)]) simp_all
    have sp: "a = bypass_read u 13" using u(5) r by simp
    have w: "get_words (\<lambda>m a. ram_read a m) (devices u) (a - st) ?n = map (bypass_read s) ?regs"
      using words by (simp only: u(4))
    show ?thesis
      using pop_executed [OF k m assms(3-5) range sp w] by (fastforce simp: a_def)
  qed
  then show ?thesis using t(1) r by (intro exI [of _ t]) (auto simp: a_def)
qed

theorem push_pop_witness:
  "\<exists>t. simulate 14 (push_insn 0x10) (demo_arm\<lparr>regbank := (\<lambda>r. if r = 13 then 0x70001000 else 5)\<rparr>) = Some t \<and>
    (\<exists>w. simulate 14 (pop_insn 0x10) t = Some w \<and> bypass_read w 4 = 5)"
proof -
  let ?s = "demo_arm\<lparr>regbank := (\<lambda>r. if r = 13 then 0x70001000 else 5)\<rparr>"
  have k: "known_mode (pm_mode ?s)" by (simp add: known_mode_def demo_arm_def)
  have r: "bypass_read ?s 13 = 0x70001000" "bypass_read ?s 4 = 5"
    by (simp_all add: bypass_read_def user_or_system_def demo_arm_def)
  have m: "ram_at ?s 0x70000000 0xAFFFFFFF"
    by (simp add: ram_at_def translation_active_def demo_arm_def demo_host_def)
  have n: "LSM_CountSetBits 0x10 = 1" by code_simp
  have b: "\<not> bit (0x10 :: u32) 13" "\<not> bit (0x10 :: u32) 15" "bit (0x10 :: u32) 4" "(0x10 :: u32) \<noteq> 0"
    by (simp_all add: bit_iff_odd drop_bit_eq_div)
  have a: "\<forall>k < LSM_CountSetBits 0x10. 0x70000000 \<le> bypass_read ?s 13 - of_nat (LSM_CountSetBits 0x10) * 4 + of_nat k * 4 \<and>
      bypass_read ?s 13 - of_nat (LSM_CountSetBits 0x10) * 4 + of_nat k * 4 \<le> 0xAFFFFFFF"
    unfolding n r by simp
  show ?thesis using push_pop [OF k m b(4,1,2) a] b(3) r(2) by fastforce
qed

subsection \<open>The tables of the MMU\<close>

lemma bit_set_all: "bit (foldl (\<lambda>m i. set_bit i m) m rs) k \<longleftrightarrow> bit m k \<or> k \<in> set rs \<and> k < 32" for m :: u32
  by (induction rs arbitrary: m) (auto simp: bit_set_bit_iff)

lemma bit_bits_mask: "bit (bits_mask lo hi) k \<longleftrightarrow> lo \<le> k \<and> k \<le> hi \<and> k < 32"
  by (auto simp: bits_mask_def bit_set_all)

text \<open>The address of the entry of the first table, as the manual gives it: with \<open>N\<close> not 0 the addresses whose highest
  \<open>N\<close> bits are 0 go by the table 0, which is then smaller, the others by the table 1.\<close>

definition first_level_address :: "nat \<Rightarrow> u32 \<Rightarrow> u32 \<Rightarrow> u32 \<Rightarrow> u32" where
  "first_level_address N ttbr0 ttbr1 va =
     (if drop_bit (32 - N) va = 0
      then push_bit (14 - N) (drop_bit (14 - N) ttbr0) OR push_bit 2 (take_bit (12 - N) (drop_bit 20 va))
      else push_bit 14 (drop_bit 14 ttbr1) OR push_bit 2 (drop_bit 20 va))"

lemma ttbcr_small: "ttbcr_n s \<le> 7"
proof -
  have "cp15_value s TRANSLATION_TABLE_BASE_CONTROL AND 7 \<le> 7" by (rule word_and_le1)
  then show ?thesis by (simp add: ttbcr_n_def word_le_nat_alt)
qed

lemma high_bits_set: "drop_bit m (va :: u32) \<noteq> 0 \<longleftrightarrow> (\<exists>k \<in> {m..<32}. bit va k)"
proof
  assume "drop_bit m va \<noteq> 0"
  then obtain j where "bit (drop_bit m va) j" by (auto simp: bit_eq_iff)
  then have "bit va (m + j)" by (simp add: bit_drop_bit_eq)
  then show "\<exists>k \<in> {m..<32}. bit va k" using bit_imp_le_length [of va "m + j"] by (intro bexI [of _ "m + j"]) simp_all
next
  assume "\<exists>k \<in> {m..<32}. bit va k"
  then obtain k where "m \<le> k" "bit va k" by auto
  then have "bit (drop_bit m va) (k - m)" by (simp add: bit_drop_bit_eq)
  then show "drop_bit m va \<noteq> 0" by auto
qed

lemma high_bits_used: "n \<noteq> 0 \<and> list_ex (bit va) (rev [32 - n..<32]) \<longleftrightarrow> drop_bit (32 - n) (va :: u32) \<noteq> 0"
  unfolding high_bits_set by (auto simp: list_ex_iff)

definition walk_address :: "'m arm \<Rightarrow> u32 \<Rightarrow> u32" where
  "walk_address s va =
     (let (used, ttb) = ttb_address s va; n = (if used then 0 else ttbcr_n s)
      in ttb OR push_bit 2 (drop_bit 20 (va AND bits_mask 20 (31 - n))))"

lemma walk_address_exact:
  fixes s :: "'m arm"
  defines "ttbr0 \<equiv> cp15_value s TRANSLATION_TABLE_BASE_0" and "ttbr1 \<equiv> cp15_value s TRANSLATION_TABLE_BASE_1"
  assumes "take_bit 14 ttbr1 = take_bit (14 - ttbcr_n s) ttbr1"
  shows "walk_address s va = first_level_address (ttbcr_n s) ttbr0 ttbr1 va"
proof -
  let ?n = "ttbcr_n s"
  have n: "?n \<le> 7" by (rule ttbcr_small)
  note used = high_bits_used [of ?n va]
  show ?thesis
  proof (cases "drop_bit (32 - ?n) va = 0")
    case True
    have "walk_address s va = (ttbr0 AND bits_mask (14 - ?n) 31) OR push_bit 2 (drop_bit 20 (va AND bits_mask 20 (31 - ?n)))"
      using True unfolding walk_address_def ttb_address_def Let_def used ttbr0_def by simp
    also have "\<dots> = first_level_address ?n ttbr0 ttbr1 va"
      using True n by (intro bit_word_eqI) (auto simp: first_level_address_def bit_simps bit_bits_mask)
    finally show ?thesis .
  next
    case False
    have "walk_address s va = (ttbr1 AND bits_mask (14 - ?n) 31) OR push_bit 2 (drop_bit 20 (va AND bits_mask 20 31))"
      using False unfolding walk_address_def ttb_address_def Let_def used ttbr1_def by simp
    moreover have "\<not> bit ttbr1 k" if "14 - ?n \<le> k" "k < 14" for k
      using that assms(3) by (metis bit_take_bit_iff not_le)
    then have "bit (ttbr1 AND bits_mask (14 - ?n) 31) k = bit (push_bit 14 (drop_bit 14 ttbr1)) k" if "k < 32" for k
      using that n by (cases "k < 14 - ?n"; cases "k < 14") (auto simp: bit_simps bit_bits_mask)
    then have "ttbr1 AND bits_mask (14 - ?n) 31 = push_bit 14 (drop_bit 14 ttbr1)" by (intro bit_word_eqI) simp
    moreover have "drop_bit 20 (va AND bits_mask 20 31) = drop_bit 20 va"
      by (rule bit_word_eqI) (auto simp: bit_simps bit_bits_mask dest: bit_imp_le_length)
    ultimately show ?thesis
      using False by (simp only: first_level_address_def if_False)
  qed
qed

lemma entry_masks:
  fixes d va :: u32
  shows "d AND 3 = take_bit 2 d" "d AND 0xFFF = take_bit 12 d" "d AND 0xFFFF = take_bit 16 d" "d AND 0xFFFFF = take_bit 20 d"
    "drop_bit 10 (d AND 0xFFFFFC00) = drop_bit 10 d" "drop_bit 20 (d AND 0xFFF00000) = drop_bit 20 d"
    "drop_bit 16 (d AND 0xFFFF0000) = drop_bit 16 d" "drop_bit 12 (d AND 0xFFFFF000) = drop_bit 12 d"
    "drop_bit 12 (va AND 0xFF000) = take_bit 8 (drop_bit 12 va)"
proof -
  have m: "(3 :: u32) = mask 2" "(0xFFF :: u32) = mask 12" "(0xFFFF :: u32) = mask 16" "(0xFFFFF :: u32) = mask 20"
    by (simp_all add: mask_eq_exp_minus_1)
  show "d AND 3 = take_bit 2 d" "d AND 0xFFF = take_bit 12 d" "d AND 0xFFFF = take_bit 16 d" "d AND 0xFFFFF = take_bit 20 d"
    unfolding m by (simp_all add: take_bit_eq_mask)
  have p: "(0xFFFFFC00 :: u32) = push_bit 10 (mask 22)" "(0xFFF00000 :: u32) = push_bit 20 (mask 12)"
    "(0xFFFF0000 :: u32) = push_bit 16 (mask 16)" "(0xFFFFF000 :: u32) = push_bit 12 (mask 20)"
    "(0xFF000 :: u32) = push_bit 12 (mask 8)"
    by (simp_all add: mask_eq_exp_minus_1 push_bit_eq_mult)
  show "drop_bit 10 (d AND 0xFFFFFC00) = drop_bit 10 d" "drop_bit 20 (d AND 0xFFF00000) = drop_bit 20 d"
    "drop_bit 16 (d AND 0xFFFF0000) = drop_bit 16 d" "drop_bit 12 (d AND 0xFFFFF000) = drop_bit 12 d"
    "drop_bit 12 (va AND 0xFF000) = take_bit 8 (drop_bit 12 va)"
    unfolding p by (rule bit_word_eqI; auto simp: bit_simps dest: bit_imp_le_length)+
qed

text \<open>The translation of the manual, with the tables in a memory \<open>mem\<close>. \<open>None\<close> is a fault.\<close>

definition second_level :: "(u32 \<Rightarrow> u32) \<Rightarrow> u32 \<Rightarrow> u32 \<Rightarrow> u32 option" where
  "second_level mem d va =
     (let e = mem (push_bit 10 (drop_bit 10 d) OR push_bit 2 (take_bit 8 (drop_bit 12 va))) in
      if take_bit 2 e = 0 then None
      else if take_bit 2 e = 1 then Some (push_bit 16 (drop_bit 16 e) OR take_bit 16 va)
      else Some (push_bit 12 (drop_bit 12 e) OR take_bit 12 va))"

definition translated :: "(u32 \<Rightarrow> u32) \<Rightarrow> nat \<Rightarrow> u32 \<Rightarrow> u32 \<Rightarrow> u32 \<Rightarrow> u32 option" where
  "translated mem N ttbr0 ttbr1 va =
     (let d = mem (first_level_address N ttbr0 ttbr1 va) in
      if take_bit 2 d = 0 then None
      else if take_bit 2 d = 1 then second_level mem d va
      else if bit d 18 then None
      else Some (push_bit 20 (drop_bit 20 d) OR take_bit 20 va))"

definition first_level_fault :: "(u32 \<Rightarrow> u32) \<Rightarrow> nat \<Rightarrow> u32 \<Rightarrow> u32 \<Rightarrow> u32 \<Rightarrow> bool" where
  "first_level_fault mem N ttbr0 ttbr1 va \<longleftrightarrow> take_bit 2 (mem (first_level_address N ttbr0 ttbr1 va)) = 0"

lemma push_or: "push_bit 2 (push_bit 8 (drop_bit 10 d) OR i) = push_bit 10 (drop_bit 10 d) OR push_bit 2 (i :: u32)"
  by (simp add: push_bit_or push_bit_push_bit)


text \<open>A system with one device that reads 2 at every address: each entry is a section at address 0.\<close>

definition section_arm :: "ram arm" where
  "section_arm = demo_arm\<lparr>cp15_value := (\<lambda>n. if n = CONTROL then 1 else 0),
     host := demo_host\<lparr>bus_devices := [(0, 0xFFFFFFFF)], read_signal := (\<lambda>i a off m. (2, m))\<rparr>\<rparr>"


end
