(* ===== verification/Spec2Isabelle.thy ===== *)
theory Spec2Isabelle
  imports BjHash SymbolTable Formats CoreActions DecoderCorrect AsmMap AsmInsnCorrect OpcodeImage OpcodeTables ElfReloc ConvertProgram GasAssemblerCorrect
    ArmMultiplyCorrect ArmMemoryCorrect
begin

text \<open>
  A model of the core of the ArchC tool-chain generator that the ARMv7 platform is built with
  (\<open>archc/src\<close>): the preprocessor \<open>acpp\<close> that turns an architecture description into lists of
  formats, instructions and assembly syntax; the decoder library that the generated simulators
  link; the generator of the tables of the binary utilities; and the ARMv7 processor model with its memory
  (\<open>armv7/src\<close>), which is such a simulator with the behaviours of its instructions written by hand.

  \<^bold>\<open>How the parts interact.\<close> The grammar of \<open>acpp\<close> calls the actions of \<open>core_actions.c\<close>
  (formats, instructions, groups, decode lists, all entered into the symbol table hashed by
  \<open>bj_hash.c\<close>) and of \<open>asm_actions.c\<close> (maps of symbols, syntax of instructions). A simulator
  gives the formats and instructions to \<open>CreateDecoder\<close> and the words it fetches to \<open>Decode\<close>.
  \<open>acbinutils\<close> reads the same lists and writes the opcode, operand, modifier and pseudo tables
  with \<open>opcodes.c\<close>, on the routines of \<open>utils.c\<close>, the functions that access fields with \<open>gas.c\<close>,
  and the relocations with \<open>bfd.c\<close>. The templates under \<open>acbinutils/binutils\<close> are compiled with
  these tables: the assembler and the linker encode operands with \<open>share-xxxxx.c\<close>, the linker
  patches sections with \<open>elf32-xxxxx.c\<close>, the disassembler reads operands with \<open>xxxxx-dis.c\<close>.
  \<open>acrelconvert\<close> stands alone: it makes the object files of another linker fit the generated one,
  by a map of the codes of relocations.

  \<^bold>\<open>Theories.\<close>
  \<^item> \<open>Prelude\<close>, \<open>CLib\<close>: C strings, character classes, \<open>strcmp\<close>, \<open>strtol\<close>, \<open>atoi\<close>, decimal
    printing, searches and insertions in linked lists.
  \<^item> \<open>BjHash\<close> (\<open>acpp/bj_hash.c\<close>): the hash functions on 32-bit words and a byte memory; the
    hash depends on the key only.
  \<^item> \<open>SymbolTable\<close> (\<open>acpp/core_actions.c\<close>): the hash table refines the association list of the
    first declarations (locale \<open>symbol_store\<close>).
  \<^item> \<open>DecTypes\<close>: the records of \<open>ac_decoder.h\<close>.
  \<^item> \<open>Formats\<close>: \<open>parse_format\<close> and \<open>add_format\<close>; printing and parsing, layout of the fields,
    the list of common fields.
  \<^item> \<open>CoreActions\<close>: the other actions and the grammar actions for formats and instructions; the
    state they share with the symbol table.
  \<^item> \<open>Decoder\<close>, \<open>DecoderCorrect\<close> (\<open>aclib/ac_decoder/ac_decoder.c\<close>): the construction of the
    tree, the search with its stack and cache, and their correctness.
  \<^item> \<open>AsmMap\<close>, \<open>SourceOrder\<close>, \<open>AsmInsn\<close>, \<open>AsmInsnCorrect\<close>, \<open>AsmLiteral\<close>
    (\<open>acpp/asm_actions.c\<close>): maps, the stable sorted insertion (locale \<open>source_ordered\<close>), the
    parser of syntax strings, the invariants of the listed instructions and of their literals.
  \<^item> \<open>BinUtils\<close>, \<open>Opcodes\<close>, \<open>OpcodeImage\<close>, \<open>OpcodeTables\<close> (\<open>acbinutils/utils.c\<close>,
    \<open>opcodes.c\<close>): the generators; images and masks; identifiers, indices and argument strings.
  \<^item> \<open>ShareBits\<close>, \<open>GasGen\<close>, \<open>OperandCodec\<close>, \<open>OperandRoundtrip\<close> (\<open>binutils/bfd/share-xxxxx.c\<close>,
    \<open>gas.c\<close>, \<open>binutils/opcodes/xxxxx-dis.c\<close>): bits in memory, the generated access to fields,
    operands written and read back.
  \<^item> \<open>Disassembler\<close>, \<open>DisassemblerCorrect\<close> (\<open>binutils/opcodes/xxxxx-dis.c\<close>): templates, the texts
    of operands, the search of the row and of the size of an instruction; the arguments written by
    the generator are parsed back, and what is printed for a word.
  \<^item> \<open>GasSymbols\<close>, \<open>GasSymbolsCorrect\<close>, \<open>GasAssembler\<close>, \<open>GasAssemblerCorrect\<close>
    (\<open>binutils/gas/config/tc-xxxxx.c.in\<close>): the hash tables of mnemonics and symbols, aliases, the
    parser of operands and suffixes, the search over the rows, pseudo instructions; the assembler
    undoes the disassembler.
  \<^item> \<open>Relocations\<close>, \<open>RelocCorrect\<close>, \<open>ElfReloc\<close> (\<open>bfd.c\<close>, \<open>binutils/bfd/elf32-xxxxx.c\<close>): the
    relocations of operands, their tables, the rows the linker finds and what it stores.
  \<^item> \<open>RelConvert\<close>, \<open>RelMapCorrect\<close>, \<open>ElfConvert\<close>, \<open>ElfConvertCorrect\<close>, \<open>ConvertProgram\<close>
    (\<open>acbinutils/acrelconvert.c\<close>): the program that rewrites the relocation codes of an ELF file:
    its hash table (locale \<open>code_table\<close>), the map file read back as it is written, the walk over
    the sections, and the file after it, byte for byte.
  \<^item> \<open>ArmState\<close>, \<open>ArmShift\<close>, \<open>ArmData\<close>, \<open>ArmMultiply\<close>, \<open>ArmMemory\<close>, \<open>ArmLoadStore\<close>, \<open>ArmExec\<close>
    (\<open>armv7/src/arm_isa.cpp\<close>, \<open>arm_interrupts.cpp\<close>, \<open>arm.cpp\<close>, \<open>mmu.cpp\<close>, \<open>bus.cpp\<close>, \<open>ram.cpp\<close>, \<open>cp15.cpp\<close>,
    and \<open>ac_memport.H\<close>, \<open>ac_tlm_port.cpp\<close> of \<open>archc/src/aclib\<close>): the registers of the modes, exceptions, the formats and
    the instructions, the way of an access from the port over the MMU and the bus to a device, and
    one turn of the simulation loop on a decoded instruction.
  \<^item> \<open>ArmStateCorrect\<close>, \<open>ArmException\<close>, \<open>ArmDataCorrect\<close>, \<open>ArmMultiplyCorrect\<close>, \<open>ArmMemoryCorrect\<close>: the banking of
    the registers, an invariant of every run, the return from exceptions, the refinement of the data processing
    instructions of the architecture manual, multiplications and bit fields, registers on a stack
    (locale \<open>word_memory\<close>) and the translation of the MMU.
  \<^item> This theory: the decoder of the simulators and the opcode table agree.

  \<^bold>\<open>Conventions.\<close> A linked list is the list of its elements, a pointer that may be \<open>NULL\<close> an
  option, a pointer into a list an index. A C string is the list of its characters before the
  NUL. Unsigned integers are words of their width where the code shifts, masks or wraps, and
  \<open>int\<close>s where it does not. Undefined behaviour (a \<open>NULL\<close> pointer followed, a write behind a
  buffer, a shift out of range) is a result of its own: \<open>None\<close>, or \<open>Undef\<close> in the generators,
  where \<open>Exit\<close> is \<open>internal_error\<close>. Error messages are constructors of error datatypes.
  \<open>malloc\<close> does not fail.

  \<^bold>\<open>Bounds.\<close> The loops are recursions with a measure, except that of \<open>parse_format\<close>, which has
  the length of the string as fuel: every round consumes a character, and \<open>add_format_returns\<close>
  shows that the fuel is enough. The stack of \<open>Decode\<close> has its 64 entries, the buffers of the
  syntax strings their 200 characters and those of the argument strings their 100.

  The loops over the bits of a word shift up to 32 times. The loop of the relocation tables ends
  at the first identifier that is not there; \<open>relocations_exact\<close> shows that it does.

  \<^bold>\<open>Parameters.\<close> \<open>GetBits\<close>, which each simulator provides, is an argument of \<open>Decode\<close>, with the
  hypothesis that the fields of a word do not depend on what was read before. The alignment of
  a string in memory, which \<open>bj_hash\<close> looks at, is an argument of the symbol table. The modifier
  functions of the processor model and the result of undefined shifts are arguments of the
  operand and bit routines. The byte order of the host is an argument of the relocation converter. What
  the assembler and the disassembler call of binutils (hash tables, the expression parser, the
  printing functions), what their variables hold before they are set and what the
  compiler places behind a name are fields of \<open>gas_env\<close> and \<open>dis_target\<close>. The processor model has the
  devices on its bus, and what C leaves open, in \<open>arm_host\<close>; a signed sum or product of 32 bits
  wraps, as it does where the simulator is compiled.

  \<^bold>\<open>Not modelled.\<close> The simulator generators (\<open>acsim\<close>, \<open>accsim\<close>, \<open>actsim\<close>) print C++ text; the
  lexer and the rest of the grammar are generated by flex and bison; the printing functions of
  the decoder, the drivers, the GDB stub, the verifier, most storage and TLM classes and the system
  call layer are input and output or thin wrappers; the devices of the ARMv7 platform are SystemC modules with threads
  and host files; \<open>replace\<close> is taken from GNU. Of the processor model the generated decoder tables, the
  statistics and the debug output are left out, and of the memory path the TLB, which is switched off. Of the templates for binutils the parts that consist of calls of BFD and gas, which
  are not in the repository, are left out.
\<close>

section \<open>The decoder and the opcode table\<close>

text \<open>
  The simulators decode with the tree of \<open>ac_decoder.c\<close>, the binary utilities match a word
  against the image and the mask that \<open>opcodes.c\<close> computes. \<open>tabled\<close> says that an
  instruction has a row: its format has \<open>n\<close> bits, its decode fields lie inside, and some word
  has their values.
\<close>

definition word_values :: "int \<Rightarrow> u64 \<Rightarrow> field_values" where
  "word_values n w f s g = word_field n f s w"

definition plain_insn :: "nat \<Rightarrow> ac_asm_insn" where
  "plain_insn k = blank_insn\<lparr>ai_insn := Some k\<rparr>"

definition tabled :: "ac_dec_format list \<Rightarrow> int \<Rightarrow> ac_dec_instr \<Rightarrow> bool" where
  "tabled fmts n i \<longleftrightarrow> (\<exists>fid p. walk_formats (instr_format i) 0 fmts = Some (fid, p) \<and> format_size p = n \<and>
     in_range p i blank_insn \<and> (\<exists>w. has_fields p i blank_insn w))"

definition row_matches :: "ac_dec_format list \<Rightarrow> ac_dec_instr list \<Rightarrow> nat \<Rightarrow> u64 \<Rightarrow> bool" where
  "row_matches fmts instrs k w \<longleftrightarrow>
     (case insn_image fmts instrs (plain_insn k) of Ret ((img, dmask), fid) \<Rightarrow> w AND dmask = img | _ \<Rightarrow> False)"

lemma FindFormat_walk:
  "walk_formats name m fmts = Some (fid, p) \<Longrightarrow> FindFormat fmts name = Inr p"
  by (induction fmts arbitrary: m) (auto simp: FindFormat_def split: if_splits)

lemma matches_has_fields:
  assumes "FindFormat fmts (instr_format i) = Inr p"
  shows "matches fmts (word_values (format_size p) w) i \<longleftrightarrow> has_fields p i blank_insn w"
proof -
  have "check_field fmts i c = named_field p (dl_name c)" for c
    using assms by (simp add: check_field_def field_named_def named_field_def eq_commute [of "dl_name c"])
  then show ?thesis
    by (simp add: matches_def has_fields_def list_all_iff value_of_def word_values_def blank_insn_def
        cong: option.case_cong)
qed

lemma row_matches_iff:
  assumes "tabled fmts n (instrs ! k)"
  shows "row_matches fmts instrs k w \<longleftrightarrow> matches fmts (word_values n w) (instrs ! k)"
proof -
  let ?i = "instrs ! k" and ?a = "plain_insn k"
  obtain fid p w0 where p: "walk_formats (instr_format ?i) 0 fmts = Some (fid, p)" "format_size p = n"
    "in_range p ?i ?a" "has_fields p ?i ?a w0"
    using assms by (auto simp: tabled_def plain_insn_def in_range_def has_fields_def)
  obtain img dmask where acc: "insn_image fmts instrs ?a = Ret ((img, dmask), fid)"
    "describes (of_int (format_size p)) (insn_entries p ?i ?a) (img, dmask)"
    using insn_image_describes [of ?a k, OF _ p(1,3)] by (auto simp: plain_insn_def)
  have "w AND dmask = img \<longleftrightarrow> has_fields p ?i ?a w"
    using describes_carries [OF in_range_entries [OF p(3)] acc(2)] p(4) by (simp add: has_fields_entries [OF p(3)])
  moreover have "has_fields p ?i ?a w \<longleftrightarrow> has_fields p ?i blank_insn w"
    by (simp add: has_fields_def plain_insn_def)
  ultimately show ?thesis
    using matches_has_fields [OF FindFormat_walk [OF p(1)], of w] acc(1) p(2) by (simp add: row_matches_def)
qed


definition demo_word_bits :: "unit getbits" where
  "demo_word_bits b f s g = (of_int (word_field 8 f s 0x12), b)"

lemma word_field_le: "word_field n f s w \<le> uint w"
proof -
  have "unat (take_bit (nat s) (drop_bit (nat (n - 1 - f)) w)) \<le> unat w"
    unfolding unsigned_take_bit_eq unsigned_drop_bit_eq
    unfolding drop_bit_eq_div
    by (meson order_trans take_bit_nat_less_eq_self div_le_dividend)
  then show ?thesis by (simp add: word_field_def flip: word_le_def word_le_nat_alt)
qed

lemma demo_word_reads: "reads demo_word_bits (\<lambda>_. True) (word_values 8 0x12)"
proof -
  have "sint (of_int (word_field 8 f s 0x12) :: u64) = word_field 8 f s 0x12" for f s
  proof -
    have "0 \<le> word_field 8 f s 0x12" "word_field 8 f s 0x12 \<le> 18"
      using word_field_le [of 8 f s "0x12"] by (simp_all add: word_field_def)
    then have "signed_take_bit 63 (word_field 8 f s 0x12) = word_field 8 f s 0x12"
      by (intro signed_take_bit_int_eq_self) simp_all
    then show ?thesis by (simp add: signed_of_int)
  qed
  then show ?thesis by (simp add: reads_def demo_word_bits_def word_values_def)
qed


end
